(* ===== verification/Prelude.thy ===== *)
theory Prelude
  imports Main "HOL-Library.Word" "HOL-Library.Signed_Division" "HOL-Library.Monad_Syntax"
begin

unbundle bit_operations_syntax

section \<open>Prelude: machine integers and byte encodings\<close>

text \<open>
  Types and lemmas shared by every component. The runtime is x86-64 C++: \<open>int\<close> is 32 bits,
  \<open>WORD\<close> (\<open>long long\<close>, runtime.h) and pointers are 64 bits, integers are two's complement,
  \<open>char\<close> is signed, memory is little-endian. Words of HOL-Library.Word wrap around as the
  machine's registers do; \<open>sint\<close> reads a word as signed, \<open>scast\<close> and \<open>ucast\<close> are the
  sign- and zero-extending (or truncating) conversions of C.
\<close>

type_synonym byte = "8 word"
type_synonym int32 = "32 word"
type_synonym WORD = "64 word"

named_theorems mem_simps \<open>loads, stores and the encoding of words as bytes\<close>
named_theorems vm_simps \<open>effects of the stack operations of the execution context\<close>

text \<open>The C conversions, named after what the code writes: \<open>(int)w\<close>, \<open>(WORD)i\<close>,
  \<open>(unsigned)w\<close> widened again, \<open>(bool)\<close> as a WORD.\<close>

abbreviation to_int :: "WORD \<Rightarrow> int32" where
  "to_int w \<equiv> ucast w"

abbreviation of_int32 :: "int32 \<Rightarrow> WORD" where
  "of_int32 i \<equiv> scast i"

abbreviation of_unsigned :: "int32 \<Rightarrow> WORD" where
  "of_unsigned i \<equiv> ucast i"

definition of_cbool :: "bool \<Rightarrow> WORD" where
  "of_cbool b = (if b then 1 else 0)"

lemma of_cbool_simps [simp]: "of_cbool True = 1" "of_cbool False = 0"
  by (simp_all add: of_cbool_def)

lemma of_cbool_eq_0 [simp]: "of_cbool b = 0 \<longleftrightarrow> \<not> b"
  by (simp add: of_cbool_def)

subsection \<open>Little-endian bytes of a word\<close>

definition to_bytes :: "nat \<Rightarrow> WORD \<Rightarrow> byte list" where
  "to_bytes n w = map (\<lambda>i. ucast (drop_bit (8 * i) w)) [0..<n]"

fun from_bytes :: "byte list \<Rightarrow> WORD" where
  "from_bytes [] = 0"
| "from_bytes (b # bs) = ucast b OR push_bit 8 (from_bytes bs)"

lemma length_to_bytes [simp]: "length (to_bytes n w) = n"
  by (simp add: to_bytes_def)

lemma nth_to_bytes [simp]: "i < n \<Longrightarrow> to_bytes n w ! i = ucast (drop_bit (8 * i) w)"
  by (simp add: to_bytes_def)

lemma bit_from_bytes:
  "bit (from_bytes bs) k \<longleftrightarrow> k < 64 \<and> k div 8 < length bs \<and> bit (bs ! (k div 8)) (k mod 8)"
proof (induction bs arbitrary: k)
  case Nil
  then show ?case by simp
next
  case (Cons b bs)
  show ?case
  proof (cases "k < 8")
    case True
    then show ?thesis
      by (auto simp: bit_or_iff bit_push_bit_iff bit_unsigned_iff)
  next
    case False
    then have "k div 8 = Suc ((k - 8) div 8)" "k mod 8 = (k - 8) mod 8"
      by (auto simp: le_div_geq le_mod_geq)
    moreover have "\<not> bit b k"
      using False by (auto dest: bit_imp_le_length)
    ultimately show ?thesis
      using False by (auto simp: bit_or_iff bit_push_bit_iff bit_unsigned_iff Cons.IH)
  qed
qed

lemma from_to_bytes:
  assumes "n \<le> 8"
  shows "from_bytes (to_bytes n w) = take_bit (8 * n) w"
proof (rule bit_word_eqI)
  fix k :: nat
  assume "k < LENGTH(64)"
  then have k: "k < 64" by simp
  have "8 * (k div 8) + k mod 8 = k" by simp
  moreover have "k div 8 < n \<longleftrightarrow> k < 8 * n" by auto
  moreover have "k mod 8 < 8" by simp
  ultimately show "bit (from_bytes (to_bytes n w)) k \<longleftrightarrow> bit (take_bit (8 * n) w) k"
    using k assms
    by (auto simp: bit_from_bytes bit_take_bit_iff bit_unsigned_iff bit_drop_bit_eq add.commute)
qed

lemma from_to_bytes_8 [simp]: "from_bytes (to_bytes 8 w) = w"
proof -
  have "from_bytes (to_bytes 8 w) = take_bit 64 w"
    using from_to_bytes [of 8 w] by simp
  also have "\<dots> = w" by (simp add: take_bit_word_eq_self)
  finally show ?thesis .
qed

lemma to_bytes_append: "to_bytes (m + n) w = to_bytes m w @ to_bytes n (drop_bit (8 * m) w)"
  by (rule nth_equalityI) (auto simp: nth_append algebra_simps)

lemma to_from_bytes:
  assumes "length bs \<le> 8"
  shows "to_bytes (length bs) (from_bytes bs) = bs"
proof (rule nth_equalityI)
  show "length (to_bytes (length bs) (from_bytes bs)) = length bs" by simp
next
  fix i
  assume "i < length (to_bytes (length bs) (from_bytes bs))"
  then have i: "i < length bs" by simp
  show "to_bytes (length bs) (from_bytes bs) ! i = bs ! i"
  proof (rule bit_word_eqI)
    fix k :: nat
    assume "k < LENGTH(8)"
    then have k: "k < 8" by simp
    have "(8 * i + k) div 8 = i" "(8 * i + k) mod 8 = k" using k by auto
    moreover have "8 * i + k < 64" using i k assms by simp
    ultimately show "bit (to_bytes (length bs) (from_bytes bs) ! i) k \<longleftrightarrow> bit (bs ! i) k"
      using i k by (simp add: bit_unsigned_iff bit_drop_bit_eq bit_from_bytes)
  qed
qed

lemma take_bit_32_64: "(ucast (ucast (w :: WORD) :: int32) :: WORD) = take_bit 32 w"
  by (rule bit_word_eqI) (simp add: bit_unsigned_iff bit_take_bit_iff)

lemma to_int_take_bit [simp]: "to_int (take_bit 32 w) = to_int w"
  by (rule bit_word_eqI) (simp add: bit_unsigned_iff bit_take_bit_iff)

lemma to_int_of_int32 [simp]: "to_int (of_int32 i) = i"
  by (rule bit_word_eqI) (simp add: bit_unsigned_iff bit_signed_iff)

lemma to_int_of_unsigned [simp]: "to_int (of_unsigned i) = i"
  by (rule bit_word_eqI) (simp add: bit_unsigned_iff)

subsection \<open>Addresses\<close>

text \<open>The offset of an address from a base, as a natural number: pointer differences of the
  code that cannot be negative.\<close>

lemma unat_diff_Suc:
  fixes x a :: WORD
  assumes "x \<noteq> a"
  shows "unat (x - a) = Suc (unat (x - (a + 1)))"
proof -
  have eq: "x - (a + 1) = (x - a) - 1" by simp
  have nz: "x - a \<noteq> 0" using assms by simp
  then have "0 < unat (x - a)" by (simp add: unat_gt_0)
  then show ?thesis unfolding eq unat_minus_one [OF nz] by simp
qed

lemma unat_minus1_64: "unat (- 1 :: WORD) = 2 ^ 64 - 1"
  by (simp add: unsigned_minus_1_eq_mask mask_eq_exp_minus_1)

subsection \<open>Signed arithmetic of the machine\<close>

text \<open>
  What x86-64 does for \<open>/\<close>, \<open>%\<close>, \<open><<\<close> and \<open>>>\<close> on \<open>long long\<close>: division truncates towards zero
  and traps (\<open>None\<close>) on a zero divisor and on the one quotient that does not fit; a shift
  takes the low six bits of its count. C++ leaves the trapping divisions and the shifts by other
  counts undefined.
\<close>

definition min_long :: WORD where
  "min_long = 0x8000000000000000"

definition c_div :: "WORD \<Rightarrow> WORD \<Rightarrow> WORD option" where
  "c_div l r = (if r = 0 \<or> l = min_long \<and> r = - 1 then None else Some (word_of_int (sint l sdiv sint r)))"

definition c_rem :: "WORD \<Rightarrow> WORD \<Rightarrow> WORD option" where
  "c_rem l r = (if r = 0 \<or> l = min_long \<and> r = - 1 then None else Some (word_of_int (sint l smod sint r)))"

definition shift_count :: "WORD \<Rightarrow> nat" where
  "shift_count r = unat (r AND 63)"

definition c_shl :: "WORD \<Rightarrow> WORD \<Rightarrow> WORD" where
  "c_shl l r = push_bit (shift_count r) l"

definition c_sar :: "WORD \<Rightarrow> WORD \<Rightarrow> WORD" where
  "c_sar l r = signed_drop_bit (shift_count r) l"

definition c_shr :: "WORD \<Rightarrow> WORD \<Rightarrow> WORD" where
  "c_shr l r = drop_bit (shift_count r) l"

lemma shift_count_mod: "shift_count r = unat r mod 64"
proof -
  have "r AND 63 = take_bit 6 r"
    by (simp add: take_bit_eq_mask mask_eq_exp_minus_1)
  then show ?thesis
    by (simp add: shift_count_def take_bit_eq_mod unat_mod_distrib)
qed

lemma sint_inject: "sint v = sint w \<longleftrightarrow> v = (w :: 'a::len word)"
  using signed_word_eqI by blast

lemma sint_word_of_int_64:
  assumes "- (2 ^ 63) \<le> q" and "q < 2 ^ 63"
  shows "sint (word_of_int q :: WORD) = q"
  using assms by (simp add: signed_of_int signed_take_bit_int_eq_self)

lemma sint_bounds: "- (2 ^ 63) \<le> sint (w :: WORD)" "sint (w :: WORD) < 2 ^ 63"
  using signed_take_bit_int_greater_eq_minus_exp [of 63 "uint w"] signed_take_bit_int_less_exp [of 63 "uint w"]
  by (simp_all add: sint_uint)

lemma sint_min_long [simp]: "sint min_long = - (2 ^ 63)"
  by (simp add: min_long_def)

lemma sint_eq_min_long: "sint w = - (2 ^ 63) \<longleftrightarrow> w = min_long"
  using sint_inject [of w min_long] by (simp only: sint_min_long)

lemma sint_eq_m1: "sint w = - 1 \<longleftrightarrow> (w::WORD) = - 1"
  using sint_inject [of w "- 1"] by simp

lemma sint_eq_0: "sint w = 0 \<longleftrightarrow> (w::WORD) = 0"
  using sint_inject [of w 0] by simp

lemma sdiv_range:
  fixes a b :: int
  assumes "- (2 ^ 63) \<le> a" "a < 2 ^ 63" "b \<noteq> 0" "\<not> (a = - (2 ^ 63) \<and> b = - 1)"
  shows "- (2 ^ 63) \<le> a sdiv b" "a sdiv b < 2 ^ 63"
proof -
  have nn: "0 \<le> \<bar>a\<bar> div \<bar>b\<bar>" by (rule div_int_pos_iff [THEN iffD2]) auto
  then have q: "\<bar>a sdiv b\<bar> \<le> \<bar>a\<bar> div \<bar>b\<bar>"
    using assms(3) by (simp add: signed_divide_int_def abs_mult)
  have "- (2 ^ 63) \<le> a sdiv b \<and> a sdiv b < 2 ^ 63"
  proof (cases "b = 1 \<or> b = - 1")
    case True
    then show ?thesis using assms by (auto simp: signed_divide_int_def sgn_if)
  next
    case False
    then have "2 \<le> \<bar>b\<bar>" using assms(3) by linarith
    then have "\<bar>a\<bar> div \<bar>b\<bar> \<le> \<bar>a\<bar> div 2" by (intro zdiv_mono2) auto
    then show ?thesis using q assms(1,2) by linarith
  qed
  then show "- (2 ^ 63) \<le> a sdiv b" "a sdiv b < 2 ^ 63" by auto
qed

lemma smod_range:
  fixes a b :: int
  assumes "- (2 ^ 63) \<le> b" "b < 2 ^ 63" "b \<noteq> 0"
  shows "- (2 ^ 63) \<le> a smod b \<and> a smod b < 2 ^ 63"
  using assms smod_int_compares [of a b] by (cases "0 \<le> a"; cases "0 < b") auto

text \<open>Where the division does not trap, quotient and remainder are those of the integers.\<close>

lemma c_div_sint:
  assumes "c_div l r = Some q"
  shows "sint q = sint l sdiv sint r"
proof -
  from assms have r: "r \<noteq> 0" "\<not> (l = min_long \<and> r = - 1)"
    and q: "q = word_of_int (sint l sdiv sint r)"
    by (auto simp: c_div_def split: if_splits)
  have "\<not> (sint l = - (2 ^ 63) \<and> sint r = - 1)"
    using r(2) sint_eq_min_long [of l] sint_eq_m1 [of r] by blast
  then have "- (2 ^ 63) \<le> sint l sdiv sint r" "sint l sdiv sint r < 2 ^ 63"
    using sdiv_range [of "sint l" "sint r"] sint_bounds [of l] sint_eq_0 [of r] r(1) by blast+
  then show ?thesis unfolding q by (rule sint_word_of_int_64)
qed

lemma c_rem_sint:
  assumes "c_rem l r = Some q"
  shows "sint q = sint l smod sint r"
proof -
  from assms have r: "r \<noteq> 0" and q: "q = word_of_int (sint l smod sint r)"
    by (auto simp: c_rem_def split: if_splits)
  have "- (2 ^ 63) \<le> sint l smod sint r \<and> sint l smod sint r < 2 ^ 63"
    using smod_range [of "sint r" "sint l"] sint_bounds [of r] sint_eq_0 [of r] r by blast
  then show ?thesis unfolding q by (blast intro: sint_word_of_int_64)
qed

lemma c_div_rem_defined:
  "c_div l r \<noteq> None \<longleftrightarrow> r \<noteq> 0 \<and> (l \<noteq> min_long \<or> r \<noteq> - 1)"
  "c_rem l r \<noteq> None \<longleftrightarrow> r \<noteq> 0 \<and> (l \<noteq> min_long \<or> r \<noteq> - 1)"
  by (auto simp: c_div_def c_rem_def)

lemma sint_of_nat32: "n < 2 ^ 31 \<Longrightarrow> sint (of_nat n :: int32) = int n"
  using signed_of_int [of "int n", where 'b = 32 and 'a = int] by (simp add: signed_take_bit_int_eq_self)

end
