(* ===== verification/Byte_Memory.thy ===== *)
theory Byte_Memory
  imports Prelude
begin

section \<open>Byte-addressed memory\<close>

text \<open>
  The memory that the interpreter's pointers reach: the evaluation stack, the byte-code image
  and the heap blocks. An address that is not mapped faults (the hardware access violation),
  which is \<open>None\<close>. Addresses wrap around at 2 to the 64, as \<open>byte *\<close> arithmetic does.
\<close>

type_synonym memory = "WORD \<Rightarrow> byte option"

fun load_bytes :: "memory \<Rightarrow> WORD \<Rightarrow> nat \<Rightarrow> byte list option" where
  "load_bytes m a 0 = Some []"
| "load_bytes m a (Suc n) = do {
     b \<leftarrow> m a;
     bs \<leftarrow> load_bytes m (a + 1) n;
     Some (b # bs) }"

fun store_bytes :: "memory \<Rightarrow> WORD \<Rightarrow> byte list \<Rightarrow> memory option" where
  "store_bytes m a [] = Some m"
| "store_bytes m a (b # bs) = do {
     _ \<leftarrow> m a;
     store_bytes (m(a \<mapsto> b)) (a + 1) bs }"

definition mapped :: "memory \<Rightarrow> WORD \<Rightarrow> nat \<Rightarrow> bool" where
  "mapped m a n \<longleftrightarrow> (\<forall>i < n. m (a + of_nat i) \<noteq> None)"

text \<open>The access widths of the code: \<open>*(WORD*)p\<close>, \<open>*(int*)p\<close>, \<open>*(unsigned short*)p\<close>,
  \<open>*(byte*)p\<close>. A store takes the low bytes of the WORD it is given.\<close>

definition load64 :: "memory \<Rightarrow> WORD \<Rightarrow> WORD option" where
  "load64 m a = map_option from_bytes (load_bytes m a 8)"

definition load32 :: "memory \<Rightarrow> WORD \<Rightarrow> int32 option" where
  "load32 m a = map_option (\<lambda>bs. ucast (from_bytes bs)) (load_bytes m a 4)"

definition load16 :: "memory \<Rightarrow> WORD \<Rightarrow> 16 word option" where
  "load16 m a = map_option (\<lambda>bs. ucast (from_bytes bs)) (load_bytes m a 2)"

definition load8 :: "memory \<Rightarrow> WORD \<Rightarrow> byte option" where
  "load8 m a = m a"

definition store64 :: "memory \<Rightarrow> WORD \<Rightarrow> WORD \<Rightarrow> memory option" where
  "store64 m a w = store_bytes m a (to_bytes 8 w)"

definition store32 :: "memory \<Rightarrow> WORD \<Rightarrow> WORD \<Rightarrow> memory option" where
  "store32 m a w = store_bytes m a (to_bytes 4 w)"

definition store16 :: "memory \<Rightarrow> WORD \<Rightarrow> WORD \<Rightarrow> memory option" where
  "store16 m a w = store_bytes m a (to_bytes 2 w)"

definition store8 :: "memory \<Rightarrow> WORD \<Rightarrow> WORD \<Rightarrow> memory option" where
  "store8 m a w = store_bytes m a (to_bytes 1 w)"

text \<open>\<open>memcpy\<close> and \<open>memset(p, 0, n)\<close> of the C library. \<open>memcpy\<close> reads its source first, which is
  also what \<open>memmove\<close> does when the areas overlap.\<close>

definition memcpy :: "memory \<Rightarrow> WORD \<Rightarrow> WORD \<Rightarrow> nat \<Rightarrow> memory option" where
  "memcpy m dst src n = do { bs \<leftarrow> load_bytes m src n; store_bytes m dst bs }"

definition memset :: "memory \<Rightarrow> WORD \<Rightarrow> byte \<Rightarrow> nat \<Rightarrow> memory option" where
  "memset m a b n = store_bytes m a (replicate n b)"

subsection \<open>What a store writes\<close>

lemma store_bytes_get:
  assumes "store_bytes m a bs = Some m'" and "length bs \<le> 2 ^ 64"
  shows "m' x = (if unat (x - a) < length bs then Some (bs ! unat (x - a)) else m x)"
  using assms
proof (induction bs arbitrary: m a)
  case Nil
  then show ?case by simp
next
  case (Cons b bs)
  from Cons.prems have st: "store_bytes (m(a \<mapsto> b)) (a + 1) bs = Some m'"
    by (auto split: bind_splits)
  have len: "length bs \<le> 2 ^ 64" using Cons.prems(2) by simp
  note IH = Cons.IH [OF st len]
  show ?case
  proof (cases "x = a")
    case True
    have "unat (a - (a + 1)) = 2 ^ 64 - 1"
      using unat_minus1_64 by simp
    then have "\<not> unat (x - (a + 1)) < length bs" using Cons.prems(2) True by simp
    then show ?thesis using IH True by simp
  next
    case False
    then show ?thesis using IH unat_diff_Suc [OF False] by simp
  qed
qed

lemma mapped_dom: "dom m' = dom m \<Longrightarrow> mapped m' a n = mapped m a n"
  by (auto simp: mapped_def dom_def set_eq_iff)

lemma store_bytes_defined:
  "(\<exists>m'. store_bytes m a bs = Some m') \<longleftrightarrow> mapped m a (length bs)"
proof (induction bs arbitrary: m a)
  case Nil
  then show ?case by (simp add: mapped_def)
next
  case (Cons b bs)
  have dom: "mapped (m(a \<mapsto> b)) (a + 1) n \<longleftrightarrow> mapped m (a + 1) n" if "m a \<noteq> None" for n
    using that by (intro mapped_dom) auto
  have step: "mapped m a (Suc n) \<longleftrightarrow> m a \<noteq> None \<and> mapped m (a + 1) n" for n
    by (simp add: mapped_def All_less_Suc2 add.assoc)
  show ?case
    by (cases "m a") (simp_all add: step dom Cons.IH del: fun_upd_apply)
qed

lemma store_bytes_dom:
  "store_bytes m a bs = Some m' \<Longrightarrow> dom m' = dom m"
  by (induction bs arbitrary: m a) (auto split: bind_splits)

lemma load_bytes_iff:
  "load_bytes m a n = Some bs \<longleftrightarrow>
     length bs = n \<and> (\<forall>i < n. m (a + of_nat i) = Some (bs ! i))"
proof (induction n arbitrary: a bs)
  case 0
  then show ?case by auto
next
  case (Suc n)
  show ?case
  proof (cases bs)
    case Nil
    then show ?thesis by (auto split: bind_splits)
  next
    case (Cons b cs)
    have "load_bytes m a (Suc n) = Some (b # cs) \<longleftrightarrow>
        m a = Some b \<and> load_bytes m (a + 1) n = Some cs"
      by (cases "m a"; cases "load_bytes m (a + 1) n") auto
    then show ?thesis
      by (auto simp: Cons All_less_Suc2 Suc.IH add.assoc)
  qed
qed

lemma load_bytes_length: "load_bytes m a n = Some bs \<Longrightarrow> length bs = n"
  by (simp add: load_bytes_iff)

lemma load_bytes_defined: "(\<exists>bs. load_bytes m a n = Some bs) \<longleftrightarrow> mapped m a n"
proof
  assume "mapped m a n"
  then have "load_bytes m a n = Some (map (\<lambda>i. the (m (a + of_nat i))) [0..<n])"
    by (auto simp: load_bytes_iff mapped_def)
  then show "\<exists>bs. load_bytes m a n = Some bs" by blast
qed (auto simp: load_bytes_iff mapped_def)

lemma mapped_mono: "mapped m a n \<Longrightarrow> k \<le> n \<Longrightarrow> mapped m a k"
  by (auto simp: mapped_def)

subsection \<open>Loads after stores\<close>

text \<open>A load of the bytes just stored, at any offset inside them.\<close>

lemma load_bytes_store_same:
  assumes "store_bytes m a bs = Some m'" and "length bs \<le> 2 ^ 64"
  shows "load_bytes m' a (length bs) = Some bs"
  unfolding load_bytes_iff
proof (intro conjI allI impI)
  fix i
  assume i: "i < length bs"
  then have "unat (of_nat i :: WORD) = i"
    using assms(2) by (simp add: unsigned_of_nat take_bit_nat_eq_self)
  then show "m' (a + of_nat i) = Some (bs ! i)"
    using store_bytes_get [OF assms] i by simp
qed simp

text \<open>Two areas of memory that share no address.\<close>

definition disjoint_areas :: "WORD \<Rightarrow> nat \<Rightarrow> WORD \<Rightarrow> nat \<Rightarrow> bool" where
  "disjoint_areas a n b k \<longleftrightarrow> (\<forall>i < n. \<not> unat (a + of_nat i - b) < k)"

lemma load_bytes_store_other:
  assumes "store_bytes m b bs = Some m'" and "length bs \<le> 2 ^ 64"
    and "disjoint_areas a n b (length bs)"
  shows "load_bytes m' a n = load_bytes m a n"
proof -
  have "m' (a + of_nat i) = m (a + of_nat i)" if "i < n" for i
    using assms(3) that store_bytes_get [OF assms(1,2)] by (simp add: disjoint_areas_def)
  then have "load_bytes m' a n = Some cs \<longleftrightarrow> load_bytes m a n = Some cs" for cs
    by (auto simp: load_bytes_iff)
  then show ?thesis by (metis option.exhaust)
qed

lemma load64_store64_same [mem_simps]: "store64 m a w = Some m' \<Longrightarrow> load64 m' a = Some w"
  unfolding store64_def load64_def
  using load_bytes_store_same [of m a "to_bytes 8 w" m'] by simp

lemma load32_store32_same [mem_simps]: "store32 m a w = Some m' \<Longrightarrow> load32 m' a = Some (to_int w)"
  unfolding store32_def load32_def
  using load_bytes_store_same [of m a "to_bytes 4 w" m'] from_to_bytes [of 4 w] by simp

lemma load64_store_other:
  assumes "store_bytes m b bs = Some m'" and "length bs \<le> 2 ^ 64"
    and "disjoint_areas a 8 b (length bs)"
  shows "load64 m' a = load64 m a"
  using load_bytes_store_other [OF assms] by (simp add: load64_def)

lemma store64_dom: "store64 m a w = Some m' \<Longrightarrow> dom m' = dom m"
  by (simp add: store64_def store_bytes_dom)

lemma store64_defined: "mapped m a 8 \<Longrightarrow> \<exists>m'. store64 m a w = Some m'"
  by (simp add: store64_def store_bytes_defined)

lemma load64_defined: "mapped m a 8 \<Longrightarrow> \<exists>w. load64 m a = Some w"
  using load_bytes_defined [of m a 8] by (auto simp: load64_def)

lemma store64_get:
  assumes "store64 m a w = Some m'"
  shows "m' x = (if unat (x - a) < 8 then Some (to_bytes 8 w ! unat (x - a)) else m x)"
  using store_bytes_get [of m a "to_bytes 8 w" m' x] assms
  by (simp add: store64_def)

end
