(* ===== verification/Machine.thy ===== *)
theory Machine
  imports Byte_Memory
begin

section \<open>The execution context of the virtual machine\<close>

text \<open>
  \<open>class ExecutionContext\<close> (runtime.h, runtime.cc): the evaluation stack, the active frame and
  the object table of one byte-code thread, with its push, pop, frame and snapshot operations.
  The stack grows downwards from \<open>_stackTop\<close> to \<open>_stack\<close>; its slots live in the byte memory, and
  so do the code, the static objects and the heap blocks. An operation that touches an unmapped
  address yields \<open>None\<close>: the process faults there.
\<close>

text \<open>\<open>struct StackFrame\<close>: the frame pointer, the code being run and the offset in it.\<close>

record stack_frame =
  fr_fp :: WORD
  fr_code :: WORD
  fr_ip :: int32

text \<open>\<open>struct StackState\<close>; a field the code leaves uninitialised is \<open>None\<close>.\<close>

record stack_state =
  ss_sp :: WORD
  ss_stack :: WORD
  ss_stackTop :: WORD
  ss_frame :: stack_frame
  ss_target :: int
  ss_exceptionType :: "int32 option"
  ss_exceptionFlags :: "int32 option"
  ss_memoryAddress :: "WORD option"

text \<open>\<open>class ExecutionContext\<close>, with the memory its pointers reach, the blocks that the C
  library's \<open>malloc\<close> handed out (address and size), and what the program has printed.\<close>

text \<open>\<open>vm_out\<close> is what has been written to the standard output: the bytes, or \<open>None\<close> as soon as something has been
  written whose text is not modelled, which is the trace and the message of a run or an assertion that fails.\<close>

record vm =
  mem :: memory
  heap :: "WORD \<rightharpoonup> nat"
  target :: int
  objects :: "WORD list"
  stack :: WORD
  stackTop :: WORD
  active :: stack_frame
  sp :: WORD
  exceptionContext :: WORD
  lastIp :: int32
  stackSnapshot :: "byte list"
  vm_args :: "string list"
  vm_trace :: bool
  vm_out :: "byte list option"

definition BYTE_CODE_TARGET :: int where "BYTE_CODE_TARGET = 1"
definition NATIVE_64_TARGET :: int where "NATIVE_64_TARGET = 2"

definition STACK_SLOT :: nat where "STACK_SLOT = 8"
definition FRAME_SIZE :: WORD where "FRAME_SIZE = 24"
definition STACK_SIZE :: nat where "STACK_SIZE = STACK_SLOT * 256 * 1024"

abbreviation fp :: "vm \<Rightarrow> WORD" where "fp s \<equiv> fr_fp (active s)"
abbreviation code :: "vm \<Rightarrow> WORD" where "code s \<equiv> fr_code (active s)"
abbreviation ip :: "vm \<Rightarrow> int32" where "ip s \<equiv> fr_ip (active s)"

abbreviation set_fp :: "WORD \<Rightarrow> vm \<Rightarrow> vm" where
  "set_fp p s \<equiv> s\<lparr>active := (active s)\<lparr>fr_fp := p\<rparr>\<rparr>"
abbreviation set_code :: "WORD \<Rightarrow> vm \<Rightarrow> vm" where
  "set_code p s \<equiv> s\<lparr>active := (active s)\<lparr>fr_code := p\<rparr>\<rparr>"
abbreviation set_ip :: "int32 \<Rightarrow> vm \<Rightarrow> vm" where
  "set_ip i s \<equiv> s\<lparr>active := (active s)\<lparr>fr_ip := i\<rparr>\<rparr>"

subsection \<open>The stack\<close>

text \<open>\<open>push\<close>: refused, with \<open>false\<close>, when the slot would lie below \<open>_stack\<close>. The overloads for
  a WORD and for a pointer do the same.\<close>

definition push :: "WORD \<Rightarrow> vm \<Rightarrow> (bool \<times> vm) option" where
  "push w s =
     (if sp s - 8 < stack s then Some (False, s)
      else do {
        m \<leftarrow> store64 (mem s) (sp s - 8) w;
        Some (True, s\<lparr>sp := sp s - 8, mem := m\<rparr>) })"

text \<open>What the interpreter does: it calls \<open>push\<close> and ignores its result.\<close>

definition pushv :: "WORD \<Rightarrow> vm \<Rightarrow> vm option" where
  "pushv w s = map_option snd (push w s)"

definition peek :: "vm \<Rightarrow> WORD option" where
  "peek s = load64 (mem s) (sp s)"

definition pop :: "vm \<Rightarrow> (WORD \<times> vm) option" where
  "pop s = do { i \<leftarrow> load64 (mem s) (sp s); Some (i, s\<lparr>sp := sp s + 8\<rparr>) }"

text \<open>\<open>st(index)\<close>: the slot \<open>index\<close> above the top of the stack.\<close>

definition st :: "nat \<Rightarrow> vm \<Rightarrow> WORD option" where
  "st index s = load64 (mem s) (sp s + 8 * of_nat index)"

text \<open>\<open>push(char **argv, int argc)\<close>: keeps the arguments as strings and pushes the address of
  the string array (which the caller supplies) and the pair of its size and capacity. The
  function has no return statement, so it has no result.\<close>

definition push_args :: "WORD \<Rightarrow> string list \<Rightarrow> vm \<Rightarrow> vm option" where
  "push_args array argv s = do {
     let s = s\<lparr>vm_args := argv\<rparr>;
     let n = (word_of_nat (length argv) :: WORD);
     s \<leftarrow> pushv array s;
     pushv (push_bit 32 n OR n) s }"

subsection \<open>Frames\<close>

definition null_frame :: stack_frame where
  "null_frame = \<lparr>fr_fp = 0, fr_code = 0, fr_ip = 0\<rparr>"

definition unloadFrame :: "vm \<Rightarrow> stack_state \<times> vm" where
  "unloadFrame s =
     (\<lparr>ss_sp = sp s, ss_stack = stack s, ss_stackTop = stackTop s, ss_frame = active s,
       ss_target = target s, ss_exceptionType = None, ss_exceptionFlags = None,
       ss_memoryAddress = None\<rparr>,
      s\<lparr>active := null_frame\<rparr>)"

definition reloadFrame :: "stack_state \<Rightarrow> vm \<Rightarrow> vm" where
  "reloadFrame saved s =
     s\<lparr>active := ss_frame saved, sp := ss_sp saved, stack := ss_stack saved,
       stackTop := ss_stackTop saved, target := ss_target saved\<rparr>"

definition halt :: "vm \<Rightarrow> vm" where
  "halt s = set_ip (- 1) s"

definition invoke :: "WORD \<Rightarrow> vm \<Rightarrow> vm option" where
  "invoke c s = do {
     s \<leftarrow> pushv (of_int32 (ip s)) s;
     s \<leftarrow> pushv (code s) s;
     s \<leftarrow> pushv (fp s) s;
     Some (s\<lparr>active := \<lparr>fr_fp = sp s, fr_code = c, fr_ip = 0\<rparr>\<rparr>) }"

subsection \<open>The object table\<close>

text \<open>\<open>valueAddress(i)\<close> reads \<open>_objects[i]\<close> unchecked: \<open>None\<close> is a read outside the table.\<close>

definition valueAddress :: "int32 \<Rightarrow> vm \<Rightarrow> WORD option" where
  "valueAddress i s =
     (if 0 \<le> sint i \<and> nat (sint i) < length (objects s) then Some (objects s ! nat (sint i))
      else None)"

fun find_index :: "int \<Rightarrow> WORD \<Rightarrow> WORD list \<Rightarrow> int" where
  "find_index i a [] = -1"
| "find_index i a (x # xs) = (if x = a then i else find_index (i + 1) a xs)"

definition valueIndex :: "WORD \<Rightarrow> vm \<Rightarrow> int" where
  "valueIndex a s = find_index 0 a (objects s)"

text \<open>An array of \<open>n\<close> pointers in memory.\<close>

fun load_words :: "memory \<Rightarrow> WORD \<Rightarrow> nat \<Rightarrow> WORD list option" where
  "load_words m a 0 = Some []"
| "load_words m a (Suc n) = do {
     w \<leftarrow> load64 m a;
     ws \<leftarrow> load_words m (a + 8) n;
     Some (w # ws) }"

definition injectObjects :: "WORD \<Rightarrow> int32 \<Rightarrow> vm \<Rightarrow> (int \<times> vm) option" where
  "injectObjects objs objectCount s =
     (let result = int (length (objects s)) in
      if 0 < sint objectCount then do {
        new \<leftarrow> load_words (mem s) objs (nat (sint objectCount));
        Some (result, s\<lparr>objects := objects s @ new\<rparr>) }
      else Some (result, s))"

subsection \<open>Snapshots of the stack\<close>

text \<open>The length is a pointer difference narrowed to \<open>int\<close>; a negative one makes \<open>memcpy\<close> run
  off the end of memory.\<close>

definition snapshot :: "WORD \<Rightarrow> vm \<Rightarrow> vm option" where
  "snapshot highestSp s =
     (let n = sint (to_int (highestSp - sp s)) in
      if n < 0 then None
      else do {
        bs \<leftarrow> load_bytes (mem s) (sp s) (nat n);
        Some (s\<lparr>stackSnapshot := bs\<rparr>) })"

definition transferSnapshot :: "vm \<Rightarrow> vm \<Rightarrow> vm" where
  "transferSnapshot source s = s\<lparr>stackSnapshot := stackSnapshot source\<rparr>"

definition fetchSnapshot :: "WORD \<Rightarrow> int32 \<Rightarrow> vm \<Rightarrow> vm option" where
  "fetchSnapshot output len s =
     (if 0 \<le> sint len \<and> nat (sint len) \<le> length (stackSnapshot s)
      then do {
        m \<leftarrow> store_bytes (mem s) output (take (nat (sint len)) (stackSnapshot s));
        Some (s\<lparr>mem := m, stackSnapshot := []\<rparr>) }
      else None)"

definition set_exceptionContext :: "WORD \<Rightarrow> vm \<Rightarrow> WORD \<times> vm" where
  "set_exceptionContext info s = (exceptionContext s, s\<lparr>exceptionContext := info\<rparr>)"

subsection \<open>Operands in the byte code\<close>

definition intInByteCode :: "vm \<Rightarrow> (int32 \<times> vm) option" where
  "intInByteCode s = do {
     x \<leftarrow> load32 (mem s) (code s + of_int32 (ip s));
     Some (x, set_ip (ip s + 4) s) }"

definition longInByteCode :: "vm \<Rightarrow> (WORD \<times> vm) option" where
  "longInByteCode s = do {
     x \<leftarrow> load64 (mem s) (code s + of_int32 (ip s));
     Some (x, set_ip (ip s + 8) s) }"

subsection \<open>Construction\<close>

text \<open>
  The C library's allocator chooses the address of a block: \<open>os_malloc\<close> gives it for the current
  memory and size (0 when it fails), and the contents of a fresh block are arbitrary
  (\<open>os_junk\<close>). \<open>valid_malloc\<close> is its documented behaviour: the block is fresh, does not wrap
  around, and is not in the first 64K of the address space, which Windows never maps.
\<close>

record allocator =
  os_malloc :: "memory \<Rightarrow> (WORD \<rightharpoonup> nat) \<Rightarrow> nat \<Rightarrow> WORD"
  os_junk :: "WORD \<Rightarrow> byte"

definition valid_malloc :: "allocator \<Rightarrow> bool" where
  "valid_malloc os \<longleftrightarrow> (\<forall>m h n. let p = os_malloc os m h n in p \<noteq> 0 \<longrightarrow>
     (\<forall>i < n. m (p + of_nat i) = None) \<and> unat p + n < 2 ^ 64 \<and> 0x10000 \<le> p \<and> h p = None)"

definition add_block :: "memory \<Rightarrow> WORD \<Rightarrow> nat \<Rightarrow> (WORD \<Rightarrow> byte) \<Rightarrow> memory" where
  "add_block m p n f = (\<lambda>x. if unat (x - p) < n then Some (f x) else m x)"

definition remove_block :: "memory \<Rightarrow> WORD \<Rightarrow> nat \<Rightarrow> memory" where
  "remove_block m p n = (\<lambda>x. if unat (x - p) < n then None else m x)"

definition c_malloc :: "allocator \<Rightarrow> nat \<Rightarrow> vm \<Rightarrow> WORD \<times> vm" where
  "c_malloc os n s =
     (let p = os_malloc os (mem s) (heap s) n in
      if p = 0 then (0, s)
      else (p, s\<lparr>mem := add_block (mem s) p n (os_junk os), heap := (heap s)(p \<mapsto> n)\<rparr>))"

text \<open>\<open>free\<close>: nothing for null, undefined for an address that is not a live block.\<close>

definition c_free :: "WORD \<Rightarrow> vm \<Rightarrow> vm option" where
  "c_free p s =
     (if p = 0 then Some s
      else do {
        n \<leftarrow> heap s p;
        Some (s\<lparr>mem := remove_block (mem s) p n, heap := (heap s)(p := None)\<rparr>) })"

text \<open>The constructor for byte code. It allocates the stack and leaves \<open>trace\<close> and the frame
  pointer as they happen to be: they are arguments.\<close>

definition ExecutionContext :: "allocator \<Rightarrow> memory \<Rightarrow> (WORD \<rightharpoonup> nat) \<Rightarrow> WORD list \<Rightarrow> bool \<Rightarrow> WORD \<Rightarrow> vm" where
  "ExecutionContext os m h objs tr junk_fp =
     (let p = os_malloc os m h STACK_SIZE;
          top = p + of_nat STACK_SIZE in
      \<lparr>mem = (if p = 0 then m else add_block m p STACK_SIZE (os_junk os)),
       heap = (if p = 0 then h else h(p \<mapsto> STACK_SIZE)),
       target = -1, objects = objs, stack = p, stackTop = top,
       active = \<lparr>fr_fp = junk_fp, fr_code = 0, fr_ip = 0\<rparr>, sp = top, exceptionContext = 0,
       lastIp = 0, stackSnapshot = [], vm_args = [], vm_trace = tr, vm_out = Some []\<rparr>)"

end
