(* ===== verification/Stack_Laws.thy ===== *)
theory Stack_Laws
  imports Machine
begin

section \<open>The evaluation stack as a list of words\<close>

text \<open>
  The interface between the stack of \<open>ExecutionContext\<close> and the instructions that use it: a
  well-formed context has a list of live slots (\<open>stk\<close>) and a number of free ones (\<open>room\<close>);
  \<open>push\<close> and \<open>pop\<close> act on the list, and keep everything outside the stack area.
\<close>

definition stack_ok :: "vm \<Rightarrow> bool" where
  "stack_ok s \<longleftrightarrow> 8 \<le> stack s \<and> stack s \<le> sp s \<and> sp s \<le> stackTop s \<and>
     8 dvd unat (stackTop s - sp s) \<and>
     mapped (mem s) (stack s) (unat (stackTop s - stack s))"

definition depth :: "vm \<Rightarrow> nat" where
  "depth s = unat (stackTop s - sp s) div 8"

definition room :: "vm \<Rightarrow> nat" where
  "room s = (unat (sp s) - unat (stack s)) div 8"

definition stk :: "vm \<Rightarrow> WORD list" where
  "stk s = map (\<lambda>i. the (load64 (mem s) (sp s + 8 * of_nat i))) [0..<depth s]"

text \<open>Everything but the stack pointer and the contents of the stack area.\<close>

definition in_stack :: "vm \<Rightarrow> WORD \<Rightarrow> bool" where
  "in_stack s x \<longleftrightarrow> unat (x - stack s) < unat (stackTop s - stack s)"

definition frame :: "vm \<Rightarrow> vm" where
  "frame s = s\<lparr>sp := 0, mem := mem s |` {x. \<not> in_stack s x}\<rparr>"

subsection \<open>Arithmetic of stack addresses\<close>

lemma mapped_sub:
  assumes "mapped m a n" and "unat (b - a) + k \<le> n"
  shows "mapped m b k"
  unfolding mapped_def
proof (intro allI impI)
  fix i
  assume "i < k"
  then have "unat (b - a) + i < n" using assms(2) by linarith
  then have "m (a + of_nat (unat (b - a) + i)) \<noteq> None"
    using assms(1) unfolding mapped_def by blast
  moreover have "a + of_nat (unat (b - a) + i) = b + of_nat i"
    by simp
  ultimately show "m (b + of_nat i) \<noteq> None" by simp
qed

lemma unat_diff: "(a :: WORD) \<le> b \<Longrightarrow> unat (b - a) = unat b - unat a"
  by (simp add: unat_sub)

lemma unat_offset: "n < 2 ^ 64 \<Longrightarrow> unat (of_nat n :: WORD) = n"
  by (simp add: unsigned_of_nat take_bit_nat_eq_self)

lemma unat_bound: "unat (w :: WORD) < 2 ^ 64"
  using unsigned_less [of w] by simp

lemma sp_minus_8:
  assumes "stack_ok s"
  shows "unat (sp s - 8) = unat (sp s) - 8" "8 \<le> unat (sp s)"
proof -
  have "8 \<le> sp s" using assms by (auto simp: stack_ok_def)
  then show "unat (sp s - 8) = unat (sp s) - 8"
    by (simp add: unat_diff)
  show "8 \<le> unat (sp s)"
    using \<open>8 \<le> sp s\<close> by (simp add: word_le_nat_alt)
qed

lemma room_pos_iff:
  assumes "stack_ok s"
  shows "0 < room s \<longleftrightarrow> \<not> sp s - 8 < stack s"
  using sp_minus_8 [OF assms] assms
  by (auto simp: room_def stack_ok_def word_less_nat_alt word_le_nat_alt div_greater_zero_iff)

lemma depth_top:
  assumes "stack_ok s"
  shows "unat (stackTop s) = unat (sp s) + 8 * depth s"
  using assms by (auto simp: stack_ok_def depth_def unat_diff word_le_nat_alt)

lemma slot_offset:
  assumes "stack_ok s" and "i < depth s"
  shows "unat (sp s + 8 * of_nat i) = unat (sp s) + 8 * i"
proof -
  have "unat (sp s) + 8 * i < 2 ^ 64"
    using depth_top [OF assms(1)] unat_bound [of "stackTop s"] assms(2) by linarith
  then have "unat (sp s + of_nat (8 * i)) = unat (sp s) + 8 * i"
    by (simp add: unat_word_ariths unat_offset del: of_nat_mult)
  then show ?thesis by simp
qed

lemma mapped_slot:
  assumes "stack_ok s" and "i < depth s"
  shows "mapped (mem s) (sp s + 8 * of_nat i) 8"
proof (rule mapped_sub)
  show "mapped (mem s) (stack s) (unat (stackTop s - stack s))"
    using assms(1) by (simp add: stack_ok_def)
  have "stack s \<le> sp s + 8 * of_nat i"
    using slot_offset [OF assms] assms(1) by (simp add: word_le_nat_alt stack_ok_def)
  then show "unat (sp s + 8 * of_nat i - stack s) + 8 \<le> unat (stackTop s - stack s)"
    using slot_offset [OF assms] depth_top [OF assms(1)] assms
    by (auto simp: unat_diff stack_ok_def word_le_nat_alt)
qed

lemma mapped_push_slot:
  assumes "stack_ok s" and "0 < room s"
  shows "mapped (mem s) (sp s - 8) 8"
proof (rule mapped_sub)
  show "mapped (mem s) (stack s) (unat (stackTop s - stack s))"
    using assms(1) by (simp add: stack_ok_def)
  have le: "stack s \<le> sp s - 8"
    using room_pos_iff [OF assms(1)] assms(2) by simp
  then show "unat (sp s - 8 - stack s) + 8 \<le> unat (stackTop s - stack s)"
    using sp_minus_8 [OF assms(1)] assms(1)
    by (auto simp: unat_diff stack_ok_def word_le_nat_alt)
qed

lemma load_slot:
  assumes "stack_ok s" and "i < depth s"
  shows "load64 (mem s) (sp s + 8 * of_nat i) = Some (stk s ! i)"
  using load64_defined [OF mapped_slot [OF assms]] assms(2)
  by (auto simp: stk_def)

lemma length_stk [simp]: "length (stk s) = depth s"
  by (simp add: stk_def)

lemma stk_Cons_iff:
  assumes "stack_ok s"
  shows "stk s = w # ws \<longleftrightarrow> 0 < depth s \<and> load64 (mem s) (sp s) = Some w \<and>
     ws = stk (s\<lparr>sp := sp s + 8\<rparr>)"
proof (cases "depth s")
  case 0
  then show ?thesis by (simp add: stk_def)
next
  case (Suc n)
  have ne: "sp s \<noteq> stackTop s" using Suc by (auto simp: depth_def)
  have "unat (stackTop s - (sp s + 8)) = unat (stackTop s - sp s) - 8"
  proof -
    have "8 \<le> stackTop s - sp s"
      using Suc by (simp add: depth_def word_le_nat_alt div_le_mono)
    then have "unat (stackTop s - sp s - 8) = unat (stackTop s - sp s) - 8"
      by (simp add: unat_diff)
    then show ?thesis by (simp add: diff_diff_eq)
  qed
  then have d: "depth (s\<lparr>sp := sp s + 8\<rparr>) = n"
    using Suc by (simp add: depth_def)
  have "stk s = the (load64 (mem s) (sp s)) # stk (s\<lparr>sp := sp s + 8\<rparr>)"
    by (simp add: stk_def Suc d upt_conv_Cons map_Suc_upt [symmetric] algebra_simps del: upt_Suc)
  moreover have "\<exists>w. load64 (mem s) (sp s) = Some w"
    using load_slot [OF assms, of 0] Suc by simp
  ultimately show ?thesis using Suc by auto
qed

lemma depth_popped:
  assumes "stack_ok s" and "0 < depth s"
  shows "unat (sp s + 8) = unat (sp s) + 8" "stack_ok (s\<lparr>sp := sp s + 8\<rparr>)"
    "depth s = Suc (depth (s\<lparr>sp := sp s + 8\<rparr>))" "room (s\<lparr>sp := sp s + 8\<rparr>) = Suc (room s)"
proof -
  have top: "unat (stackTop s) = unat (sp s) + 8 * depth s"
    by (rule depth_top [OF assms(1)])
  then have "unat (sp s) + 8 < 2 ^ 64"
    using assms(2) unat_bound [of "stackTop s"] by linarith
  then show u: "unat (sp s + 8) = unat (sp s) + 8"
    by (simp add: unat_word_ariths)
  have le: "sp s + 8 \<le> stackTop s"
    using u top assms(2) by (simp add: word_le_nat_alt)
  have diff: "unat (stackTop s - (sp s + 8)) = 8 * depth s - 8"
    using u top by (simp add: unat_diff [OF le])
  have "8 dvd 8 * depth s - 8" by (simp add: dvd_diff_nat)
  then show "stack_ok (s\<lparr>sp := sp s + 8\<rparr>)"
    using assms(1) u le diff by (auto simp: stack_ok_def word_le_nat_alt)
  show "depth s = Suc (depth (s\<lparr>sp := sp s + 8\<rparr>))"
    using diff assms(2) by (simp add: depth_def)
  have "unat (stack s) \<le> unat (sp s)"
    using assms(1) by (simp add: stack_ok_def word_le_nat_alt)
  then show "room (s\<lparr>sp := sp s + 8\<rparr>) = Suc (room s)"
    using u by (simp add: room_def)
qed

subsection \<open>The laws of push and pop\<close>

lemma pop_law:
  assumes "stack_ok s" and "stk s = w # ws"
  shows "\<exists>s'. pop s = Some (w, s') \<and> stack_ok s' \<and> stk s' = ws \<and>
    room s' = Suc (room s) \<and> frame s' = frame s"
proof (intro exI conjI)
  have c: "0 < depth s \<and> load64 (mem s) (sp s) = Some w \<and> ws = stk (s\<lparr>sp := sp s + 8\<rparr>)"
    using assms stk_Cons_iff by blast
  then show "pop s = Some (w, s\<lparr>sp := sp s + 8\<rparr>)" by (simp add: pop_def)
  show "stk (s\<lparr>sp := sp s + 8\<rparr>) = ws" using c by simp
  show "stack_ok (s\<lparr>sp := sp s + 8\<rparr>)" "room (s\<lparr>sp := sp s + 8\<rparr>) = Suc (room s)"
    using depth_popped [OF assms(1)] c by simp_all
  show "frame (s\<lparr>sp := sp s + 8\<rparr>) = frame s"
    by (simp add: frame_def in_stack_def)
qed

lemma slots_disjoint:
  assumes "stack_ok s" and "i < depth s"
  shows "disjoint_areas (sp s + 8 * of_nat i) 8 (sp s - 8) 8"
  unfolding disjoint_areas_def
proof (intro allI impI)
  fix j :: nat
  assume j: "j < 8"
  have "sp s + 8 * of_nat i + of_nat j - (sp s - 8) = of_nat (8 * i + 8 + j)"
    by (simp add: algebra_simps)
  moreover have "8 * i + 8 + j < 2 ^ 64"
    using depth_top [OF assms(1)] sp_minus_8 [OF assms(1)] unat_bound [of "stackTop s"] assms(2) j
    by linarith
  ultimately have "unat (sp s + 8 * of_nat i + of_nat j - (sp s - 8)) = 8 * i + 8 + j"
    by (simp only: unat_offset)
  then show "\<not> unat (sp s + 8 * of_nat i + of_nat j - (sp s - 8)) < 8" by simp
qed

lemma in_stack_push_slot:
  assumes "stack_ok s" and "0 < room s" and "unat (x - (sp s - 8)) < 8"
  shows "in_stack s x"
proof -
  have le: "stack s \<le> sp s - 8"
    using room_pos_iff [OF assms(1)] assms(2) by simp
  have "x - stack s = (x - (sp s - 8)) + (sp s - 8 - stack s)" by simp
  then have "unat (x - stack s) \<le> unat (x - (sp s - 8)) + unat (sp s - 8 - stack s)"
    by (metis unat_word_ariths(1) mod_less_eq_dividend)
  also have "\<dots> < unat (sp s) - unat (stack s)"
    using assms(3) le sp_minus_8 [OF assms(1)] unat_diff [OF le] by (simp add: word_le_nat_alt)
  also have "\<dots> \<le> unat (stackTop s - stack s)"
    using assms(1) by (auto simp: stack_ok_def unat_diff word_le_nat_alt)
  finally show ?thesis by (simp add: in_stack_def)
qed

lemma push_law:
  assumes ok: "stack_ok s" and r: "0 < room s"
  shows "\<exists>s'. pushv w s = Some s' \<and> stack_ok s' \<and> stk s' = w # stk s \<and>
    room s = Suc (room s') \<and> frame s' = frame s"
proof -
  obtain m where m: "store64 (mem s) (sp s - 8) w = Some m"
    using store64_defined [OF mapped_push_slot [OF ok r]] by blast
  let ?s = "s\<lparr>sp := sp s - 8, mem := m\<rparr>"
  have np: "\<not> sp s - 8 < stack s" using room_pos_iff [OF ok] r by simp
  have push: "pushv w s = Some ?s" using np m by (simp add: pushv_def push_def)
  have u: "unat (sp s - 8) = unat (sp s) - 8" "8 \<le> unat (sp s)"
    using sp_minus_8 [OF ok] by auto
  have top: "unat (stackTop s) = unat (sp s) + 8 * depth s" by (rule depth_top [OF ok])
  have le: "sp s - 8 \<le> stackTop s" using u top by (simp add: word_le_nat_alt)
  have d: "unat (stackTop s - (sp s - 8)) = 8 * Suc (depth s)"
    using u top by (simp add: unat_diff [OF le])
  have ok': "stack_ok ?s"
    using ok np le d mapped_dom [OF store64_dom [OF m]]
    by (simp add: stack_ok_def)
  have "stk s = stk (?s\<lparr>sp := sp ?s + 8\<rparr>)"
    unfolding stk_def
    using load64_store_other [OF m [unfolded store64_def], simplified] slots_disjoint [OF ok]
    by (auto simp: depth_def)
  then have stk': "stk ?s = w # stk s"
    using stk_Cons_iff [OF ok'] load64_store64_same [OF m] d by (simp add: depth_def)
  have "unat (sp s) - unat (stack s) = Suc (Suc (Suc (Suc (Suc (Suc (Suc (Suc
      (unat (sp s - 8) - unat (stack s)))))))))"
    using np u by (simp add: word_less_nat_alt)
  then have rm: "room s = Suc (room ?s)" by (simp add: room_def)
  have "frame ?s = frame s"
  proof -
    have "m x = mem s x" if "\<not> in_stack s x" for x
      using store64_get [OF m, of x] in_stack_push_slot [OF ok r, of x] that by auto
    then have "m |` {x. \<not> in_stack s x} = mem s |` {x. \<not> in_stack s x}"
      by (auto simp: restrict_map_def)
    then show ?thesis by (simp add: frame_def in_stack_def)
  qed
  then show ?thesis using push ok' stk' rm by blast
qed

text \<open>When the stack is full, \<open>push\<close> answers false and changes nothing.\<close>

lemma push_full:
  assumes "stack_ok s" and "room s = 0"
  shows "push w s = Some (False, s)"
  using room_pos_iff [OF assms(1)] assms(2) by (simp add: push_def)

subsection \<open>The interface of the instructions\<close>

text \<open>
  What an instruction relies on: a push adds a word while there is room, a pop takes the word on
  top, and neither touches anything else (\<open>keep\<close>). The lemmas are the shapes the instructions
  have: one operand, two operands, an operand examined or dropped.
\<close>

locale word_stack =
  fixes inv :: "'s \<Rightarrow> bool"
    and view :: "'s \<Rightarrow> WORD list"
    and free_slots :: "'s \<Rightarrow> nat"
    and keep :: "'s \<Rightarrow> 'f"
    and psh :: "WORD \<Rightarrow> 's \<Rightarrow> 's option"
    and pp :: "'s \<Rightarrow> (WORD \<times> 's) option"
  assumes psh_ok: "inv s \<Longrightarrow> 0 < free_slots s \<Longrightarrow>
      \<exists>s'. psh w s = Some s' \<and> inv s' \<and> view s' = w # view s \<and>
        free_slots s = Suc (free_slots s') \<and> keep s' = keep s"
    and pp_ok: "inv s \<Longrightarrow> view s = w # ws \<Longrightarrow>
      \<exists>s'. pp s = Some (w, s') \<and> inv s' \<and> view s' = ws \<and>
        free_slots s' = Suc (free_slots s) \<and> keep s' = keep s"
begin

lemma unop:
  assumes "inv s" and "view s = a # ws"
  shows "\<exists>s'. do { (x, s) \<leftarrow> pp s; psh (f x) s } = Some s' \<and> inv s' \<and>
    view s' = f a # ws \<and> free_slots s' = free_slots s \<and> keep s' = keep s"
proof -
  obtain s1 where s1: "pp s = Some (a, s1)" "inv s1" "view s1 = ws"
      "free_slots s1 = Suc (free_slots s)" "keep s1 = keep s"
    using pp_ok [OF assms] by blast
  then obtain s2 where "psh (f a) s1 = Some s2" "inv s2" "view s2 = f a # view s1"
      "free_slots s1 = Suc (free_slots s2)" "keep s2 = keep s1"
    using psh_ok [of s1 "f a"] by auto
  with s1 show ?thesis by auto
qed

lemma pop2:
  assumes "inv s" and "view s = b # a # ws"
  shows "\<exists>s'. do { (y, s) \<leftarrow> pp s; (x, s) \<leftarrow> pp s; Some (y, x, s) } = Some (b, a, s') \<and>
    inv s' \<and> view s' = ws \<and> free_slots s' = Suc (Suc (free_slots s)) \<and> keep s' = keep s"
proof -
  obtain s1 where s1: "pp s = Some (b, s1)" "inv s1" "view s1 = a # ws"
      "free_slots s1 = Suc (free_slots s)" "keep s1 = keep s"
    using pp_ok [OF assms] by blast
  then obtain s2 where "pp s1 = Some (a, s2)" "inv s2" "view s2 = ws"
      "free_slots s2 = Suc (free_slots s1)" "keep s2 = keep s1"
    using pp_ok [of s1 a ws] by auto
  with s1 show ?thesis by auto
qed

lemma binop:
  assumes "inv s" and "view s = b # a # ws"
  shows "\<exists>s'. do { (y, s) \<leftarrow> pp s; (x, s) \<leftarrow> pp s; psh (f x y) s } = Some s' \<and> inv s' \<and>
    view s' = f a b # ws \<and> free_slots s' = Suc (free_slots s) \<and> keep s' = keep s"
proof -
  obtain s1 where s1: "pp s = Some (b, s1)" "inv s1" "view s1 = a # ws"
      "free_slots s1 = Suc (free_slots s)" "keep s1 = keep s"
    using pp_ok [OF assms] by blast
  moreover obtain s2 where s2: "do { (x, s) \<leftarrow> pp s1; psh (f x b) s } = Some s2" "inv s2"
      "view s2 = f a b # ws" "free_slots s2 = free_slots s1" "keep s2 = keep s1"
    using unop [of s1 a ws "\<lambda>x. f x b"] s1 by auto
  ultimately show ?thesis by auto
qed

lemma swap_top:
  assumes "inv s" and "view s = b # a # ws"
  shows "\<exists>s'. do { (y, s) \<leftarrow> pp s; (x, s) \<leftarrow> pp s; s \<leftarrow> psh y s; psh x s } = Some s' \<and> inv s' \<and>
    view s' = a # b # ws \<and> free_slots s' = free_slots s \<and> keep s' = keep s"
proof -
  obtain s1 where s1: "do { (y, s) \<leftarrow> pp s; (x, s) \<leftarrow> pp s; Some (y, x, s) } = Some (b, a, s1)"
      "inv s1" "view s1 = ws" "free_slots s1 = Suc (Suc (free_slots s))" "keep s1 = keep s"
    using pop2 [OF assms] by blast
  moreover obtain s2 where s2: "psh b s1 = Some s2" "inv s2" "view s2 = b # ws"
      "free_slots s1 = Suc (free_slots s2)" "keep s2 = keep s1"
    using psh_ok [of s1 b] s1 by auto
  moreover obtain s3 where "psh a s2 = Some s3" "inv s3" "view s3 = a # b # ws"
      "free_slots s2 = Suc (free_slots s3)" "keep s3 = keep s2"
    using psh_ok [of s2 a] s1 s2 by auto
  ultimately show ?thesis by (auto split: bind_splits)
qed

end

interpretation vm_stack: word_stack stack_ok stk room frame pushv pop
  by unfold_locales (simp_all add: push_law pop_law)

end
