(* ===== verification/Variants.thy ===== *)
theory Variants
  imports Byte_Memory
begin

section \<open>Variants: \<open>class Variant\<close> and the \<open>var\<close> arithmetic\<close>

text \<open>
  A \<open>Variant\<close> (runtime.h) is 16 bytes in memory: the \<open>_kind\<close> pointer, then the 8-byte \<open>_value\<close>
  union. The interpreter works on variants in place, on its stack; these are the operations of
  the class and the \<open>varCompare\<close> to \<open>varXor\<close> functions of runtime.cc, on addresses. The code
  treats every value as its \<open>integer\<close> member.
\<close>

definition VARIANT_SIZE :: WORD where "VARIANT_SIZE = 16"

definition variant_kind :: "memory \<Rightarrow> WORD \<Rightarrow> WORD option" where
  "variant_kind m v = load64 m v"

definition variant_asLong :: "memory \<Rightarrow> WORD \<Rightarrow> WORD option" where
  "variant_asLong m v = load64 m (v + 8)"

definition variant_setKind :: "memory \<Rightarrow> WORD \<Rightarrow> WORD \<Rightarrow> memory option" where
  "variant_setKind m v k = store64 m v k"

definition variant_setLong :: "memory \<Rightarrow> WORD \<Rightarrow> WORD \<Rightarrow> memory option" where
  "variant_setLong m v x = store64 m (v + 8) x"

definition variant_equals :: "memory \<Rightarrow> WORD \<Rightarrow> WORD \<Rightarrow> bool option" where
  "variant_equals m v other = do {
     k \<leftarrow> variant_kind m v;
     k' \<leftarrow> variant_kind m other;
     if k \<noteq> k' then Some False
     else do {
       x \<leftarrow> variant_asLong m v;
       y \<leftarrow> variant_asLong m other;
       Some (x = y) } }"

definition variant_clear :: "memory \<Rightarrow> WORD \<Rightarrow> memory option" where
  "variant_clear m v = do { m \<leftarrow> variant_setKind m v 0; variant_setLong m v 0 }"

definition variant_init :: "memory \<Rightarrow> WORD \<Rightarrow> WORD \<Rightarrow> memory option" where
  "variant_init m v source = do {
     k \<leftarrow> variant_kind m source;
     m \<leftarrow> variant_setKind m v k;
     x \<leftarrow> variant_asLong m source;
     variant_setLong m v x }"

text \<open>\<open>operator=\<close> clears its target first, without a test for self-assignment.\<close>

definition variant_assign :: "memory \<Rightarrow> WORD \<Rightarrow> WORD \<Rightarrow> memory option" where
  "variant_assign m v source = do { m \<leftarrow> variant_clear m v; variant_init m v source }"

definition INT_MIN :: int32 where "INT_MIN = 0x80000000"

definition varCompare :: "memory \<Rightarrow> WORD \<Rightarrow> WORD \<Rightarrow> int32 option" where
  "varCompare m left right = do {
     k \<leftarrow> variant_kind m left;
     k' \<leftarrow> variant_kind m right;
     if k \<noteq> k' then Some INT_MIN
     else do {
       x \<leftarrow> variant_asLong m left;
       y \<leftarrow> variant_asLong m right;
       let diff = x - y;
       Some (if sint diff < 0 then - 1 else if 0 < sint diff then 1 else 0) } }"

text \<open>The arithmetic functions store their result in the left operand, whose kind stays.\<close>

definition var_arith :: "(WORD \<Rightarrow> WORD \<Rightarrow> WORD option) \<Rightarrow> memory \<Rightarrow> WORD \<Rightarrow> WORD \<Rightarrow> memory option" where
  "var_arith f m left right = do {
     x \<leftarrow> variant_asLong m left;
     y \<leftarrow> variant_asLong m right;
     val \<leftarrow> f x y;
     variant_setLong m left val }"

definition varAdd :: "memory \<Rightarrow> WORD \<Rightarrow> WORD \<Rightarrow> memory option" where
  "varAdd = var_arith (\<lambda>x y. Some (x + y))"

definition varSub :: "memory \<Rightarrow> WORD \<Rightarrow> WORD \<Rightarrow> memory option" where
  "varSub = var_arith (\<lambda>x y. Some (x - y))"

definition varMul :: "memory \<Rightarrow> WORD \<Rightarrow> WORD \<Rightarrow> memory option" where
  "varMul = var_arith (\<lambda>x y. Some (x * y))"

definition varDiv :: "memory \<Rightarrow> WORD \<Rightarrow> WORD \<Rightarrow> memory option" where
  "varDiv = var_arith c_div"

definition varRem :: "memory \<Rightarrow> WORD \<Rightarrow> WORD \<Rightarrow> memory option" where
  "varRem = var_arith c_rem"

definition varRsh :: "memory \<Rightarrow> WORD \<Rightarrow> WORD \<Rightarrow> memory option" where
  "varRsh = var_arith (\<lambda>x y. Some (c_sar x y))"

definition varLsh :: "memory \<Rightarrow> WORD \<Rightarrow> WORD \<Rightarrow> memory option" where
  "varLsh = var_arith (\<lambda>x y. Some (c_shl x y))"

definition varUrs :: "memory \<Rightarrow> WORD \<Rightarrow> WORD \<Rightarrow> memory option" where
  "varUrs = var_arith (\<lambda>x y. Some (c_shr x y))"

definition varAnd :: "memory \<Rightarrow> WORD \<Rightarrow> WORD \<Rightarrow> memory option" where
  "varAnd = var_arith (\<lambda>x y. Some (x AND y))"

definition varOr :: "memory \<Rightarrow> WORD \<Rightarrow> WORD \<Rightarrow> memory option" where
  "varOr = var_arith (\<lambda>x y. Some (x OR y))"

definition varXor :: "memory \<Rightarrow> WORD \<Rightarrow> WORD \<Rightarrow> memory option" where
  "varXor = var_arith (\<lambda>x y. Some (x XOR y))"

text \<open>\<open>varInvoke\<close> does nothing yet and answers null.\<close>

definition varInvoke :: "int32 \<Rightarrow> int32 \<Rightarrow> WORD" where
  "varInvoke methodName object = 0"

end
