(* ===== verification/Builtins.thy ===== *)
theory Builtins
  imports Machine
begin

section \<open>The built-in functions\<close>

text \<open>
  \<open>builtInFunctionMap\<close> (runtime.cc) and the built-in functions that a byte code program calls by
  their index in it. A function of the C library or of Windows that only moves data in and out
  of the process (files, the clock, native code) is \<open>External\<close>: a parameter of the model. The
  functions that act on the virtual machine itself are defined here.
\<close>

datatype native =
    N_builtInPrint | N_builtInAssert | N_allocz | N_free | N_fMemcpy | N_fMemset | N_exit
  | N_builtInFunctionArguments | N_builtInFunctionReturns | N_injectObjects | N_eval | N_setTrace
  | N_fetchSnapshot | N_supportedTarget | N_exposeException | N_runningTarget
  | N_pExceptionContext | External string | Null_function

record builtin_entry =
  bf_name :: "string option"
  bf_func :: native
  bf_args :: int
  bf_returns :: int
  bf_domain :: "string option"

definition bi :: "string \<Rightarrow> native \<Rightarrow> int \<Rightarrow> int \<Rightarrow> string option \<Rightarrow> builtin_entry" where
  "bi n f a r d = \<lparr>bf_name = Some n, bf_func = f, bf_args = a, bf_returns = r, bf_domain = d\<rparr>"

definition builtInFunctionMap :: "builtin_entry list" where
  "builtInFunctionMap =
    [bi ''print'' N_builtInPrint 1 1 None,
     bi ''assert'' N_builtInAssert 1 0 None,
     bi ''allocz'' N_allocz 1 1 None,
     bi ''free'' N_free 1 0 None,
     bi ''memcpy'' N_fMemcpy 3 1 None,
     bi ''memset'' N_fMemset 3 1 None,
     bi ''fopen'' (External ''builtInfopen'') 2 1 (Some ''native''),
     bi ''fclose'' (External ''fclose'') 1 1 (Some ''native''),
     bi ''ftell'' (External ''ftell'') 1 1 (Some ''native''),
     bi ''fseek'' (External ''builtinFseek'') 3 1 (Some ''native''),
     bi ''fgetc'' (External ''fgetc'') 1 1 (Some ''native''),
     bi ''fread'' (External ''builtinFread'') 4 1 (Some ''native''),
     bi ''fwrite'' (External ''fwrite'') 4 1 (Some ''native''),
     bi ''ferror'' (External ''ferror'') 1 1 (Some ''native''),
     bi ''exit'' N_exit 1 1 (Some ''native''),
     bi ''getenv'' (External ''getenv'') 1 1 (Some ''native''),
     bi ''GetModuleFileName'' (External ''pGetModuleFileName'') 3 1 (Some ''native''),
     bi ''GetFullPathName'' (External ''pGetFullPathName'') 4 1 (Some ''native''),
     bi ''FindFirstFile'' (External ''pFindFirstFile'') 2 1 (Some ''native''),
     bi ''FindNextFile'' (External ''pFindNextFile'') 2 1 (Some ''native''),
     bi ''FindClose'' (External ''pFindClose'') 1 1 (Some ''native''),
     bi ''builtInFunctionName'' (External ''builtInFunctionName'') 1 1 (Some ''parasol''),
     bi ''builtInFunctionDomain'' (External ''builtInFunctionDomain'') 1 1 (Some ''parasol''),
     bi ''builtInFunctionAddress'' (External ''builtInFunctionAddress'') 1 1 (Some ''parasol''),
     bi ''builtInFunctionArguments'' N_builtInFunctionArguments 1 1 (Some ''parasol''),
     bi ''builtInFunctionReturns'' N_builtInFunctionReturns 1 1 (Some ''parasol''),
     bi ''debugSpawnImpl'' (External ''processDebugSpawn'') 3 1 (Some ''parasol''),
     bi ''disposeOfPayload'' (External ''disposeOfPayload'') 1 0 (Some ''parasol''),
     bi ''injectObjects'' N_injectObjects 2 1 (Some ''parasol''),
     bi ''eval'' N_eval 4 1 (Some ''parasol''),
     bi ''setTrace'' N_setTrace 1 1 (Some ''parasol''),
     bi ''fetchSnapshot'' N_fetchSnapshot 2 0 (Some ''parasol''),
     bi ''supportedTarget'' N_supportedTarget 1 1 (Some ''parasol''),
     bi ''now'' (External ''now'') 0 1 (Some ''parasol''),
     bi ''exit'' N_exit 1 1 (Some ''parasol''),
     bi ''evalNative'' (External ''evalNative'') 4 1 (Some ''parasol''),
     bi ''VirtualAlloc'' (External ''builtinVirtualAlloc'') 4 1 (Some ''native''),
     bi ''VirtualProtect'' (External ''builtinVirtualProtect'') 4 1 (Some ''native''),
     bi ''GetLastError'' (External ''builtinGetLastError'') 0 1 (Some ''native''),
     bi ''exposeException'' N_exposeException 1 1 None,
     bi ''_now'' (External ''now'') 0 1 (Some ''parasol''),
     bi ''FormatMessage'' (External ''formatMessage'') 1 1 (Some ''native''),
     bi ''runningTarget'' N_runningTarget 0 1 (Some ''parasol''),
     bi ''exceptionContext'' N_pExceptionContext 1 1 (Some ''parasol''),
     bi ''strtod'' (External ''strtod'') 2 1 (Some ''strtod''),
     \<lparr>bf_name = None, bf_func = Null_function, bf_args = 0, bf_returns = 0, bf_domain = None\<rparr>]"

text \<open>\<open>builtInFunctionMap[i]\<close>, unchecked: \<open>None\<close> is a read outside the table.\<close>

definition builtin_at :: "int32 \<Rightarrow> builtin_entry option" where
  "builtin_at i =
     (if 0 \<le> sint i \<and> nat (sint i) < length builtInFunctionMap
      then Some (builtInFunctionMap ! nat (sint i)) else None)"

text \<open>\<open>builtInFunctionName\<close> compares the index with a \<open>size_t\<close>, so a negative one is large. The
  outer option is the read of the table, the inner one the null pointer.\<close>

definition builtInFunctionName :: "int32 \<Rightarrow> string option option" where
  "builtInFunctionName i =
     (if unat (of_int32 i) < length builtInFunctionMap
      then map_option bf_name (builtin_at i) else Some None)"

definition builtInFunctionDomain :: "int32 \<Rightarrow> string option option" where
  "builtInFunctionDomain i = map_option bf_domain (builtin_at i)"

definition builtInFunctionAddress :: "int32 \<Rightarrow> native option" where
  "builtInFunctionAddress i = map_option bf_func (builtin_at i)"

definition builtInFunctionArguments :: "int32 \<Rightarrow> int option" where
  "builtInFunctionArguments i = map_option bf_args (builtin_at i)"

definition builtInFunctionReturns :: "int32 \<Rightarrow> int option" where
  "builtInFunctionReturns i = map_option bf_returns (builtin_at i)"

definition supportedTarget :: "int32 \<Rightarrow> int" where
  "supportedTarget index = (if index = 0 then 3 else if index = 1 then 2 else - 1)"

definition runningTarget :: "vm \<Rightarrow> int" where
  "runningTarget s =
     (if target s = BYTE_CODE_TARGET then 2
      else if target s = NATIVE_64_TARGET then 3 else - 1)"

subsection \<open>Outcomes of a run and of a call\<close>

text \<open>
  A run of the interpreter returns a bool and the context, or faults, or ends the process
  (\<open>exit\<close>), or leaves for the native exception handlers, or uses up its fuel. A call of a
  built-in function returns a WORD in the result register; a function whose C type is \<open>int\<close>
  sets its low half only, and the high half (\<open>os_high\<close>) is whatever it was.
\<close>

datatype run_result = Done bool vm | Faulted | Exited int32 | NativeThrow | OutOfFuel

datatype call_result = CRet WORD vm | CExit int32 | CNativeThrow | COutOfFuel

record os = allocator +
  os_high :: int32
  os_args_array :: WORD
  os_call :: "string \<Rightarrow> WORD list \<Rightarrow> vm \<Rightarrow> (WORD \<times> vm) option"

definition ret_int :: "os \<Rightarrow> int32 \<Rightarrow> vm \<Rightarrow> call_result option" where
  "ret_int os r s = Some (CRet (push_bit 32 (ucast (os_high os)) OR ucast r) s)"

subsection \<open>The functions\<close>

text \<open>\<open>builtInPrint\<close>: the argument is a Parasol string, null or the address of its length and
  characters, which go to the standard output one by one.\<close>

definition builtInPrint :: "os \<Rightarrow> WORD \<Rightarrow> vm \<Rightarrow> call_result option" where
  "builtInPrint os contents s =
     (if contents = 0 then ret_int os 0 s
      else do {
        len \<leftarrow> load32 (mem s) contents;
        let n = nat (sint len);
        bs \<leftarrow> load_bytes (mem s) (contents + 4) n;
        ret_int os (of_nat n) (s\<lparr>vm_out := map_option (\<lambda>out. out @ bs) (vm_out s)\<rparr>) })"

definition builtInAssert :: "os \<Rightarrow> int32 \<Rightarrow> vm \<Rightarrow> call_result option" where
  "builtInAssert os booleanValue s =
     (if booleanValue AND 0xff = 0 then
        if target s = BYTE_CODE_TARGET then ret_int os 0 (halt (s\<lparr>vm_out := None\<rparr>))
        else if target s = NATIVE_64_TARGET then Some CNativeThrow
        else Some (CExit 1)
      else ret_int os 0 s)"

definition allocz :: "os \<Rightarrow> WORD \<Rightarrow> vm \<Rightarrow> call_result option" where
  "allocz os sz s =
     (let (p, s) = c_malloc (allocator.truncate os) (unat sz) s in
      if p = 0 then Some (CRet 0 s)
      else do {
        m \<leftarrow> memset (mem s) p 0 (unat sz);
        Some (CRet p (s\<lparr>mem := m\<rparr>)) })"

definition fMemcpy :: "WORD \<Rightarrow> WORD \<Rightarrow> WORD \<Rightarrow> vm \<Rightarrow> call_result option" where
  "fMemcpy dest src len s = do {
     m \<leftarrow> memcpy (mem s) dest src (unat len);
     Some (CRet dest (s\<lparr>mem := m\<rparr>)) }"

definition fMemset :: "WORD \<Rightarrow> byte \<Rightarrow> WORD \<Rightarrow> vm \<Rightarrow> call_result option" where
  "fMemset dest c len s = do {
     m \<leftarrow> memset (mem s) dest c (unat len);
     Some (CRet dest (s\<lparr>mem := m\<rparr>)) }"

definition setTrace :: "int32 \<Rightarrow> vm \<Rightarrow> int32 \<times> vm" where
  "setTrace newValue s =
     ((if vm_trace s then 1 else 0), s\<lparr>vm_trace := (newValue \<noteq> 0), vm_out := (if newValue = 0 then vm_out s else None)\<rparr>)"

text \<open>A C string: the bytes before the first zero, reading at most \<open>n\<close> of them; a string that
  does not end within the whole address space faults.\<close>

fun load_cstring :: "memory \<Rightarrow> WORD \<Rightarrow> nat \<Rightarrow> string option" where
  "load_cstring m a 0 = None"
| "load_cstring m a (Suc n) = do {
     b \<leftarrow> m a;
     if b = 0 then Some []
     else do { cs \<leftarrow> load_cstring m (a + 1) n; Some (char_of (unat b) # cs) } }"

fun load_argv :: "memory \<Rightarrow> WORD \<Rightarrow> nat \<Rightarrow> string list option" where
  "load_argv m argv 0 = Some []"
| "load_argv m argv (Suc n) = do {
     p \<leftarrow> load64 m argv;
     a \<leftarrow> load_cstring m p (2 ^ 64);
     as \<leftarrow> load_argv m (argv + 8) n;
     Some (a # as) }"

text \<open>The six pointers of the exception information.\<close>

fun store_words :: "memory \<Rightarrow> WORD \<Rightarrow> WORD list \<Rightarrow> memory option" where
  "store_words m a [] = Some m"
| "store_words m a (w # ws) = do { m \<leftarrow> store64 m a w; store_words m (a + 8) ws }"

text \<open>\<open>eval\<close> runs a function object in the same context on top of the current stack: \<open>ev\<close> is
  \<open>ExecutionContext::run(int objectId)\<close>.\<close>

definition eval :: "os \<Rightarrow> (int32 \<Rightarrow> vm \<Rightarrow> run_result) \<Rightarrow> int32 \<Rightarrow> WORD \<Rightarrow> int32 \<Rightarrow> WORD \<Rightarrow> vm
    \<Rightarrow> call_result option" where
  "eval os ev startObject argv argc exceptionInfo s = do {
     args \<leftarrow> load_argv (mem s) argv (nat (sint argc));
     let (outer, s) = unloadFrame s;
     s \<leftarrow> push_args (os_args_array os) args s;
     (case ev startObject s of
        Done True s \<Rightarrow> do {
          (result, s) \<leftarrow> pop s;
          ret_int os (to_int result) (reloadFrame outer s) }
      | Done False s \<Rightarrow> do {
          s \<leftarrow> snapshot (ss_sp outer) (s\<lparr>vm_out := None\<rparr>);
          let (exceptionState, s) = unloadFrame s;
          m \<leftarrow> store_words (mem s) exceptionInfo
            [fr_code (ss_frame exceptionState), of_int32 (lastIp s),
             fr_fp (ss_frame exceptionState), ss_sp exceptionState, ss_stack exceptionState,
             ss_sp outer];
          ret_int os 0x80000000 (reloadFrame outer (s\<lparr>mem := m\<rparr>)) }
      | Faulted \<Rightarrow> None
      | Exited c \<Rightarrow> Some (CExit c)
      | NativeThrow \<Rightarrow> Some CNativeThrow
      | OutOfFuel \<Rightarrow> Some COutOfFuel) }"

text \<open>A call through the function pointer of a table entry, with the words of its arguments.\<close>

definition call_native :: "os \<Rightarrow> (int32 \<Rightarrow> vm \<Rightarrow> run_result) \<Rightarrow> native \<Rightarrow> WORD list \<Rightarrow> vm
    \<Rightarrow> call_result option" where
  "call_native os ev f as s =
     (case f of
        N_builtInPrint \<Rightarrow> builtInPrint os (as ! 0) s
      | N_builtInAssert \<Rightarrow> builtInAssert os (to_int (as ! 0)) s
      | N_allocz \<Rightarrow> allocz os (as ! 0) s
      | N_free \<Rightarrow> map_option (CRet (as ! 0)) (c_free (as ! 0) s)
      | N_fMemcpy \<Rightarrow> fMemcpy (as ! 0) (as ! 1) (as ! 2) s
      | N_fMemset \<Rightarrow> fMemset (as ! 0) (ucast (as ! 1)) (as ! 2) s
      | N_exit \<Rightarrow> Some (CExit (to_int (as ! 0)))
      | N_builtInFunctionArguments \<Rightarrow> do {
          r \<leftarrow> builtInFunctionArguments (to_int (as ! 0)); ret_int os (word_of_int r) s }
      | N_builtInFunctionReturns \<Rightarrow> do {
          r \<leftarrow> builtInFunctionReturns (to_int (as ! 0)); ret_int os (word_of_int r) s }
      | N_injectObjects \<Rightarrow> do {
          (r, s) \<leftarrow> injectObjects (as ! 0) (to_int (as ! 1)) s; ret_int os (word_of_int r) s }
      | N_eval \<Rightarrow> eval os ev (to_int (as ! 0)) (as ! 1) (to_int (as ! 2)) (as ! 3) s
      | N_setTrace \<Rightarrow> (let (r, s) = setTrace (to_int (as ! 0)) s in ret_int os r s)
      | N_fetchSnapshot \<Rightarrow> map_option (CRet (as ! 0)) (fetchSnapshot (as ! 0) (to_int (as ! 1)) s)
      | N_supportedTarget \<Rightarrow> ret_int os (word_of_int (supportedTarget (to_int (as ! 0)))) s
      | N_exposeException \<Rightarrow> ret_int os 0 s
      | N_runningTarget \<Rightarrow> ret_int os (word_of_int (runningTarget s)) s
      | N_pExceptionContext \<Rightarrow>
          (let (r, s) = set_exceptionContext (as ! 0) s in Some (CRet r s))
      | External n \<Rightarrow> map_option (\<lambda>(r, s). CRet r s) (os_call os n as s)
      | Null_function \<Rightarrow> None)"

end
