(* ===== verification/Opcodes.thy ===== *)
theory Opcodes
  imports Prelude
begin

section \<open>The byte codes: \<open>enum ByteCodes\<close> and \<open>ByteCodeMap\<close>\<close>

text \<open>
  parasol_enums.h numbers the byte codes of the virtual machine from 0 in the order of its
  \<open>enum\<close>; \<open>ExecutionContext::run\<close> and \<open>disassemble\<close> switch on the number read from the code.
  A byte code is its number here too, under the enumerator's name.
\<close>

definition ByteCodes :: "string list" where
  "ByteCodes =
  [''B_ILLEGAL'', ''B_INT'', ''B_LONG'', ''B_STRING'', ''B_CALL'', ''B_ICALL'', ''B_VCALL'',
   ''B_XCALL'', ''B_LDTR'', ''B_INVOKE'', ''B_CHKSTK'', ''B_SP'', ''B_LOCALS'', ''B_VARG'',
   ''B_VARG1'', ''B_POP'', ''B_POPN'', ''B_DUP'', ''B_SWAP'', ''B_RET'', ''B_RET1'',
   ''B_RETN'', ''B_STSA'', ''B_LDSA'', ''B_STSB'', ''B_LDSB'', ''B_STSC'', ''B_LDSC'',
   ''B_STSI'', ''B_LDSI'', ''B_LDSU'', ''B_STSO'', ''B_STSS'', ''B_LDSS'', ''B_STAA'',
   ''B_LDAA'', ''B_STAB'', ''B_LDAB'', ''B_LDAC'', ''B_STAI'', ''B_LDAI'', ''B_LDAU'',
   ''B_LDAO'', ''B_STAO'', ''B_STAS'', ''B_LDAS'', ''B_STAV'', ''B_STVA'', ''B_STVB'',
   ''B_STVI'', ''B_STVO'', ''B_STVS'', ''B_STVV'', ''B_LDPA'', ''B_STPA'', ''B_LDPB'',
   ''B_STPB'', ''B_LDPC'', ''B_LDPI'', ''B_LDPL'', ''B_LDPU'', ''B_STPI'', ''B_STPL'',
   ''B_LDPO'', ''B_STPO'', ''B_STPS'', ''B_LDPS'', ''B_LDIA'', ''B_STIA'', ''B_POPIA'',
   ''B_LDIB'', ''B_STIB'', ''B_LDIC'', ''B_STIC'', ''B_LDII'', ''B_STII'', ''B_LDIL'',
   ''B_STIL'', ''B_LDIU'', ''B_LDIO'', ''B_STIO'', ''B_LDIV'', ''B_STIV'', ''B_MUL'',
   ''B_DIV'', ''B_REM'', ''B_ADD'', ''B_SUB'', ''B_LSH'', ''B_RSH'', ''B_URS'', ''B_OR'',
   ''B_AND'', ''B_XOR'', ''B_NOT'', ''B_NEG'', ''B_BCM'', ''B_MULV'', ''B_DIVV'', ''B_REMV'',
   ''B_ADDV'', ''B_SUBV'', ''B_LSHV'', ''B_RSHV'', ''B_URSV'', ''B_ORV'', ''B_ANDV'',
   ''B_XORV'', ''B_EQI'', ''B_NEI'', ''B_GTI'', ''B_GEI'', ''B_LTI'', ''B_LEI'', ''B_GTU'',
   ''B_GEU'', ''B_LTU'', ''B_LEU'', ''B_EQL'', ''B_NEL'', ''B_GTL'', ''B_GEL'', ''B_LTL'',
   ''B_LEL'', ''B_GTA'', ''B_GEA'', ''B_LTA'', ''B_LEA'', ''B_EQV'', ''B_NEV'', ''B_GTV'',
   ''B_GEV'', ''B_LTV'', ''B_LEV'', ''B_LGV'', ''B_NGV'', ''B_NGEV'', ''B_NLV'', ''B_NLEV'',
   ''B_NLGV'', ''B_CVTBI'', ''B_CVTCI'', ''B_CVTIL'', ''B_CVTUL'', ''B_CVTIV'', ''B_CVTLV'',
   ''B_CVTSV'', ''B_CVTAV'', ''B_CVTVI'', ''B_CVTVS'', ''B_CVTVA'', ''B_SWITCHI'',
   ''B_SWITCHE'', ''B_JMP'', ''B_JZ'', ''B_JNZ'', ''B_NEW'', ''B_DELETE'', ''B_THROW'',
   ''B_ADDR'', ''B_ZERO_A'', ''B_ZERO_I'', ''B_AUTO'', ''B_AVARG'', ''B_PARAMS'',
   ''B_ASTRING'', ''B_VALUE'', ''B_CHAR_AT'', ''B_CLASSV'', ''B_string'', ''B_MAX_BYTECODE'']"

abbreviation (input) B_ILLEGAL :: nat where "B_ILLEGAL \<equiv> 0"
abbreviation (input) B_INT :: nat where "B_INT \<equiv> 1"
abbreviation (input) B_LONG :: nat where "B_LONG \<equiv> 2"
abbreviation (input) B_STRING :: nat where "B_STRING \<equiv> 3"
abbreviation (input) B_CALL :: nat where "B_CALL \<equiv> 4"
abbreviation (input) B_ICALL :: nat where "B_ICALL \<equiv> 5"
abbreviation (input) B_VCALL :: nat where "B_VCALL \<equiv> 6"
abbreviation (input) B_XCALL :: nat where "B_XCALL \<equiv> 7"
abbreviation (input) B_LDTR :: nat where "B_LDTR \<equiv> 8"
abbreviation (input) B_INVOKE :: nat where "B_INVOKE \<equiv> 9"
abbreviation (input) B_CHKSTK :: nat where "B_CHKSTK \<equiv> 10"
abbreviation (input) B_SP :: nat where "B_SP \<equiv> 11"
abbreviation (input) B_LOCALS :: nat where "B_LOCALS \<equiv> 12"
abbreviation (input) B_VARG :: nat where "B_VARG \<equiv> 13"
abbreviation (input) B_VARG1 :: nat where "B_VARG1 \<equiv> 14"
abbreviation (input) B_POP :: nat where "B_POP \<equiv> 15"
abbreviation (input) B_POPN :: nat where "B_POPN \<equiv> 16"
abbreviation (input) B_DUP :: nat where "B_DUP \<equiv> 17"
abbreviation (input) B_SWAP :: nat where "B_SWAP \<equiv> 18"
abbreviation (input) B_RET :: nat where "B_RET \<equiv> 19"
abbreviation (input) B_RET1 :: nat where "B_RET1 \<equiv> 20"
abbreviation (input) B_RETN :: nat where "B_RETN \<equiv> 21"
abbreviation (input) B_STSA :: nat where "B_STSA \<equiv> 22"
abbreviation (input) B_LDSA :: nat where "B_LDSA \<equiv> 23"
abbreviation (input) B_STSB :: nat where "B_STSB \<equiv> 24"
abbreviation (input) B_LDSB :: nat where "B_LDSB \<equiv> 25"
abbreviation (input) B_STSC :: nat where "B_STSC \<equiv> 26"
abbreviation (input) B_LDSC :: nat where "B_LDSC \<equiv> 27"
abbreviation (input) B_STSI :: nat where "B_STSI \<equiv> 28"
abbreviation (input) B_LDSI :: nat where "B_LDSI \<equiv> 29"
abbreviation (input) B_LDSU :: nat where "B_LDSU \<equiv> 30"
abbreviation (input) B_STSO :: nat where "B_STSO \<equiv> 31"
abbreviation (input) B_STSS :: nat where "B_STSS \<equiv> 32"
abbreviation (input) B_LDSS :: nat where "B_LDSS \<equiv> 33"
abbreviation (input) B_STAA :: nat where "B_STAA \<equiv> 34"
abbreviation (input) B_LDAA :: nat where "B_LDAA \<equiv> 35"
abbreviation (input) B_STAB :: nat where "B_STAB \<equiv> 36"
abbreviation (input) B_LDAB :: nat where "B_LDAB \<equiv> 37"
abbreviation (input) B_LDAC :: nat where "B_LDAC \<equiv> 38"
abbreviation (input) B_STAI :: nat where "B_STAI \<equiv> 39"
abbreviation (input) B_LDAI :: nat where "B_LDAI \<equiv> 40"
abbreviation (input) B_LDAU :: nat where "B_LDAU \<equiv> 41"
abbreviation (input) B_LDAO :: nat where "B_LDAO \<equiv> 42"
abbreviation (input) B_STAO :: nat where "B_STAO \<equiv> 43"
abbreviation (input) B_STAS :: nat where "B_STAS \<equiv> 44"
abbreviation (input) B_LDAS :: nat where "B_LDAS \<equiv> 45"
abbreviation (input) B_STAV :: nat where "B_STAV \<equiv> 46"
abbreviation (input) B_STVA :: nat where "B_STVA \<equiv> 47"
abbreviation (input) B_STVB :: nat where "B_STVB \<equiv> 48"
abbreviation (input) B_STVI :: nat where "B_STVI \<equiv> 49"
abbreviation (input) B_STVO :: nat where "B_STVO \<equiv> 50"
abbreviation (input) B_STVS :: nat where "B_STVS \<equiv> 51"
abbreviation (input) B_STVV :: nat where "B_STVV \<equiv> 52"
abbreviation (input) B_LDPA :: nat where "B_LDPA \<equiv> 53"
abbreviation (input) B_STPA :: nat where "B_STPA \<equiv> 54"
abbreviation (input) B_LDPB :: nat where "B_LDPB \<equiv> 55"
abbreviation (input) B_STPB :: nat where "B_STPB \<equiv> 56"
abbreviation (input) B_LDPC :: nat where "B_LDPC \<equiv> 57"
abbreviation (input) B_LDPI :: nat where "B_LDPI \<equiv> 58"
abbreviation (input) B_LDPL :: nat where "B_LDPL \<equiv> 59"
abbreviation (input) B_LDPU :: nat where "B_LDPU \<equiv> 60"
abbreviation (input) B_STPI :: nat where "B_STPI \<equiv> 61"
abbreviation (input) B_STPL :: nat where "B_STPL \<equiv> 62"
abbreviation (input) B_LDPO :: nat where "B_LDPO \<equiv> 63"
abbreviation (input) B_STPO :: nat where "B_STPO \<equiv> 64"
abbreviation (input) B_STPS :: nat where "B_STPS \<equiv> 65"
abbreviation (input) B_LDPS :: nat where "B_LDPS \<equiv> 66"
abbreviation (input) B_LDIA :: nat where "B_LDIA \<equiv> 67"
abbreviation (input) B_STIA :: nat where "B_STIA \<equiv> 68"
abbreviation (input) B_POPIA :: nat where "B_POPIA \<equiv> 69"
abbreviation (input) B_LDIB :: nat where "B_LDIB \<equiv> 70"
abbreviation (input) B_STIB :: nat where "B_STIB \<equiv> 71"
abbreviation (input) B_LDIC :: nat where "B_LDIC \<equiv> 72"
abbreviation (input) B_STIC :: nat where "B_STIC \<equiv> 73"
abbreviation (input) B_LDII :: nat where "B_LDII \<equiv> 74"
abbreviation (input) B_STII :: nat where "B_STII \<equiv> 75"
abbreviation (input) B_LDIL :: nat where "B_LDIL \<equiv> 76"
abbreviation (input) B_STIL :: nat where "B_STIL \<equiv> 77"
abbreviation (input) B_LDIU :: nat where "B_LDIU \<equiv> 78"
abbreviation (input) B_LDIO :: nat where "B_LDIO \<equiv> 79"
abbreviation (input) B_STIO :: nat where "B_STIO \<equiv> 80"
abbreviation (input) B_LDIV :: nat where "B_LDIV \<equiv> 81"
abbreviation (input) B_STIV :: nat where "B_STIV \<equiv> 82"
abbreviation (input) B_MUL :: nat where "B_MUL \<equiv> 83"
abbreviation (input) B_DIV :: nat where "B_DIV \<equiv> 84"
abbreviation (input) B_REM :: nat where "B_REM \<equiv> 85"
abbreviation (input) B_ADD :: nat where "B_ADD \<equiv> 86"
abbreviation (input) B_SUB :: nat where "B_SUB \<equiv> 87"
abbreviation (input) B_LSH :: nat where "B_LSH \<equiv> 88"
abbreviation (input) B_RSH :: nat where "B_RSH \<equiv> 89"
abbreviation (input) B_URS :: nat where "B_URS \<equiv> 90"
abbreviation (input) B_OR :: nat where "B_OR \<equiv> 91"
abbreviation (input) B_AND :: nat where "B_AND \<equiv> 92"
abbreviation (input) B_XOR :: nat where "B_XOR \<equiv> 93"
abbreviation (input) B_NOT :: nat where "B_NOT \<equiv> 94"
abbreviation (input) B_NEG :: nat where "B_NEG \<equiv> 95"
abbreviation (input) B_BCM :: nat where "B_BCM \<equiv> 96"
abbreviation (input) B_MULV :: nat where "B_MULV \<equiv> 97"
abbreviation (input) B_DIVV :: nat where "B_DIVV \<equiv> 98"
abbreviation (input) B_REMV :: nat where "B_REMV \<equiv> 99"
abbreviation (input) B_ADDV :: nat where "B_ADDV \<equiv> 100"
abbreviation (input) B_SUBV :: nat where "B_SUBV \<equiv> 101"
abbreviation (input) B_LSHV :: nat where "B_LSHV \<equiv> 102"
abbreviation (input) B_RSHV :: nat where "B_RSHV \<equiv> 103"
abbreviation (input) B_URSV :: nat where "B_URSV \<equiv> 104"
abbreviation (input) B_ORV :: nat where "B_ORV \<equiv> 105"
abbreviation (input) B_ANDV :: nat where "B_ANDV \<equiv> 106"
abbreviation (input) B_XORV :: nat where "B_XORV \<equiv> 107"
abbreviation (input) B_EQI :: nat where "B_EQI \<equiv> 108"
abbreviation (input) B_NEI :: nat where "B_NEI \<equiv> 109"
abbreviation (input) B_GTI :: nat where "B_GTI \<equiv> 110"
abbreviation (input) B_GEI :: nat where "B_GEI \<equiv> 111"
abbreviation (input) B_LTI :: nat where "B_LTI \<equiv> 112"
abbreviation (input) B_LEI :: nat where "B_LEI \<equiv> 113"
abbreviation (input) B_GTU :: nat where "B_GTU \<equiv> 114"
abbreviation (input) B_GEU :: nat where "B_GEU \<equiv> 115"
abbreviation (input) B_LTU :: nat where "B_LTU \<equiv> 116"
abbreviation (input) B_LEU :: nat where "B_LEU \<equiv> 117"
abbreviation (input) B_EQL :: nat where "B_EQL \<equiv> 118"
abbreviation (input) B_NEL :: nat where "B_NEL \<equiv> 119"
abbreviation (input) B_GTL :: nat where "B_GTL \<equiv> 120"
abbreviation (input) B_GEL :: nat where "B_GEL \<equiv> 121"
abbreviation (input) B_LTL :: nat where "B_LTL \<equiv> 122"
abbreviation (input) B_LEL :: nat where "B_LEL \<equiv> 123"
abbreviation (input) B_GTA :: nat where "B_GTA \<equiv> 124"
abbreviation (input) B_GEA :: nat where "B_GEA \<equiv> 125"
abbreviation (input) B_LTA :: nat where "B_LTA \<equiv> 126"
abbreviation (input) B_LEA :: nat where "B_LEA \<equiv> 127"
abbreviation (input) B_EQV :: nat where "B_EQV \<equiv> 128"
abbreviation (input) B_NEV :: nat where "B_NEV \<equiv> 129"
abbreviation (input) B_GTV :: nat where "B_GTV \<equiv> 130"
abbreviation (input) B_GEV :: nat where "B_GEV \<equiv> 131"
abbreviation (input) B_LTV :: nat where "B_LTV \<equiv> 132"
abbreviation (input) B_LEV :: nat where "B_LEV \<equiv> 133"
abbreviation (input) B_LGV :: nat where "B_LGV \<equiv> 134"
abbreviation (input) B_NGV :: nat where "B_NGV \<equiv> 135"
abbreviation (input) B_NGEV :: nat where "B_NGEV \<equiv> 136"
abbreviation (input) B_NLV :: nat where "B_NLV \<equiv> 137"
abbreviation (input) B_NLEV :: nat where "B_NLEV \<equiv> 138"
abbreviation (input) B_NLGV :: nat where "B_NLGV \<equiv> 139"
abbreviation (input) B_CVTBI :: nat where "B_CVTBI \<equiv> 140"
abbreviation (input) B_CVTCI :: nat where "B_CVTCI \<equiv> 141"
abbreviation (input) B_CVTIL :: nat where "B_CVTIL \<equiv> 142"
abbreviation (input) B_CVTUL :: nat where "B_CVTUL \<equiv> 143"
abbreviation (input) B_CVTIV :: nat where "B_CVTIV \<equiv> 144"
abbreviation (input) B_CVTLV :: nat where "B_CVTLV \<equiv> 145"
abbreviation (input) B_CVTSV :: nat where "B_CVTSV \<equiv> 146"
abbreviation (input) B_CVTAV :: nat where "B_CVTAV \<equiv> 147"
abbreviation (input) B_CVTVI :: nat where "B_CVTVI \<equiv> 148"
abbreviation (input) B_CVTVS :: nat where "B_CVTVS \<equiv> 149"
abbreviation (input) B_CVTVA :: nat where "B_CVTVA \<equiv> 150"
abbreviation (input) B_SWITCHI :: nat where "B_SWITCHI \<equiv> 151"
abbreviation (input) B_SWITCHE :: nat where "B_SWITCHE \<equiv> 152"
abbreviation (input) B_JMP :: nat where "B_JMP \<equiv> 153"
abbreviation (input) B_JZ :: nat where "B_JZ \<equiv> 154"
abbreviation (input) B_JNZ :: nat where "B_JNZ \<equiv> 155"
abbreviation (input) B_NEW :: nat where "B_NEW \<equiv> 156"
abbreviation (input) B_DELETE :: nat where "B_DELETE \<equiv> 157"
abbreviation (input) B_THROW :: nat where "B_THROW \<equiv> 158"
abbreviation (input) B_ADDR :: nat where "B_ADDR \<equiv> 159"
abbreviation (input) B_ZERO_A :: nat where "B_ZERO_A \<equiv> 160"
abbreviation (input) B_ZERO_I :: nat where "B_ZERO_I \<equiv> 161"
abbreviation (input) B_AUTO :: nat where "B_AUTO \<equiv> 162"
abbreviation (input) B_AVARG :: nat where "B_AVARG \<equiv> 163"
abbreviation (input) B_PARAMS :: nat where "B_PARAMS \<equiv> 164"
abbreviation (input) B_ASTRING :: nat where "B_ASTRING \<equiv> 165"
abbreviation (input) B_VALUE :: nat where "B_VALUE \<equiv> 166"
abbreviation (input) B_CHAR_AT :: nat where "B_CHAR_AT \<equiv> 167"
abbreviation (input) B_CLASSV :: nat where "B_CLASSV \<equiv> 168"
abbreviation (input) B_string :: nat where "B_string \<equiv> 169"
abbreviation (input) B_MAX_BYTECODE :: nat where "B_MAX_BYTECODE \<equiv> 170"

subsection \<open>\<open>enum SectionType\<close>\<close>

definition SectionType :: "string list" where
  "SectionType = [''ST_ERROR'', ''ST_SOURCE'', ''ST_BYTE_CODES'', ''ST_X86_64'']"

abbreviation (input) ST_ERROR :: nat where "ST_ERROR \<equiv> 0"
abbreviation (input) ST_SOURCE :: nat where "ST_SOURCE \<equiv> 1"
abbreviation (input) ST_BYTE_CODES :: nat where "ST_BYTE_CODES \<equiv> 2"
abbreviation (input) ST_X86_64 :: nat where "ST_X86_64 \<equiv> 3"

subsection \<open>\<open>ByteCodeMap::ByteCodeMap\<close>\<close>

text \<open>
  The constructor assigns the display name of each byte code, in this order, into a static
  array whose entries start as null. A later assignment to the same entry wins.
\<close>

definition name_assignments :: "(nat \<times> string) list" where
  "name_assignments =
  [(B_ILLEGAL, ''<invalid byte code>''), (B_INT, ''int''), (B_LONG, ''long''),
   (B_STRING, ''string''), (B_CALL, ''call''), (B_XCALL, ''call.ext''),
   (B_ICALL, ''call.ind''), (B_VCALL, ''call.virt''), (B_INVOKE, ''invoke''),
   (B_CHKSTK, ''chkstk''), (B_SP, ''push''), (B_LOCALS, ''locals''), (B_VARG, ''varg''),
   (B_VARG1, ''varg1''), (B_POP, ''pop''), (B_POPN, ''pop''), (B_DUP, ''dup''),
   (B_SWAP, ''swap''), (B_RET, ''ret''), (B_RET1, ''ret1''), (B_RETN, ''ret''),
   (B_STSA, ''st.addr''), (B_LDSA, ''ld.addr''), (B_STSB, ''st.byte''), (B_LDSB, ''ld.byte''),
   (B_STSC, ''st.char''), (B_LDSC, ''ld.char''), (B_STSI, ''st.int''), (B_LDSI, ''ld.int''),
   (B_LDSU, ''ld.uns''), (B_STSS, ''st.shrt''), (B_LDSS, ''ld.shrt''), (B_STAA, ''st.addr''),
   (B_LDAA, ''ld.addr''), (B_STAB, ''st.byte''), (B_STSO, ''st.obj''), (B_LDAB, ''ld.byte''),
   (B_LDAC, ''ld.char''), (B_STAS, ''st.shrt''), (B_LDAS, ''ld.shrt''), (B_STAI, ''st.int''),
   (B_LDAI, ''ld.int''), (B_LDAU, ''ld.uns''), (B_LDAO, ''ld.obj''), (B_STAO, ''st.obj''),
   (B_STAV, ''st.var''), (B_STVA, ''st.addr''), (B_STVB, ''st.byte''), (B_STVI, ''st.int''),
   (B_STVS, ''st.shrt''), (B_STVO, ''st.obj''), (B_STVV, ''st.var''), (B_LDPA, ''ld.addr''),
   (B_STPA, ''st.addr''), (B_LDPB, ''ld.byte''), (B_STPB, ''st.byte''), (B_LDPC, ''ld.char''),
   (B_STPS, ''st.shrt''), (B_LDPS, ''ld.shrt''), (B_LDPI, ''ld.int''), (B_LDPL, ''ld.long''),
   (B_STPL, ''st.long''), (B_LDPU, ''ld.uns''), (B_STPI, ''st.int''), (B_LDPO, ''ld.obj''),
   (B_STPO, ''st.obj''), (B_LDIA, ''ld.addr''), (B_LDTR, ''ld.class''), (B_STIA, ''st.addr''),
   (B_POPIA, ''st.pop''), (B_LDIB, ''ld.byte''), (B_STIB, ''st.byte''), (B_LDIC, ''ld.char''),
   (B_STIC, ''st.char''), (B_LDII, ''ld.int''), (B_STII, ''st.int''), (B_LDIL, ''ld.long''),
   (B_STIL, ''st.long''), (B_LDIU, ''ld.uns''), (B_LDIO, ''ld.obj''), (B_STIO, ''st.obj''),
   (B_LDIV, ''ld.var''), (B_STIV, ''st.var''), (B_THROW, ''throw''), (B_NEW, ''new''),
   (B_DELETE, ''delete''), (B_ADDR, ''addr''), (B_AUTO, ''auto''), (B_AVARG, ''auto''),
   (B_ZERO_A, ''zero.addr''), (B_ZERO_I, ''zero''), (B_PARAMS, ''parms''),
   (B_VALUE, ''value''), (B_CHAR_AT, ''char.at''), (B_CLASSV, ''class.var''),
   (B_ASTRING, ''addr''), (B_NEG, ''neg.int''), (B_BCM, ''bcm.int''), (B_MUL, ''mul.int''),
   (B_DIV, ''div.int''), (B_REM, ''rem.int''), (B_ADD, ''add.int''), (B_SUB, ''sub.int''),
   (B_LSH, ''lsh.int''), (B_RSH, ''rsh.int''), (B_URS, ''urs.int''), (B_OR, ''or.int''),
   (B_AND, ''and.int''), (B_XOR, ''xor.int''), (B_MULV, ''mul.var''), (B_DIVV, ''div.var''),
   (B_REMV, ''rem.var''), (B_ADDV, ''add.var''), (B_SUBV, ''sub.var''), (B_LSHV, ''lsh.var''),
   (B_RSHV, ''rsh.var''), (B_URSV, ''urs.var''), (B_ORV, ''or.var''), (B_ANDV, ''and.var''),
   (B_XORV, ''xor.var''), (B_NOT, ''not.int''), (B_EQI, ''eq.int''), (B_NEI, ''ne.int''),
   (B_GTI, ''gt.int''), (B_GEI, ''ge.int''), (B_LTI, ''lt.int''), (B_LEI, ''le.int''),
   (B_GTU, ''gt.uns''), (B_GEU, ''ge.uns''), (B_LTU, ''lt.uns''), (B_LEU, ''le.uns''),
   (B_EQL, ''eq.long''), (B_NEL, ''ne.long''), (B_GTL, ''gt.long''), (B_GEL, ''ge.long''),
   (B_LTL, ''lt.long''), (B_LEL, ''le.long''), (B_GTA, ''gt.addr''), (B_GEA, ''ge.addr''),
   (B_LTA, ''lt.addr''), (B_LEA, ''le.addr''), (B_EQV, ''eq.var''), (B_NEV, ''ne.var''),
   (B_GTV, ''gt.var''), (B_GEV, ''ge.var''), (B_LTV, ''lt.var''), (B_LEV, ''le.var''),
   (B_LGV, ''lg.var''), (B_NGV, ''ng.var''), (B_NGEV, ''nge.var''), (B_NLV, ''nl.var''),
   (B_NLEV, ''nle.var''), (B_NLGV, ''nlg.var''), (B_CVTBI, ''cvt.bi''), (B_CVTCI, ''cvt.usi''),
   (B_CVTIL, ''cvt.il''), (B_CVTUL, ''cvt.ul''), (B_CVTIV, ''cvt.iv''), (B_CVTLV, ''cvt.lv''),
   (B_CVTSV, ''cvt.sv''), (B_CVTAV, ''cvt.av''), (B_CVTVI, ''cvt.vi''), (B_CVTVS, ''cvt.vs''),
   (B_CVTVA, ''cvt.va''), (B_SWITCHI, ''switch.int''), (B_SWITCHE, ''switch.enum''),
   (B_string, ''[string]''), (B_JMP, ''jmp''), (B_JZ, ''jz''), (B_JNZ, ''jnz'')]"

definition ByteCodeMap_name :: "nat \<Rightarrow> string option" where
  "ByteCodeMap_name i = (if i < B_MAX_BYTECODE then map_of (rev name_assignments) i else None)"

text \<open>
  The loop that ends the constructor reports each entry that is still null, with the last entry
  that had a name before it: the triple of an error line is (code, last name, lastI).
\<close>

fun missing_names :: "nat list \<Rightarrow> string \<Rightarrow> int \<Rightarrow> (nat \<times> string \<times> int) list" where
  "missing_names [] lastName lastI = []"
| "missing_names (i # is) lastName lastI =
     (case ByteCodeMap_name i of
        None \<Rightarrow> (i, lastName, lastI) # missing_names is lastName lastI
      | Some n \<Rightarrow> missing_names is n (int i))"

definition ByteCodeMap_errors :: "(nat \<times> string \<times> int) list" where
  "ByteCodeMap_errors = missing_names [0..<B_MAX_BYTECODE] ''<none>'' (-1)"

subsection \<open>Lemmas\<close>

lemma length_ByteCodes: "length ByteCodes = Suc B_MAX_BYTECODE"
  by (simp add: ByteCodes_def)

lemma missing_names_Nil:
  "missing_names is l k = [] \<longleftrightarrow> (\<forall>i \<in> set is. ByteCodeMap_name i \<noteq> None)"
  by (induction "is" arbitrary: l k) (auto split: option.splits)

lemma distinct_named_codes: "distinct (map fst name_assignments)"
  by (simp add: name_assignments_def)

lemma set_named_codes: "set (map fst name_assignments) = {..<B_MAX_BYTECODE}"
proof (rule card_subset_eq)
  show "set (map fst name_assignments) \<subseteq> {..<B_MAX_BYTECODE}"
    by (simp add: name_assignments_def)
  show "card (set (map fst name_assignments)) = card {..<B_MAX_BYTECODE}"
    using distinct_card [OF distinct_named_codes]
    by (simp add: name_assignments_def)
qed simp

lemma named_codes: "i < B_MAX_BYTECODE \<Longrightarrow> i \<in> set (map fst name_assignments)"
  using set_named_codes by simp

lemma ByteCodeMap_name_total: "i < B_MAX_BYTECODE \<Longrightarrow> \<exists>n. ByteCodeMap_name i = Some n"
  using named_codes [of i]
  by (cases "map_of (rev name_assignments) i")
    (simp_all only: ByteCodeMap_name_def map_of_eq_None_iff set_map set_rev if_True, auto)

end
