(* ===== verification/Interp.thy ===== *)
theory Interp
  imports Stack_Laws Variants Builtins Opcodes
begin

section \<open>The interpreter: \<open>ExecutionContext::run\<close>\<close>

text \<open>
  One table per stretch of the \<open>switch\<close> in \<open>ExecutionContext::run\<close> (runtime.cc), in its order: a
  case label and what its branch does to the context. \<open>Next\<close> is \<open>break\<close>, which goes around the
  loop; \<open>Stop\<close> ends the run; \<open>None\<close> is a hardware fault. Trace output is left out.
\<close>

datatype outcome = Next vm | Stop run_result

type_synonym instr = "vm \<Rightarrow> outcome option"

definition continue :: "vm option \<Rightarrow> outcome option" where
  "continue r = map_option Next r"

definition return :: "bool \<Rightarrow> vm \<Rightarrow> outcome option" where
  "return b s = Some (Stop (Done b s))"

text \<open>The macro \<open>MEM_VALID(x)\<close>, followed by the rest of the branch.\<close>

definition mem_valid :: "WORD \<Rightarrow> vm \<Rightarrow> outcome option \<Rightarrow> outcome option" where
  "mem_valid x s rest = (if x < 0x10000 then return False s else rest)"

text \<open>The typed reads that a branch pushes, widened to a WORD as C does.\<close>

definition ld_word :: "memory \<Rightarrow> WORD \<Rightarrow> WORD option" where
  "ld_word m p = load64 m p"
definition ld_int :: "memory \<Rightarrow> WORD \<Rightarrow> WORD option" where
  "ld_int m p = map_option scast (load32 m p)"
definition ld_unsigned :: "memory \<Rightarrow> WORD \<Rightarrow> WORD option" where
  "ld_unsigned m p = map_option ucast (load32 m p)"
definition ld_short :: "memory \<Rightarrow> WORD \<Rightarrow> WORD option" where
  "ld_short m p = map_option scast (load16 m p)"
definition ld_ushort :: "memory \<Rightarrow> WORD \<Rightarrow> WORD option" where
  "ld_ushort m p = map_option ucast (load16 m p)"
definition ld_char :: "memory \<Rightarrow> WORD \<Rightarrow> WORD option" where
  "ld_char m p = map_option scast (load8 m p)"
definition ld_byte :: "memory \<Rightarrow> WORD \<Rightarrow> WORD option" where
  "ld_byte m p = map_option ucast (load8 m p)"

definition push_mem :: "(memory \<Rightarrow> WORD \<Rightarrow> WORD option) \<Rightarrow> WORD \<Rightarrow> vm \<Rightarrow> outcome option" where
  "push_mem ld p s = do { w \<leftarrow> ld (mem s) p; continue (pushv w s) }"

text \<open>\<open>*(T*)p = peek()\<close>, for the width that \<open>store\<close> has.\<close>

definition store_top :: "(memory \<Rightarrow> WORD \<Rightarrow> WORD \<Rightarrow> memory option) \<Rightarrow> WORD \<Rightarrow> vm \<Rightarrow> outcome option" where
  "store_top store p s = do {
     w \<leftarrow> peek s;
     m \<leftarrow> store (mem s) p w;
     Some (Next (s\<lparr>mem := m\<rparr>)) }"

definition set_mem :: "memory option \<Rightarrow> vm \<Rightarrow> outcome option" where
  "set_mem m s = map_option (\<lambda>m. Next (s\<lparr>mem := m\<rparr>)) m"

text \<open>A C \<open>int\<close> passed as a \<open>size_t\<close>, and \<open>(n + 7) & ~7\<close>.\<close>

definition size_of_int :: "int32 \<Rightarrow> nat" where
  "size_of_int i = unat (of_int32 i)"

definition round8 :: "int32 \<Rightarrow> WORD" where
  "round8 i = (of_int32 i + 7) AND NOT 7"

subsection \<open>Constants and addresses of objects\<close>

definition ops_constants :: "(nat \<times> instr) list" where
  "ops_constants = [
    (B_INT, \<lambda>s. do { (i, s) \<leftarrow> intInByteCode s; continue (pushv (of_int32 i) s) }),
    (B_LONG, \<lambda>s. do { (x, s) \<leftarrow> longInByteCode s; continue (pushv x s) }),
    (B_STRING, \<lambda>s. do { (i, s) \<leftarrow> intInByteCode s; p \<leftarrow> valueAddress i s; push_mem ld_word p s }),
    (B_ADDR, \<lambda>s. do { (i, s) \<leftarrow> intInByteCode s; p \<leftarrow> valueAddress i s; continue (pushv p s) }),
    (B_ASTRING, \<lambda>s. do { (i, s) \<leftarrow> intInByteCode s; p \<leftarrow> valueAddress i s; continue (pushv p s) }),
    (B_VALUE, \<lambda>s. do { (i, s) \<leftarrow> intInByteCode s; p \<leftarrow> valueAddress i s; continue (pushv p s) }),
    (B_CHAR_AT, \<lambda>s. do {
       (right, s) \<leftarrow> pop s;
       (left, s) \<leftarrow> pop s;
       mem_valid (left + 4 + right) s (push_mem ld_char (left + 4 + right) s) })]"

subsection \<open>Static objects\<close>

definition at_static :: "(WORD \<Rightarrow> vm \<Rightarrow> outcome option) \<Rightarrow> instr" where
  "at_static f s = do { (i, s) \<leftarrow> intInByteCode s; p \<leftarrow> valueAddress i s; f p s }"

definition ops_static :: "(nat \<times> instr) list" where
  "ops_static = [
    (B_STSA, at_static (store_top store32)),
    (B_STSI, at_static (store_top store32)),
    (B_STSO, \<lambda>s. do {
       (i, s) \<leftarrow> intInByteCode s;
       (left, s) \<leftarrow> intInByteCode s;
       p \<leftarrow> valueAddress i s;
       set_mem (memcpy (mem s) p (sp s) (size_of_int left)) s }),
    (B_LDSA, at_static (push_mem ld_word)),
    (B_LDSI, at_static (push_mem ld_int)),
    (B_LDSU, at_static (push_mem ld_unsigned)),
    (B_STSB, at_static (store_top store8)),
    (B_LDSB, at_static (push_mem ld_byte)),
    (B_LDSC, at_static (push_mem ld_ushort)),
    (B_STSC, at_static (store_top store16)),
    (B_STSS, at_static (store_top store16)),
    (B_LDSS, at_static (push_mem ld_short))]"

subsection \<open>The heap, and the stack check\<close>

definition ops_heap :: "os \<Rightarrow> (nat \<times> instr) list" where
  "ops_heap os = [
    (B_NEW, \<lambda>s. do {
       (i, s) \<leftarrow> intInByteCode s;
       let (p, s) = c_malloc (allocator.truncate os) (size_of_int i) s;
       s \<leftarrow> (if p = 0 then Some s
            else map_option (\<lambda>m. s\<lparr>mem := m\<rparr>) (memset (mem s) p 0 (size_of_int i)));
       continue (pushv p s) }),
    (B_DELETE, \<lambda>s. do { (val, s) \<leftarrow> pop s; continue (c_free val s) }),
    (B_CHKSTK, \<lambda>s. do {
       (i, s) \<leftarrow> intInByteCode s;
       if fp s - sp s \<noteq> of_int32 i then return False s else Some (Next s) })]"

subsection \<open>Calls\<close>

text \<open>\<open>B_XCALL\<close>: the arguments stay on the stack during the call and are dropped after it; a
  function that halted the context ends the run.\<close>

fun read_args :: "nat \<Rightarrow> nat \<Rightarrow> vm \<Rightarrow> WORD list option" where
  "read_args i 0 s = Some []"
| "read_args i (Suc n) s = do { a \<leftarrow> st i s; as \<leftarrow> read_args (Suc i) n s; Some (a # as) }"

definition xcall :: "os \<Rightarrow> (int32 \<Rightarrow> vm \<Rightarrow> run_result) \<Rightarrow> instr" where
  "xcall os ev s = do {
     (i, s) \<leftarrow> intInByteCode s;
     m \<leftarrow> builtin_at i;
     if bf_args m < 0 \<or> 4 < bf_args m then return False s
     else do {
       as \<leftarrow> read_args 0 (nat (bf_args m)) s;
       r \<leftarrow> call_native os ev (bf_func m) as s;
       (case r of
          CRet x s \<Rightarrow>
            if ip s = - 1 then return False s
            else
              let s = s\<lparr>sp := sp s + 8 * word_of_int (bf_args m)\<rparr> in
              if 0 < bf_returns m then continue (pushv x s) else Some (Next s)
        | CExit c \<Rightarrow> Some (Stop (Exited c))
        | CNativeThrow \<Rightarrow> Some (Stop NativeThrow)
        | COutOfFuel \<Rightarrow> Some (Stop OutOfFuel)) } }"

text \<open>\<open>B_VCALL\<close> reads \<open>_objects[vtable[i]]\<close> before it looks at the sign of \<open>vtable[i]\<close>: for an abstract slot that
  is a read in front of the table.\<close>

definition ops_call :: "os \<Rightarrow> (int32 \<Rightarrow> vm \<Rightarrow> run_result) \<Rightarrow> (nat \<times> instr) list" where
  "ops_call os ev = [
    (B_CALL, \<lambda>s. do { (i, s) \<leftarrow> intInByteCode s; p \<leftarrow> valueAddress i s; continue (invoke p s) }),
    (B_XCALL, xcall os ev),
    (B_LDTR, \<lambda>s. do {
       (p, s) \<leftarrow> pop s;
       mem_valid p s (do {
         vtable \<leftarrow> load64 (mem s) p;
         i \<leftarrow> load32 (mem s) vtable;
         q \<leftarrow> valueAddress i s;
         push_mem ld_int q s }) }),
    (B_VCALL, \<lambda>s. do {
       (i, s) \<leftarrow> intInByteCode s;
       let s = set_ip (ip s + 4) s;
       p \<leftarrow> peek s;
       mem_valid p s (do {
         vtable \<leftarrow> load64 (mem s) p;
         slot \<leftarrow> load32 (mem s) (vtable + 4 * of_int32 i);
         q \<leftarrow> valueAddress slot s;
         if sint slot < 0 then return False s else continue (invoke q s) }) }),
    (B_ICALL, \<lambda>s. do { (p, s) \<leftarrow> pop s; mem_valid p s (continue (invoke p s)) })]"

subsection \<open>Frames and returns\<close>

definition reserve :: "int32 \<Rightarrow> vm \<Rightarrow> vm option" where
  "reserve i s =
     (let s = s\<lparr>sp := sp s - of_int32 i\<rparr> in
      map_option (\<lambda>m. s\<lparr>mem := m\<rparr>) (memset (mem s) (sp s) 0 (size_of_int i)))"

text \<open>The payload of \<open>B_RETN\<close>: room for it, rounded up to slots, and a \<open>memmove\<close> from where it was.\<close>

definition move_payload :: "int32 \<Rightarrow> WORD \<Rightarrow> vm \<Rightarrow> vm option" where
  "move_payload n from s =
     (let s = s\<lparr>sp := sp s - round8 n\<rparr> in
      map_option (\<lambda>m. s\<lparr>mem := m\<rparr>) (memcpy (mem s) (sp s) from (size_of_int n)))"

definition ops_return :: "(nat \<times> instr) list" where
  "ops_return = [
    (B_LOCALS, \<lambda>s. do { (i, s) \<leftarrow> intInByteCode s; continue (reserve i s) }),
    (B_SP, \<lambda>s. do { (i, s) \<leftarrow> intInByteCode s; s \<leftarrow> reserve i s; continue (pushv (sp s) s) }),
    (B_VARG, \<lambda>s. do { (i, s) \<leftarrow> intInByteCode s; Some (Next (s\<lparr>sp := sp s + of_int32 i\<rparr>)) }),
    (B_VARG1, \<lambda>s. do {
       (i, s) \<leftarrow> intInByteCode s;
       (val, s) \<leftarrow> pop s;
       continue (pushv val (s\<lparr>sp := sp s + of_int32 i\<rparr>)) }),
    (B_RET, \<lambda>s. do {
       (i, s) \<leftarrow> intInByteCode s;
       let s = s\<lparr>sp := fp s\<rparr>;
       (f, s) \<leftarrow> pop s;
       let s = set_fp f s;
       (c, s) \<leftarrow> pop s;
       let s = set_code c s;
       (r, s) \<leftarrow> pop s;
       let s = set_ip (to_int r) s;
       if ip s = - 1 then return False s
       else Some (Next (s\<lparr>sp := sp s + of_int32 i\<rparr>)) }),
    (B_RET1, \<lambda>s. do {
       (i, s) \<leftarrow> intInByteCode s;
       (val, s) \<leftarrow> pop s;
       let s = s\<lparr>sp := fp s\<rparr>;
       f \<leftarrow> load64 (mem s) (sp s);
       c \<leftarrow> load64 (mem s) (sp s + 8);
       r \<leftarrow> load32 (mem s) (sp s + 16);
       let s = s\<lparr>active := \<lparr>fr_fp = f, fr_code = c, fr_ip = r\<rparr>, sp := sp s + 24\<rparr>;
       if fp s = 0 then do { s \<leftarrow> pushv val s; return True s }
       else if ip s = - 1 then return False s
       else continue (pushv val (s\<lparr>sp := sp s + of_int32 i\<rparr>)) }),
    (B_RETN, \<lambda>s. do {
       (returnPayloadSize, s) \<leftarrow> intInByteCode s;
       (argsSize, s) \<leftarrow> intInByteCode s;
       let returnLocation = sp s;
       let s = s\<lparr>sp := fp s\<rparr>;
       (f, s) \<leftarrow> pop s;
       let s = set_fp f s;
       if fp s = 0 then do { s \<leftarrow> move_payload returnPayloadSize returnLocation s; return True s }
       else do {
         (c, s) \<leftarrow> pop s;
         let s = set_code c s;
         mem_valid (code s) s (do {
           (r, s) \<leftarrow> pop s;
           let s = set_ip (to_int r) s;
           if ip s = - 1 then return False s
           else continue (move_payload returnPayloadSize returnLocation
             (s\<lparr>sp := sp s + of_int32 argsSize\<rparr>)) }) } })]"

subsection \<open>Stack and arithmetic\<close>

definition unary :: "(WORD \<Rightarrow> WORD) \<Rightarrow> instr" where
  "unary f s = continue (do { (x, s) \<leftarrow> pop s; pushv (f x) s })"

definition binary :: "(WORD \<Rightarrow> WORD \<Rightarrow> WORD) \<Rightarrow> instr" where
  "binary f s = continue (do { (right, s) \<leftarrow> pop s; (left, s) \<leftarrow> pop s; pushv (f left right) s })"

definition binary_trap :: "(WORD \<Rightarrow> WORD \<Rightarrow> WORD option) \<Rightarrow> instr" where
  "binary_trap f s = do {
     (right, s) \<leftarrow> pop s;
     (left, s) \<leftarrow> pop s;
     r \<leftarrow> f left right;
     continue (pushv r s) }"

definition ops_stack :: "(nat \<times> instr) list" where
  "ops_stack = [
    (B_POP, \<lambda>s. Some (Next (s\<lparr>sp := sp s + 8\<rparr>))),
    (B_POPN, \<lambda>s. do { (i, s) \<leftarrow> intInByteCode s; Some (Next (s\<lparr>sp := sp s + of_int32 i\<rparr>)) }),
    (B_SWAP, \<lambda>s. continue (do {
       (left, s) \<leftarrow> pop s;
       (right, s) \<leftarrow> pop s;
       s \<leftarrow> pushv left s;
       pushv right s })),
    (B_DUP, \<lambda>s. do { x \<leftarrow> peek s; continue (pushv x s) })]"

definition ops_arith :: "(nat \<times> instr) list" where
  "ops_arith = [
    (B_NEG, unary (\<lambda>x. - x)),
    (B_BCM, unary (\<lambda>x. NOT x)),
    (B_MUL, binary (\<lambda>left right. right * left)),
    (B_DIV, binary_trap c_div),
    (B_REM, binary_trap c_rem),
    (B_ADD, binary (\<lambda>left right. right + left)),
    (B_SUB, binary (\<lambda>left right. left - right)),
    (B_LSH, binary c_shl),
    (B_RSH, binary c_sar),
    (B_URS, binary c_shr),
    (B_OR, binary (\<lambda>left right. right OR left)),
    (B_AND, binary (\<lambda>left right. right AND left)),
    (B_XOR, binary (\<lambda>left right. right XOR left)),
    (B_NOT, unary (\<lambda>x. of_cbool (x = 0)))]"

subsection \<open>Variants\<close>

text \<open>The operands are the two variants on top of the stack, the left one above in memory.\<close>

definition var_test :: "(int \<Rightarrow> bool) \<Rightarrow> instr" where
  "var_test test s = do {
     val \<leftarrow> varCompare (mem s) (sp s + VARIANT_SIZE) (sp s);
     continue (pushv (of_cbool (test (sint val))) (s\<lparr>sp := sp s + 2 * VARIANT_SIZE\<rparr>)) }"

definition var_op :: "(memory \<Rightarrow> WORD \<Rightarrow> WORD \<Rightarrow> memory option) \<Rightarrow> instr" where
  "var_op f s = do {
     m \<leftarrow> f (mem s) (sp s + VARIANT_SIZE) (sp s);
     Some (Next (s\<lparr>mem := m, sp := sp s + VARIANT_SIZE\<rparr>)) }"

definition ops_variant :: "(nat \<times> instr) list" where
  "ops_variant = [
    (B_EQV, var_test (\<lambda>val. val = 0)),
    (B_NLGV, var_test (\<lambda>val. val = 0)),
    (B_NEV, var_test (\<lambda>val. val \<noteq> 0)),
    (B_LGV, var_test (\<lambda>val. val \<noteq> 0)),
    (B_GTV, var_test (\<lambda>val. val > 0)),
    (B_NLEV, var_test (\<lambda>val. val > 0)),
    (B_GEV, var_test (\<lambda>val. val \<ge> 0)),
    (B_NLV, var_test (\<lambda>val. val \<ge> 0)),
    (B_LTV, var_test (\<lambda>val. val < 0)),
    (B_NGEV, var_test (\<lambda>val. val < 0)),
    (B_LEV, var_test (\<lambda>val. val \<le> 0)),
    (B_NGV, var_test (\<lambda>val. val \<le> 0)),
    (B_ADDV, var_op varAdd),
    (B_SUBV, var_op varSub),
    (B_MULV, var_op varMul),
    (B_DIVV, var_op varDiv),
    (B_REMV, var_op varRem),
    (B_RSHV, var_op varRsh),
    (B_LSHV, var_op varLsh),
    (B_URSV, var_op varUrs),
    (B_ANDV, var_op varAnd),
    (B_ORV, var_op varOr),
    (B_XORV, var_op varXor)]"

subsection \<open>Comparisons and conversions\<close>

definition test_int :: "(int \<Rightarrow> int \<Rightarrow> bool) \<Rightarrow> instr" where
  "test_int test = binary (\<lambda>left right. of_cbool (test (sint (to_int left)) (sint (to_int right))))"

definition test_long :: "(int \<Rightarrow> int \<Rightarrow> bool) \<Rightarrow> instr" where
  "test_long test = binary (\<lambda>left right. of_cbool (test (sint left) (sint right)))"

definition test_unsigned :: "(nat \<Rightarrow> nat \<Rightarrow> bool) \<Rightarrow> instr" where
  "test_unsigned test = binary (\<lambda>left right. of_cbool (test (unat (to_int left)) (unat (to_int right))))"

definition ops_compare :: "(nat \<times> instr) list" where
  "ops_compare = [
    (B_EQI, test_int (\<lambda>left right. right = left)),
    (B_NEI, test_int (\<lambda>left right. right \<noteq> left)),
    (B_GTI, test_int (\<lambda>left right. left > right)),
    (B_GEI, test_int (\<lambda>left right. left \<ge> right)),
    (B_LTI, test_int (\<lambda>left right. left < right)),
    (B_LEI, test_int (\<lambda>left right. left \<le> right)),
    (B_EQL, test_long (\<lambda>left right. right = left)),
    (B_NEL, test_long (\<lambda>left right. right \<noteq> left)),
    (B_GTL, test_long (\<lambda>left right. left > right)),
    (B_GEL, test_long (\<lambda>left right. left \<ge> right)),
    (B_LTL, test_long (\<lambda>left right. left < right)),
    (B_LEL, test_long (\<lambda>left right. left \<le> right)),
    (B_GTU, test_unsigned (\<lambda>left right. left > right)),
    (B_GEU, test_unsigned (\<lambda>left right. left \<ge> right)),
    (B_LTU, test_unsigned (\<lambda>left right. left < right)),
    (B_LEU, test_unsigned (\<lambda>left right. left \<le> right))]"

definition make_variant :: instr where
  "make_variant s = do {
     (val, s) \<leftarrow> pop s;
     (left, s) \<leftarrow> pop s;
     let s = s\<lparr>sp := sp s - VARIANT_SIZE\<rparr>;
     m \<leftarrow> variant_setLong (mem s) (sp s) left;
     m \<leftarrow> variant_setKind m (sp s) val;
     Some (Next (s\<lparr>mem := m\<rparr>)) }"

definition variant_value :: instr where
  "variant_value s = do {
     val \<leftarrow> variant_asLong (mem s) (sp s);
     continue (pushv val (s\<lparr>sp := sp s + VARIANT_SIZE\<rparr>)) }"

definition ops_convert :: "(nat \<times> instr) list" where
  "ops_convert = [
    (B_CVTBI, unary (\<lambda>x. x AND 0xff)),
    (B_CVTCI, unary (\<lambda>x. x AND 0xffff)),
    (B_CVTIL, unary (\<lambda>x. of_int32 (to_int x))),
    (B_CVTUL, unary (\<lambda>x. of_unsigned (to_int x))),
    (B_CVTIV, make_variant),
    (B_CVTLV, make_variant),
    (B_CVTAV, make_variant),
    (B_CVTSV, make_variant),
    (B_CLASSV, \<lambda>s. do {
       p \<leftarrow> variant_kind (mem s) (sp s);
       continue (pushv p (s\<lparr>sp := sp s + VARIANT_SIZE\<rparr>)) }),
    (B_CVTVI, variant_value),
    (B_CVTVA, variant_value),
    (B_CVTVS, variant_value)]"

subsection \<open>Branches\<close>

text \<open>The search loops of the two switches; the bool is whether a case matched.\<close>

fun switchi_loop :: "nat \<Rightarrow> WORD \<Rightarrow> vm \<Rightarrow> (bool \<times> vm) option" where
  "switchi_loop 0 val s = Some (False, s)"
| "switchi_loop (Suc n) val s = do {
     (caseVal, s) \<leftarrow> intInByteCode s;
     if of_int32 caseVal = val then do {
       (label, s) \<leftarrow> intInByteCode s;
       Some (True, set_ip label s) }
     else switchi_loop n val (set_ip (ip s + 4) s) }"

definition switchi :: instr where
  "switchi s = do {
     (val, s) \<leftarrow> pop s;
     (caseCount, s) \<leftarrow> intInByteCode s;
     (defaultLabel, s) \<leftarrow> intInByteCode s;
     (found, s) \<leftarrow> switchi_loop (nat (sint caseCount)) val s;
     Some (Next (if found then s else set_ip defaultLabel s)) }"

fun switche_loop :: "nat \<Rightarrow> WORD \<Rightarrow> vm \<Rightarrow> (bool \<times> vm) option" where
  "switche_loop 0 val s = Some (False, s)"
| "switche_loop (Suc n) val s = do {
     (caseValIndex, s) \<leftarrow> intInByteCode s;
     (valOffset, s) \<leftarrow> intInByteCode s;
     p \<leftarrow> valueAddress caseValIndex s;
     let caseVal = p + of_int32 (valOffset * 4);
     if caseVal = val then do {
       (label, s) \<leftarrow> intInByteCode s;
       Some (True, set_ip label s) }
     else switche_loop n val (set_ip (ip s + 4) s) }"

definition switche :: instr where
  "switche s = do {
     (val, s) \<leftarrow> pop s;
     (caseCount, s) \<leftarrow> intInByteCode s;
     (defaultLabel, s) \<leftarrow> intInByteCode s;
     (found, s) \<leftarrow> switche_loop (nat (sint caseCount)) val s;
     Some (Next (if found then s else set_ip defaultLabel s)) }"

definition jump_if :: "(WORD \<Rightarrow> bool) \<Rightarrow> instr" where
  "jump_if test s = do {
     (val, s) \<leftarrow> pop s;
     if test val then do { (label, s) \<leftarrow> intInByteCode s; Some (Next (set_ip label s)) }
     else Some (Next (set_ip (ip s + 4) s)) }"

definition ops_branch :: "(nat \<times> instr) list" where
  "ops_branch = [
    (B_JZ, jump_if (\<lambda>val. val = 0)),
    (B_JNZ, jump_if (\<lambda>val. val \<noteq> 0)),
    (B_SWITCHI, switchi),
    (B_SWITCHE, switche),
    (B_JMP, \<lambda>s. do { (label, s) \<leftarrow> intInByteCode s; Some (Next (set_ip label s)) })]"

subsection \<open>Locals of the active frame\<close>

definition at_auto :: "(WORD \<Rightarrow> vm \<Rightarrow> outcome option) \<Rightarrow> instr" where
  "at_auto f s = do { (i, s) \<leftarrow> intInByteCode s; f (fp s + of_int32 i) s }"

definition at_varg :: "(WORD \<Rightarrow> vm \<Rightarrow> outcome option) \<Rightarrow> instr" where
  "at_varg f s = do { (i, s) \<leftarrow> intInByteCode s; f (fp s - of_int32 i) s }"

definition at_params :: "(WORD \<Rightarrow> vm \<Rightarrow> outcome option) \<Rightarrow> instr" where
  "at_params f s = do { (i, s) \<leftarrow> intInByteCode s; f (fp s + FRAME_SIZE + of_int32 i) s }"

text \<open>An object copied to or from the top of the stack; its size is the second operand.\<close>

definition load_object :: "WORD \<Rightarrow> vm \<Rightarrow> outcome option" where
  "load_object p s = do {
     (val, s) \<leftarrow> intInByteCode s;
     let s = s\<lparr>sp := sp s - round8 val\<rparr>;
     set_mem (memcpy (mem s) (sp s) p (size_of_int val)) s }"

definition store_object :: "WORD \<Rightarrow> vm \<Rightarrow> outcome option" where
  "store_object p s = do {
     (val, s) \<leftarrow> intInByteCode s;
     set_mem (memcpy (mem s) p (sp s) (size_of_int val)) s }"

definition store_variant :: "WORD \<Rightarrow> vm \<Rightarrow> outcome option" where
  "store_variant p s = set_mem (variant_assign (mem s) p (sp s)) s"

definition push_address :: "WORD \<Rightarrow> vm \<Rightarrow> outcome option" where
  "push_address p s = continue (pushv p s)"

definition ops_auto :: "(nat \<times> instr) list" where
  "ops_auto = [
    (B_LDAB, at_auto (push_mem ld_byte)),
    (B_LDAC, at_auto (push_mem ld_ushort)),
    (B_STAB, at_auto (store_top store8)),
    (B_STAS, at_auto (store_top store16)),
    (B_LDAA, at_auto (push_mem ld_word)),
    (B_LDAI, at_auto (push_mem ld_int)),
    (B_LDAU, at_auto (push_mem ld_unsigned)),
    (B_STAA, at_auto (store_top store64)),
    (B_STAI, at_auto (store_top store32)),
    (B_LDAO, at_auto load_object),
    (B_STAO, at_auto store_object),
    (B_STAV, at_auto store_variant),
    (B_STVA, at_varg (store_top store64)),
    (B_STVB, at_varg (store_top store8)),
    (B_STVS, at_varg (store_top store16)),
    (B_STVI, at_varg (store_top store32)),
    (B_STVO, at_varg store_object),
    (B_STVV, at_varg store_variant)]"

subsection \<open>Parameters\<close>

definition ops_params :: "(nat \<times> instr) list" where
  "ops_params = [
    (B_LDPA, at_params (push_mem ld_word)),
    (B_LDPI, at_params (push_mem ld_int)),
    (B_LDPU, at_params (push_mem ld_unsigned)),
    (B_LDPL, at_params (push_mem ld_word)),
    (B_LDPO, at_params load_object),
    (B_STPO, at_params store_object),
    (B_STPL, at_params (store_top store64)),
    (B_STPA, at_params (store_top store64)),
    (B_STPI, at_params (store_top store32)),
    (B_LDPB, at_params (push_mem ld_byte)),
    (B_STPS, at_params (store_top store16)),
    (B_LDPC, at_params (push_mem ld_ushort)),
    (B_LDPS, at_params (push_mem ld_short)),
    (B_STPB, at_params (store_top store8)),
    (B_AUTO, at_auto push_address),
    (B_AVARG, at_varg push_address),
    (B_ZERO_A, at_auto (\<lambda>p s. do {
       (val, s) \<leftarrow> intInByteCode s;
       set_mem (memset (mem s) p 0 (size_of_int val)) s })),
    (B_ZERO_I, \<lambda>s. do {
       (left, s) \<leftarrow> pop s;
       mem_valid left s (do {
         (val, s) \<leftarrow> intInByteCode s;
         set_mem (memset (mem s) left 0 (size_of_int val)) s }) }),
    (B_PARAMS, at_params push_address)]"

subsection \<open>Indirection\<close>

definition at_popped :: "(WORD \<Rightarrow> vm \<Rightarrow> outcome option) \<Rightarrow> instr" where
  "at_popped f s = do { (left, s) \<leftarrow> pop s; mem_valid left s (f left s) }"

definition ops_indirect :: "(nat \<times> instr) list" where
  "ops_indirect = [
    (B_LDIA, at_popped (push_mem ld_word)),
    (B_LDIL, at_popped (push_mem ld_word)),
    (B_LDII, at_popped (push_mem ld_int)),
    (B_LDIU, at_popped (push_mem ld_unsigned)),
    (B_LDIV, at_popped (\<lambda>left s.
       let s = s\<lparr>sp := sp s - VARIANT_SIZE\<rparr> in
       set_mem (variant_assign (mem s) (sp s) left) s)),
    (B_LDIB, at_popped (push_mem ld_byte)),
    (B_LDIC, at_popped (push_mem ld_ushort)),
    (B_LDIO, \<lambda>s. do {
       (val, s) \<leftarrow> intInByteCode s;
       at_popped (\<lambda>right s.
         let s = s\<lparr>sp := sp s - round8 val\<rparr> in
         set_mem (memcpy (mem s) (sp s) right (size_of_int val)) s) s }),
    (B_STIO, \<lambda>s. do {
       (val, s) \<leftarrow> intInByteCode s;
       at_popped (\<lambda>right s. set_mem (memcpy (mem s) right (sp s) (size_of_int val)) s) s }),
    (B_STIL, at_popped (store_top store64)),
    (B_STIA, at_popped (store_top store64)),
    (B_STII, at_popped (store_top store32)),
    (B_POPIA, \<lambda>s. do {
       (val, s) \<leftarrow> pop s;
       left \<leftarrow> peek s;
       mem_valid left s (set_mem (store32 (mem s) left val) s) }),
    (B_STIV, at_popped store_variant),
    (B_STIB, at_popped (store_top store8)),
    (B_STIC, at_popped (store_top store16))]"

subsection \<open>The loop\<close>

definition switch_table :: "os \<Rightarrow> (int32 \<Rightarrow> vm \<Rightarrow> run_result) \<Rightarrow> (nat \<times> instr) list" where
  "switch_table os ev =
     ops_constants @ ops_static @ ops_heap os @ ops_call os ev @ ops_return @ ops_stack @
     ops_arith @ ops_variant @ ops_compare @ ops_convert @ ops_branch @ ops_auto @ ops_params @
     ops_indirect"

text \<open>The \<open>switch\<close>; its \<open>default\<close> branch prints the name of the byte code and returns false. A number that is no
  byte code has no name: the branch reads a pointer behind the table and prints what it points to, a fault.\<close>

definition exec :: "os \<Rightarrow> (int32 \<Rightarrow> vm \<Rightarrow> run_result) \<Rightarrow> nat \<Rightarrow> instr" where
  "exec os ev byteCode s =
     (case map_of (switch_table os ev) byteCode of
        Some branch \<Rightarrow> branch s
      | None \<Rightarrow> do { _ \<leftarrow> ByteCodeMap_name byteCode; return False (s\<lparr>vm_out := None\<rparr>) })"

definition step :: "os \<Rightarrow> (int32 \<Rightarrow> vm \<Rightarrow> run_result) \<Rightarrow> instr" where
  "step os ev s = do {
     let s = s\<lparr>lastIp := ip s\<rparr>;
     byteCode \<leftarrow> mem s (code s + of_int32 (ip s));
     exec os ev (unat byteCode) (set_ip (ip s + 1) s) }"

text \<open>\<open>ExecutionContext::run(int objectId)\<close>, over the loop it enters.\<close>

definition run_object :: "(vm \<Rightarrow> run_result) \<Rightarrow> int32 \<Rightarrow> vm \<Rightarrow> run_result" where
  "run_object loop objectId s =
     (if sint objectId < 0 \<or> int (length (objects s)) \<le> sint objectId then Done False s
      else
        case do { p \<leftarrow> valueAddress objectId s; invoke p (s\<lparr>target := BYTE_CODE_TARGET\<rparr>) } of
          None \<Rightarrow> Faulted
        | Some s \<Rightarrow> loop (s\<lparr>lastIp := 0\<rparr>))"

text \<open>The loop, with fuel for the instructions it executes; a nested run that a built-in
  function starts draws on the same fuel.\<close>

fun run :: "os \<Rightarrow> nat \<Rightarrow> vm \<Rightarrow> run_result" where
  "run os 0 s = OutOfFuel"
| "run os (Suc n) s =
     (case step os (run_object (run os n)) s of
        None \<Rightarrow> Faulted
      | Some (Next s) \<Rightarrow> run os n s
      | Some (Stop r) \<Rightarrow> r)"

end
