(* ===== verification/Demo.thy ===== *)
theory Demo
  imports Interp
begin

section \<open>Concrete contexts\<close>

text \<open>
  Small contexts on which the properties are instantiated: a code area at \<open>0x20000\<close>, a stack of 16 slots
  at \<open>0x40000\<close> whose top words are given, and an object table.
\<close>

definition demo_memory :: "byte list \<Rightarrow> byte list \<Rightarrow> memory" where
  "demo_memory cs bs x =
     (let i = unat (x - 0x20000); j = unat (x - 0x40000) in
      if i < length cs then Some (cs ! i)
      else if j < length bs then Some (bs ! j) else None)"

definition demo :: "byte list \<Rightarrow> WORD list \<Rightarrow> vm" where
  "demo cs ws =
     \<lparr>mem = demo_memory cs (replicate (8 * (16 - length ws)) 0 @ concat (map (to_bytes 8) ws)),
      heap = Map.empty, target = BYTE_CODE_TARGET, objects = [0x20000],
      stack = 0x40000, stackTop = 0x40080,
      active = \<lparr>fr_fp = 0, fr_code = 0x20000, fr_ip = 0\<rparr>,
      sp = 0x40080 - 8 * of_nat (length ws), exceptionContext = 0, lastIp = 0,
      stackSnapshot = [], vm_args = [], vm_trace = False, vm_out = Some []\<rparr>"

definition demo_os :: os where
  "demo_os = \<lparr>os_malloc = \<lambda>m h n. 0, os_junk = \<lambda>x. 0, os_high = 0, os_args_array = 0,
     os_call = \<lambda>n as s. None\<rparr>"

lemma length_slots: "length (concat (map (to_bytes 8) ws)) = 8 * length ws"
  by (induction ws) auto

lemma nth_slots:
  "i < length ws \<Longrightarrow> k < 8 \<Longrightarrow> concat (map (to_bytes 8) ws) ! (8 * i + k) = to_bytes 8 (ws ! i) ! k"
proof (induction ws arbitrary: i)
  case (Cons w ws)
  then show ?case by (cases i) (auto simp: nth_append)
qed simp

lemma demo_sp:
  assumes "length ws \<le> 16"
  shows "unat (sp (demo cs ws)) = 0x40080 - 8 * length ws"
proof -
  have u: "unat (8 * of_nat (length ws) :: WORD) = 8 * length ws"
    using unat_offset [of "8 * length ws"] assms by simp
  then have "8 * of_nat (length ws) \<le> (0x40080 :: WORD)"
    using assms by (simp add: word_le_nat_alt)
  then show ?thesis by (simp add: demo_def unat_diff u)
qed

lemma demo_stack_byte:
  assumes "length ws \<le> 16" "length cs \<le> 0x20000" "j < 128"
  shows "mem (demo cs ws) (0x40000 + of_nat j) =
    Some ((replicate (8 * (16 - length ws)) 0 @ concat (map (to_bytes 8) ws)) ! j)"
proof -
  have "unat (0x40000 + of_nat j - 0x20000 :: WORD) = 0x20000 + j"
    using unat_offset [of "0x20000 + j"] assms(3) by simp
  moreover have "length (concat (map (to_bytes 8) ws)) = 8 * length ws"
    by (rule length_slots)
  ultimately show ?thesis
    using assms by (simp add: demo_def demo_memory_def Let_def unat_offset)
qed

lemma demo_ok:
  assumes "length ws \<le> 16" "length cs \<le> 0x20000"
  shows "stack_ok (demo cs ws)" "stk (demo cs ws) = ws" "room (demo cs ws) = 16 - length ws"
proof -
  note sp = demo_sp [OF assms(1), of cs]
  have area: "stack (demo cs ws) = 0x40000" "stackTop (demo cs ws) = 0x40080"
    by (simp_all add: demo_def)
  have le: "0x40000 \<le> sp (demo cs ws)" "sp (demo cs ws) \<le> 0x40080"
    using sp assms by (simp_all add: word_le_nat_alt)
  have d: "unat (0x40080 - sp (demo cs ws)) = 8 * length ws"
    using sp assms by (simp add: unat_diff [OF le(2)])
  have "mapped (mem (demo cs ws)) 0x40000 128"
    using demo_stack_byte [OF assms] by (simp add: mapped_def)
  then show ok: "stack_ok (demo cs ws)"
    using le d by (simp add: stack_ok_def area)
  show "room (demo cs ws) = 16 - length ws"
    using sp assms by (simp add: room_def area)
  show "stk (demo cs ws) = ws"
  proof (rule nth_equalityI)
    show len: "length (stk (demo cs ws)) = length ws"
      using d by (simp add: depth_def area)
    fix i
    assume "i < length (stk (demo cs ws))"
    then have i: "i < length ws" by (simp only: len)
    have "load64 (mem (demo cs ws)) (sp (demo cs ws) + 8 * of_nat i) = Some (ws ! i)"
    proof -
      have "mem (demo cs ws) (sp (demo cs ws) + 8 * of_nat i + of_nat k) = Some (to_bytes 8 (ws ! i) ! k)"
        if k: "k < 8" for k
      proof -
        have at: "sp (demo cs ws) + 8 * of_nat i + of_nat k
            = 0x40000 + of_nat (8 * (16 - length ws) + (8 * i + k))"
          using assms(1) by (simp add: demo_def of_nat_diff algebra_simps)
        have "8 * (16 - length ws) + (8 * i + k) < 128"
          using i k assms(1) by simp
        then show ?thesis
          using nth_slots [OF i k] i k by (simp only: at demo_stack_byte [OF assms] nth_append length_replicate) simp
      qed
      then have "load_bytes (mem (demo cs ws)) (sp (demo cs ws) + 8 * of_nat i) 8 = Some (to_bytes 8 (ws ! i))"
        by (simp add: load_bytes_iff)
      then show ?thesis by (simp add: load64_def)
    qed
    then show "stk (demo cs ws) ! i = ws ! i"
      using load_slot [OF ok, of i] len i by simp
  qed
qed

text \<open>The code area, which no operation on the stack changes.\<close>

definition outside_stack :: "vm \<Rightarrow> WORD \<Rightarrow> nat \<Rightarrow> bool" where
  "outside_stack s a n \<longleftrightarrow> (\<forall>i < n. \<not> in_stack s (a + of_nat i))"

lemma demo_code:
  assumes "i + k \<le> length cs" "length cs \<le> 0x20000"
  shows "load_bytes (mem (demo cs ws)) (0x20000 + of_nat i) k = Some (take k (drop i cs))"
    "outside_stack (demo cs ws) (0x20000 + of_nat i) k"
proof -
  have off: "unat (of_nat i + of_nat j :: WORD) = i + j" if "j < k" for j
    using that assms unat_offset [of "i + j"] by simp
  then show "load_bytes (mem (demo cs ws)) (0x20000 + of_nat i) k = Some (take k (drop i cs))"
    using assms by (simp add: load_bytes_iff demo_def demo_memory_def Let_def)
  have "\<not> in_stack (demo cs ws) (0x20000 + of_nat i + of_nat j)" if "j < k" for j
  proof
    let ?y = "0x20000 + of_nat i + of_nat j - 0x40000 :: WORD"
    assume "in_stack (demo cs ws) (0x20000 + of_nat i + of_nat j)"
    then have y: "unat ?y < 128" by (simp add: in_stack_def demo_def)
    have "unat (y + 0x40000) = unat y + 0x40000" if "unat y < 128" for y :: WORD
      using that by (simp add: unat_word_ariths)
    from this [OF y] have "unat (?y + 0x40000) = unat ?y + 0x40000" .
    moreover have "?y + 0x40000 = of_nat (0x20000 + (i + j))" by simp
    moreover have "unat (of_nat (0x20000 + (i + j)) :: WORD) = 0x20000 + (i + j)"
      using that assms by (intro unat_offset) simp
    ultimately show False using that assms by (simp only: )
  qed
  then show "outside_stack (demo cs ws) (0x20000 + of_nat i) k"
    by (simp add: outside_stack_def)
qed

lemma demo_int:
  assumes "i + 4 \<le> length cs" "length cs \<le> 0x20000"
  shows "load32 (mem (demo cs ws)) (0x20000 + of_nat i) = Some (ucast (from_bytes (take 4 (drop i cs))))"
  using demo_code(1) [of i 4 cs ws] assms by (simp add: load32_def)

lemma demo_fields: "fp (demo cs ws) = 0" "code (demo cs ws) = 0x20000" "ip (demo cs ws) = 0"
  "objects (demo cs ws) = [0x20000]" "stackTop (demo cs ws) = 0x40080" "stack (demo cs ws) = 0x40000"
  "sp (demo cs ws) = 0x40080 - 8 * of_nat (length ws)"
  by (simp_all add: demo_def)

end
