(* ===== verification/Alu_Spec.thy ===== *)
theory Alu_Spec
  imports Demo
begin

section \<open>What the arithmetic instructions compute\<close>

text \<open>
  The abstract specification of the instructions that take one or two words from the stack and
  leave one: functions on integers, where \<open>wrap64\<close> and \<open>wrap32\<close> say what an overflow or a
  narrowing does, with \<open>None\<close> for the divisions that trap. The interpreter refines it.
\<close>

definition wrap64 :: "int \<Rightarrow> int" where
  "wrap64 x = (x + 2 ^ 63) mod 2 ^ 64 - 2 ^ 63"

definition wrap32 :: "int \<Rightarrow> int" where
  "wrap32 x = (x + 2 ^ 31) mod 2 ^ 32 - 2 ^ 31"

definition truth :: "bool \<Rightarrow> int" where
  "truth b = (if b then 1 else 0)"

definition traps :: "int \<Rightarrow> int \<Rightarrow> bool" where
  "traps a b \<longleftrightarrow> b = 0 \<or> a = - (2 ^ 63) \<and> b = - 1"

definition int_test :: "(int \<Rightarrow> int \<Rightarrow> bool) \<Rightarrow> int \<Rightarrow> int \<Rightarrow> int option" where
  "int_test p a b = Some (truth (p (wrap32 a) (wrap32 b)))"

definition long_test :: "(int \<Rightarrow> int \<Rightarrow> bool) \<Rightarrow> int \<Rightarrow> int \<Rightarrow> int option" where
  "long_test p a b = Some (truth (p a b))"

definition unsigned_test :: "(int \<Rightarrow> int \<Rightarrow> bool) \<Rightarrow> int \<Rightarrow> int \<Rightarrow> int option" where
  "unsigned_test p a b = Some (truth (p (a mod 2 ^ 32) (b mod 2 ^ 32)))"

definition alu1 :: "(nat \<times> (int \<Rightarrow> int)) list" where
  "alu1 = [
    (B_NEG, \<lambda>a. wrap64 (- a)),
    (B_BCM, \<lambda>a. - a - 1),
    (B_NOT, \<lambda>a. truth (a = 0)),
    (B_CVTBI, \<lambda>a. a mod 2 ^ 8),
    (B_CVTCI, \<lambda>a. a mod 2 ^ 16),
    (B_CVTIL, \<lambda>a. wrap32 a),
    (B_CVTUL, \<lambda>a. a mod 2 ^ 32)]"

definition alu2 :: "(nat \<times> (int \<Rightarrow> int \<Rightarrow> int option)) list" where
  "alu2 = [
    (B_MUL, \<lambda>a b. Some (wrap64 (a * b))),
    (B_ADD, \<lambda>a b. Some (wrap64 (a + b))),
    (B_SUB, \<lambda>a b. Some (wrap64 (a - b))),
    (B_DIV, \<lambda>a b. if traps a b then None else Some (a sdiv b)),
    (B_REM, \<lambda>a b. if traps a b then None else Some (a smod b)),
    (B_LSH, \<lambda>a b. Some (wrap64 (a * 2 ^ nat (b mod 64)))),
    (B_RSH, \<lambda>a b. Some (a div 2 ^ nat (b mod 64))),
    (B_URS, \<lambda>a b. Some (wrap64 (a mod 2 ^ 64 div 2 ^ nat (b mod 64)))),
    (B_OR, \<lambda>a b. Some (a OR b)),
    (B_AND, \<lambda>a b. Some (a AND b)),
    (B_XOR, \<lambda>a b. Some (a XOR b)),
    (B_EQI, int_test (\<lambda>a b. a = b)),
    (B_NEI, int_test (\<lambda>a b. a \<noteq> b)),
    (B_GTI, int_test (\<lambda>a b. a > b)),
    (B_GEI, int_test (\<lambda>a b. a \<ge> b)),
    (B_LTI, int_test (\<lambda>a b. a < b)),
    (B_LEI, int_test (\<lambda>a b. a \<le> b)),
    (B_GTU, unsigned_test (\<lambda>a b. a > b)),
    (B_GEU, unsigned_test (\<lambda>a b. a \<ge> b)),
    (B_LTU, unsigned_test (\<lambda>a b. a < b)),
    (B_LEU, unsigned_test (\<lambda>a b. a \<le> b)),
    (B_EQL, long_test (\<lambda>a b. a = b)),
    (B_NEL, long_test (\<lambda>a b. a \<noteq> b)),
    (B_GTL, long_test (\<lambda>a b. a > b)),
    (B_GEL, long_test (\<lambda>a b. a \<ge> b)),
    (B_LTL, long_test (\<lambda>a b. a < b)),
    (B_LEL, long_test (\<lambda>a b. a \<le> b))]"

subsection \<open>The machine operations on integers\<close>

lemma sint_of_int64: "sint (word_of_int x :: WORD) = wrap64 x"
  by (simp add: signed_of_int signed_take_bit_eq_take_bit_shift take_bit_eq_mod wrap64_def)

lemma sint_of_int32: "sint (word_of_int x :: int32) = wrap32 x"
  by (simp add: signed_of_int signed_take_bit_eq_take_bit_shift take_bit_eq_mod wrap32_def)

lemma wrap64_id: "- (2 ^ 63) \<le> x \<Longrightarrow> x < 2 ^ 63 \<Longrightarrow> wrap64 x = x"
  by (simp add: wrap64_def)

lemma wrap64_sint [simp]: "wrap64 (sint (w :: WORD)) = sint w"
  using sint_bounds [of w] by (intro wrap64_id)

lemma sint_by: "w = word_of_int x \<Longrightarrow> sint (w :: WORD) = wrap64 x"
  by (simp add: sint_of_int64)

lemma sint_arith64:
  "sint (l + r :: WORD) = wrap64 (sint l + sint r)"
  "sint (l - r :: WORD) = wrap64 (sint l - sint r)"
  "sint (l * r :: WORD) = wrap64 (sint l * sint r)"
  "sint (- l :: WORD) = wrap64 (- sint l)"
  by (rule sint_by; simp)+

lemma sint_NOT64: "sint (NOT l :: WORD) = - sint l - 1"
proof -
  have "sint (NOT l :: WORD) = wrap64 (- sint l - 1)"
    by (rule sint_by) (simp add: not_eq_complement)
  also have "\<dots> = - sint l - 1"
    using sint_bounds [of l] by (intro wrap64_id) linarith+
  finally show ?thesis .
qed

lemma sint_bits64:
  "sint (l AND r :: WORD) = sint l AND sint r"
  "sint (l OR r :: WORD) = sint l OR sint r"
  "sint (l XOR r :: WORD) = sint l XOR sint r"
  by (simp_all add: signed_and_eq signed_or_eq signed_xor_eq)

lemma sint_cbool [simp]: "sint (of_cbool b) = truth b"
  by (simp add: of_cbool_def truth_def)

lemma uint_mod: "uint (w :: WORD) = sint w mod 2 ^ 64"
  using uint_sint [of w] by (simp add: take_bit_eq_mod)

lemma shift_count_int: "shift_count r = nat (sint r mod 64)"
proof -
  have "(64 :: int) dvd 2 ^ 64" by simp
  then have "uint r mod 64 = sint r mod 64"
    unfolding uint_mod by (rule mod_mod_cancel)
  moreover have "unat r mod 64 = nat (uint r mod 64)"
    using nat_mod_distrib [of "uint r" 64] by simp
  ultimately show ?thesis
    by (simp only: shift_count_mod)
qed

lemma sint_shl: "sint (c_shl l r) = wrap64 (sint l * 2 ^ nat (sint r mod 64))"
  unfolding c_shl_def shift_count_int
  by (rule sint_by) (simp add: push_bit_eq_mult)

lemma sint_sar: "sint (c_sar l r) = sint l div 2 ^ nat (sint r mod 64)"
  by (simp add: c_sar_def shift_count_int sint_signed_drop_bit_eq drop_bit_eq_div)

lemma sint_shr: "sint (c_shr l r) = wrap64 (sint l mod 2 ^ 64 div 2 ^ nat (sint r mod 64))"
  unfolding c_shr_def shift_count_int uint_mod [symmetric]
proof (rule sint_by)
  fix n
  have "take_bit 64 (uint l) = uint l"
    using unsigned_less [of l] by (intro take_bit_int_eq_self) simp_all
  moreover have "uint (drop_bit n l) = drop_bit n (take_bit 64 (uint l))"
    using unsigned_drop_bit_eq [of n l] by (simp only: len_of_numeral_defs) simp
  ultimately have "uint (drop_bit n l) = drop_bit n (uint l)" by simp
  then have "uint (drop_bit n l) = uint l div 2 ^ n"
    by (simp only: drop_bit_eq_div [of n "uint l"])
  then show "drop_bit n l = word_of_int (uint l div 2 ^ n)"
    using word_of_int_uint [of "drop_bit n l"] by simp
qed

lemma sint_to_int: "sint (to_int w) = wrap32 (sint w)"
proof -
  have "to_int w = scast w"
    by (rule bit_word_eqI) (simp add: bit_unsigned_iff bit_signed_iff)
  also have "\<dots> = word_of_int (sint w)" by simp
  finally have "to_int w = word_of_int (sint w)" .
  then show ?thesis by (simp only: sint_of_int32)
qed

lemma uint_to_int: "uint (to_int w) = sint w mod 2 ^ 32"
proof -
  have "uint (to_int w) = uint w mod 2 ^ 32"
    by (simp add: unsigned_ucast_eq take_bit_eq_mod)
  also have "\<dots> = sint w mod 2 ^ 32"
    unfolding uint_mod by (rule mod_mod_cancel) simp
  finally show ?thesis .
qed

lemma traps_iff: "traps (sint l) (sint (r :: WORD)) \<longleftrightarrow> r = 0 \<or> l = min_long \<and> r = - 1"
  by (simp only: traps_def sint_eq_0 sint_eq_min_long sint_eq_m1)

subsection \<open>Refinement of one- and two-operand instructions\<close>

definition refines1 :: "(int \<Rightarrow> int) \<Rightarrow> instr \<Rightarrow> bool" where
  "refines1 f branch \<longleftrightarrow> (\<forall>s a ws. stack_ok s \<longrightarrow> map sint (stk s) = a # ws \<longrightarrow>
     (\<exists>s'. branch s = Some (Next s') \<and> stack_ok s' \<and> map sint (stk s') = f a # ws \<and>
       frame s' = frame s))"

definition refines2 :: "(int \<Rightarrow> int \<Rightarrow> int option) \<Rightarrow> instr \<Rightarrow> bool" where
  "refines2 f branch \<longleftrightarrow> (\<forall>s a b ws. stack_ok s \<longrightarrow> map sint (stk s) = b # a # ws \<longrightarrow>
     (case f a b of
        None \<Rightarrow> branch s = None
      | Some r \<Rightarrow> \<exists>s'. branch s = Some (Next s') \<and> stack_ok s' \<and> map sint (stk s') = r # ws \<and>
          frame s' = frame s))"

lemma unary_refines1:
  assumes "\<And>x. sint (g x) = f (sint x)"
  shows "refines1 f (unary g)"
  unfolding refines1_def
proof (intro allI impI)
  fix s a ws
  assume "stack_ok s" "map sint (stk s) = a # ws"
  then obtain w vs where w: "stk s = w # vs" "sint w = a" "map sint vs = ws" by auto
  then show "\<exists>s'. unary g s = Some (Next s') \<and> stack_ok s' \<and> map sint (stk s') = f a # ws \<and> frame s' = frame s"
    using vm_stack.unop [OF \<open>stack_ok s\<close> w(1), of g] assms
    by (auto simp: unary_def continue_def)
qed

lemma binary_trap_refines2:
  assumes "\<And>l r. map_option sint (g l r) = f (sint l) (sint r)"
  shows "refines2 f (binary_trap g)"
  unfolding refines2_def
proof (intro allI impI)
  fix s a b ws
  assume ok: "stack_ok s" and "map sint (stk s) = b # a # ws"
  then obtain y x vs where w: "stk s = y # x # vs" "sint y = b" "sint x = a" "map sint vs = ws" by auto
  obtain s1 where s1: "do { (y, s) \<leftarrow> pop s; (x, s) \<leftarrow> pop s; Some (y, x, s) } = Some (y, x, s1)"
      "stack_ok s1" "stk s1 = vs" "room s1 = Suc (Suc (room s))" "frame s1 = frame s"
    using vm_stack.pop2 [OF ok w(1)] by blast
  from s1(1) have run: "binary_trap g s = do { v \<leftarrow> g x y; continue (pushv v s1) }"
    by (auto simp: binary_trap_def bind_eq_Some_conv split_beta)
  have f: "f a b = map_option sint (g x y)" using assms [of x y] w by simp
  show "case f a b of None \<Rightarrow> binary_trap g s = None
    | Some r \<Rightarrow> \<exists>s'. binary_trap g s = Some (Next s') \<and> stack_ok s' \<and> map sint (stk s') = r # ws \<and>
        frame s' = frame s"
  proof (cases "g x y")
    case None
    then show ?thesis by (simp add: f run)
  next
    case (Some v)
    have "0 < room s1" using s1(4) by simp
    then obtain s2 where "pushv v s1 = Some s2" "stack_ok s2" "stk s2 = v # stk s1" "frame s2 = frame s1"
      using vm_stack.psh_ok [OF s1(2), of v] by blast
    then show ?thesis using Some s1 w by (simp add: f run continue_def)
  qed
qed

lemma binary_as_trap: "binary g = binary_trap (\<lambda>l r. Some (g l r))"
  by (rule ext) (auto simp: binary_def binary_trap_def continue_def bind_eq_Some_conv split_beta
      split: bind_splits option.splits)

lemma binary_refines2:
  assumes "\<And>l r. f (sint l) (sint r) = Some (sint (g l r))"
  shows "refines2 f (binary g)"
  unfolding binary_as_trap by (rule binary_trap_refines2) (simp add: assms)

lemma test_refines2:
  "(\<And>a b. p a b = q a b) \<Longrightarrow> refines2 (int_test p) (test_int q)"
  "(\<And>a b. p a b = q a b) \<Longrightarrow> refines2 (long_test p) (test_long q)"
  unfolding test_int_def test_long_def
  by (rule binary_refines2, simp add: int_test_def long_test_def sint_to_int)+

lemma test_unsigned_refines2:
  assumes "\<And>a b. p (int a) (int b) = q a b"
  shows "refines2 (unsigned_test p) (test_unsigned q)"
  unfolding test_unsigned_def
  by (rule binary_refines2)
    (simp add: unsigned_test_def assms [symmetric] uint_to_int)

subsection \<open>The branch of a case label\<close>

lemmas switch_defs = ops_constants_def ops_static_def ops_heap_def ops_call_def ops_return_def
  ops_stack_def ops_arith_def ops_variant_def ops_compare_def ops_convert_def ops_branch_def
  ops_auto_def ops_params_def ops_indirect_def

text \<open>The case labels of the \<open>switch\<close>, in its order.\<close>

definition case_labels :: "nat list" where
  "case_labels =
  [B_INT, B_LONG, B_STRING, B_ADDR, B_ASTRING, B_VALUE, B_CHAR_AT, B_STSA, B_STSI, B_STSO,
   B_LDSA, B_LDSI, B_LDSU, B_STSB, B_LDSB, B_LDSC, B_STSC, B_STSS, B_LDSS, B_NEW, B_DELETE,
   B_CHKSTK, B_CALL, B_XCALL, B_LDTR, B_VCALL, B_ICALL, B_LOCALS, B_SP, B_VARG, B_VARG1, B_RET,
   B_RET1, B_RETN, B_POP, B_POPN, B_SWAP, B_DUP, B_NEG, B_BCM, B_MUL, B_DIV, B_REM, B_ADD,
   B_SUB, B_LSH, B_RSH, B_URS, B_OR, B_AND, B_XOR, B_NOT, B_EQV, B_NLGV, B_NEV, B_LGV, B_GTV,
   B_NLEV, B_GEV, B_NLV, B_LTV, B_NGEV, B_LEV, B_NGV, B_ADDV, B_SUBV, B_MULV, B_DIVV, B_REMV,
   B_RSHV, B_LSHV, B_URSV, B_ANDV, B_ORV, B_XORV, B_EQI, B_NEI, B_GTI, B_GEI, B_LTI, B_LEI,
   B_EQL, B_NEL, B_GTL, B_GEL, B_LTL, B_LEL, B_GTU, B_GEU, B_LTU, B_LEU, B_CVTBI, B_CVTCI,
   B_CVTIL, B_CVTUL, B_CVTIV, B_CVTLV, B_CVTAV, B_CVTSV, B_CLASSV, B_CVTVI, B_CVTVA, B_CVTVS,
   B_JZ, B_JNZ, B_SWITCHI, B_SWITCHE, B_JMP, B_LDAB, B_LDAC, B_STAB, B_STAS, B_LDAA, B_LDAI,
   B_LDAU, B_STAA, B_STAI, B_LDAO, B_STAO, B_STAV, B_STVA, B_STVB, B_STVS, B_STVI, B_STVO,
   B_STVV, B_LDPA, B_LDPI, B_LDPU, B_LDPL, B_LDPO, B_STPO, B_STPL, B_STPA, B_STPI, B_LDPB,
   B_STPS, B_LDPC, B_LDPS, B_STPB, B_AUTO, B_AVARG, B_ZERO_A, B_ZERO_I, B_PARAMS, B_LDIA,
   B_LDIL, B_LDII, B_LDIU, B_LDIV, B_LDIB, B_LDIC, B_LDIO, B_STIO, B_STIL, B_STIA, B_STII,
   B_POPIA, B_STIV, B_STIB, B_STIC]"

lemma case_labels: "map fst (switch_table os ev) = case_labels"
  by (simp only: switch_table_def switch_defs case_labels_def map_append list.map fst_conv append.simps)

lemma distinct_switch: "distinct (map fst (switch_table os ev))"
  unfolding case_labels by (simp add: case_labels_def)

lemma dispatch: "(op, branch) \<in> set (switch_table os ev) \<Longrightarrow> exec os ev op s = branch s"
  using map_of_is_SomeI [OF distinct_switch] by (simp add: exec_def)

lemma dispatch_alu:
  "(op, branch) \<in> set ops_arith \<Longrightarrow> exec os ev op = branch"
  "(op, branch) \<in> set ops_compare \<Longrightarrow> exec os ev op = branch"
  "(op, branch) \<in> set ops_convert \<Longrightarrow> exec os ev op = branch"
  by (rule ext, rule dispatch, simp add: switch_table_def)+

lemma exec_alu1:
  "exec os ev B_NEG = unary (\<lambda>x. - x)"
  "exec os ev B_BCM = unary (\<lambda>x. NOT x)"
  "exec os ev B_NOT = unary (\<lambda>x. of_cbool (x = 0))"
  "exec os ev B_CVTBI = unary (\<lambda>x. x AND 0xff)"
  "exec os ev B_CVTCI = unary (\<lambda>x. x AND 0xffff)"
  "exec os ev B_CVTIL = unary (\<lambda>x. of_int32 (to_int x))"
  "exec os ev B_CVTUL = unary (\<lambda>x. of_unsigned (to_int x))"
  by (rule dispatch_alu(1) dispatch_alu(3), simp add: ops_arith_def ops_convert_def)+

lemma sint_small:
  assumes "uint w < 2 ^ 63"
  shows "sint (w :: WORD) = uint w"
proof -
  have "- (2 ^ 63) \<le> uint w" using unsigned_greater_eq [of w] by (rule order_trans [rotated]) simp
  then have "wrap64 (uint w) = uint w"
    using assms by (intro wrap64_id)
  then show ?thesis using sint_of_int64 [of "uint w"] by simp
qed

lemma low_mask:
  assumes "n < 64"
  shows "sint (take_bit n x :: WORD) = sint x mod 2 ^ n"
proof -
  have "uint (take_bit n x) = uint x mod 2 ^ n"
    by (simp only: unsigned_take_bit_eq take_bit_eq_mod [of n "uint x"])
  moreover have "(2 :: int) ^ n \<le> 2 ^ 63" using assms by (intro power_increasing) auto
  moreover have "uint x mod 2 ^ n < 2 ^ n" by simp
  ultimately have "sint (take_bit n x) = uint x mod 2 ^ n"
    by (subst sint_small) linarith+
  also have "\<dots> = sint x mod 2 ^ n"
    unfolding uint_mod using assms by (intro mod_mod_cancel le_imp_power_dvd) simp
  finally show ?thesis .
qed

lemma wrap64_wrap32 [simp]: "wrap64 (wrap32 x) = wrap32 x"
proof -
  obtain m where m: "wrap32 x = m - 2 ^ 31" "0 \<le> m" "m < 2 ^ 32"
    by (rule that [of "(x + 2 ^ 31) mod 2 ^ 32"]) (simp_all add: wrap32_def)
  then show ?thesis by (intro wrap64_id) simp_all
qed

lemma sint_of_int32_word: "sint (of_int32 i) = sint i"
proof -
  have "sint i = wrap32 (sint i)"
    using sint_of_int32 [of "sint i"] by simp
  moreover have "of_int32 i = word_of_int (sint i)" by simp
  then have "sint (of_int32 i) = wrap64 (sint i)"
    by (rule sint_by)
  ultimately show ?thesis by (metis wrap64_wrap32)
qed

lemma sint_convert:
  "sint (x AND 0xff :: WORD) = sint x mod 2 ^ 8"
  "sint (x AND 0xffff :: WORD) = sint x mod 2 ^ 16"
  "sint (of_int32 (to_int x)) = wrap32 (sint x)"
  "sint (of_unsigned (to_int x)) = sint x mod 2 ^ 32"
  subgoal using low_mask [of 8 x] by (simp add: take_bit_eq_mask mask_eq_exp_minus_1)
  subgoal using low_mask [of 16 x] by (simp add: take_bit_eq_mask mask_eq_exp_minus_1)
  subgoal by (simp only: sint_of_int32_word sint_to_int)
  subgoal using low_mask [of 32 x] by (simp add: take_bit_32_64)
  done

lemma alu1_branches: "list_all (\<lambda>(op, f). refines1 f (exec os ev op)) alu1"
  by (simp add: alu1_def exec_alu1)
    (intro conjI unary_refines1; simp add: sint_arith64 sint_NOT64 sint_convert sint_eq_0)

lemma exec_alu2:
  "exec os ev B_MUL = binary (\<lambda>left right. right * left)"
  "exec os ev B_ADD = binary (\<lambda>left right. right + left)"
  "exec os ev B_SUB = binary (\<lambda>left right. left - right)"
  "exec os ev B_DIV = binary_trap c_div"
  "exec os ev B_REM = binary_trap c_rem"
  "exec os ev B_LSH = binary c_shl"
  "exec os ev B_RSH = binary c_sar"
  "exec os ev B_URS = binary c_shr"
  "exec os ev B_OR = binary (\<lambda>left right. right OR left)"
  "exec os ev B_AND = binary (\<lambda>left right. right AND left)"
  "exec os ev B_XOR = binary (\<lambda>left right. right XOR left)"
  by (rule dispatch_alu(1), simp add: ops_arith_def)+

lemma exec_tests:
  "exec os ev B_EQI = test_int (\<lambda>left right. right = left)"
  "exec os ev B_NEI = test_int (\<lambda>left right. right \<noteq> left)"
  "exec os ev B_GTI = test_int (\<lambda>left right. left > right)"
  "exec os ev B_GEI = test_int (\<lambda>left right. left \<ge> right)"
  "exec os ev B_LTI = test_int (\<lambda>left right. left < right)"
  "exec os ev B_LEI = test_int (\<lambda>left right. left \<le> right)"
  "exec os ev B_EQL = test_long (\<lambda>left right. right = left)"
  "exec os ev B_NEL = test_long (\<lambda>left right. right \<noteq> left)"
  "exec os ev B_GTL = test_long (\<lambda>left right. left > right)"
  "exec os ev B_GEL = test_long (\<lambda>left right. left \<ge> right)"
  "exec os ev B_LTL = test_long (\<lambda>left right. left < right)"
  "exec os ev B_LEL = test_long (\<lambda>left right. left \<le> right)"
  "exec os ev B_GTU = test_unsigned (\<lambda>left right. left > right)"
  "exec os ev B_GEU = test_unsigned (\<lambda>left right. left \<ge> right)"
  "exec os ev B_LTU = test_unsigned (\<lambda>left right. left < right)"
  "exec os ev B_LEU = test_unsigned (\<lambda>left right. left \<le> right)"
  by (rule dispatch_alu(2), simp add: ops_compare_def)+

text \<open>Word functions, with \<open>None\<close> for a trap, that compute a function on integers.\<close>

definition computes :: "(int \<Rightarrow> int \<Rightarrow> int option) \<Rightarrow> (WORD \<Rightarrow> WORD \<Rightarrow> WORD option) \<Rightarrow> bool" where
  "computes f g \<longleftrightarrow> (\<forall>l r. map_option sint (g l r) = f (sint l) (sint r))"

lemma computes_total: "(\<And>l r. f (sint l) (sint r) = Some (sint (g l r))) \<Longrightarrow> computes f (\<lambda>l r. Some (g l r))"
  by (simp add: computes_def)

lemma computes_div:
  "computes (\<lambda>a b. if traps a b then None else Some (a sdiv b)) c_div"
  "computes (\<lambda>a b. if traps a b then None else Some (a smod b)) c_rem"
proof -
  show "computes (\<lambda>a b. if traps a b then None else Some (a sdiv b)) c_div"
    unfolding computes_def
  proof (intro allI)
    fix l r
    show "map_option sint (c_div l r) = (if traps (sint l) (sint r) then None else Some (sint l sdiv sint r))"
      using c_div_sint [of l r] by (cases "c_div l r") (auto simp: traps_iff c_div_def split: if_splits)
  qed
  show "computes (\<lambda>a b. if traps a b then None else Some (a smod b)) c_rem"
    unfolding computes_def
  proof (intro allI)
    fix l r
    show "map_option sint (c_rem l r) = (if traps (sint l) (sint r) then None else Some (sint l smod sint r))"
      using c_rem_sint [of l r] by (cases "c_rem l r") (auto simp: traps_iff c_rem_def split: if_splits)
  qed
qed

lemma computes_refines2: "computes f g \<Longrightarrow> refines2 f (binary_trap g)"
  by (rule binary_trap_refines2) (simp add: computes_def)

lemmas div_refines2 = computes_div [THEN computes_refines2]

lemma alu2_branches: "list_all (\<lambda>(op, f). refines2 f (exec os ev op)) alu2"
  unfolding alu2_def list.pred_inject prod.case exec_alu2 exec_tests
  by (intro conjI list.pred_inject(1) div_refines2 test_refines2 test_unsigned_refines2 binary_refines2;
      (simp only: sint_arith64 sint_shl sint_sar sint_shr sint_bits64)?; auto simp: ac_simps)

subsection \<open>Properties\<close>

text \<open>C1: every two-operand instruction (arithmetic, shifts, bit operations and the signed, unsigned
  and long comparisons) replaces the two words on top of the stack by what the specification
  says of them as integers, keeps the rest of the stack and everything else, and traps exactly
  where the specification has no result.\<close>

theorem alu_two_operands:
  assumes "stack_ok s" "map sint (stk s) = b # a # ws" "(op, f) \<in> set alu2"
  shows "case f a b of
      None \<Rightarrow> exec os ev op s = None
    | Some r \<Rightarrow> \<exists>s'. exec os ev op s = Some (Next s') \<and> stack_ok s' \<and>
        map sint (stk s') = r # ws \<and> frame s' = frame s"
proof -
  have "refines2 f (exec os ev op)"
    using alu2_branches [of os ev] assms(3) by (auto simp: list_all_iff)
  from this [unfolded refines2_def, rule_format, OF assms(1,2)] show ?thesis .
qed

lemma alu_two_operands_witness:
  "\<exists>s'. exec demo_os (\<lambda>i. Done False) B_SUB (demo [] [3, - 7]) = Some (Next s') \<and>
     map sint (stk s') = [- 10]"
proof -
  have "(B_SUB, \<lambda>a b. Some (wrap64 (a - b))) \<in> set alu2" by (simp add: alu2_def)
  then show ?thesis
    using alu_two_operands [where s = "demo [] [3, - 7]" and b = 3 and a = "- 7" and ws = "[]" and os = demo_os
        and ev = "\<lambda>i. Done False" and op = B_SUB and f = "\<lambda>a b. Some (wrap64 (a - b))"]
    by (auto simp: demo_ok wrap64_def)
qed

text \<open>C2: every one-operand instruction (negation, complement, not, and the conversions between
  integer widths) replaces the word on top of the stack by what the specification says of it,
  and keeps everything else.\<close>

theorem alu_one_operand:
  assumes "stack_ok s" "map sint (stk s) = a # ws" "(op, f) \<in> set alu1"
  shows "\<exists>s'. exec os ev op s = Some (Next s') \<and> stack_ok s' \<and>
    map sint (stk s') = f a # ws \<and> frame s' = frame s"
proof -
  have "refines1 f (exec os ev op)"
    using alu1_branches [of os ev] assms(3) by (auto simp: list_all_iff)
  from this [unfolded refines1_def, rule_format, OF assms(1,2)] show ?thesis .
qed

lemma alu_one_operand_witness:
  "\<exists>s'. exec demo_os (\<lambda>i. Done False) B_CVTBI (demo [] [- 1, 5]) = Some (Next s') \<and>
     map sint (stk s') = [255, 5]"
proof -
  have "(B_CVTBI, \<lambda>a. a mod 2 ^ 8) \<in> set alu1" by (simp add: alu1_def)
  then show ?thesis
    using alu_one_operand [where s = "demo [] [- 1, 5]" and a = "- 1" and ws = "[5]" and os = demo_os
        and ev = "\<lambda>i. Done False" and op = B_CVTBI and f = "\<lambda>a. a mod 2 ^ 8"]
    by (auto simp: demo_ok)
qed

end
