(* ===== verification/Calls.thy ===== *)
theory Calls
  imports Alu_Spec
begin

section \<open>The calling convention\<close>

text \<open>
  \<open>invoke\<close> saves the caller's frame on the stack and the return instructions restore it: the
  contract between the two, over the list view of the stack.
\<close>

subsection \<open>Registers that are not the stack's\<close>

lemma stack_ok_active [simp, vm_simps]: "stack_ok (s\<lparr>active := a\<rparr>) = stack_ok s"
  by (simp add: stack_ok_def)

lemma stk_active [simp, vm_simps]: "stk (s\<lparr>active := a\<rparr>) = stk s"
  by (simp add: stk_def depth_def)

lemma room_active [simp, vm_simps]: "room (s\<lparr>active := a\<rparr>) = room s"
  by (simp add: room_def)

lemma depth_active [simp, vm_simps]: "depth (s\<lparr>active := a\<rparr>) = depth s"
  by (simp add: depth_def)

lemma frame_active [simp, vm_simps]: "frame (s\<lparr>active := a\<rparr>) = (frame s)\<lparr>active := a\<rparr>"
  by (simp add: frame_def in_stack_def)

lemma frame_sp [simp, vm_simps]: "frame (s\<lparr>sp := p\<rparr>) = frame s"
  by (simp add: frame_def in_stack_def)

text \<open>What two contexts with the same frame have in common.\<close>

lemma frame_eqD:
  assumes "frame s = frame t"
  shows "active s = active t" "stackTop s = stackTop t" "stack s = stack t" "objects s = objects t"
    "heap s = heap t" "target s = target t" "vm_out s = vm_out t"
proof -
  have "active (frame s) = active (frame t)" "stackTop (frame s) = stackTop (frame t)"
    "stack (frame s) = stack (frame t)" "objects (frame s) = objects (frame t)"
    "heap (frame s) = heap (frame t)" "target (frame s) = target (frame t)" "vm_out (frame s) = vm_out (frame t)"
    using assms by simp_all
  then show "active s = active t" "stackTop s = stackTop t" "stack s = stack t" "objects s = objects t"
    "heap s = heap t" "target s = target t" "vm_out s = vm_out t"
    by (simp_all add: frame_def)
qed

lemma frame_eq_mem:
  assumes "frame s = frame t" and "\<not> in_stack t x"
  shows "mem s x = mem t x"
proof -
  have "in_stack s x = in_stack t x"
    using frame_eqD [OF assms(1)] by (simp add: in_stack_def)
  moreover have "mem (frame s) x = mem (frame t) x"
    using assms(1) by simp
  ultimately show ?thesis using assms(2) by (simp add: frame_def)
qed

lemma load_bytes_frame:
  assumes "frame s = (frame t)\<lparr>active := a\<rparr>" and "outside_stack t p n"
  shows "load_bytes (mem s) p n = load_bytes (mem t) p n"
proof -
  have "frame s = frame (t\<lparr>active := a\<rparr>)" using assms(1) by simp
  moreover have "in_stack (t\<lparr>active := a\<rparr>) x = in_stack t x" for x by (simp add: in_stack_def)
  ultimately have "mem s x = mem t x" if "\<not> in_stack t x" for x
    using frame_eq_mem [of s "t\<lparr>active := a\<rparr>" x] that by simp
  then show ?thesis
    using assms(2) by (induction n arbitrary: p) (simp_all add: outside_stack_def All_less_Suc2 add.assoc)
qed

subsection \<open>Moving the stack pointer over live slots\<close>

lemma raise_sp:
  assumes "stack_ok s" and "k \<le> depth s"
  shows "stack_ok (s\<lparr>sp := sp s + 8 * of_nat k\<rparr>)" "stk (s\<lparr>sp := sp s + 8 * of_nat k\<rparr>) = drop k (stk s)"
    "room (s\<lparr>sp := sp s + 8 * of_nat k\<rparr>) = room s + k"
proof -
  have "stack_ok (s\<lparr>sp := sp s + 8 * of_nat k\<rparr>) \<and>
      stk (s\<lparr>sp := sp s + 8 * of_nat k\<rparr>) = drop k (stk s) \<and>
      room (s\<lparr>sp := sp s + 8 * of_nat k\<rparr>) = room s + k"
    using assms(2)
  proof (induction k)
    case 0
    then show ?case using assms(1) by simp
  next
    case (Suc k)
    let ?t = "s\<lparr>sp := sp s + 8 * of_nat k\<rparr>"
    have t: "stack_ok ?t" "stk ?t = drop k (stk s)" "room ?t = room s + k"
      using Suc by simp_all
    then obtain w ws where w: "stk ?t = w # ws" "ws = drop (Suc k) (stk s)"
      using Suc.prems by (metis Cons_nth_drop_Suc Suc_le_lessD length_stk)
    then have "0 < depth ?t" by (metis length_stk length_greater_0_conv list.discI)
    then have "stack_ok (?t\<lparr>sp := sp ?t + 8\<rparr>)" "room (?t\<lparr>sp := sp ?t + 8\<rparr>) = Suc (room ?t)"
        "stk (?t\<lparr>sp := sp ?t + 8\<rparr>) = ws"
      using depth_popped [OF t(1)] stk_Cons_iff [OF t(1), of w ws] w(1) by simp_all
    then show ?case using t(3) w(2) by (simp add: algebra_simps)
  qed
  then show "stack_ok (s\<lparr>sp := sp s + 8 * of_nat k\<rparr>)"
    "stk (s\<lparr>sp := sp s + 8 * of_nat k\<rparr>) = drop k (stk s)"
    "room (s\<lparr>sp := sp s + 8 * of_nat k\<rparr>) = room s + k"
    by simp_all
qed

text \<open>The stack pointers of two contexts on the same stack differ by their depths.\<close>

lemma sp_by_depth:
  assumes "stack_ok s" "stack_ok t" "stackTop t = stackTop s" "depth t = k + depth s"
  shows "sp s = sp t + 8 * of_nat k"
proof -
  have eq: "unat (sp s) = unat (sp t) + 8 * k"
    using depth_top [OF assms(1)] depth_top [OF assms(2)] assms(3,4) by simp
  then have "unat (sp t) + 8 * k < 2 ^ 64"
    using unat_bound [of "sp s"] by linarith
  then have "unat (sp t + of_nat (8 * k)) = unat (sp t) + 8 * k"
    by (simp add: unat_word_ariths unat_offset del: of_nat_mult)
  then show ?thesis using eq by (simp add: word_unat_eq_iff)
qed

subsection \<open>Half of a slot\<close>

lemma load_bytes_prefix:
  assumes "load_bytes m a n = Some bs" and "k \<le> n"
  shows "load_bytes m a k = Some (take k bs)"
  using assms by (simp add: load_bytes_iff)

lemma from_bytes_take: "from_bytes (take k bs) = take_bit (8 * k) (from_bytes bs)"
proof (rule bit_word_eqI)
  fix i :: nat
  have "i div 8 < k \<longleftrightarrow> i < 8 * k" by auto
  then show "bit (from_bytes (take k bs)) i = bit (take_bit (8 * k) (from_bytes bs)) i"
    by (auto simp: bit_from_bytes bit_take_bit_iff)
qed

lemma load32_of_load64: "load64 m a = Some w \<Longrightarrow> load32 m a = Some (to_int w)"
  by (auto simp: load64_def load32_def from_bytes_take load_bytes_prefix [of m a 8 _ 4])

subsection \<open>Call and return\<close>

lemma pop_stk:
  assumes "stack_ok s" and "stk s = w # ws"
  shows "pop s = Some (w, s\<lparr>sp := sp s + 8\<rparr>)" "stack_ok (s\<lparr>sp := sp s + 8\<rparr>)"
    "stk (s\<lparr>sp := sp s + 8\<rparr>) = ws" "room (s\<lparr>sp := sp s + 8\<rparr>) = Suc (room s)"
proof -
  have c: "0 < depth s \<and> load64 (mem s) (sp s) = Some w \<and> ws = stk (s\<lparr>sp := sp s + 8\<rparr>)"
    using assms stk_Cons_iff by blast
  then show "pop s = Some (w, s\<lparr>sp := sp s + 8\<rparr>)" by (simp add: pop_def)
  show "stk (s\<lparr>sp := sp s + 8\<rparr>) = ws" using c by simp
  show "stack_ok (s\<lparr>sp := sp s + 8\<rparr>)" "room (s\<lparr>sp := sp s + 8\<rparr>) = Suc (room s)"
    using depth_popped [OF assms(1)] c by simp_all
qed

lemma invoke_law:
  assumes ok: "stack_ok s" and room: "3 \<le> room s"
  obtains s' where "invoke c s = Some s'" "stack_ok s'"
    "stk s' = fp s # code s # of_int32 (ip s) # stk s" "room s = room s' + 3"
    "active s' = \<lparr>fr_fp = sp s', fr_code = c, fr_ip = 0\<rparr>"
    "frame s' = (frame s)\<lparr>active := active s'\<rparr>"
proof -
  obtain s1 where s1: "pushv (of_int32 (ip s)) s = Some s1" "stack_ok s1"
      "stk s1 = of_int32 (ip s) # stk s" "room s = Suc (room s1)" "frame s1 = frame s"
    using push_law [OF ok, of "of_int32 (ip s)"] room by auto
  obtain s2 where s2: "pushv (code s) s1 = Some s2" "stack_ok s2"
      "stk s2 = code s # stk s1" "room s1 = Suc (room s2)" "frame s2 = frame s1"
    using push_law [OF s1(2), of "code s"] s1(4) room by auto
  obtain s3 where s3: "pushv (fp s) s2 = Some s3" "stack_ok s3"
      "stk s3 = fp s # stk s2" "room s2 = Suc (room s3)" "frame s3 = frame s2"
    using push_law [OF s2(2), of "fp s"] s2(4) s1(4) room by auto
  have act: "active s1 = active s" "active s2 = active s"
    using frame_eqD(1) [OF s1(5)] frame_eqD(1) [OF s2(5)] by simp_all
  let ?s = "s3\<lparr>active := \<lparr>fr_fp = sp s3, fr_code = c, fr_ip = 0\<rparr>\<rparr>"
  show thesis
  proof (rule that [of ?s])
    show "invoke c s = Some ?s"
      using s1(1) s2(1) s3(1) by (simp add: invoke_def act)
  qed (use s1 s2 s3 in simp_all)
qed

text \<open>What a callee keeps while it runs: the slots that \<open>invoke\<close> left, below its own ones, and
  the frame pointer to them.\<close>

definition running_callee :: "vm \<Rightarrow> vm \<Rightarrow> WORD list \<Rightarrow> bool" where
  "running_callee called s own \<longleftrightarrow> stack_ok s \<and> stackTop s = stackTop called \<and>
     fp s = sp called \<and> stk s = own @ stk called"

lemma return_sp:
  assumes "stack_ok called" and "running_callee called s own"
  shows "stack_ok (s\<lparr>sp := fp s\<rparr>)" "stk (s\<lparr>sp := fp s\<rparr>) = stk called"
    "room (s\<lparr>sp := fp s\<rparr>) = room s + length own"
proof -
  have c: "stack_ok s" "stackTop s = stackTop called" "fp s = sp called" "stk s = own @ stk called"
    using assms(2) by (simp_all add: running_callee_def)
  have d: "depth s = length own + depth called"
    using arg_cong [OF c(4), of length] by simp
  then have "fp s = sp s + 8 * of_nat (length own)"
    using sp_by_depth [OF assms(1) c(1,2)] c(3) by simp
  then show "stack_ok (s\<lparr>sp := fp s\<rparr>)" "stk (s\<lparr>sp := fp s\<rparr>) = stk called"
    "room (s\<lparr>sp := fp s\<rparr>) = room s + length own"
    using raise_sp [OF c(1), of "length own"] d c(4) by simp_all
qed

lemma of_int32_slots: "n < 2 ^ 28 \<Longrightarrow> of_int32 (of_nat (8 * n)) = 8 * of_nat n"
proof -
  assume n: "n < 2 ^ 28"
  have "sint (of_nat (8 * n) :: int32) = 8 * int n"
    using n sint_of_int32 [of "8 * int n"] by (simp add: wrap32_def)
  then have "of_int32 (of_nat (8 * n)) = word_of_int (8 * int n)"
    by (metis of_int_sint)
  then show ?thesis by simp
qed

lemma dispatch_return: "(op, branch) \<in> set ops_return \<Longrightarrow> exec os ev op = branch"
  by (rule ext, rule dispatch, simp add: switch_table_def)

lemma exec_RET: "exec os ev B_RET s = do {
     (i, s) \<leftarrow> intInByteCode s;
     let s = s\<lparr>sp := fp s\<rparr>;
     (f, s) \<leftarrow> pop s;
     let s = set_fp f s;
     (c, s) \<leftarrow> pop s;
     let s = set_code c s;
     (r, s) \<leftarrow> pop s;
     let s = set_ip (to_int r) s;
     if ip s = - 1 then return False s
     else Some (Next (s\<lparr>sp := sp s + of_int32 i\<rparr>)) }"
  by (subst dispatch_return) (auto simp: ops_return_def)

lemma exec_RET1: "exec os ev B_RET1 s = do {
     (i, s) \<leftarrow> intInByteCode s;
     (val, s) \<leftarrow> pop s;
     let s = s\<lparr>sp := fp s\<rparr>;
     f \<leftarrow> load64 (mem s) (sp s);
     c \<leftarrow> load64 (mem s) (sp s + 8);
     r \<leftarrow> load32 (mem s) (sp s + 16);
     let s = s\<lparr>active := \<lparr>fr_fp = f, fr_code = c, fr_ip = r\<rparr>, sp := sp s + 24\<rparr>;
     if fp s = 0 then do { s \<leftarrow> pushv val s; return True s }
     else if ip s = - 1 then return False s
     else continue (pushv val (s\<lparr>sp := sp s + of_int32 i\<rparr>)) }"
  by (subst dispatch_return) (auto simp: ops_return_def)

lemma upd_swap: "s\<lparr>active := a, sp := p\<rparr> = s\<lparr>sp := p, active := a\<rparr>"
  by simp

lemma frame_eta: "\<lparr>fr_fp = fp s, fr_code = code s, fr_ip = ip s\<rparr> = active s"
  by (cases "active s") simp

lemma slots_above:
  assumes "stack_ok s" and "stk s = a # b # c # ws"
  shows "load64 (mem s) (sp s) = Some a" "load64 (mem s) (sp s + 8) = Some b"
    "load64 (mem s) (sp s + 16) = Some c"
proof -
  have "depth s = Suc (Suc (Suc (length ws)))" using arg_cong [OF assms(2), of length] by simp
  then show "load64 (mem s) (sp s) = Some a" "load64 (mem s) (sp s + 8) = Some b"
    "load64 (mem s) (sp s + 16) = Some c"
    using load_slot [OF assms(1), of 0] load_slot [OF assms(1), of 1] load_slot [OF assms(1), of 2]
      assms(2) by simp_all
qed

text \<open>
  Operands dropped by a return: \<open>n\<close> slots of arguments, \<open>of_nat (8 * n)\<close> in the byte code.
\<close>

lemma ret1_law:
  assumes called: "stack_ok called" "stk called = f # c # r # args @ rest"
    and callee: "running_callee called s (v # own)"
    and operand: "load32 (mem s) (code s + of_int32 (ip s)) = Some (of_nat (8 * length args))"
    and small: "length args < 2 ^ 28" and caller: "f \<noteq> 0" "to_int r \<noteq> - 1"
  shows "\<exists>s'. exec os ev B_RET1 s = Some (Next s') \<and> stack_ok s' \<and> stk s' = v # rest \<and>
    active s' = \<lparr>fr_fp = f, fr_code = c, fr_ip = to_int r\<rparr> \<and>
    frame s' = (frame s)\<lparr>active := active s'\<rparr>"
proof -
  have ok: "stack_ok s" "stk s = v # own @ stk called"
    using callee by (simp_all add: running_callee_def)
  let ?a = "\<lparr>fr_fp = f, fr_code = c, fr_ip = to_int r\<rparr>"
  let ?t = "s\<lparr>sp := fp s\<rparr>"
  note t = return_sp [OF called(1) callee]
  have d: "depth ?t = 3 + length args + length rest"
    using arg_cong [OF t(2), of length] called(2) by simp
  let ?u = "s\<lparr>active := ?a, sp := fp s + 8 * of_nat (Suc (Suc (Suc (length args))))\<rparr>"
  have u: "stack_ok ?u" "stk ?u = rest" "room ?u = room ?t + (3 + length args)"
    using raise_sp [OF t(1), of "Suc (Suc (Suc (length args)))"] d t(2) called(2)
    by (simp_all add: upd_swap numeral_3_eq_3)
  then obtain s' where s': "pushv v ?u = Some s'" "stack_ok s'" "stk s' = v # rest"
      "frame s' = frame ?u"
    using push_law [of ?u v] by auto
  have top: "load64 (mem s) (fp s) = Some f" "load64 (mem s) (fp s + 8) = Some c"
      "load64 (mem s) (fp s + 16) = Some r"
    using slots_above [OF t(1), of f c r] t(2) called(2) by simp_all
  have "pop (set_ip (ip s + 4) s) = Some (v, (set_ip (ip s + 4) s)\<lparr>sp := sp s + 8\<rparr>)"
    using pop_stk(1) [of "set_ip (ip s + 4) s" v] ok by simp
  then have "exec os ev B_RET1 s = Some (Next s')"
    using operand top load32_of_load64 [OF top(3)] caller s'(1) of_int32_slots [OF small]
    by (simp add: exec_RET1 intInByteCode_def continue_def algebra_simps)
  moreover have "frame s' = (frame s)\<lparr>active := ?a\<rparr>" "active s' = ?a"
    using s'(4) frame_eqD(1) [OF s'(4)] by simp_all
  ultimately show ?thesis using s'(2,3) by simp
qed

lemma ret_law:
  assumes called: "stack_ok called" "stk called = f # c # r # args @ rest"
    and callee: "running_callee called s own"
    and operand: "load32 (mem s) (code s + of_int32 (ip s)) = Some (of_nat (8 * length args))"
    and small: "length args < 2 ^ 28" and caller: "to_int r \<noteq> - 1"
  shows "\<exists>s'. exec os ev B_RET s = Some (Next s') \<and> stack_ok s' \<and> stk s' = rest \<and>
    active s' = \<lparr>fr_fp = f, fr_code = c, fr_ip = to_int r\<rparr> \<and>
    frame s' = (frame s)\<lparr>active := active s'\<rparr>"
proof -
  let ?a = "\<lparr>fr_fp = f, fr_code = c, fr_ip = to_int r\<rparr>"
  let ?t = "s\<lparr>sp := fp s\<rparr>"
  note t = return_sp [OF called(1) callee]
  have d: "depth ?t = 3 + length args + length rest"
    using arg_cong [OF t(2), of length] called(2) by simp
  let ?u = "s\<lparr>active := ?a, sp := fp s + 8 * of_nat (Suc (Suc (Suc (length args))))\<rparr>"
  have u: "stack_ok ?u" "stk ?u = rest"
    using raise_sp [OF t(1), of "Suc (Suc (Suc (length args)))"] d t(2) called(2)
    by (simp_all add: upd_swap numeral_3_eq_3)
  have top: "load64 (mem s) (fp s) = Some f" "load64 (mem s) (fp s + 8) = Some c"
      "load64 (mem s) (fp s + 16) = Some r"
    using slots_above [OF t(1), of f c r] t(2) called(2) by simp_all
  then have "exec os ev B_RET s = Some (Next ?u)"
    using operand caller of_int32_slots [OF small]
    by (simp add: exec_RET intInByteCode_def pop_def algebra_simps)
  then show ?thesis using u by simp
qed

subsection \<open>A call on a concrete context\<close>

text \<open>The context calls the function at \<open>0x20000\<close>, whose byte code here is the operand of its
  return instruction: eight bytes of arguments.\<close>

definition demo_caller :: vm where
  "demo_caller = (demo [8, 0, 0, 0] [7, 3])\<lparr>active := \<lparr>fr_fp = 0x40070, fr_code = 0x20000, fr_ip = 9\<rparr>\<rparr>"

lemma demo_caller_ok: "stack_ok demo_caller" "stk demo_caller = [7] @ [3]" "room demo_caller = 14"
  "active demo_caller = \<lparr>fr_fp = 0x40070, fr_code = 0x20000, fr_ip = 9\<rparr>"
  by (simp_all add: demo_caller_def demo_ok)

lemma demo_operand:
  assumes "frame s = (frame demo_caller)\<lparr>active := a\<rparr>"
  shows "load32 (mem s) 0x20000 = Some 8"
proof -
  have "load_bytes (mem s) 0x20000 4 = load_bytes (mem demo_caller) 0x20000 4"
    using assms demo_code(2) [of 0 4 "[8, 0, 0, 0]"]
    by (intro load_bytes_frame) (simp_all add: demo_caller_def outside_stack_def in_stack_def)
  also have "\<dots> = Some [8, 0, 0, 0]"
    using demo_code(1) [of 0 4 "[8, 0, 0, 0]"] by (simp add: demo_caller_def)
  finally show ?thesis by (simp add: load32_def)
qed

lemma callee_started:
  assumes "stack_ok called" "active called = \<lparr>fr_fp = sp called, fr_code = c, fr_ip = 0\<rparr>"
  shows "running_callee called called []"
    "0 < room called \<Longrightarrow> \<exists>s2. pushv v called = Some s2 \<and> running_callee called s2 [v] \<and> frame s2 = frame called"
proof -
  show "running_callee called called []" using assms by (simp add: running_callee_def)
  assume "0 < room called"
  then obtain s2 where s2: "pushv v called = Some s2" "stack_ok s2" "stk s2 = v # stk called"
      "frame s2 = frame called"
    using push_law [OF assms(1), of v] by blast
  then have "running_callee called s2 [v]"
    using assms frame_eqD [OF s2(4)] by (simp add: running_callee_def)
  then show "\<exists>s2. pushv v called = Some s2 \<and> running_callee called s2 [v] \<and> frame s2 = frame called"
    using s2 by blast
qed

subsection \<open>Properties\<close>

text \<open>C7: a called function that returns a value with \<open>B_RET1\<close>, whatever it did above the slots that
  \<open>invoke\<close> saved, gives the caller back its frame pointer, its code and the instruction after the
  call, with the arguments replaced by the value on the caller's stack.\<close>

theorem call_then_return_value:
  assumes "stack_ok s" "3 \<le> room s" "stk s = args @ rest" "length args < 2 ^ 28"
    and "fp s \<noteq> 0" "ip s \<noteq> - 1"
  shows "\<exists>called. invoke c s = Some called \<and> stack_ok called \<and> active called = \<lparr>fr_fp = sp called, fr_code = c, fr_ip = 0\<rparr> \<and>
    stk called = fp s # code s # of_int32 (ip s) # stk s \<and>
    room s = room called + 3 \<and> frame called = (frame s)\<lparr>active := active called\<rparr> \<and>
    (\<forall>s2 v own. running_callee called s2 (v # own) \<and>
       load32 (mem s2) (code s2 + of_int32 (ip s2)) = Some (of_nat (8 * length args)) \<longrightarrow>
       (\<exists>s3. exec os ev B_RET1 s2 = Some (Next s3) \<and> stack_ok s3 \<and> stk s3 = v # rest \<and>
          active s3 = active s \<and> frame s3 = (frame s2)\<lparr>active := active s\<rparr>))"
proof -
  obtain called where c: "invoke c s = Some called" "stack_ok called"
      "stk called = fp s # code s # of_int32 (ip s) # stk s"
      "active called = \<lparr>fr_fp = sp called, fr_code = c, fr_ip = 0\<rparr>"
      "room s = room called + 3" "frame called = (frame s)\<lparr>active := active called\<rparr>"
    using invoke_law [OF assms(1,2)] by metis
  moreover have "\<exists>s3. exec os ev B_RET1 s2 = Some (Next s3) \<and> stack_ok s3 \<and> stk s3 = v # rest \<and>
      active s3 = active s \<and> frame s3 = (frame s2)\<lparr>active := active s\<rparr>"
    if "running_callee called s2 (v # own)"
      "load32 (mem s2) (code s2 + of_int32 (ip s2)) = Some (of_nat (8 * length args))" for s2 v own
  proof -
    from ret1_law [where os = os and ev = ev, OF c(2) _ that(1,2) assms(4), of "fp s" "code s" "of_int32 (ip s)" rest]
      c(3) assms obtain s3
      where "exec os ev B_RET1 s2 = Some (Next s3)" "stack_ok s3" "stk s3 = v # rest"
        "active s3 = active s" "frame s3 = (frame s2)\<lparr>active := active s3\<rparr>"
      by (auto simp: frame_eta)
    then show ?thesis by auto
  qed
  ultimately show ?thesis by blast
qed

lemma call_then_return_value_witness:
  "\<exists>called s2 s3. invoke 0x20000 demo_caller = Some called \<and> pushv 42 called = Some s2 \<and>
     exec demo_os (\<lambda>i. Done False) B_RET1 s2 = Some (Next s3) \<and> stk s3 = [42, 3] \<and>
     active s3 = \<lparr>fr_fp = 0x40070, fr_code = 0x20000, fr_ip = 9\<rparr>"
proof -
  have pre: "3 \<le> room demo_caller" "length [7 :: WORD] < 2 ^ 28" "fp demo_caller \<noteq> 0" "ip demo_caller \<noteq> - 1"
    by (simp_all add: demo_caller_ok)
  obtain called where c: "invoke 0x20000 demo_caller = Some called" "stack_ok called" "room demo_caller = room called + 3"
      "active called = \<lparr>fr_fp = sp called, fr_code = 0x20000, fr_ip = 0\<rparr>"
      "frame called = (frame demo_caller)\<lparr>active := active called\<rparr>"
    and ret: "\<forall>s2 v own. running_callee called s2 (v # own) \<and>
       load32 (mem s2) (code s2 + of_int32 (ip s2)) = Some (of_nat (8 * length [7 :: WORD])) \<longrightarrow>
       (\<exists>s3. exec demo_os (\<lambda>i. Done False) B_RET1 s2 = Some (Next s3) \<and> stack_ok s3 \<and> stk s3 = v # [3] \<and>
          active s3 = active demo_caller \<and> frame s3 = (frame s2)\<lparr>active := active demo_caller\<rparr>)"
    using call_then_return_value [where c = "0x20000" and os = demo_os and ev = "\<lambda>i. Done False",
        OF demo_caller_ok(1) pre(1) demo_caller_ok(2) pre(2-4)] by blast
  obtain s2 where s2: "pushv 42 called = Some s2" "running_callee called s2 [42]" "frame s2 = frame called"
    using callee_started(2) [OF c(2,4), of 42] c(3) demo_caller_ok(3) by auto
  have "load32 (mem s2) (code s2 + of_int32 (ip s2)) = Some 8"
    using demo_operand [of s2] s2(3) c(5) frame_eqD(1) [OF s2(3)] c(4) by simp
  then show ?thesis
    using ret s2(2) c(1) s2(1) demo_caller_ok(4) by auto
qed

text \<open>the same for \<open>B_RET\<close>, which returns no value.\<close>

theorem call_then_return:
  assumes "stack_ok s" "3 \<le> room s" "stk s = args @ rest" "length args < 2 ^ 28" "ip s \<noteq> - 1"
  shows "\<exists>called. invoke c s = Some called \<and> stack_ok called \<and> active called = \<lparr>fr_fp = sp called, fr_code = c, fr_ip = 0\<rparr> \<and>
    frame called = (frame s)\<lparr>active := active called\<rparr> \<and>
    (\<forall>s2 own. running_callee called s2 own \<and>
       load32 (mem s2) (code s2 + of_int32 (ip s2)) = Some (of_nat (8 * length args)) \<longrightarrow>
       (\<exists>s3. exec os ev B_RET s2 = Some (Next s3) \<and> stack_ok s3 \<and> stk s3 = rest \<and>
          active s3 = active s \<and> frame s3 = (frame s2)\<lparr>active := active s\<rparr>))"
proof -
  obtain called where c: "invoke c s = Some called" "stack_ok called"
      "stk called = fp s # code s # of_int32 (ip s) # stk s"
      "active called = \<lparr>fr_fp = sp called, fr_code = c, fr_ip = 0\<rparr>"
      "room s = room called + 3" "frame called = (frame s)\<lparr>active := active called\<rparr>"
    using invoke_law [OF assms(1,2)] by metis
  moreover have "\<exists>s3. exec os ev B_RET s2 = Some (Next s3) \<and> stack_ok s3 \<and> stk s3 = rest \<and>
      active s3 = active s \<and> frame s3 = (frame s2)\<lparr>active := active s\<rparr>"
    if "running_callee called s2 own"
      "load32 (mem s2) (code s2 + of_int32 (ip s2)) = Some (of_nat (8 * length args))" for s2 own
  proof -
    from ret_law [where os = os and ev = ev, OF c(2) _ that(1,2) assms(4), of "fp s" "code s" "of_int32 (ip s)" rest]
      c(3) assms obtain s3
      where "exec os ev B_RET s2 = Some (Next s3)" "stack_ok s3" "stk s3 = rest"
        "active s3 = active s" "frame s3 = (frame s2)\<lparr>active := active s3\<rparr>"
      by (auto simp: frame_eta)
    then show ?thesis by auto
  qed
  ultimately show ?thesis by blast
qed

lemma call_then_return_witness:
  "\<exists>called s3. invoke 0x20000 demo_caller = Some called \<and>
     exec demo_os (\<lambda>i. Done False) B_RET called = Some (Next s3) \<and> stk s3 = [3] \<and>
     active s3 = \<lparr>fr_fp = 0x40070, fr_code = 0x20000, fr_ip = 9\<rparr>"
proof -
  have pre: "3 \<le> room demo_caller" "length [7 :: WORD] < 2 ^ 28" "fp demo_caller \<noteq> 0" "ip demo_caller \<noteq> - 1"
    by (simp_all add: demo_caller_ok)
  obtain called where c: "invoke 0x20000 demo_caller = Some called" "stack_ok called"
      "active called = \<lparr>fr_fp = sp called, fr_code = 0x20000, fr_ip = 0\<rparr>"
      "frame called = (frame demo_caller)\<lparr>active := active called\<rparr>"
    and ret: "\<forall>s2 own. running_callee called s2 own \<and>
       load32 (mem s2) (code s2 + of_int32 (ip s2)) = Some (of_nat (8 * length [7 :: WORD])) \<longrightarrow>
       (\<exists>s3. exec demo_os (\<lambda>i. Done False) B_RET s2 = Some (Next s3) \<and> stack_ok s3 \<and> stk s3 = [3] \<and>
          active s3 = active demo_caller \<and> frame s3 = (frame s2)\<lparr>active := active demo_caller\<rparr>)"
    using call_then_return [where c = "0x20000" and os = demo_os and ev = "\<lambda>i. Done False",
        OF demo_caller_ok(1) pre(1) demo_caller_ok(2) pre(2,4)] by blast
  have "load32 (mem called) (code called + of_int32 (ip called)) = Some 8"
    using demo_operand [OF c(4)] c(3) by simp
  then show ?thesis
    using ret callee_started(1) [OF c(2,3)] c(1) demo_caller_ok(4) by auto
qed

end
