(* ===== verification/Control.thy ===== *)
theory Control
  imports Calls
begin

section \<open>Jumps, switches, traps and rejected byte codes\<close>

text \<open>
  What the control-transfer instructions do with the tables that the compiler puts into the byte
  code, the checks that end a run, and the byte codes that have a number and a name but no branch.
\<close>

subsection \<open>Operands\<close>

text \<open>The \<open>int\<close> operands that start at offset \<open>i\<close> of the code.\<close>

fun code_ints :: "memory \<Rightarrow> WORD \<Rightarrow> int32 \<Rightarrow> int32 list \<Rightarrow> bool" where
  "code_ints m c i [] \<longleftrightarrow> True"
| "code_ints m c i (x # xs) \<longleftrightarrow>
     load32 m (c + of_int32 i) = Some x \<and> code_ints m c (i + 4) xs"

lemma ip_commute [simp]: "numeral n + ip s = ip s + numeral n"
  by (rule add.commute)

lemma intInByteCode_law [vm_simps]:
  "load32 (mem s) (code s + of_int32 (ip s)) = Some x \<Longrightarrow>
     intInByteCode s = Some (x, set_ip (ip s + 4) s)"
  by (simp add: intInByteCode_def)

lemma dispatch_branch: "(op, branch) \<in> set ops_branch \<Longrightarrow> exec os ev op = branch"
  by (rule ext, rule dispatch, simp add: switch_table_def)

lemma exec_branch:
  "exec os ev B_JZ = jump_if (\<lambda>val. val = 0)"
  "exec os ev B_JNZ = jump_if (\<lambda>val. val \<noteq> 0)"
  "exec os ev B_SWITCHI = switchi"
  "exec os ev B_SWITCHE = switche"
  by (rule dispatch_branch, simp add: ops_branch_def)+

subsection \<open>The search loops\<close>

text \<open>A switch over integers: the table of the byte code as a list of values and labels.\<close>

definition switch_ints :: "(int32 \<times> int32) list \<Rightarrow> int32 list" where
  "switch_ints cs = concat (map (\<lambda>(v, l). [v, l]) cs)"

definition selected :: "WORD \<Rightarrow> (int32 \<times> int32) list \<Rightarrow> int32 option" where
  "selected val cs = map_option snd (find (\<lambda>(v, l). of_int32 v = val) cs)"

lemma switchi_loop_law:
  "code_ints (mem s) (code s) (ip s) (switch_ints cs) \<Longrightarrow>
   switchi_loop (length cs) val s = Some (case selected val cs of
       None \<Rightarrow> (False, set_ip (ip s + 8 * of_nat (length cs)) s)
     | Some l \<Rightarrow> (True, set_ip l s))"
proof (induction cs arbitrary: s)
  case Nil
  then show ?case by (simp add: selected_def)
next
  case (Cons c cs)
  obtain v l where c: "c = (v, l)" by (cases c)
  show ?case
  proof (cases "of_int32 v = val")
    case True
    then show ?thesis
      using Cons.prems by (simp add: c switch_ints_def selected_def intInByteCode_def)
  next
    case False
    let ?t = "set_ip (ip s + 8) s"
    have "code_ints (mem ?t) (code ?t) (ip ?t) (switch_ints cs)"
      using Cons.prems by (simp add: c switch_ints_def)
    from Cons.IH [OF this]
    have "switchi_loop (length cs) val ?t = Some (case selected val cs of
        None \<Rightarrow> (False, set_ip (ip s + 8 * of_nat (Suc (length cs))) s)
      | Some l \<Rightarrow> (True, set_ip l s))"
      by (simp add: algebra_simps cong: option.case_cong)
    moreover have "switchi_loop (length (c # cs)) val s = switchi_loop (length cs) val ?t"
      using Cons.prems False by (simp add: c switch_ints_def intInByteCode_def)
    moreover have "selected val (c # cs) = selected val cs"
      using False by (simp add: c selected_def)
    ultimately show ?thesis by (simp only: length_Cons)
  qed
qed

text \<open>A switch over an enumeration: object, index in it and label of each case.\<close>

definition switch_enums :: "(int32 \<times> int32 \<times> int32) list \<Rightarrow> int32 list" where
  "switch_enums cs = concat (map (\<lambda>(k, i, l). [k, i, l]) cs)"

definition enum_address :: "WORD list \<Rightarrow> int32 \<Rightarrow> int32 \<Rightarrow> WORD" where
  "enum_address objs k i = objs ! nat (sint k) + of_int32 (i * 4)"

definition selected_enum :: "WORD list \<Rightarrow> WORD \<Rightarrow> (int32 \<times> int32 \<times> int32) list \<Rightarrow> int32 option" where
  "selected_enum objs val cs =
     map_option (\<lambda>(k, i, l). l) (find (\<lambda>(k, i, l). enum_address objs k i = val) cs)"

definition is_object :: "vm \<Rightarrow> int32 \<Rightarrow> bool" where
  "is_object s k \<longleftrightarrow> 0 \<le> sint k \<and> nat (sint k) < length (objects s)"

lemma switche_loop_law:
  "code_ints (mem s) (code s) (ip s) (switch_enums cs) \<Longrightarrow> \<forall>(k, i, l) \<in> set cs. is_object s k \<Longrightarrow>
   switche_loop (length cs) val s = Some (case selected_enum (objects s) val cs of
       None \<Rightarrow> (False, set_ip (ip s + 12 * of_nat (length cs)) s)
     | Some l \<Rightarrow> (True, set_ip l s))"
proof (induction cs arbitrary: s)
  case Nil
  then show ?case by (simp add: selected_enum_def)
next
  case (Cons c cs)
  obtain k i l where c: "c = (k, i, l)" by (cases c)
  have k: "valueAddress k t = Some (objects s ! nat (sint k))" if "objects t = objects s" for t
    using Cons.prems(2) that by (simp add: c valueAddress_def is_object_def)
  show ?case
  proof (cases "enum_address (objects s) k i = val")
    case True
    then show ?thesis
      using Cons.prems(1)
      by (simp add: c switch_enums_def selected_enum_def intInByteCode_def k enum_address_def)
  next
    case False
    let ?t = "set_ip (ip s + 12) s"
    have "code_ints (mem ?t) (code ?t) (ip ?t) (switch_enums cs)"
      "\<forall>(k, i, l) \<in> set cs. is_object ?t k"
      using Cons.prems by (simp_all add: c switch_enums_def is_object_def)
    from Cons.IH [OF this]
    have "switche_loop (length cs) val ?t = Some (case selected_enum (objects s) val cs of
        None \<Rightarrow> (False, set_ip (ip s + 12 * of_nat (Suc (length cs))) s)
      | Some l \<Rightarrow> (True, set_ip l s))"
      by (simp add: algebra_simps cong: option.case_cong)
    moreover have "switche_loop (length (c # cs)) val s = switche_loop (length cs) val ?t"
      using Cons.prems(1) False by (simp add: c switch_enums_def intInByteCode_def k enum_address_def)
    moreover have "selected_enum (objects s) val (c # cs) = selected_enum (objects s) val cs"
      using False by (simp add: c selected_enum_def)
    ultimately show ?thesis by (simp only: length_Cons)
  qed
qed

subsection \<open>Properties of the switches\<close>

text \<open>C11: \<open>B_SWITCHI\<close> pops its value and continues at the label of the first case that has this
  value, sign-extended, or at the default label when no case has it; nothing else changes.\<close>

theorem switchi_selects:
  assumes "stack_ok s" "stk s = val # ws" "length cs < 2 ^ 31"
    and "code_ints (mem s) (code s) (ip s) (of_nat (length cs) # dflt # switch_ints cs)"
  shows "exec os ev B_SWITCHI s = Some (Next (set_ip
      (case selected val cs of None \<Rightarrow> dflt | Some label \<Rightarrow> label) (s\<lparr>sp := sp s + 8\<rparr>)))"
proof -
  let ?t = "set_ip (ip s + 8) (s\<lparr>sp := sp s + 8\<rparr>)"
  have "code_ints (mem ?t) (code ?t) (ip ?t) (switch_ints cs)"
    using assms(4) by simp
  from switchi_loop_law [OF this, of val]
  show ?thesis
    using assms(4) sint_of_nat32 [OF assms(3)] pop_stk(1) [OF assms(1,2)]
    by (simp add: exec_branch switchi_def intInByteCode_def split: option.splits)
qed

lemma switchi_selects_witness:
  "exec demo_os (\<lambda>i. Done False) B_SWITCHI
     (demo [2,0,0,0, 99,0,0,0, 5,0,0,0, 40,0,0,0, 254,255,255,255, 60,0,0,0] [- 2]) =
   Some (Next (set_ip 60 ((demo [2,0,0,0, 99,0,0,0, 5,0,0,0, 40,0,0,0, 254,255,255,255, 60,0,0,0] [- 2])
     \<lparr>sp := 0x40080\<rparr>)))"
proof -
  let ?cs = "[2,0,0,0, 99,0,0,0, 5,0,0,0, 40,0,0,0, 254,255,255,255, 60,0,0,0] :: byte list"
  let ?s = "demo ?cs [- 2]"
  have code: "code_ints (mem ?s) (code ?s) (ip ?s) (of_nat (length [(5, 40), (- 2, 60)]) # 99 # switch_ints [(5, 40), (- 2, 60)])"
    using demo_int [of 0 ?cs "[- 2]"] demo_int [of 4 ?cs "[- 2]"] demo_int [of 8 ?cs "[- 2]"]
      demo_int [of 12 ?cs "[- 2]"] demo_int [of 16 ?cs "[- 2]"] demo_int [of 20 ?cs "[- 2]"]
    by (simp add: switch_ints_def demo_fields)
  show ?thesis
    using switchi_selects [where os = demo_os and ev = "\<lambda>i. Done False", OF demo_ok(1,2) _ code]
    by (simp add: selected_def demo_fields)
qed

text \<open>\<open>B_SWITCHE\<close> compares its value with the addresses of the enumeration constants (4 bytes
  each) of the objects named in the table, and continues at the label of the first one, or at the
  default label.\<close>

theorem switche_selects:
  assumes "stack_ok s" "stk s = val # ws" "length cs < 2 ^ 31"
    and "code_ints (mem s) (code s) (ip s) (of_nat (length cs) # dflt # switch_enums cs)"
    and "\<forall>(k, i, l) \<in> set cs. is_object s k"
  shows "exec os ev B_SWITCHE s = Some (Next (set_ip
      (case selected_enum (objects s) val cs of None \<Rightarrow> dflt | Some label \<Rightarrow> label) (s\<lparr>sp := sp s + 8\<rparr>)))"
proof -
  let ?t = "set_ip (ip s + 8) (s\<lparr>sp := sp s + 8\<rparr>)"
  have "code_ints (mem ?t) (code ?t) (ip ?t) (switch_enums cs)" "\<forall>(k, i, l) \<in> set cs. is_object ?t k"
    using assms(4,5) by (simp_all add: is_object_def)
  from switche_loop_law [OF this, of val]
  show ?thesis
    using assms(4) sint_of_nat32 [OF assms(3)] pop_stk(1) [OF assms(1,2)]
    by (simp add: exec_branch switche_def intInByteCode_def split: option.splits)
qed

lemma switche_selects_witness:
  "exec demo_os (\<lambda>i. Done False) B_SWITCHE
     (demo [1,0,0,0, 99,0,0,0, 0,0,0,0, 3,0,0,0, 40,0,0,0] [0x2000C, 1]) =
   Some (Next (set_ip 40 ((demo [1,0,0,0, 99,0,0,0, 0,0,0,0, 3,0,0,0, 40,0,0,0] [0x2000C, 1])
     \<lparr>sp := 0x40078\<rparr>)))"
proof -
  let ?cs = "[1,0,0,0, 99,0,0,0, 0,0,0,0, 3,0,0,0, 40,0,0,0] :: byte list"
  let ?s = "demo ?cs [0x2000C, 1]"
  have code: "code_ints (mem ?s) (code ?s) (ip ?s) (of_nat (length [(0, 3, 40)]) # 99 # switch_enums [(0, 3, 40)])"
    using demo_int [of 0 ?cs "[0x2000C, 1]"] demo_int [of 4 ?cs "[0x2000C, 1]"] demo_int [of 8 ?cs "[0x2000C, 1]"]
      demo_int [of 12 ?cs "[0x2000C, 1]"] demo_int [of 16 ?cs "[0x2000C, 1]"]
    by (simp add: switch_enums_def demo_fields)
  show ?thesis
    using switche_selects [where os = demo_os and ev = "\<lambda>i. Done False", OF demo_ok(1,2) _ code]
    by (simp add: selected_enum_def enum_address_def is_object_def demo_fields)
qed

subsection \<open>Byte codes without a branch\<close>

text \<open>The byte codes that \<open>enum ByteCodes\<close> declares and \<open>ExecutionContext::run\<close> does not execute.\<close>

definition unimplemented :: "nat list" where
  "unimplemented = [B_ILLEGAL, B_INVOKE, B_LDAS, B_GTA, B_GEA, B_LTA, B_LEA, B_THROW, B_string]"

lemma unimplemented_labels: "set case_labels \<inter> set unimplemented = {}"
  by (simp add: case_labels_def unimplemented_def)

lemma switch_labels: "set case_labels \<union> set unimplemented = {..<B_MAX_BYTECODE}"
proof (rule card_subset_eq)
  show "set case_labels \<union> set unimplemented \<subseteq> {..<B_MAX_BYTECODE}"
    by (simp add: case_labels_def unimplemented_def)
  have "card (set unimplemented) = 9"
    by (simp add: unimplemented_def)
  moreover have "card (set case_labels) = length case_labels"
    using distinct_switch by (intro distinct_card) (simp only: case_labels)
  moreover have "length case_labels = 161" by (simp add: case_labels_def)
  ultimately show "card (set case_labels \<union> set unimplemented) = card {..<B_MAX_BYTECODE}"
    by (simp only: card_Un_disjoint [OF finite_set finite_set unimplemented_labels] card_lessThan)
qed simp

lemma not_label: "op \<notin> set (map fst (switch_table os ev)) \<Longrightarrow> map_of (switch_table os ev) op = None"
  by (simp add: map_of_eq_None_iff)

lemma exec_rejects:
  assumes "op \<notin> set (map fst (switch_table os ev))" "op < B_MAX_BYTECODE"
  shows "exec os ev op s = return False (s\<lparr>vm_out := None\<rparr>)"
  using not_label [OF assms(1)] ByteCodeMap_name_total [OF assms(2)] by (auto simp: exec_def)

text \<open>C30: the \<open>switch\<close> has one branch for each byte code but the nine of \<open>unimplemented\<close>. Those nine have a
  name, which the \<open>default\<close> branch prints in a report that is not modelled, and end the run with false and the context
  as it is; a number that is no byte code has no name, and the same branch faults on it.\<close>

theorem byte_codes_executed_or_rejected:
  "distinct (map fst (switch_table os ev)) \<and>
   set (map fst (switch_table os ev)) = {op. op < B_MAX_BYTECODE \<and> op \<notin> set unimplemented} \<and>
   (\<forall>op \<in> set unimplemented. (\<exists>n. ByteCodeMap_name op = Some n) \<and> exec os ev op s = Some (Stop (Done False (s\<lparr>vm_out := None\<rparr>)))) \<and>
   (\<forall>op \<ge> B_MAX_BYTECODE. ByteCodeMap_name op = None \<and> exec os ev op s = None)"
proof (intro conjI)
  show "distinct (map fst (switch_table os ev))" by (rule distinct_switch)
  show labels: "set (map fst (switch_table os ev)) = {op. op < B_MAX_BYTECODE \<and> op \<notin> set unimplemented}"
    unfolding case_labels using switch_labels unimplemented_labels by blast
  have "op < B_MAX_BYTECODE" if "op \<in> set unimplemented" for op using that switch_labels by blast
  then show "\<forall>op \<in> set unimplemented. (\<exists>n. ByteCodeMap_name op = Some n) \<and> exec os ev op s = Some (Stop (Done False (s\<lparr>vm_out := None\<rparr>)))"
    using exec_rejects [of _ os ev s] ByteCodeMap_name_total unfolding labels return_def by blast
  show "\<forall>op \<ge> B_MAX_BYTECODE. ByteCodeMap_name op = None \<and> exec os ev op s = None"
  proof (intro allI impI)
    fix op :: nat
    assume op: "B_MAX_BYTECODE \<le> op"
    then have "op \<notin> set (map fst (switch_table os ev))" unfolding labels by simp
    from not_label [OF this] op show "ByteCodeMap_name op = None \<and> exec os ev op s = None"
      by (simp add: exec_def ByteCodeMap_name_def)
  qed
qed

lemma byte_codes_executed_or_rejected_witness:
  "exec demo_os (\<lambda>i. Done False) B_LDAS (demo [] []) = Some (Stop (Done False ((demo [] [])\<lparr>vm_out := None\<rparr>))) \<and>
   exec demo_os (\<lambda>i. Done False) 200 (demo [] []) = None"
  using byte_codes_executed_or_rejected [of demo_os "\<lambda>i. Done False" "demo [] []"] by (simp add: unimplemented_def)

subsection \<open>Pointers below 64K\<close>

text \<open>The instructions that pop a pointer and check it before they use it.\<close>

definition pointer_ops :: "nat list" where
  "pointer_ops = [B_LDIA, B_LDIL, B_LDII, B_LDIU, B_LDIV, B_LDIB, B_LDIC, B_STIL, B_STIA, B_STII,
     B_STIV, B_STIB, B_STIC, B_ZERO_I, B_LDTR, B_ICALL]"

text \<open>Two more read the size of an object from the byte code first.\<close>

definition object_pointer_ops :: "nat list" where
  "object_pointer_ops = [B_LDIO, B_STIO]"

definition guards_pointer :: "instr \<Rightarrow> bool" where
  "guards_pointer branch \<longleftrightarrow> (\<forall>s p s'. pop s = Some (p, s') \<longrightarrow> p < 0x10000 \<longrightarrow>
     branch s = Some (Stop (Done False s')))"

lemma at_popped_guards: "guards_pointer (at_popped f)"
  by (simp add: guards_pointer_def at_popped_def mem_valid_def return_def)

lemma dispatch_indirect: "(op, branch) \<in> set ops_indirect \<Longrightarrow> exec os ev op = branch"
  by (rule ext, rule dispatch, simp add: switch_table_def)

lemma dispatch_call: "(op, branch) \<in> set (ops_call os ev) \<Longrightarrow> exec os ev op = branch"
  by (rule ext, rule dispatch, simp add: switch_table_def)

lemma exec_indirect:
  "exec os ev B_LDIA = at_popped (push_mem ld_word)"
  "exec os ev B_LDIL = at_popped (push_mem ld_word)"
  "exec os ev B_LDII = at_popped (push_mem ld_int)"
  "exec os ev B_LDIU = at_popped (push_mem ld_unsigned)"
  "exec os ev B_LDIV = at_popped (\<lambda>left s.
     let s = s\<lparr>sp := sp s - VARIANT_SIZE\<rparr> in
     set_mem (variant_assign (mem s) (sp s) left) s)"
  "exec os ev B_LDIB = at_popped (push_mem ld_byte)"
  "exec os ev B_LDIC = at_popped (push_mem ld_ushort)"
  "exec os ev B_STIL = at_popped (store_top store64)"
  "exec os ev B_STIA = at_popped (store_top store64)"
  "exec os ev B_STII = at_popped (store_top store32)"
  "exec os ev B_STIV = at_popped store_variant"
  "exec os ev B_STIB = at_popped (store_top store8)"
  "exec os ev B_STIC = at_popped (store_top store16)"
  by (rule dispatch_indirect, simp add: ops_indirect_def)+

lemma call_guards: "guards_pointer (exec os ev B_LDTR)" "guards_pointer (exec os ev B_ICALL)"
  unfolding guards_pointer_def
  by (subst dispatch_call [of _ "\<lambda>s. do { (p, s) \<leftarrow> pop s; mem_valid p s (F p s) }" for F],
      simp add: ops_call_def, simp add: mem_valid_def return_def)+

lemma zero_guards: "guards_pointer (exec os ev B_ZERO_I)"
proof -
  have "exec os ev B_ZERO_I s = (\<lambda>s. do {
       (left, s) \<leftarrow> pop s;
       mem_valid left s (do {
         (val, s) \<leftarrow> intInByteCode s;
         set_mem (memset (mem s) left 0 (size_of_int val)) s }) }) s" for s
    by (rule dispatch) (simp add: switch_table_def ops_params_def)
  then show ?thesis by (simp add: guards_pointer_def mem_valid_def return_def)
qed

lemma pointer_ops_guard: "list_all (\<lambda>op. guards_pointer (exec os ev op)) pointer_ops"
  by (simp add: pointer_ops_def exec_indirect at_popped_guards call_guards zero_guards)

lemma exec_objects:
  "exec os ev B_LDIO = (\<lambda>s. do {
       (val, s) \<leftarrow> intInByteCode s;
       at_popped (\<lambda>right s.
         let s = s\<lparr>sp := sp s - round8 val\<rparr> in
         set_mem (memcpy (mem s) (sp s) right (size_of_int val)) s) s })"
  "exec os ev B_STIO = (\<lambda>s. do {
       (val, s) \<leftarrow> intInByteCode s;
       at_popped (\<lambda>right s. set_mem (memcpy (mem s) right (sp s) (size_of_int val)) s) s })"
  by (rule dispatch_indirect, simp add: ops_indirect_def)+

text \<open>The exception: \<open>B_DELETE\<close> hands what it pops to \<open>free\<close>, whatever it is; only null is harmless.\<close>

lemma delete_unchecked:
  assumes "stack_ok s" "stk s = p # ws" "p \<noteq> 0" "heap s p = None"
  shows "exec os ev B_DELETE s = None"
proof -
  have "exec os ev B_DELETE s = (\<lambda>s. do { (val, s) \<leftarrow> pop s; continue (c_free val s) }) s"
    by (rule dispatch) (simp add: switch_table_def ops_heap_def)
  then show ?thesis using pop_stk(1) [OF assms(1,2)] assms(3,4) by (simp add: c_free_def continue_def)
qed



end
