(* ===== verification/Variables.thy ===== *)
theory Variables
  imports Control
begin

section \<open>Locals and parameters as slots of the stack\<close>

text \<open>
  The instructions that read and write the variables of the active frame address them relative to
  the frame pointer. On the list view of the stack, where the address is that of a live slot, a load
  pushes the slot's value cut to the width of the instruction, and a store replaces the low bytes
  of the slot.
\<close>

subsection \<open>Parts of a slot\<close>

definition merge_low :: "nat \<Rightarrow> WORD \<Rightarrow> WORD \<Rightarrow> WORD" where
  "merge_low k old new = (old AND NOT (mask (8 * k))) OR take_bit (8 * k) new"

lemma from_bytes_merge:
  assumes "k \<le> 8"
  shows "from_bytes (to_bytes k new @ drop k (to_bytes 8 old)) = merge_low k old new"
proof (rule bit_word_eqI)
  fix i :: nat
  assume "i < LENGTH(64)"
  then have i: "i < 64" by simp
  then have "i div 8 < 8" by auto
  moreover have "8 * (i div 8) + i mod 8 = i" by simp
  moreover have "i div 8 < k \<longleftrightarrow> i < 8 * k" by auto
  moreover have "k + (i div 8 - k) = i div 8" if "\<not> i div 8 < k" using that by simp
  ultimately show "bit (from_bytes (to_bytes k new @ drop k (to_bytes 8 old))) i = bit (merge_low k old new) i"
    using i assms
    by (auto simp: bit_from_bytes merge_low_def nth_append bit_or_iff bit_and_iff bit_not_iff bit_mask_iff
        bit_take_bit_iff bit_unsigned_iff bit_drop_bit_eq add.commute)
qed

lemma merge_low_8 [simp]: "merge_low 8 old new = new"
  by (rule bit_word_eqI) (simp add: merge_low_def bit_or_iff bit_and_iff bit_not_iff bit_mask_iff bit_take_bit_iff)

lemma store_low_bytes:
  assumes "store_bytes m a (to_bytes k w) = Some m'" "load64 m a = Some old" "k \<le> 8"
  shows "load64 m' a = Some (merge_low k old w)"
proof -
  obtain bs where bs: "load_bytes m a 8 = Some bs" "old = from_bytes bs"
    using assms(2) by (auto simp: load64_def)
  have len: "length bs = 8" using bs(1) by (rule load_bytes_length)
  have old: "to_bytes 8 old = bs"
    using to_from_bytes [of bs] len bs(2) by simp
  have "load_bytes m' a 8 = Some (to_bytes k w @ drop k bs)"
    unfolding load_bytes_iff
  proof (intro conjI allI impI)
    show "length (to_bytes k w @ drop k bs) = 8" using len assms(3) by simp
    fix i :: nat
    assume i: "i < 8"
    then have "unat (of_nat i :: WORD) = i" by (intro unat_offset) simp
    then have "m' (a + of_nat i) = (if i < k then Some (to_bytes k w ! i) else m (a + of_nat i))"
      using store_bytes_get [OF assms(1), of "a + of_nat i"] assms(3) by simp
    then show "m' (a + of_nat i) = Some ((to_bytes k w @ drop k bs) ! i)"
      using bs(1) i len assms(3) by (auto simp: load_bytes_iff nth_append)
  qed
  then show ?thesis
    using from_bytes_merge [OF assms(3), of w old] by (simp add: load64_def old)
qed

text \<open>Reads of less than a slot.\<close>

lemma load_low_bytes:
  assumes "load64 m a = Some w" "k \<le> 8"
  shows "map_option from_bytes (load_bytes m a k) = Some (take_bit (8 * k) w)"
proof -
  obtain bs where bs: "load_bytes m a 8 = Some bs" "w = from_bytes bs"
    using assms(1) by (auto simp: load64_def)
  then show ?thesis
    using load_bytes_prefix [OF bs(1) assms(2)] by (simp add: from_bytes_take)
qed

lemma load16_of_load64: "load64 m a = Some w \<Longrightarrow> load16 m a = Some (ucast w)"
proof -
  assume w: "load64 m a = Some w"
  have "(ucast (take_bit 16 w) :: 16 word) = ucast w"
    by (rule bit_word_eqI) (simp add: bit_unsigned_iff bit_take_bit_iff)
  moreover obtain bs where "load_bytes m a 2 = Some bs" "from_bytes bs = take_bit 16 w"
    using load_low_bytes [OF w, of 2] by auto
  ultimately show ?thesis by (simp add: load16_def)
qed

lemma load8_of_load64: "load64 m a = Some w \<Longrightarrow> load8 m a = Some (ucast w)"
proof -
  assume w: "load64 m a = Some w"
  obtain bs where "load_bytes m a 1 = Some bs" "from_bytes bs = take_bit 8 w"
    using load_low_bytes [OF w, of 1] by auto
  then obtain b where b: "m a = Some b" "ucast b = take_bit 8 w"
    by (cases "m a") auto
  have "b = ucast (ucast b :: WORD)"
    by (rule bit_word_eqI) (simp add: bit_unsigned_iff)
  also have "\<dots> = ucast w"
    unfolding b(2) by (rule bit_word_eqI) (simp add: bit_unsigned_iff bit_take_bit_iff)
  finally show ?thesis using b(1) by (simp add: load8_def)
qed

lemma load_bytes_cong:
  "(\<And>i. i < n \<Longrightarrow> m (a + of_nat i) = m' (a + of_nat i)) \<Longrightarrow> load_bytes m a n = load_bytes m' a n"
proof (induction n arbitrary: a)
  case (Suc n)
  have "m a = m' a" using Suc.prems [of 0] by simp
  moreover have "load_bytes m (a + 1) n = load_bytes m' (a + 1) n"
    using Suc.prems [of "Suc i" for i] by (intro Suc.IH) (simp add: add.assoc)
  ultimately show ?case by simp
qed simp

subsection \<open>A store into one slot\<close>

lemma slot_byte:
  assumes "stack_ok s" "i < depth s" "n < 8"
  shows "unat (sp s + 8 * of_nat i + of_nat n) = unat (sp s) + 8 * i + n"
proof -
  have "unat (sp s + 8 * of_nat i) = unat (sp s) + 8 * i" by (rule slot_offset [OF assms(1,2)])
  moreover have "unat (sp s) + 8 * i + n < 2 ^ 64"
    using depth_top [OF assms(1)] unat_bound [of "stackTop s"] assms(2,3) by linarith
  moreover have "unat (of_nat n :: WORD) = n" using assms(3) by (intro unat_offset) simp
  ultimately show ?thesis by (simp add: unat_word_ariths)
qed

lemma near_address: "unat (x - a) < 8 \<Longrightarrow> \<exists>d < 8. x = a + of_nat d" for x a :: WORD
  by (intro exI [of _ "unat (x - a)"]) simp

lemma slot_bytes_distinct:
  assumes "stack_ok s" "i < depth s" "j < depth s" "n < 8"
    and "unat (sp s + 8 * of_nat i + of_nat n - (sp s + 8 * of_nat j)) < 8"
  shows "i = j"
proof -
  obtain d where d: "d < 8" "sp s + 8 * of_nat i + of_nat n = sp s + 8 * of_nat j + of_nat d"
    using near_address [OF assms(5)] by blast
  show ?thesis
    using arg_cong [OF d(2), of unat] assms(4) d(1)
    by (simp only: slot_byte [OF assms(1,2,4)] slot_byte [OF assms(1,3) d(1)])
qed

lemma slot_in_stack:
  assumes "stack_ok s" "j < depth s" "unat (x - (sp s + 8 * of_nat j)) < 8"
  shows "in_stack s x"
proof -
  define n where "n = unat (x - (sp s + 8 * of_nat j))"
  have x: "x = sp s + 8 * of_nat j + of_nat n" unfolding n_def by simp
  then have u: "unat x = unat (sp s) + 8 * j + n"
    using slot_byte [OF assms(1,2), of n] assms(3) by (simp add: n_def)
  have "unat (stack s) \<le> unat (sp s)" "unat (sp s) \<le> unat (stackTop s)"
    using assms(1) by (simp_all add: stack_ok_def word_le_nat_alt)
  moreover have "unat x < unat (stackTop s)"
    using u depth_top [OF assms(1)] assms(2,3) by (simp add: n_def)
  ultimately show ?thesis
    using u by (simp add: in_stack_def unat_diff word_le_nat_alt)
qed

lemma store_slot:
  assumes ok: "stack_ok s" and j: "j < depth s" and k: "k \<le> 8"
  shows "\<exists>m. store_bytes (mem s) (sp s + 8 * of_nat j) (to_bytes k w) = Some m \<and>
    stack_ok (s\<lparr>mem := m\<rparr>) \<and> stk (s\<lparr>mem := m\<rparr>) = (stk s)[j := merge_low k (stk s ! j) w] \<and>
    room (s\<lparr>mem := m\<rparr>) = room s \<and> frame (s\<lparr>mem := m\<rparr>) = frame s"
proof -
  let ?a = "sp s + 8 * of_nat j"
  have "mapped (mem s) ?a (length (to_bytes k w))"
    using mapped_mono [OF mapped_slot [OF ok j] k] by simp
  then obtain m where m: "store_bytes (mem s) ?a (to_bytes k w) = Some m"
    using store_bytes_defined by blast
  let ?t = "s\<lparr>mem := m\<rparr>"
  have get: "m x = (if unat (x - ?a) < k then Some (to_bytes k w ! unat (x - ?a)) else mem s x)" for x
    using store_bytes_get [OF m, of x] k by simp
  have ok': "stack_ok ?t"
    using ok mapped_dom [OF store_bytes_dom [OF m]] by (simp add: stack_ok_def)
  have d: "depth ?t = depth s" by (simp add: depth_def)
  have "stk ?t = (stk s)[j := merge_low k (stk s ! j) w]"
  proof (rule nth_equalityI)
    show "length (stk ?t) = length ((stk s)[j := merge_low k (stk s ! j) w])" by (simp add: d)
    fix i
    assume "i < length (stk ?t)"
    then have i: "i < depth s" by (simp add: d)
    have "load64 m (sp s + 8 * of_nat i) = Some ((stk s)[j := merge_low k (stk s ! j) w] ! i)"
    proof (cases "i = j")
      case True
      then show ?thesis
        using store_low_bytes [OF m load_slot [OF ok j] k] i by simp
    next
      case False
      have "m (sp s + 8 * of_nat i + of_nat n) = mem s (sp s + 8 * of_nat i + of_nat n)" if "n < 8" for n
        using slot_bytes_distinct [OF ok i j that] False k by (auto simp: get)
      then have "load64 m (sp s + 8 * of_nat i) = load64 (mem s) (sp s + 8 * of_nat i)"
        unfolding load64_def by (intro arg_cong [where f = "map_option from_bytes"] load_bytes_cong)
      then show ?thesis using load_slot [OF ok i] False i by simp
    qed
    then show "stk ?t ! i = (stk s)[j := merge_low k (stk s ! j) w] ! i"
      using load_slot [OF ok', of i] i d by simp
  qed
  moreover have "frame ?t = frame s"
  proof -
    have "m x = mem s x" if "\<not> in_stack s x" for x
      using slot_in_stack [OF ok j, of x] that k by (auto simp: get)
    then have "m |` {x. \<not> in_stack s x} = mem s |` {x. \<not> in_stack s x}"
      by (auto simp: restrict_map_def)
    then show ?thesis by (simp add: frame_def in_stack_def)
  qed
  moreover have "room ?t = room s" by (simp add: room_def)
  ultimately show ?thesis using m ok' by blast
qed

subsection \<open>The loads and stores of variables\<close>

definition auto_slot :: "vm \<Rightarrow> int32 \<Rightarrow> WORD" where
  "auto_slot s i = fp s + of_int32 i"

definition varg_slot :: "vm \<Rightarrow> int32 \<Rightarrow> WORD" where
  "varg_slot s i = fp s - of_int32 i"

definition param_slot :: "vm \<Rightarrow> int32 \<Rightarrow> WORD" where
  "param_slot s i = fp s + FRAME_SIZE + of_int32 i"

text \<open>What each load makes of the slot, and how many bytes each store replaces.\<close>

definition variable_loads :: "(nat \<times> (vm \<Rightarrow> int32 \<Rightarrow> WORD) \<times> (WORD \<Rightarrow> WORD)) list" where
  "variable_loads = [
    (B_LDAA, auto_slot, \<lambda>w. w),
    (B_LDAI, auto_slot, \<lambda>w. of_int32 (to_int w)),
    (B_LDAU, auto_slot, \<lambda>w. take_bit 32 w),
    (B_LDAC, auto_slot, \<lambda>w. take_bit 16 w),
    (B_LDAB, auto_slot, \<lambda>w. take_bit 8 w),
    (B_LDPA, param_slot, \<lambda>w. w),
    (B_LDPL, param_slot, \<lambda>w. w),
    (B_LDPI, param_slot, \<lambda>w. of_int32 (to_int w)),
    (B_LDPU, param_slot, \<lambda>w. take_bit 32 w),
    (B_LDPS, param_slot, \<lambda>w. scast (ucast w :: 16 word)),
    (B_LDPC, param_slot, \<lambda>w. take_bit 16 w),
    (B_LDPB, param_slot, \<lambda>w. take_bit 8 w)]"

definition variable_stores :: "(nat \<times> (vm \<Rightarrow> int32 \<Rightarrow> WORD) \<times> nat) list" where
  "variable_stores = [
    (B_STAA, auto_slot, 8), (B_STAI, auto_slot, 4), (B_STAS, auto_slot, 2), (B_STAB, auto_slot, 1),
    (B_STVA, varg_slot, 8), (B_STVI, varg_slot, 4), (B_STVS, varg_slot, 2), (B_STVB, varg_slot, 1),
    (B_STPA, param_slot, 8), (B_STPL, param_slot, 8), (B_STPI, param_slot, 4),
    (B_STPS, param_slot, 2), (B_STPB, param_slot, 1)]"

definition loads_slot :: "(vm \<Rightarrow> int32 \<Rightarrow> WORD) \<Rightarrow> (WORD \<Rightarrow> WORD) \<Rightarrow> instr \<Rightarrow> bool" where
  "loads_slot addr f branch \<longleftrightarrow> (\<forall>s i j. stack_ok s \<longrightarrow> 0 < room s \<longrightarrow> j < depth s \<longrightarrow>
     load32 (mem s) (code s + of_int32 (ip s)) = Some i \<longrightarrow> addr s i = sp s + 8 * of_nat j \<longrightarrow>
     (\<exists>s'. branch s = Some (Next s') \<and> stack_ok s' \<and> stk s' = f (stk s ! j) # stk s \<and>
        frame s' = frame (set_ip (ip s + 4) s)))"

definition stores_slot :: "(vm \<Rightarrow> int32 \<Rightarrow> WORD) \<Rightarrow> nat \<Rightarrow> instr \<Rightarrow> bool" where
  "stores_slot addr k branch \<longleftrightarrow> (\<forall>s i j. stack_ok s \<longrightarrow> j < depth s \<longrightarrow>
     load32 (mem s) (code s + of_int32 (ip s)) = Some i \<longrightarrow> addr s i = sp s + 8 * of_nat j \<longrightarrow>
     (\<exists>s'. branch s = Some (Next s') \<and> stack_ok s' \<and>
        stk s' = (stk s)[j := merge_low k (stk s ! j) (stk s ! 0)] \<and>
        frame s' = frame (set_ip (ip s + 4) s)))"

lemma push_slot_law:
  assumes "stack_ok s" "0 < room s" "j < depth s"
    and ld: "\<And>m a w. load64 m a = Some w \<Longrightarrow> ld m a = Some (f w)"
  shows "\<exists>s'. push_mem ld (sp s + 8 * of_nat j) s = Some (Next s') \<and> stack_ok s' \<and>
    stk s' = f (stk s ! j) # stk s \<and> frame s' = frame s"
proof -
  obtain s' where "pushv (f (stk s ! j)) s = Some s'" "stack_ok s'" "stk s' = f (stk s ! j) # stk s"
      "frame s' = frame s"
    using push_law [OF assms(1,2), of "f (stk s ! j)"] by blast
  then show ?thesis
    using ld [OF load_slot [OF assms(1,3)]] by (simp add: push_mem_def continue_def)
qed

lemma store_slot_law:
  assumes "stack_ok s" "j < depth s" "k \<le> 8"
    and store: "\<And>m a w. store m a w = store_bytes m a (to_bytes k w)"
  shows "\<exists>s'. store_top store (sp s + 8 * of_nat j) s = Some (Next s') \<and> stack_ok s' \<and>
    stk s' = (stk s)[j := merge_low k (stk s ! j) (stk s ! 0)] \<and> frame s' = frame s"
proof -
  obtain m where "store_bytes (mem s) (sp s + 8 * of_nat j) (to_bytes k (stk s ! 0)) = Some m"
      "stack_ok (s\<lparr>mem := m\<rparr>)" "stk (s\<lparr>mem := m\<rparr>) = (stk s)[j := merge_low k (stk s ! j) (stk s ! 0)]"
      "frame (s\<lparr>mem := m\<rparr>) = frame s"
    using store_slot [OF assms(1-3), of "stk s ! 0"] by blast
  moreover have "peek s = Some (stk s ! 0)"
    using load_slot [OF assms(1), of 0] assms(2) by (simp add: peek_def)
  ultimately show ?thesis by (simp add: store_top_def store)
qed

lemma at_loads:
  assumes "\<And>m a w. load64 m a = Some w \<Longrightarrow> ld m a = Some (f w)"
  shows "loads_slot auto_slot f (at_auto (push_mem ld))" "loads_slot param_slot f (at_params (push_mem ld))"
proof -
  have law: "\<exists>s'. push_mem ld (sp s + 8 * of_nat j) (set_ip n s) = Some (Next s') \<and> stack_ok s' \<and>
      stk s' = f (stk s ! j) # stk s \<and> frame s' = frame (set_ip n s)"
    if "stack_ok s" "0 < room s" "j < depth s" for s j n
    using push_slot_law [of "set_ip n s" j ld f, OF _ _ _ assms] that by simp
  show "loads_slot auto_slot f (at_auto (push_mem ld))"
    unfolding loads_slot_def at_auto_def
    using law by (simp add: intInByteCode_def auto_slot_def)
  show "loads_slot param_slot f (at_params (push_mem ld))"
    unfolding loads_slot_def at_params_def
    using law by (simp add: intInByteCode_def param_slot_def)
qed

lemma at_stores:
  assumes "k \<le> 8" "\<And>m a w. store m a w = store_bytes m a (to_bytes k w)"
  shows "stores_slot auto_slot k (at_auto (store_top store))"
    "stores_slot varg_slot k (at_varg (store_top store))"
    "stores_slot param_slot k (at_params (store_top store))"
proof -
  have law: "\<exists>s'. store_top store (sp s + 8 * of_nat j) (set_ip n s) = Some (Next s') \<and> stack_ok s' \<and>
      stk s' = (stk s)[j := merge_low k (stk s ! j) (stk s ! 0)] \<and> frame s' = frame (set_ip n s)"
    if "stack_ok s" "j < depth s" for s j n
    using store_slot_law [of "set_ip n s" j k store, OF _ _ assms] that by simp
  show "stores_slot auto_slot k (at_auto (store_top store))"
    unfolding stores_slot_def at_auto_def
    using law by (simp add: intInByteCode_def auto_slot_def)
  show "stores_slot varg_slot k (at_varg (store_top store))"
    unfolding stores_slot_def at_varg_def
    using law by (simp add: intInByteCode_def varg_slot_def)
  show "stores_slot param_slot k (at_params (store_top store))"
    unfolding stores_slot_def at_params_def
    using law by (simp add: intInByteCode_def param_slot_def)
qed

lemma take_bit_casts:
  "(ucast (ucast (w :: WORD) :: 16 word) :: WORD) = take_bit 16 w"
  "(ucast (ucast (w :: WORD) :: byte) :: WORD) = take_bit 8 w"
  by (rule bit_word_eqI, simp add: bit_unsigned_iff bit_take_bit_iff)+

lemma typed_reads:
  "load64 m a = Some w \<Longrightarrow> ld_word m a = Some w"
  "load64 m a = Some w \<Longrightarrow> ld_int m a = Some (of_int32 (to_int w))"
  "load64 m a = Some w \<Longrightarrow> ld_unsigned m a = Some (take_bit 32 w)"
  "load64 m a = Some w \<Longrightarrow> ld_short m a = Some (scast (ucast w :: 16 word))"
  "load64 m a = Some w \<Longrightarrow> ld_ushort m a = Some (take_bit 16 w)"
  "load64 m a = Some w \<Longrightarrow> ld_byte m a = Some (take_bit 8 w)"
  by (simp_all add: ld_word_def ld_int_def ld_unsigned_def ld_short_def ld_ushort_def ld_byte_def
      load32_of_load64 load16_of_load64 load8_of_load64 take_bit_32_64 take_bit_casts)

lemma dispatch_auto: "(op, branch) \<in> set ops_auto \<Longrightarrow> exec os ev op = branch"
  by (rule ext, rule dispatch, simp add: switch_table_def)

lemma dispatch_params: "(op, branch) \<in> set ops_params \<Longrightarrow> exec os ev op = branch"
  by (rule ext, rule dispatch, simp add: switch_table_def)

lemma exec_auto:
  "exec os ev B_LDAB = at_auto (push_mem ld_byte)"
  "exec os ev B_LDAC = at_auto (push_mem ld_ushort)"
  "exec os ev B_LDAA = at_auto (push_mem ld_word)"
  "exec os ev B_LDAI = at_auto (push_mem ld_int)"
  "exec os ev B_LDAU = at_auto (push_mem ld_unsigned)"
  "exec os ev B_STAB = at_auto (store_top store8)"
  "exec os ev B_STAS = at_auto (store_top store16)"
  "exec os ev B_STAA = at_auto (store_top store64)"
  "exec os ev B_STAI = at_auto (store_top store32)"
  "exec os ev B_STVA = at_varg (store_top store64)"
  "exec os ev B_STVB = at_varg (store_top store8)"
  "exec os ev B_STVS = at_varg (store_top store16)"
  "exec os ev B_STVI = at_varg (store_top store32)"
  by (rule dispatch_auto, simp add: ops_auto_def)+

lemma exec_params:
  "exec os ev B_LDPA = at_params (push_mem ld_word)"
  "exec os ev B_LDPI = at_params (push_mem ld_int)"
  "exec os ev B_LDPU = at_params (push_mem ld_unsigned)"
  "exec os ev B_LDPL = at_params (push_mem ld_word)"
  "exec os ev B_STPL = at_params (store_top store64)"
  "exec os ev B_STPA = at_params (store_top store64)"
  "exec os ev B_STPI = at_params (store_top store32)"
  "exec os ev B_LDPB = at_params (push_mem ld_byte)"
  "exec os ev B_STPS = at_params (store_top store16)"
  "exec os ev B_LDPC = at_params (push_mem ld_ushort)"
  "exec os ev B_LDPS = at_params (push_mem ld_short)"
  "exec os ev B_STPB = at_params (store_top store8)"
  by (rule dispatch_params, simp add: ops_params_def)+

lemma variable_loads_law: "list_all (\<lambda>(op, addr, f). loads_slot addr f (exec os ev op)) variable_loads"
  by (simp add: variable_loads_def exec_auto exec_params at_loads typed_reads)

lemma variable_stores_law: "list_all (\<lambda>(op, addr, k). stores_slot addr k (exec os ev op)) variable_stores"
  by (simp add: variable_stores_def exec_auto exec_params at_stores store64_def store32_def store16_def
      store8_def)

subsection \<open>Room for the locals\<close>

lemma lower_sp:
  assumes ok: "stack_ok s" and n: "n \<le> room s"
  defines "p \<equiv> sp s - 8 * of_nat n"
  shows "unat p = unat (sp s) - 8 * n" "8 * n \<le> unat (sp s)" "stack_ok (s\<lparr>sp := p\<rparr>)"
    "depth (s\<lparr>sp := p\<rparr>) = n + depth s" "room s = n + room (s\<lparr>sp := p\<rparr>)"
proof -
  have ord: "8 \<le> unat (stack s)" "unat (stack s) \<le> unat (sp s)" "unat (sp s) \<le> unat (stackTop s)"
    using ok by (simp_all add: stack_ok_def word_le_nat_alt)
  have n8: "8 * n \<le> unat (sp s) - unat (stack s)" using n by (simp add: room_def)
  then show le: "8 * n \<le> unat (sp s)" by simp
  have u: "unat (8 * of_nat n :: WORD) = 8 * n"
    using unat_offset [of "8 * n"] le unat_bound [of "sp s"] by simp
  then have "8 * of_nat n \<le> sp s" using le by (simp add: word_le_nat_alt)
  then show up: "unat p = unat (sp s) - 8 * n" by (simp add: p_def unat_diff u)
  have le': "stack s \<le> p" "p \<le> stackTop s"
    using ord n8 le by (simp_all add: word_le_nat_alt up)
  have top: "unat (stackTop s) = unat (sp s) + 8 * depth s" by (rule depth_top [OF ok])
  have d: "unat (stackTop s - p) = 8 * (n + depth s)"
    using le by (simp add: unat_diff [OF le'(2)] up top)
  then show "stack_ok (s\<lparr>sp := p\<rparr>)" using ok le' by (simp add: stack_ok_def)
  show "depth (s\<lparr>sp := p\<rparr>) = n + depth s" using d by (simp add: depth_def)
  have "unat (sp s) - unat (stack s) = 8 * n + (unat p - unat (stack s))"
    using n8 up le le' by (simp add: word_le_nat_alt)
  then show "room s = n + room (s\<lparr>sp := p\<rparr>)" by (simp add: room_def)
qed

lemma from_bytes_zeros: "from_bytes (replicate n 0) = 0"
  by (induction n) simp_all

lemma zeroed_slots:
  assumes ok: "stack_ok s" and n: "n \<le> room s"
  shows "\<exists>m. memset (mem s) (sp s - 8 * of_nat n) 0 (8 * n) = Some m \<and>
    stack_ok (s\<lparr>sp := sp s - 8 * of_nat n, mem := m\<rparr>) \<and>
    stk (s\<lparr>sp := sp s - 8 * of_nat n, mem := m\<rparr>) = replicate n 0 @ stk s \<and>
    frame (s\<lparr>sp := sp s - 8 * of_nat n, mem := m\<rparr>) = frame s"
proof -
  let ?p = "sp s - 8 * of_nat n"
  let ?t = "s\<lparr>sp := ?p\<rparr>"
  note low = lower_sp [OF ok n]
  have top: "unat (stackTop s) = unat (sp s) + 8 * depth s" by (rule depth_top [OF ok])
  have "mapped (mem s) ?p (8 * n)"
  proof (rule mapped_sub)
    show "mapped (mem s) (stack s) (unat (stackTop s - stack s))"
      using ok by (simp add: stack_ok_def)
    show "unat (?p - stack s) + 8 * n \<le> unat (stackTop s - stack s)"
      using low(1,2,3) top ok by (auto simp: stack_ok_def unat_diff word_le_nat_alt)
  qed
  then obtain m where m: "memset (mem s) ?p 0 (8 * n) = Some m"
    using store_bytes_defined [of "mem s" ?p "replicate (8 * n) 0"] by (auto simp: memset_def)
  have get: "m x = (if unat (x - ?p) < 8 * n then Some 0 else mem s x)" for x
    using store_bytes_get [of "mem s" ?p "replicate (8 * n) 0" m x] m low(2) unat_bound [of "sp s"]
    by (auto simp: memset_def)
  let ?u = "?t\<lparr>mem := m\<rparr>"
  have dom: "dom m = dom (mem s)" using m store_bytes_dom by (simp add: memset_def)
  have ok': "stack_ok ?u"
    using low(3) mapped_dom [OF dom] by (simp add: stack_ok_def)
  have d: "depth ?u = n + depth s" using low(4) by (simp add: depth_def)
  have off: "unat (?p + 8 * of_nat i + of_nat k - ?p) = 8 * i + k" if "i < n + depth s" "k < 8" for i k
  proof -
    have "8 * i + k < 2 ^ 64" using that low(2) top unat_bound [of "stackTop s"] by linarith
    then have "unat (of_nat (8 * i + k) :: WORD) = 8 * i + k" by (rule unat_offset)
    then show ?thesis by simp
  qed
  have "stk ?u = replicate n 0 @ stk s"
  proof (rule nth_equalityI)
    show "length (stk ?u) = length (replicate n 0 @ stk s)" by (simp add: d)
    fix i
    assume "i < length (stk ?u)"
    then have i: "i < n + depth s" by (simp add: d)
    have "load64 m (?p + 8 * of_nat i) = Some ((replicate n 0 @ stk s) ! i)"
    proof (cases "i < n")
      case True
      have "m (?p + 8 * of_nat i + of_nat k) = Some 0" if "k < 8" for k
        using off [OF i that] True that by (simp add: get)
      then have "load_bytes m (?p + 8 * of_nat i) 8 = Some (replicate 8 0)"
        by (simp add: load_bytes_iff)
      then show ?thesis using True by (simp add: load64_def from_bytes_zeros nth_append)
    next
      case False
      have at: "?p + 8 * of_nat i = sp s + 8 * of_nat (i - n)"
        using False by (simp add: of_nat_diff algebra_simps)
      have "m (?p + 8 * of_nat i + of_nat k) = mem s (?p + 8 * of_nat i + of_nat k)" if "k < 8" for k
        using off [OF i that] False that by (simp add: get)
      then have "load64 m (?p + 8 * of_nat i) = load64 (mem s) (?p + 8 * of_nat i)"
        unfolding load64_def by (intro arg_cong [where f = "map_option from_bytes"] load_bytes_cong)
      moreover have "load64 (mem s) (sp s + 8 * of_nat (i - n)) = Some (stk s ! (i - n))"
        using False i by (intro load_slot [OF ok]) simp
      ultimately show ?thesis using False by (simp add: at nth_append)
    qed
    then show "stk ?u ! i = (replicate n 0 @ stk s) ! i"
      using load_slot [OF ok', of i] i d by simp
  qed
  moreover have "frame ?u = frame s"
  proof -
    have "m x = mem s x" if out: "\<not> in_stack s x" for x
    proof (rule ccontr)
      assume "m x \<noteq> mem s x"
      then have x: "unat (x - ?p) < 8 * n" by (auto simp: get split: if_splits)
      then obtain k where k: "k < 8 * n" "x = ?p + of_nat k"
        by (intro that [of "unat (x - ?p)"]) simp_all
      have "unat ?p + k < 2 ^ 64" using k(1) low(1,2) unat_bound [of "sp s"] by linarith
      then have "unat x = unat ?p + k"
        using k low(2) unat_bound [of "sp s"] by (simp add: k(2) unat_word_ariths unat_offset)
      then have "unat (stack s) \<le> unat x" "unat x < unat (stackTop s)"
        using low(1,2,3) k(1) top by (auto simp: stack_ok_def word_le_nat_alt)
      then have "in_stack s x" using ok
        by (auto simp: in_stack_def unat_diff word_le_nat_alt stack_ok_def)
      then show False using out by blast
    qed
    then have "m |` {x. \<not> in_stack s x} = mem s |` {x. \<not> in_stack s x}"
      by (auto simp: restrict_map_def)
    then show ?thesis by (simp add: frame_def in_stack_def)
  qed
  ultimately show ?thesis using m ok' by auto
qed

subsection \<open>Properties of variables\<close>

text \<open>C9: a load of a local variable or of a parameter, whose address is that of the \<open>j\<close>-th live
  slot, pushes that slot's value cut to the width of the instruction and sign- or zero-extended
  as its type says, and changes nothing else.\<close>

theorem load_variable:
  assumes "(op, addr, f) \<in> set variable_loads" "stack_ok s" "0 < room s" "j < depth s"
    and "load32 (mem s) (code s + of_int32 (ip s)) = Some i" "addr s i = sp s + 8 * of_nat j"
  shows "\<exists>s'. exec os ev op s = Some (Next s') \<and> stack_ok s' \<and> stk s' = f (stk s ! j) # stk s \<and>
    frame s' = frame (set_ip (ip s + 4) s)"
proof -
  have "loads_slot addr f (exec os ev op)"
    using variable_loads_law [of os ev] assms(1) by (auto simp: list_all_iff)
  from this [unfolded loads_slot_def, rule_format, OF assms(2-6)] show ?thesis .
qed

lemma load_variable_witness:
  "\<exists>s'. exec demo_os (\<lambda>i. Done False) B_LDAI (set_fp 0x40080 (demo [248, 255, 255, 255] [7, 0x1FFFFFFFE])) = Some (Next s') \<and>
     stk s' = [- 2, 7, 0x1FFFFFFFE]"
proof -
  let ?s = "set_fp 0x40080 (demo [248, 255, 255, 255] [7, 0x1FFFFFFFE])"
  have "load32 (mem ?s) (code ?s + of_int32 (ip ?s)) = Some (- 8)"
    using demo_int [of 0 "[248, 255, 255, 255]" "[7, 0x1FFFFFFFE]"] by (simp add: demo_fields)
  moreover have "(B_LDAI, auto_slot, \<lambda>w. of_int32 (to_int w)) \<in> set variable_loads"
    by (simp add: variable_loads_def)
  ultimately show ?thesis
    using load_variable [where s = ?s and j = 1 and i = "- 8" and op = B_LDAI and addr = auto_slot
        and f = "\<lambda>w. of_int32 (to_int w)" and os = demo_os and ev = "\<lambda>i. Done False"]
    by (auto simp: demo_ok demo_fields auto_slot_def length_stk [symmetric] simp del: length_stk)
qed

text \<open>C10: a store to a local variable or a parameter, whose address is that of the \<open>j\<close>-th live slot,
  replaces as many low bytes of the slot as the instruction is wide by those of the word on top
  of the stack, which stays, and changes nothing else.\<close>

theorem store_variable:
  assumes "(op, addr, k) \<in> set variable_stores" "stack_ok s" "j < depth s"
    and "load32 (mem s) (code s + of_int32 (ip s)) = Some i" "addr s i = sp s + 8 * of_nat j"
  shows "\<exists>s'. exec os ev op s = Some (Next s') \<and> stack_ok s' \<and>
    stk s' = (stk s)[j := merge_low k (stk s ! j) (stk s ! 0)] \<and>
    frame s' = frame (set_ip (ip s + 4) s)"
proof -
  have "stores_slot addr k (exec os ev op)"
    using variable_stores_law [of os ev] assms(1) by (auto simp: list_all_iff)
  from this [unfolded stores_slot_def, rule_format, OF assms(2-5)] show ?thesis .
qed

lemma store_variable_witness:
  "\<exists>s'. exec demo_os (\<lambda>i. Done False) B_STAB (set_fp 0x40080 (demo [248, 255, 255, 255] [0x1234, 0xABCDEF])) = Some (Next s') \<and>
     stk s' = [0x1234, 0xABCD34]"
proof -
  let ?s = "set_fp 0x40080 (demo [248, 255, 255, 255] [0x1234, 0xABCDEF])"
  have "load32 (mem ?s) (code ?s + of_int32 (ip ?s)) = Some (- 8)"
    using demo_int [of 0 "[248, 255, 255, 255]" "[0x1234, 0xABCDEF]"] by (simp add: demo_fields)
  moreover have "(B_STAB, auto_slot, 1) \<in> set variable_stores"
    by (simp add: variable_stores_def)
  ultimately show ?thesis
    using store_variable [where s = ?s and j = 1 and i = "- 8" and op = B_STAB and addr = auto_slot
        and k = 1 and os = demo_os and ev = "\<lambda>i. Done False"]
    by (auto simp: demo_ok demo_fields auto_slot_def merge_low_def mask_eq_exp_minus_1
        length_stk [symmetric] simp del: length_stk)
qed

text \<open>\<open>B_LOCALS\<close> gives a function \<open>n\<close> zeroed slots on top of the stack, for an operand of \<open>8 * n\<close>
  bytes that fits, and changes nothing else.\<close>

theorem locals_are_zeroed:
  assumes "stack_ok s" "n \<le> room s" "n < 2 ^ 28"
    and "load32 (mem s) (code s + of_int32 (ip s)) = Some (of_nat (8 * n))"
  shows "\<exists>s'. exec os ev B_LOCALS s = Some (Next s') \<and> stack_ok s' \<and>
    stk s' = replicate n 0 @ stk s \<and> frame s' = frame (set_ip (ip s + 4) s)"
proof -
  let ?s = "set_ip (ip s + 4) s"
  obtain m where m: "memset (mem s) (sp s - 8 * of_nat n) 0 (8 * n) = Some m"
    "stack_ok (?s\<lparr>sp := sp ?s - 8 * of_nat n, mem := m\<rparr>)"
    "stk (?s\<lparr>sp := sp ?s - 8 * of_nat n, mem := m\<rparr>) = replicate n 0 @ stk ?s"
    "frame (?s\<lparr>sp := sp ?s - 8 * of_nat n, mem := m\<rparr>) = frame ?s"
    using zeroed_slots [of ?s n] assms(1,2) by auto
  have "8 * of_nat n = (of_nat (8 * n) :: WORD)" by simp
  then have "size_of_int (of_nat (8 * n)) = unat (of_nat (8 * n) :: WORD)"
    unfolding size_of_int_def of_int32_slots [OF assms(3)] by simp
  also have "\<dots> = 8 * n" using assms(3) by (intro unat_offset) simp
  finally have size: "size_of_int (of_nat (8 * n)) = 8 * n" .
  have "exec os ev B_LOCALS s = Some (Next (?s\<lparr>sp := sp s - 8 * of_nat n, mem := m\<rparr>))"
    using assms(4) m(1) of_int32_slots [OF assms(3)] size
    by (subst dispatch_return [of _ "\<lambda>s. do { (i, s) \<leftarrow> intInByteCode s; continue (reserve i s) }"])
      (simp_all add: ops_return_def intInByteCode_def reserve_def continue_def Let_def)
  then show ?thesis using m by simp
qed

lemma locals_are_zeroed_witness:
  "\<exists>s'. exec demo_os (\<lambda>i. Done False) B_LOCALS (demo [24, 0, 0, 0] [7]) = Some (Next s') \<and>
     stk s' = [0, 0, 0, 7]"
  using locals_are_zeroed [where s = "demo [24, 0, 0, 0] [7]" and n = 3 and os = demo_os and ev = "\<lambda>i. Done False"]
    demo_int [of 0 "[24, 0, 0, 0]" "[7]"]
  by (auto simp: demo_ok demo_fields numeral_3_eq_3)

end
