(* ===== verification/Run_Props.thy ===== *)
theory Run_Props
  imports Variables
begin

section \<open>Runs of the interpreter\<close>

text \<open>
  Properties of whole runs: fuel only decides whether a run ends, never how; nested runs that a
  built-in function starts leave the frame of their caller as it was; and the refinement of
  the single instructions composes to whole functions.
\<close>

subsection \<open>More fuel gives the same result\<close>

definition agree :: "(int32 \<Rightarrow> vm \<Rightarrow> run_result) \<Rightarrow> (int32 \<Rightarrow> vm \<Rightarrow> run_result) \<Rightarrow> bool" where
  "agree ev ev' \<longleftrightarrow> (\<forall>i s. ev i s \<noteq> OutOfFuel \<longrightarrow> ev' i s = ev i s)"

lemma eval_agree:
  assumes "agree ev ev'" "eval os ev start argv argc info s \<noteq> Some COutOfFuel"
  shows "eval os ev' start argv argc info s = eval os ev start argv argc info s"
proof (cases "load_argv (mem s) argv (nat (sint argc))")
  case None
  then show ?thesis by (simp add: eval_def)
next
  case (Some as)
  obtain outer s1 where u: "unloadFrame s = (outer, s1)" by (cases "unloadFrame s")
  show ?thesis
  proof (cases "push_args (os_args_array os) as s1")
    case None
    then show ?thesis using Some u by (simp add: eval_def)
  next
    case (Some s2)
    have "ev start s2 \<noteq> OutOfFuel"
      using assms(2) \<open>load_argv (mem s) argv (nat (sint argc)) = Some as\<close> u Some
      by (auto simp: eval_def)
    then have "ev' start s2 = ev start s2" using assms(1) by (simp add: agree_def)
    then show ?thesis
      using \<open>load_argv (mem s) argv (nat (sint argc)) = Some as\<close> u Some by (simp add: eval_def)
  qed
qed

lemma call_native_agree:
  assumes "agree ev ev'" "call_native os ev f as s \<noteq> Some COutOfFuel"
  shows "call_native os ev' f as s = call_native os ev f as s"
  using assms eval_agree [OF assms(1)] by (cases f) (simp_all add: call_native_def)

lemma xcall_agree:
  assumes "agree ev ev'" "xcall os ev s \<noteq> Some (Stop OutOfFuel)"
  shows "xcall os ev' s = xcall os ev s"
proof (cases "intInByteCode s")
  case None
  then show ?thesis by (simp add: xcall_def)
next
  case i: (Some r)
  obtain i s1 where r: "r = (i, s1)" by (cases r)
  show ?thesis
  proof (cases "builtin_at i")
    case None
    then show ?thesis using i r by (simp add: xcall_def)
  next
    case m: (Some m)
    show ?thesis
    proof (cases "read_args 0 (nat (bf_args m)) s1")
      case None
      then show ?thesis using i r m by (simp add: xcall_def)
    next
      case (Some as)
      show ?thesis
      proof (cases "bf_args m < 0 \<or> 4 < bf_args m")
        case True
        then show ?thesis using i r m by (simp add: xcall_def)
      next
        case False
        then have "call_native os ev (bf_func m) as s1 \<noteq> Some COutOfFuel"
          using assms(2) i r m Some by (auto simp: xcall_def)
        from call_native_agree [OF assms(1) this] show ?thesis
          using i r m Some by (simp add: xcall_def)
      qed
    qed
  qed
qed

lemma map_of_replace:
  "k \<noteq> x \<Longrightarrow> map_of (as @ (x, a) # bs) k = map_of (as @ (x, b) # bs) k"
  by (cases "map_of as k") (simp_all add: map_add_def)

lemma exec_any_nested: "op \<noteq> B_XCALL \<Longrightarrow> exec os ev' op s = exec os ev op s"
proof -
  assume ne: "op \<noteq> B_XCALL"
  obtain as bs where t: "\<And>e. switch_table os e = as @ (B_XCALL, xcall os e) # bs"
    by (rule that [of "ops_constants @ ops_static @ ops_heap os @ [hd (ops_call os ev)]"
        "tl (tl (ops_call os ev)) @ ops_return @ ops_stack @ ops_arith @ ops_variant @ ops_compare @
         ops_convert @ ops_branch @ ops_auto @ ops_params @ ops_indirect"])
      (simp add: switch_table_def ops_call_def)
  have "map_of (switch_table os ev') op = map_of (switch_table os ev) op"
    unfolding t using map_of_replace [OF ne] by fast
  then show ?thesis by (simp add: exec_def)
qed

lemma exec_agree:
  assumes "agree ev ev'" "exec os ev op s \<noteq> Some (Stop OutOfFuel)"
  shows "exec os ev' op s = exec os ev op s"
proof (cases "op = B_XCALL")
  case True
  have x: "exec os e B_XCALL = xcall os e" for e
    by (rule dispatch_call) (simp add: ops_call_def)
  show ?thesis using xcall_agree [OF assms(1)] assms(2) by (simp add: True x)
next
  case False
  then show ?thesis by (rule exec_any_nested)
qed

lemma step_agree:
  assumes "agree ev ev'" "step os ev s \<noteq> Some (Stop OutOfFuel)"
  shows "step os ev' s = step os ev s"
proof (cases "mem s (code s + of_int32 (ip s))")
  case None
  then show ?thesis by (simp add: step_def)
next
  case (Some b)
  then show ?thesis
    using exec_agree [OF assms(1)] assms(2) by (simp add: step_def)
qed

lemma run_object_agree:
  assumes "\<And>s. loop s \<noteq> OutOfFuel \<Longrightarrow> loop' s = loop s"
  shows "agree (run_object loop) (run_object loop')"
  unfolding agree_def run_object_def
  using assms by (auto split: option.splits)

lemma run_more_fuel: "run os n s \<noteq> OutOfFuel \<Longrightarrow> run os (n + k) s = run os n s"
proof (induction n arbitrary: s)
  case 0
  then show ?case by simp
next
  case (Suc n)
  have a: "agree (run_object (run os n)) (run_object (run os (n + k)))"
    by (rule run_object_agree) (rule Suc.IH)
  have "step os (run_object (run os n)) s \<noteq> Some (Stop OutOfFuel)"
    using Suc.prems by auto
  from step_agree [OF a this]
  have "step os (run_object (run os (n + k))) s = step os (run_object (run os n)) s" .
  then show ?case
    using Suc by (simp split: option.splits outcome.splits)
qed

subsection \<open>Straight-line code\<close>

text \<open>Pushing constants and computing with them: the byte code of the instructions, and what they do
  to a stack of integers.\<close>

datatype simple = Push WORD | Alu nat

fun encode :: "simple \<Rightarrow> byte list" where
  "encode (Push w) = of_nat B_LONG # to_bytes 8 w"
| "encode (Alu op) = [of_nat op]"

definition alu_step :: "nat \<Rightarrow> int list \<Rightarrow> int list option" where
  "alu_step op zs =
     (case (map_of alu1 op, map_of alu2 op, zs) of
        (Some f, _, a # ws) \<Rightarrow> Some (f a # ws)
      | (None, Some f, b # a # ws) \<Rightarrow> map_option (\<lambda>r. r # ws) (f a b)
      | _ \<Rightarrow> None)"

fun simple_step :: "simple \<Rightarrow> int list \<Rightarrow> int list option" where
  "simple_step (Push w) zs = Some (sint w # zs)"
| "simple_step (Alu op) zs = alu_step op zs"

fun simple_run :: "simple list \<Rightarrow> int list \<Rightarrow> int list option" where
  "simple_run [] zs = Some zs"
| "simple_run (i # is) zs = do { zs \<leftarrow> simple_step i zs; simple_run is zs }"

text \<open>Byte code at an address that the stack does not overlap.\<close>

definition program_at :: "vm \<Rightarrow> WORD \<Rightarrow> byte list \<Rightarrow> bool" where
  "program_at s p bs \<longleftrightarrow> length bs < 2 ^ 31 \<and> outside_stack s p (length bs) \<and>
     load_bytes (mem s) p (length bs) = Some bs"

lemma of_int32_offset: "k < 2 ^ 31 \<Longrightarrow> of_int32 (of_nat k) = of_nat k"
proof -
  assume "k < 2 ^ 31"
  have "of_int32 (of_nat k) = word_of_int (sint (of_nat k :: int32))" by simp
  also have "\<dots> = of_nat k" unfolding sint_of_nat32 [OF \<open>k < 2 ^ 31\<close>] by simp
  finally show ?thesis .
qed

lemma program_bytes:
  assumes "program_at s p bs" "k + n \<le> length bs"
  shows "load_bytes (mem s) (p + of_int32 (of_nat k)) n = Some (take n (drop k bs))"
  using assms of_int32_offset [of k]
  by (auto simp: program_at_def load_bytes_iff add.assoc simp flip: of_nat_add)

lemma program_frame:
  assumes "program_at s p bs" "frame t = (frame s)\<lparr>active := a, lastIp := l\<rparr>"
  shows "program_at t p bs"
proof -
  let ?s = "s\<lparr>lastIp := l\<rparr>"
  have f: "frame t = (frame ?s)\<lparr>active := a\<rparr>"
    using assms(2) by (simp add: frame_def in_stack_def)
  have "frame t = frame (?s\<lparr>active := a\<rparr>)" using f by simp
  then have "in_stack t x = in_stack s x" for x
    using frame_eqD [of t "?s\<lparr>active := a\<rparr>"] by (simp add: in_stack_def)
  moreover have "load_bytes (mem t) p (length bs) = load_bytes (mem ?s) p (length bs)"
    using assms(1) by (intro load_bytes_frame [OF f]) (simp add: program_at_def outside_stack_def in_stack_def)
  ultimately show ?thesis
    using assms(1) by (simp add: program_at_def outside_stack_def)
qed

lemma stack_lastIp [simp]:
  "stack_ok (s\<lparr>lastIp := l\<rparr>) = stack_ok s" "stk (s\<lparr>lastIp := l\<rparr>) = stk s"
  "room (s\<lparr>lastIp := l\<rparr>) = room s" "frame (s\<lparr>lastIp := l\<rparr>) = (frame s)\<lparr>lastIp := l\<rparr>"
  by (simp_all add: stack_ok_def stk_def depth_def room_def frame_def in_stack_def)

lemma step_fetch:
  assumes "program_at s (code s) bs" "ip s = of_nat k" "k < length bs"
  shows "step os ev s = exec os ev (unat (bs ! k)) (set_ip (of_nat (Suc k)) (s\<lparr>lastIp := ip s\<rparr>))"
proof -
  have "load_bytes (mem s) (code s + of_int32 (of_nat k)) 1 = Some (take 1 (drop k bs))"
    using program_bytes [OF assms(1), of k 1] assms(3) by simp
  then have "mem s (code s + of_int32 (of_nat k) + of_nat 0) = Some (take 1 (drop k bs) ! 0)"
    unfolding load_bytes_iff by blast
  then have "mem s (code s + of_int32 (ip s)) = Some (bs ! k)"
    using assms(2,3) by simp
  then show ?thesis
    by (simp add: step_def assms(2) add.commute)
qed

lemma small_alu_codes:
  "list_all (\<lambda>(op, f). op < 256 \<and> op \<noteq> B_XCALL) alu1"
  "list_all (\<lambda>(op, f). op < 256 \<and> op \<noteq> B_XCALL) alu2"
  by (simp_all add: alu1_def alu2_def)

lemma alu_step_law:
  assumes "stack_ok s" "alu_step op (map sint (stk s)) = Some zs"
  shows "op < 256 \<and> op \<noteq> B_XCALL \<and> (\<exists>s'. exec os ev op s = Some (Next s') \<and> stack_ok s' \<and> map sint (stk s') = zs \<and>
    frame s' = frame s)"
proof (cases "map_of alu1 op")
  case (Some f)
  then have mem: "(op, f) \<in> set alu1" by (rule map_of_SomeD)
  then have r: "refines1 f (exec os ev op)" "op < 256 \<and> op \<noteq> B_XCALL"
    using alu1_branches [of os ev] small_alu_codes(1) by (auto simp: list_all_iff)
  obtain a ws where st: "map sint (stk s) = a # ws" "zs = f a # ws"
    using assms(2) Some by (auto simp: alu_step_def split: list.splits)
  from r(1) [unfolded refines1_def, rule_format, OF assms(1) st(1)] show ?thesis
    using r(2) st(2) by simp
next
  case None
  obtain f where f: "map_of alu2 op = Some f"
    using assms(2) None by (cases "map_of alu2 op") (auto simp: alu_step_def split: list.splits)
  then have "(op, f) \<in> set alu2" by (rule map_of_SomeD)
  then have r: "refines2 f (exec os ev op)" "op < 256 \<and> op \<noteq> B_XCALL"
    using alu2_branches [of os ev] small_alu_codes(2) by (auto simp: list_all_iff)
  moreover obtain a b ws r where st: "map sint (stk s) = b # a # ws" "f a b = Some r" "zs = r # ws"
    using assms(2) None f by (auto simp: alu_step_def split: list.splits)
  ultimately have "\<exists>s'. exec os ev op s = Some (Next s') \<and> stack_ok s' \<and> map sint (stk s') = r # ws \<and>
      frame s' = frame s"
    using r(1) [unfolded refines2_def, rule_format, OF assms(1) st(1)] by simp
  then show ?thesis using r(2) st(3) by simp
qed

lemma exec_LONG: "exec os ev B_LONG s = do { (x, s) \<leftarrow> longInByteCode s; continue (pushv x s) }"
proof -
  have "exec os ev B_LONG s = (\<lambda>s. do { (x, s) \<leftarrow> longInByteCode s; continue (pushv x s) }) s"
    by (rule dispatch) (simp add: switch_table_def ops_constants_def)
  then show ?thesis .
qed

text \<open>The state after a stretch of code: the instruction pointer is \<open>k\<close>.\<close>

definition reached :: "vm \<Rightarrow> vm \<Rightarrow> nat \<Rightarrow> bool" where
  "reached s s' k \<longleftrightarrow> stack_ok s' \<and> ip s' = of_nat k \<and>
     (\<exists>l. frame s' = (frame s)\<lparr>active := (active s)\<lparr>fr_ip := of_nat k\<rparr>, lastIp := l\<rparr>)"

lemma simple_step_law:
  assumes prog: "program_at s (code s) (pre @ encode i @ post)" and ip: "ip s = of_nat (length pre)"
    and ok: "stack_ok s" "0 < room s" and st: "simple_step i (map sint (stk s)) = Some zs"
  shows "\<exists>s'. (\<forall>ev. step os ev s = Some (Next s')) \<and> reached s s' (length (pre @ encode i)) \<and>
    map sint (stk s') = zs"
proof (cases i)
  case (Push w)
  let ?k = "length pre"
  let ?t = "s\<lparr>lastIp := ip s\<rparr>"
  have "unat ((pre @ encode i @ post) ! ?k) = B_LONG" by (simp add: Push)
  then have step: "step os ev s = exec os ev B_LONG (set_ip (of_nat (Suc ?k)) ?t)" for ev
    using step_fetch [OF prog ip] by (simp add: Push)
  have "load_bytes (mem s) (code s + of_int32 (of_nat (Suc ?k))) 8 = Some (to_bytes 8 w)"
    using program_bytes [OF prog, of "Suc ?k" 8] by (simp add: Push)
  then have arg: "longInByteCode (set_ip (of_nat (Suc ?k)) ?t) = Some (w, set_ip (of_nat (?k + 9)) ?t)"
    by (simp add: longInByteCode_def load64_def add.commute)
  obtain s' where s': "pushv w (set_ip (of_nat (?k + 9)) ?t) = Some s'" "stack_ok s'"
      "stk s' = w # stk s" "frame s' = frame (set_ip (of_nat (?k + 9)) ?t)"
    using push_law [of "set_ip (of_nat (?k + 9)) ?t" w] ok by auto
  have "step os ev s = Some (Next s')" for ev
    unfolding step [of ev] exec_LONG arg using s'(1) by (simp add: continue_def)
  moreover have "reached s s' (length (pre @ encode i))"
    using s'(2,4) frame_eqD(1) [OF s'(4)]
    by (auto simp: reached_def Push intro!: exI [of _ "ip s"])
  moreover have "map sint (stk s') = zs" using st by (simp add: Push s'(3))
  ultimately show ?thesis by blast
next
  case (Alu op)
  let ?k = "length pre"
  let ?t = "set_ip (of_nat (Suc ?k)) (s\<lparr>lastIp := ip s\<rparr>)"
  obtain s' where s': "op < 256" "op \<noteq> B_XCALL" "exec os (\<lambda>i. Done False) op ?t = Some (Next s')" "stack_ok s'"
      "map sint (stk s') = zs" "frame s' = frame ?t"
    using alu_step_law [of ?t op zs os "\<lambda>i. Done False"] ok(1) st Alu by auto
  have "unat (of_nat op :: byte) = op"
    using s'(1) by (simp add: unsigned_of_nat take_bit_nat_eq_self)
  then have "step os ev s = exec os ev op ?t" for ev
    using step_fetch [OF prog ip] by (simp add: Alu)
  then have "step os ev s = Some (Next s')" for ev
    using exec_any_nested [OF s'(2)] s'(3) by metis
  moreover have "ip s' = of_nat (Suc ?k)" using frame_eqD(1) [OF s'(6)] by simp
  ultimately show ?thesis
    using s' by (auto simp: Alu reached_def intro!: exI [of _ "ip s"])
qed

lemma reachedD:
  assumes "reached s s' k"
  shows "stack_ok s'" "ip s' = of_nat k" "active s' = (active s)\<lparr>fr_ip := of_nat k\<rparr>" "stack s' = stack s"
    "stackTop s' = stackTop s"
proof -
  obtain l where f: "frame s' = frame (s\<lparr>active := (active s)\<lparr>fr_ip := of_nat k\<rparr>, lastIp := l\<rparr>)"
    using assms by (auto simp: reached_def)
  show "stack_ok s'" "ip s' = of_nat k" "active s' = (active s)\<lparr>fr_ip := of_nat k\<rparr>" "stack s' = stack s"
    "stackTop s' = stackTop s"
    using assms frame_eqD [OF f] by (simp_all add: reached_def)
qed

lemma reached_trans:
  assumes "reached s s1 k" "reached s1 s2 n"
  shows "reached s s2 n"
  using assms reachedD(3) [OF assms(1)] by (auto simp: reached_def)

lemma room_depth:
  assumes "stack_ok s"
  shows "room s + depth s = (unat (stackTop s) - unat (stack s)) div 8"
proof -
  have "unat (stackTop s) = unat (sp s) + 8 * depth s" by (rule depth_top [OF assms])
  moreover have "unat (stack s) \<le> unat (sp s)" using assms by (simp add: stack_ok_def word_le_nat_alt)
  ultimately show ?thesis by (simp add: room_def)
qed

lemma length_simple_step: "simple_step i xs = Some ys \<Longrightarrow> length ys \<le> Suc (length xs)"
  by (cases i) (auto simp: alu_step_def split: list.splits option.splits)

lemma simple_run_law:
  assumes "program_at s (code s) (pre @ concat (map encode is) @ post)" "ip s = of_nat (length pre)"
    and "stack_ok s" "length is \<le> room s" "simple_run is (map sint (stk s)) = Some zs"
  shows "\<exists>s'. (\<forall>n. run os (length is + n) s = run os n s') \<and>
    reached s s' (length (pre @ concat (map encode is))) \<and> map sint (stk s') = zs"
  using assms
proof (induction "is" arbitrary: s pre)
  case Nil
  have "frame s = (frame s)\<lparr>active := (active s)\<lparr>fr_ip := of_nat (length pre)\<rparr>, lastIp := lastIp s\<rparr>"
    using Nil.prems(2) by (simp add: frame_def)
  then have "reached s s (length pre)"
    using Nil.prems by (auto simp: reached_def)
  then show ?case using Nil.prems(5) by (intro exI [of _ s]) simp
next
  case (Cons i "is")
  obtain ys where ys: "simple_step i (map sint (stk s)) = Some ys" "simple_run is ys = Some zs"
    using Cons.prems(5) by (auto split: bind_splits)
  have prog: "program_at s (code s) (pre @ encode i @ concat (map encode is) @ post)"
    using Cons.prems(1) by simp
  obtain s1 where s1: "\<And>ev. step os ev s = Some (Next s1)" "reached s s1 (length (pre @ encode i))"
      "map sint (stk s1) = ys"
    using simple_step_law [OF prog Cons.prems(2,3) _ ys(1), of os] Cons.prems(4) by auto
  have "length (stk s1) \<le> Suc (length (stk s))"
    using length_simple_step [OF ys(1)] arg_cong [OF s1(3), of length] by simp
  then have "room s \<le> Suc (room s1)"
    using room_depth [OF Cons.prems(3)] room_depth [OF reachedD(1) [OF s1(2)]] reachedD(4,5) [OF s1(2)]
    by simp
  moreover obtain l where "frame s1 = (frame s)\<lparr>active := (active s)\<lparr>fr_ip := of_nat (length (pre @ encode i))\<rparr>, lastIp := l\<rparr>"
    using s1(2) by (auto simp: reached_def)
  then have "program_at s1 (code s1) ((pre @ encode i) @ concat (map encode is) @ post)"
    using program_frame [of s "code s"] prog reachedD(3) [OF s1(2)] by simp
  ultimately obtain s' where s': "\<forall>n. run os (length is + n) s1 = run os n s'"
      "reached s1 s' (length ((pre @ encode i) @ concat (map encode is)))" "map sint (stk s') = zs"
    using Cons.IH [of s1 "pre @ encode i"] reachedD(1,2) [OF s1(2)] Cons.prems(4) ys(2) s1(3)
    by auto
  have "run os (length (i # is) + n) s = run os n s'" for n
    using s'(1) s1(1) by simp
  moreover have "reached s s' (length (pre @ concat (map encode (i # is))))"
    using reached_trans [OF s1(2) s'(2)] by simp
  ultimately show ?case using s'(3) by blast
qed

subsection \<open>A whole function\<close>

lemma simple_run_append: "simple_run is xs = Some ys \<Longrightarrow> simple_run is (xs @ zs) = Some (ys @ zs)"
proof (induction "is" arbitrary: xs)
  case (Cons i "is")
  obtain us where us: "simple_step i xs = Some us" "simple_run is us = Some ys"
    using Cons.prems by (auto split: bind_splits)
  have "simple_step i (xs @ zs) = Some (us @ zs)"
    using us(1) by (cases i) (auto simp: alu_step_def split: list.splits option.splits)
  then show ?case using Cons.IH [OF us(2)] by simp
qed simp

lemma map_sint_inject: "map sint xs = map sint ys \<longleftrightarrow> xs = (ys :: WORD list)"
  by (simp add: inj_map_eq_map inj_def sint_inject)

text \<open>The return of the outermost function: its caller's frame pointer is null.\<close>

lemma ret1_outermost:
  assumes called: "stack_ok called" "stk called = 0 # c # r # rest"
    and callee: "running_callee called s (v # own)"
    and operand: "load32 (mem s) (code s + of_int32 (ip s)) = Some n"
  shows "\<exists>s'. exec os ev B_RET1 s = Some (Stop (Done True s')) \<and> stack_ok s' \<and> stk s' = v # rest \<and> vm_out s' = vm_out s"
proof -
  have ok: "stack_ok s" "stk s = v # own @ stk called"
    using callee by (simp_all add: running_callee_def)
  let ?a = "\<lparr>fr_fp = 0, fr_code = c, fr_ip = to_int r\<rparr>"
  let ?t = "s\<lparr>sp := fp s\<rparr>"
  note t = return_sp [OF called(1) callee]
  have d: "depth ?t = 3 + length rest"
    using arg_cong [OF t(2), of length] called(2) by simp
  let ?u = "s\<lparr>active := ?a, sp := fp s + 8 * of_nat (Suc (Suc (Suc 0)))\<rparr>"
  have u: "stack_ok ?u" "stk ?u = rest" "room ?u = room ?t + 3"
    using raise_sp [OF t(1), of "Suc (Suc (Suc 0))"] d t(2) called(2)
    by (simp_all add: upd_swap numeral_3_eq_3)
  then obtain s' where s': "pushv v ?u = Some s'" "stack_ok s'" "stk s' = v # rest" "frame s' = frame ?u"
    using push_law [of ?u v] by auto
  from frame_eqD(7) [OF s'(4)] have out: "vm_out s' = vm_out s" by simp
  have top: "load64 (mem s) (fp s) = Some 0" "load64 (mem s) (fp s + 8) = Some c"
      "load64 (mem s) (fp s + 16) = Some r"
    using slots_above [OF t(1), of 0 c r] t(2) called(2) by simp_all
  have "pop (set_ip (ip s + 4) s) = Some (v, (set_ip (ip s + 4) s)\<lparr>sp := sp s + 8\<rparr>)"
    using pop_stk(1) [of "set_ip (ip s + 4) s" v] ok by simp
  then have "exec os ev B_RET1 s = Some (Stop (Done True s'))"
    using operand top load32_of_load64 [OF top(3)] s'(1)
    by (simp add: exec_RET1 intInByteCode_def return_def algebra_simps)
  then show ?thesis using s'(2,3) out by blast
qed

definition return_code :: "byte list" where
  "return_code = [of_nat B_RET1, 0, 0, 0, 0]"

lemma function_runs:
  assumes ok: "stack_ok s" "length is + 3 \<le> room s" and outer: "fp s = 0"
    and obj: "0 \<le> sint k" "nat (sint k) < length (objects s)"
    and prog: "program_at s (objects s ! nat (sint k)) (concat (map encode is) @ return_code)"
    and spec: "simple_run is [] = Some [r]"
  shows "\<exists>s'. (\<forall>n. run_object (run os (length is + Suc n)) k s = Done True s') \<and> stack_ok s' \<and>
    map sint (stk s') = r # map sint (stk s) \<and> vm_out s' = vm_out s"
proof -
  let ?p = "objects s ! nat (sint k)" and ?len = "length (concat (map encode is))"
  let ?s = "s\<lparr>target := BYTE_CODE_TARGET\<rparr>"
  have s: "stack_ok ?s" "3 \<le> room ?s" "room ?s = room s" "stk ?s = stk s"
    using ok by (simp_all add: stack_ok_def room_def stk_def depth_def)
  obtain called where c: "invoke ?p ?s = Some called" "stack_ok called"
      "stk called = fp ?s # code ?s # of_int32 (ip ?s) # stk ?s" "room ?s = room called + 3"
      "active called = \<lparr>fr_fp = sp called, fr_code = ?p, fr_ip = 0\<rparr>"
      "frame called = (frame ?s)\<lparr>active := active called\<rparr>"
    using invoke_law [OF s(1,2)] .
  let ?c = "called\<lparr>lastIp := 0\<rparr>"
  have "program_at ?s ?p (concat (map encode is) @ return_code)"
    using prog by (simp add: program_at_def outside_stack_def in_stack_def)
  then have pc: "program_at ?c ?p (concat (map encode is) @ return_code)"
    by (rule program_frame [where a = "active called" and l = 0]) (simp add: c(6))
  have "simple_run is (map sint (stk ?c)) = Some ([r] @ map sint (stk ?c))"
    using simple_run_append [OF spec, of "map sint (stk ?c)"] by simp
  then obtain s1 where s1: "\<And>n. run os (length is + n) ?c = run os n s1" "reached ?c s1 ?len"
      "map sint (stk s1) = r # map sint (stk ?c)"
    using simple_run_law [of ?c "[]" "is" return_code "[r] @ map sint (stk ?c)" os] pc c ok(2) s(3) by auto
  obtain v where v: "stk s1 = v # stk called" "sint v = r"
    using s1(3) by (auto simp: map_eq_Cons_conv map_sint_inject)
  note r1 = reachedD [OF s1(2)]
  obtain l where f1: "frame s1 = (frame ?c)\<lparr>active := (active ?c)\<lparr>fr_ip := of_nat ?len\<rparr>, lastIp := l\<rparr>"
    using s1(2) by (auto simp: reached_def)
  have p1: "program_at s1 (code s1) (concat (map encode is) @ return_code)"
    using program_frame [OF pc f1] r1(3) c(5) by simp
  let ?t = "set_ip (of_nat (Suc ?len)) (s1\<lparr>lastIp := ip s1\<rparr>)"
  have step: "step os ev s1 = exec os ev B_RET1 ?t" for ev
    using step_fetch [OF p1 r1(2)] by (simp add: return_code_def nth_append)
  have "load32 (mem s1) (code s1 + of_int32 (of_nat (Suc ?len))) = Some 0"
    using program_bytes [OF p1, of "Suc ?len" 4] by (simp add: return_code_def load32_def)
  then have operand: "load32 (mem ?t) (code ?t + of_int32 (ip ?t)) = Some 0" by simp
  have "running_callee called ?t (v # [])"
    using r1 c(5) v(1) by (simp add: running_callee_def)
  then obtain s' where s': "exec os (\<lambda>i. Done False) B_RET1 ?t = Some (Stop (Done True s'))" "stack_ok s'"
      "stk s' = v # stk s" "vm_out s' = vm_out ?t"
    using ret1_outermost [OF c(2) _ _ operand, of _ _ _ v "[]" os "\<lambda>i. Done False"] c(3) s(4) outer by auto
  have ret: "exec os ev B_RET1 ?t = Some (Stop (Done True s'))" for ev
    using s'(1) exec_any_nested [of B_RET1 os ev ?t "\<lambda>i. Done False"] by simp
  have "run_object (run os (length is + Suc n)) k s = Done True s'" for n
  proof -
    have "run os (length is + Suc n) ?c = Done True s'"
      unfolding s1(1) run.simps step ret by simp
    moreover have "sint k < int (length (objects s))" using obj by linarith
    ultimately show ?thesis
      using obj c(1) by (simp add: run_object_def valueAddress_def del: add_Suc_right)
  qed
  moreover have "vm_out s' = vm_out s"
    using s'(4) arg_cong [OF f1, of vm_out] arg_cong [OF c(6), of vm_out] by (simp add: frame_def)
  ultimately show ?thesis using s'(2,3) v(2) by auto
qed

text \<open>C8: a function object whose byte code pushes constants, computes with them and returns the one
  value left runs to the end from any object table entry, in exactly as many steps as it has
  instructions, and leaves on the stack of its caller what the integer specification computes.
  The stack needs room for the saved frame and one slot for each instruction.\<close>

theorem function_computes:
  assumes ok: "stack_ok s" "length is + 3 \<le> room s" and outer: "fp s = 0"
    and obj: "0 \<le> sint k" "nat (sint k) < length (objects s)"
    and prog: "program_at s (objects s ! nat (sint k)) (concat (map encode is) @ return_code)"
    and spec: "simple_run is [] = Some [r]"
  shows "\<exists>s'. (\<forall>n. run_object (run os (length is + Suc n)) k s = Done True s') \<and> stack_ok s' \<and>
    map sint (stk s') = r # map sint (stk s)"
proof -
  obtain s' where "\<forall>n. run_object (run os (length is + Suc n)) k s = Done True s'" "stack_ok s'"
      "map sint (stk s') = r # map sint (stk s)"
    using function_runs [OF ok outer obj prog spec, of os] by (elim exE conjE) (rule that)
  then show ?thesis by (intro exI conjI)
qed

lemma function_computes_witness:
  "\<exists>s'. run_object (run demo_os 4) 0 (demo (concat (map encode [Push 20, Push (- 6), Alu B_DIV]) @ return_code) [5])
      = Done True s' \<and> map sint (stk s') = [- 3, 5]"
proof -
  let ?is = "[Push 20, Push (- 6), Alu B_DIV]"
  let ?cs = "concat (map encode ?is) @ return_code"
  let ?s = "demo ?cs [5]"
  have len: "length ?cs = 24" by (simp add: return_code_def)
  have prog: "program_at ?s (objects ?s ! nat (sint (0 :: int32))) ?cs"
    using demo_code [of 0 24 ?cs "[5]"] len by (simp add: program_at_def demo_fields)
  have spec: "simple_run ?is [] = Some [- 3]"
    by (simp add: alu_step_def alu1_def alu2_def traps_def signed_divide_int_def)
  have "length ?is + 3 \<le> room ?s" "stk ?s = [5]" "stack_ok ?s"
    using len by (simp_all add: demo_ok del: concat.simps)
  then obtain s' where s': "\<And>n. run_object (run demo_os (length ?is + Suc n)) 0 ?s = Done True s'"
      "map sint (stk s') = - 3 # map sint (stk ?s)"
    using function_computes [where s = ?s and k = 0 and os = demo_os, OF _ _ _ _ _ prog spec]
    by (auto simp: demo_fields)
  have four: "length ?is + Suc 0 = 4" by simp
  show ?thesis
  proof (intro exI conjI)
    show "run_object (run demo_os 4) 0 ?s = Done True s'"
      using s'(1) [of 0] unfolding four .
    show "map sint (stk s') = [- 3, 5]"
      using s'(2) unfolding \<open>stk ?s = [5]\<close> by simp
  qed
qed

text \<open>The result of a run that ends does not depend on the fuel: any other amount that also
  ends it gives the same result, and more of it never turns a result into another one.\<close>

theorem run_fuel_irrelevant:
  "(run os n s \<noteq> OutOfFuel \<longrightarrow> run os (n + k) s = run os n s) \<and>
   (run os n s \<noteq> OutOfFuel \<longrightarrow> run os m s \<noteq> OutOfFuel \<longrightarrow> run os n s = run os m s)"
proof (intro conjI impI)
  assume n: "run os n s \<noteq> OutOfFuel"
  then show "run os (n + k) s = run os n s" by (rule run_more_fuel)
  assume m: "run os m s \<noteq> OutOfFuel"
  have "run os (n + m) s = run os n s" "run os (m + n) s = run os m s"
    using n m by (auto intro: run_more_fuel)
  then show "run os n s = run os m s" by (simp add: add.commute)
qed

lemma run_fuel_irrelevant_witness:
  "run demo_os (1 + 41) (demo [0] []) = Done False ((demo [0] [])\<lparr>active := \<lparr>fr_fp = 0, fr_code = 0x20000, fr_ip = 1\<rparr>, vm_out := None\<rparr>)"
proof -
  let ?s = "demo [0] []"
  have "load_bytes (mem ?s) (0x20000 + of_nat 0) 1 = Some [0]"
    using demo_code(1) [of 0 1 "[0]" "[]"] by simp
  then have b: "mem ?s 0x20000 = Some 0" by (cases "mem ?s 0x20000") auto
  have s: "(set_ip 1 (?s\<lparr>lastIp := 0\<rparr>))\<lparr>vm_out := None\<rparr> = ?s\<lparr>active := \<lparr>fr_fp = 0, fr_code = 0x20000, fr_ip = 1\<rparr>, vm_out := None\<rparr>"
    by (simp add: demo_def)
  have illegal: "B_ILLEGAL \<notin> set (map fst (switch_table os ev))" for os ev
    unfolding case_labels by (simp add: case_labels_def)
  then have "step demo_os ev ?s = Some (Stop (Done False ((set_ip 1 (?s\<lparr>lastIp := 0\<rparr>))\<lparr>vm_out := None\<rparr>)))" for ev
    using exec_rejects [of B_ILLEGAL demo_os ev] illegal by (simp add: step_def demo_fields b return_def)
  then have "run demo_os 1 ?s = Done False ((set_ip 1 (?s\<lparr>lastIp := 0\<rparr>))\<lparr>vm_out := None\<rparr>)"
    by (simp add: One_nat_def [symmetric] del: One_nat_def) (simp add: One_nat_def)
  then show ?thesis
    unfolding s [symmetric] using run_fuel_irrelevant [of demo_os 1 ?s 41 0] by simp
qed

end
