(* ===== verification/Context_Props.thy ===== *)
theory Context_Props
  imports Run_Props
begin

section \<open>Properties of the execution context and of the built-in functions\<close>

text \<open>
  Nested evaluation, overflow of the stack, stores to static objects, the heap and the snapshots.
\<close>

subsection \<open>Nested evaluation\<close>

lemma reload_unload:
  "unloadFrame s = (outer, s1) \<Longrightarrow> active (reloadFrame outer t) = active s \<and> sp (reloadFrame outer t) = sp s \<and>
   stack (reloadFrame outer t) = stack s \<and> stackTop (reloadFrame outer t) = stackTop s \<and>
   target (reloadFrame outer t) = target s"
  by (auto simp: unloadFrame_def reloadFrame_def)

text \<open>C32: whatever the function that \<open>eval\<close> runs does, and whether it returns or fails, the caller
  of \<open>eval\<close> continues in its own frame: code, instruction pointer, frame pointer, stack pointer,
  stack and target are those of before the call.\<close>

theorem eval_restores_caller:
  assumes "eval os ev start argv argc info s = Some (CRet r s')"
  shows "active s' = active s \<and> sp s' = sp s \<and> stack s' = stack s \<and> stackTop s' = stackTop s \<and>
    target s' = target s"
proof -
  obtain outer s1 where u: "unloadFrame s = (outer, s1)" by (cases "unloadFrame s")
  have "\<exists>t. s' = reloadFrame outer t"
    using assms u
    by (auto simp: eval_def ret_int_def Let_def split: bind_splits run_result.splits bool.splits prod.splits)
  then show ?thesis using reload_unload [OF u] by blast
qed

lemma eval_restores_caller_witness:
  "\<exists>r s'. eval demo_os (\<lambda>i s. Done True s) 0 0 0 0 (set_ip 7 (demo [] [5])) = Some (CRet r s') \<and>
     ip s' = 7 \<and> sp s' = 0x40078"
proof -
  let ?s = "set_ip 7 (demo [] [5])"
  let ?s1 = "?s\<lparr>active := null_frame, vm_args := []\<rparr>"
  have s1: "stack_ok ?s1" "room ?s1 = 15"
    using demo_ok [of "[5]" "[]"] by (simp_all add: stack_ok_def room_def)
  obtain s2 where s2: "pushv 0 ?s1 = Some s2" "stack_ok s2" "room ?s1 = Suc (room s2)"
    using push_law [OF s1(1), of 0] s1(2) by auto
  obtain s3 where s3: "pushv 0 s2 = Some s3" "stack_ok s3" "stk s3 = 0 # stk s2"
    using push_law [OF s2(2), of 0] s1(2) s2(3) by auto
  have "push_args (os_args_array demo_os) [] (?s\<lparr>active := null_frame\<rparr>) = Some s3"
    using s2(1) s3(1) by (simp add: push_args_def demo_os_def)
  then have "\<exists>r s'. eval demo_os (\<lambda>i s. Done True s) 0 0 0 0 ?s = Some (CRet r s')"
    using pop_stk(1) [OF s3(2,3)]
    by (simp add: eval_def unloadFrame_def ret_int_def)
  then obtain r s' where e: "eval demo_os (\<lambda>i s. Done True s) 0 0 0 0 ?s = Some (CRet r s')"
    by blast
  then show ?thesis using eval_restores_caller [OF e] by (auto simp: demo_fields)
qed

subsection \<open>A full stack\<close>

text \<open>The instructions that push a constant, an address, a variable or a copy of the top of the stack, and the
  bytes of their operands.\<close>

definition pushing_codes :: "(nat \<times> int32) list" where
  "pushing_codes =
     [(B_INT, 4), (B_LONG, 8), (B_STRING, 4), (B_ADDR, 4), (B_ASTRING, 4), (B_VALUE, 4)] @
     [(B_LDSA, 4), (B_LDSI, 4), (B_LDSU, 4), (B_LDSB, 4), (B_LDSC, 4), (B_LDSS, 4)] @
     [(B_LDAA, 4), (B_LDAI, 4), (B_LDAU, 4), (B_LDAB, 4), (B_LDAC, 4)] @
     [(B_LDPA, 4), (B_LDPL, 4), (B_LDPI, 4), (B_LDPU, 4), (B_LDPB, 4), (B_LDPC, 4), (B_LDPS, 4),
      (B_AUTO, 4), (B_AVARG, 4), (B_PARAMS, 4)] @
     [(B_DUP, 0)]"

definition skips :: "int32 \<Rightarrow> instr \<Rightarrow> bool" where
  "skips k f \<longleftrightarrow> (\<forall>s s'. (\<forall>w. pushv w s = Some s) \<longrightarrow> (\<forall>i w. pushv w (set_ip i s) = Some (set_ip i s)) \<longrightarrow>
     f s = Some (Next s') \<longrightarrow> s' = set_ip (ip s + k) s)"

lemma operand_skips:
  "skips 4 (\<lambda>s. do { (i, s) \<leftarrow> intInByteCode s; continue (pushv (of_int32 i) s) })"
  "skips 8 (\<lambda>s. do { (x, s) \<leftarrow> longInByteCode s; continue (pushv x s) })"
  "skips 0 (\<lambda>s. do { x \<leftarrow> peek s; continue (pushv x s) })"
  "skips 4 (\<lambda>s. do { (i, s) \<leftarrow> intInByteCode s; p \<leftarrow> valueAddress i s; push_mem ld p s })"
  "skips 4 (\<lambda>s. do { (i, s) \<leftarrow> intInByteCode s; p \<leftarrow> valueAddress i s; continue (pushv p s) })"
  "skips 4 (at_static (push_mem ld))" "skips 4 (at_auto (push_mem ld))" "skips 4 (at_params (push_mem ld))"
  "skips 4 (at_auto push_address)" "skips 4 (at_varg push_address)" "skips 4 (at_params push_address)"
  unfolding skips_def
  by (auto simp: intInByteCode_def longInByteCode_def at_static_def at_auto_def at_params_def at_varg_def push_mem_def
      push_address_def continue_def split: bind_splits)

definition skip_entry :: "(nat \<times> instr) list \<Rightarrow> nat \<times> int32 \<Rightarrow> bool" where
  "skip_entry tab c \<longleftrightarrow> (case map_of tab (fst c) of Some f \<Rightarrow> skips (snd c) f | None \<Rightarrow> False)"

lemma pushing_entries:
  "list_all (skip_entry ops_constants) [(B_INT, 4), (B_LONG, 8), (B_STRING, 4), (B_ADDR, 4), (B_ASTRING, 4), (B_VALUE, 4)]"
  "list_all (skip_entry ops_static) [(B_LDSA, 4), (B_LDSI, 4), (B_LDSU, 4), (B_LDSB, 4), (B_LDSC, 4), (B_LDSS, 4)]"
  "list_all (skip_entry ops_auto) [(B_LDAA, 4), (B_LDAI, 4), (B_LDAU, 4), (B_LDAB, 4), (B_LDAC, 4)]"
  "list_all (skip_entry ops_params) [(B_LDPA, 4), (B_LDPL, 4), (B_LDPI, 4), (B_LDPU, 4), (B_LDPB, 4), (B_LDPC, 4), (B_LDPS, 4),
     (B_AUTO, 4), (B_AVARG, 4), (B_PARAMS, 4)]"
  "list_all (skip_entry ops_stack) [(B_DUP, 0)]"
  by (simp_all add: skip_entry_def ops_constants_def ops_static_def ops_auto_def ops_params_def ops_stack_def operand_skips)

lemma skip_entry_exec:
  assumes "skip_entry tab (op, k)" "set tab \<subseteq> set (switch_table os ev)"
  shows "skips k (exec os ev op)"
proof -
  obtain f where f: "map_of tab op = Some f" "skips k f"
    using assms(1) by (auto simp: skip_entry_def split: option.splits)
  have "exec os ev op = f"
    by (rule ext, rule dispatch) (use map_of_SomeD [OF f(1)] assms(2) in blast)
  then show ?thesis using f(2) by simp
qed

lemma pushing_skips: "(op, k) \<in> set pushing_codes \<Longrightarrow> skips k (exec os ev op)"
proof -
  assume c: "(op, k) \<in> set pushing_codes"
  have tables: "set ops_constants \<subseteq> set (switch_table os ev)" "set ops_static \<subseteq> set (switch_table os ev)"
    "set ops_auto \<subseteq> set (switch_table os ev)" "set ops_params \<subseteq> set (switch_table os ev)"
    "set ops_stack \<subseteq> set (switch_table os ev)"
    by (auto simp: switch_table_def)
  show ?thesis
    using c [unfolded pushing_codes_def set_append] pushing_entries [unfolded list_all_iff] tables skip_entry_exec
    by (elim UnE) blast+
qed



subsection \<open>Static objects\<close>

lemma exec_static:
  "exec os ev B_STSA = at_static (store_top store32)"
  "exec os ev B_LDSA = at_static (push_mem ld_word)"
  by (rule ext, rule dispatch, simp add: switch_table_def ops_static_def)+

text \<open>\<open>B_STSA\<close>, which stores an address into a static object and whose counterpart \<open>B_LDSA\<close> reads 8
  bytes, writes only the low 4 bytes: the object then holds the new low half beside the old
  high half, so an address above 4G that is stored and loaded again has changed.\<close>

theorem store_static_address_truncates:
  assumes "stack_ok s" "stk s = w # ws" "is_object s k" "load64 (mem s) (objects s ! nat (sint k)) = Some old"
    and "load32 (mem s) (code s + of_int32 (ip s)) = Some k"
  shows "\<exists>m. exec os ev B_STSA s = Some (Next ((set_ip (ip s + 4) s)\<lparr>mem := m\<rparr>)) \<and>
    load64 m (objects s ! nat (sint k)) = Some (merge_low 4 old w)"
proof -
  let ?a = "objects s ! nat (sint k)"
  have "load_bytes (mem s) ?a 8 \<noteq> None" using assms(4) by (auto simp: load64_def)
  then have "mapped (mem s) ?a 8" using load_bytes_defined by blast
  then have "mapped (mem s) ?a (length (to_bytes 4 w))" by (rule mapped_mono) simp
  then obtain m where m: "store_bytes (mem s) ?a (to_bytes 4 w) = Some m"
    using store_bytes_defined by blast
  have "peek (set_ip (ip s + 4) s) = Some w"
    using stk_Cons_iff [OF assms(1), of w ws] assms(2) by (simp add: peek_def)
  moreover have "valueAddress k (set_ip (ip s + 4) s) = Some ?a"
    using assms(3) by (simp add: valueAddress_def is_object_def)
  ultimately have "exec os ev B_STSA s = Some (Next ((set_ip (ip s + 4) s)\<lparr>mem := m\<rparr>))"
    using m assms(5) by (simp add: exec_static at_static_def intInByteCode_def store_top_def store32_def)
  moreover have "load64 m ?a = Some (merge_low 4 old w)"
    by (rule store_low_bytes [OF m assms(4)]) simp
  ultimately show ?thesis by blast
qed

lemma store_static_address_truncates_witness:
  "\<exists>m. exec demo_os (\<lambda>i. Done False) B_STSA (demo (replicate 8 0) [0x700000001]) =
     Some (Next ((set_ip 4 (demo (replicate 8 0) [0x700000001]))\<lparr>mem := m\<rparr>)) \<and> load64 m 0x20000 = Some 1"
proof -
  let ?s = "demo (replicate 8 0) [0x700000001]"
  have "load64 (mem ?s) (objects ?s ! nat (sint (0 :: int32))) = Some 0"
    using demo_code(1) [of 0 8 "replicate 8 0" "[0x700000001]"]
    by (simp add: demo_fields load64_def from_bytes_zeros)
  moreover have "load32 (mem ?s) (code ?s + of_int32 (ip ?s)) = Some 0"
    using demo_int [of 0 "replicate 8 0" "[0x700000001]"] by (simp add: demo_fields from_bytes_zeros)
  ultimately have "\<exists>m. exec demo_os (\<lambda>i. Done False) B_STSA ?s = Some (Next ((set_ip (ip ?s + 4) ?s)\<lparr>mem := m\<rparr>)) \<and>
      load64 m (objects ?s ! nat (sint (0 :: int32))) = Some (merge_low 4 0 0x700000001)"
    using store_static_address_truncates [of ?s "0x700000001" "[]" 0 0] by (simp add: demo_ok is_object_def demo_fields)
  then show ?thesis by (simp add: demo_fields merge_low_def take_bit_eq_mask mask_eq_exp_minus_1)
qed

subsection \<open>The heap\<close>

lemma add_block_in: "unat (x - p) < n \<Longrightarrow> add_block m p n f x = Some (f x)"
  by (simp add: add_block_def)

lemma block_offset:
  fixes p :: WORD
  assumes "i < n" "n < 2 ^ 64"
  shows "unat (p + of_nat i - p) < n"
  using assms unat_offset [of i] by simp

text \<open>C34: with an allocator that hands out fresh blocks, \<open>allocz\<close> either answers null and changes
  nothing, or answers a block of zeros that was not mapped before, leaves every byte that was
  mapped as it was, and records the block for \<open>free\<close>.\<close>

theorem allocz_fresh_zeros:
  assumes "valid_malloc (allocator.truncate os)" "allocz os sz s = Some (CRet p s')"
  shows "p = 0 \<and> s' = s \<or>
    p \<noteq> 0 \<and> load_bytes (mem s') p (unat sz) = Some (replicate (unat sz) 0) \<and>
    (\<forall>x. mem s x \<noteq> None \<longrightarrow> mem s' x = mem s x) \<and>
    (\<forall>i < unat sz. mem s (p + of_nat i) = None) \<and> heap s' = (heap s)(p \<mapsto> unat sz)"
proof (cases "os_malloc os (mem s) (heap s) (unat sz) = 0")
  case True
  then show ?thesis using assms(2) by (simp add: allocz_def c_malloc_def allocator.defs)
next
  case False
  let ?q = "os_malloc os (mem s) (heap s) (unat sz)" and ?n = "unat sz"
  let ?m = "add_block (mem s) ?q ?n (os_junk os)"
  have n: "?n < 2 ^ 64" by (rule unat_bound)
  obtain m where m: "memset ?m ?q 0 ?n = Some m" "p = ?q" "s' = s\<lparr>mem := m, heap := (heap s)(?q \<mapsto> ?n)\<rparr>"
    using assms(2) False by (auto simp: allocz_def c_malloc_def allocator.defs Let_def split: bind_splits)
  have "valid_malloc (allocator.truncate os) \<Longrightarrow> \<forall>i < ?n. mem s (?q + of_nat i) = None"
    using False unfolding valid_malloc_def Let_def by (simp add: allocator.defs)
  then have fresh: "mem s (?q + of_nat i) = None" if "i < ?n" for i
    using assms(1) that by blast
  have zero: "load_bytes m ?q ?n = Some (replicate ?n 0)"
    using load_bytes_store_same [of ?m ?q "replicate ?n 0" m] m(1) n by (simp add: memset_def)
  have get: "m x = (if unat (x - ?q) < ?n then Some 0 else ?m x)" for x
    using store_bytes_get [of ?m ?q "replicate ?n 0" m x] m(1) n by (auto simp: memset_def)
  have "m x = mem s x" if "mem s x \<noteq> None" for x
  proof -
    have "\<not> unat (x - ?q) < ?n" using fresh [of "unat (x - ?q)"] that by auto
    then show ?thesis by (simp add: get add_block_def)
  qed
  then show ?thesis using False zero m(2,3) fresh by auto
qed

text \<open>An allocator with a single block of up to 64 bytes, as an instance.\<close>

definition demo_malloc :: "memory \<Rightarrow> (WORD \<rightharpoonup> nat) \<Rightarrow> nat \<Rightarrow> WORD" where
  "demo_malloc m h n =
     (if n \<le> 64 \<and> list_all (\<lambda>i. m (0x80000 + of_nat i) = None) [0..<n] \<and> h 0x80000 = None then 0x80000 else 0)"

definition demo_heap_os :: os where
  "demo_heap_os = demo_os\<lparr>os_malloc := demo_malloc, os_junk := \<lambda>x. 0xCD\<rparr>"

lemma demo_heap_valid: "valid_malloc (allocator.truncate demo_heap_os)"
  by (auto simp: valid_malloc_def demo_heap_os_def demo_os_def allocator.defs demo_malloc_def Let_def
      list_all_iff split: if_splits)

lemma allocz_fresh_zeros_witness:
  "\<exists>s'. allocz demo_heap_os 3 (demo [] []) = Some (CRet 0x80000 s') \<and>
     load_bytes (mem s') 0x80000 3 = Some [0, 0, 0]"
proof -
  have none: "mem (demo [] []) (0x80000 + of_nat i) = None" if "i < 3" for i
  proof -
    have "unat (0x80000 + of_nat i - 0x40000 :: WORD) = 0x40000 + i"
      using unat_offset [of "0x40000 + i"] that by simp
    then show ?thesis by (simp add: demo_def demo_memory_def Let_def)
  qed
  have at: "os_malloc demo_heap_os (mem (demo [] [])) (heap (demo [] [])) 3 = 0x80000"
    using none by (simp add: demo_heap_os_def demo_malloc_def list_all_iff) (simp add: demo_def)
  let ?m = "add_block (mem (demo [] [])) 0x80000 3 (os_junk demo_heap_os)"
  have "mapped ?m 0x80000 3"
    by (simp add: mapped_def add_block_def unat_offset)
  then obtain m where "memset ?m 0x80000 0 3 = Some m"
    using store_bytes_defined [of ?m "0x80000" "replicate 3 0"] by (auto simp: memset_def)
  then have "\<exists>s'. allocz demo_heap_os 3 (demo [] []) = Some (CRet 0x80000 s')"
    by (simp add: allocz_def c_malloc_def allocator.defs at Let_def)
  then obtain s' where s': "allocz demo_heap_os 3 (demo [] []) = Some (CRet 0x80000 s')" by blast
  have "replicate 3 0 = [0, 0, 0 :: byte]" by (simp add: numeral_3_eq_3)
  then show ?thesis
    using allocz_fresh_zeros [OF demo_heap_valid s'] s' by simp
qed

subsection \<open>Snapshots\<close>

text \<open>A snapshot taken of the stack below \<open>highest\<close> and fetched into a buffer leaves in the buffer
  exactly the bytes that were between the stack pointer and \<open>highest\<close>, and the context without
  a snapshot.\<close>

theorem snapshot_fetch:
  assumes "snapshot highest s = Some s1" "t = s1\<lparr>sp := p, active := a\<rparr>" "fetchSnapshot out len t = Some s2"
    and "sint len = sint (to_int (highest - sp s))"
  shows "load_bytes (mem s2) out (nat (sint len)) = load_bytes (mem s) (sp s) (nat (sint len)) \<and>
    stackSnapshot s2 = []"
proof -
  let ?n = "nat (sint len)"
  have "0 \<le> sint len" using assms(1,4) by (auto simp: snapshot_def Let_def split: if_splits)
  then obtain bs where bs: "load_bytes (mem s) (sp s) ?n = Some bs" "s1 = s\<lparr>stackSnapshot := bs\<rparr>"
    using assms(1,4) by (auto simp: snapshot_def Let_def split: if_splits bind_splits)
  have len: "length bs = ?n" using load_bytes_length [OF bs(1)] .
  then obtain m where m: "store_bytes (mem s) out bs = Some m" "s2 = t\<lparr>mem := m, stackSnapshot := []\<rparr>"
    using assms(2,3) bs(2) by (auto simp: fetchSnapshot_def split: if_splits bind_splits)
  have "length bs \<le> 2 ^ 64"
  proof -
    have "sint len < 2 ^ 31"
      using sint_of_int32 [of "sint len"] by (simp add: wrap32_def)
    then show ?thesis unfolding len by simp
  qed
  then have "load_bytes m out (length bs) = Some bs" by (rule load_bytes_store_same [OF m(1)])
  then show ?thesis using m(2) bs(1) len by simp
qed

lemma snapshot_fetch_witness:
  "\<exists>s1 s2. snapshot 0x40080 (demo (replicate 8 1) [5]) = Some s1 \<and> fetchSnapshot 0x20000 8 s1 = Some s2 \<and>
     load_bytes (mem s2) 0x20000 8 = Some (to_bytes 8 5)"
proof -
  let ?s = "demo (replicate 8 1) [5]"
  have "load64 (mem ?s) (sp ?s) = Some 5"
    using stk_Cons_iff [of ?s 5 "[]"] demo_ok [of "[5]" "replicate 8 1"] by simp
  then obtain bs where bs: "load_bytes (mem ?s) (sp ?s) 8 = Some bs" "from_bytes bs = 5"
    by (auto simp: load64_def)
  have len: "length bs = 8" using load_bytes_length [OF bs(1)] .
  have five: "bs = to_bytes 8 5" using to_from_bytes [of bs] len bs(2) by simp
  have n: "sint (to_int (0x40080 - sp ?s)) = 8" by (simp add: demo_fields)
  have s1: "snapshot 0x40080 ?s = Some (?s\<lparr>stackSnapshot := bs\<rparr>)"
    using bs(1) n by (simp add: snapshot_def Let_def)
  let ?s1 = "?s\<lparr>stackSnapshot := bs\<rparr>"
  have "load_bytes (mem ?s) 0x20000 8 = Some (replicate 8 1)"
    using demo_code(1) [of 0 8 "replicate 8 1" "[5]"] by simp
  then have "mapped (mem ?s) 0x20000 (length bs)" using load_bytes_defined len by fastforce
  then obtain m where "store_bytes (mem ?s) 0x20000 bs = Some m" using store_bytes_defined by blast
  then obtain s2 where s2: "fetchSnapshot 0x20000 8 ?s1 = Some s2"
    using len by (simp add: fetchSnapshot_def)
  have "?s1 = ?s1\<lparr>sp := sp ?s, active := active ?s\<rparr>" by simp
  from snapshot_fetch [OF s1 this s2] n bs(1) five
  have "load_bytes (mem s2) 0x20000 8 = Some (to_bytes 8 5)" by simp
  then show ?thesis using s1 s2 by blast
qed

end
