(* ===== verification/Context_Invariant.thy ===== *)
theory Context_Invariant
  imports Context_Props "HOL-Library.Sublist"
begin

section \<open>What every run keeps of its context\<close>

text \<open>
  The well-formedness of the heap of a context (every block the allocator has handed out is mapped, and
  no two blocks overlap) and the parts of a context that the program under interpretation
  cannot change: the bounds of its stack and the objects it already has. Both are shown for every
  instruction of the switch, for every built-in function and for nested evaluations, and by induction
  for runs of any length.
\<close>

subsection \<open>Definitions\<close>

definition heap_ok :: "vm \<Rightarrow> bool" where
  "heap_ok s \<longleftrightarrow>
     (\<forall>p n. heap s p = Some n \<longrightarrow> mapped (mem s) p n) \<and>
     (\<forall>p q m n. heap s p = Some m \<longrightarrow> heap s q = Some n \<longrightarrow> p \<noteq> q \<longrightarrow> disjoint_areas p m q n)"

definition keeps :: "vm \<Rightarrow> vm \<Rightarrow> bool" where
  "keeps s s' \<longleftrightarrow> stack s' = stack s \<and> stackTop s' = stackTop s \<and> prefix (objects s) (objects s') \<and>
     (heap_ok s \<longrightarrow> heap_ok s')"

text \<open>The addresses that are mapped, as one value.\<close>

definition area :: "memory \<Rightarrow> WORD \<Rightarrow> bool" where
  "area m = (\<lambda>a. m a \<noteq> None)"

lemma area_dom: "area m' = area m \<longleftrightarrow> dom m' = dom m"
  by (auto simp: area_def fun_eq_iff set_eq_iff)

text \<open>An operation that only changes registers and the contents of mapped memory.\<close>

definition quiet :: "vm \<Rightarrow> vm \<Rightarrow> bool" where
  "quiet s s' \<longleftrightarrow> stack s' = stack s \<and> stackTop s' = stackTop s \<and> objects s' = objects s \<and> heap s' = heap s \<and>
     area (mem s') = area (mem s)"

fun ends :: "(vm \<Rightarrow> bool) \<Rightarrow> outcome \<Rightarrow> bool" where
  "ends P (Next s) = P s"
| "ends P (Stop (Done b s)) = P s"
| "ends P (Stop r) = True"

definition quiet_all :: "(nat \<times> instr) list \<Rightarrow> bool" where
  "quiet_all table \<longleftrightarrow> (\<forall>(op, f) \<in> set table. \<forall>s r. f s = Some r \<longrightarrow> ends (quiet s) r)"

lemma store_dom:
  "store64 m a w = Some m' \<Longrightarrow> area m' = area m" "store32 m a w = Some m' \<Longrightarrow> area m' = area m"
  "store16 m a w = Some m' \<Longrightarrow> area m' = area m" "store8 m a w = Some m' \<Longrightarrow> area m' = area m"
  "memset m a b n = Some m' \<Longrightarrow> area m' = area m" "memcpy m a c n = Some m' \<Longrightarrow> area m' = area m"
  unfolding area_dom store64_def store32_def store16_def store8_def memset_def memcpy_def bind_eq_Some_conv
  by (blast dest: store_bytes_dom)+

lemma pushv_quiet: "pushv w s = Some s' \<Longrightarrow> quiet s s'"
  by (auto simp: pushv_def push_def quiet_def bind_eq_Some_conv dest: store_dom split: if_splits)

text \<open>The helpers out of which the branches of the switch are made.\<close>

named_theorems area_defs

declare continue_def [area_defs] return_def [area_defs] mem_valid_def [area_defs] push_mem_def [area_defs]
  store_top_def [area_defs] set_mem_def [area_defs] intInByteCode_def [area_defs] longInByteCode_def [area_defs]
  pop_def [area_defs] peek_def [area_defs]
  unary_def [area_defs] binary_def [area_defs] binary_trap_def [area_defs] at_static_def [area_defs]
  test_int_def [area_defs] test_long_def [area_defs]
  test_unsigned_def [area_defs]
  at_auto_def [area_defs] at_varg_def [area_defs] at_params_def [area_defs] load_object_def [area_defs]
  store_object_def [area_defs] push_address_def [area_defs]
  at_popped_def [area_defs] Let_def [area_defs] reserve_def [area_defs]

subsection \<open>The instructions that do not touch the heap\<close>

lemma quiet_constants: "quiet_all ops_constants"
  by (simp add: quiet_all_def ops_constants_def)
     (auto simp: area_defs bind_eq_Some_conv quiet_def dest!: pushv_quiet split: if_splits)

lemma quiet_static: "quiet_all ops_static"
  by (simp add: quiet_all_def ops_static_def)
     (auto simp: area_defs bind_eq_Some_conv quiet_def dest!: pushv_quiet store_dom split: if_splits)

lemma quiet_arith: "quiet_all ops_arith"
  by (simp add: quiet_all_def ops_arith_def)
     (auto simp: area_defs bind_eq_Some_conv quiet_def dest!: pushv_quiet store_dom split: if_splits)

lemma quiet_compare: "quiet_all ops_compare"
  by (simp add: quiet_all_def ops_compare_def)
     (auto simp: area_defs bind_eq_Some_conv quiet_def dest!: pushv_quiet store_dom split: if_splits)


lemma quiet_return: "quiet_all ops_return"
  by (simp add: quiet_all_def ops_return_def)
     (auto simp: area_defs move_payload_def bind_eq_Some_conv quiet_def dest!: pushv_quiet store_dom split: if_splits)

lemma quiet_stack: "quiet_all ops_stack"
  by (simp add: quiet_all_def ops_stack_def)
     (auto simp: area_defs bind_eq_Some_conv quiet_def dest!: pushv_quiet store_dom split: if_splits)

lemma var_dom:
  "var_arith f m l r = Some m' \<Longrightarrow> area m' = area m"
  "variant_assign m l r = Some m' \<Longrightarrow> area m' = area m"
  "variant_setLong m l w = Some m' \<Longrightarrow> area m' = area m" "variant_setKind m l w = Some m' \<Longrightarrow> area m' = area m"
  by (auto simp: var_arith_def variant_assign_def variant_clear_def variant_init_def variant_setLong_def
      variant_setKind_def bind_eq_Some_conv dest!: store_dom)

lemmas var_ops = varAdd_def varSub_def varMul_def varDiv_def varRem_def varRsh_def varLsh_def varUrs_def
  varAnd_def varOr_def varXor_def

lemma quiet_variant: "quiet_all ops_variant"
  by (simp add: quiet_all_def ops_variant_def)
     (auto simp: area_defs var_test_def var_op_def var_ops bind_eq_Some_conv quiet_def dest!: pushv_quiet var_dom split: if_splits)

lemma quiet_convert: "quiet_all ops_convert"
  by (simp add: quiet_all_def ops_convert_def)
     (auto simp: area_defs make_variant_def variant_value_def bind_eq_Some_conv quiet_def dest!: pushv_quiet var_dom split: if_splits)

lemma switchi_loop_quiet: "switchi_loop n val s = Some (b, s') \<Longrightarrow> quiet s s'"
proof (induction n arbitrary: s)
  case (Suc n)
  then show ?case
    by (auto simp: bind_eq_Some_conv intInByteCode_def quiet_def split: if_splits dest!: Suc.IH)
qed (simp add: quiet_def)

lemma switche_loop_quiet: "switche_loop n val s = Some (b, s') \<Longrightarrow> quiet s s'"
proof (induction n arbitrary: s)
  case (Suc n)
  then show ?case
    by (auto simp: bind_eq_Some_conv intInByteCode_def quiet_def Let_def split: if_splits dest!: Suc.IH)
qed (simp add: quiet_def)

lemma quiet_branch: "quiet_all ops_branch"
  by (simp add: quiet_all_def ops_branch_def)
     (auto simp: area_defs switchi_def switche_def jump_if_def bind_eq_Some_conv quiet_def
       dest!: switchi_loop_quiet switche_loop_quiet split: if_splits)

lemma quiet_auto: "quiet_all ops_auto"
  by (simp add: quiet_all_def ops_auto_def)
     (auto simp: area_defs store_variant_def bind_eq_Some_conv quiet_def dest!: pushv_quiet store_dom var_dom split: if_splits)

lemma quiet_params: "quiet_all ops_params"
  by (simp add: quiet_all_def ops_params_def)
     (auto simp: area_defs bind_eq_Some_conv quiet_def dest!: pushv_quiet store_dom split: if_splits)

lemma quiet_indirect: "quiet_all ops_indirect"
  by (simp add: quiet_all_def ops_indirect_def)
     (auto simp: area_defs store_variant_def bind_eq_Some_conv quiet_def dest!: pushv_quiet store_dom var_dom split: if_splits)

lemmas quiet_tables = quiet_constants quiet_static quiet_arith quiet_compare quiet_return quiet_stack
  quiet_variant quiet_convert quiet_branch quiet_auto quiet_params quiet_indirect

subsection \<open>Blocks of the heap\<close>

lemma keeps_refl: "keeps s s"
  by (simp add: keeps_def)

lemma keeps_trans: "keeps s t \<Longrightarrow> keeps t u \<Longrightarrow> keeps s u"
  by (auto simp: keeps_def intro: prefix_order.trans)

lemma mapped_area: "area m' = area m \<Longrightarrow> mapped m' = mapped m"
  by (auto simp: mapped_def area_def fun_eq_iff)

lemma same_keeps:
  assumes "stack s' = stack s" and "stackTop s' = stackTop s" and "prefix (objects s) (objects s')"
    and "heap s' = heap s" and "area (mem s') = area (mem s)"
  shows "keeps s s'"
  using assms(1-3) unfolding keeps_def heap_ok_def assms(4) mapped_area [OF assms(5)] by blast

lemma quiet_keeps: "quiet s s' \<Longrightarrow> keeps s s'"
  unfolding quiet_def by (rule same_keeps) simp_all

lemma area_address: "x = p + of_nat (unat (x - p))" for x p :: WORD
  by simp

lemma mapped_disjoint:
  assumes "mapped m q k" and "\<forall>i < n. m (p + of_nat i) = None"
  shows "disjoint_areas q k p n" and "disjoint_areas p n q k"
proof -
  show "disjoint_areas q k p n"
    unfolding disjoint_areas_def using assms area_address [of "q + of_nat i" p for i]
    by (metis mapped_def)
  show "disjoint_areas p n q k"
    unfolding disjoint_areas_def using assms area_address [of "p + of_nat i" q for i]
    by (metis mapped_def)
qed

lemma mapped_add: "mapped m q k \<Longrightarrow> mapped (add_block m p n f) q k"
  by (simp add: mapped_def add_block_def)

lemma mapped_new: "n < 2 ^ 64 \<Longrightarrow> mapped (add_block m p n f) p n"
  by (simp add: mapped_def add_block_def unat_of_nat take_bit_nat_def)

lemma mapped_remove: "mapped m q k \<Longrightarrow> disjoint_areas q k p n \<Longrightarrow> mapped (remove_block m p n) q k"
  by (simp add: mapped_def remove_block_def disjoint_areas_def)

lemma malloc_keeps:
  assumes "valid_malloc os" and "c_malloc os n s = (p, s')"
  shows "keeps s s'"
proof (cases "p = 0")
  case True
  then show ?thesis using assms(2) by (auto simp: c_malloc_def Let_def keeps_refl split: if_splits)
next
  case False
  with assms(2) have p: "os_malloc os (mem s) (heap s) n = p"
    and s': "s' = s\<lparr>mem := add_block (mem s) p n (os_junk os), heap := (heap s)(p \<mapsto> n)\<rparr>"
    by (auto simp: c_malloc_def Let_def split: if_splits)
  have new: "\<forall>i < n. mem s (p + of_nat i) = None" "unat p + n < 2 ^ 64" "heap s p = None"
    using assms(1) False p by (auto simp: valid_malloc_def Let_def)
  have "heap_ok s'" if ok: "heap_ok s"
  proof -
    have other: "disjoint_areas p n q k" "disjoint_areas q k p n" if "heap s q = Some k" for q k
      using mapped_disjoint [OF _ new(1)] that ok by (auto simp: heap_ok_def)
    show ?thesis
      using ok new(2) unfolding heap_ok_def s' by (auto simp: mapped_add mapped_new other split: if_splits)
  qed
  then show ?thesis by (simp add: keeps_def s')
qed

lemma free_keeps:
  assumes "c_free p s = Some s'"
  shows "keeps s s'"
proof (cases "p = 0")
  case True
  then show ?thesis using assms by (simp add: c_free_def keeps_refl)
next
  case False
  with assms obtain n where n: "heap s p = Some n"
    and s': "s' = s\<lparr>mem := remove_block (mem s) p n, heap := (heap s)(p := None)\<rparr>"
    by (auto simp: c_free_def bind_eq_Some_conv)
  have "heap_ok s'" if "heap_ok s"
    using that n unfolding heap_ok_def s'
    by (auto intro!: mapped_remove)
  then show ?thesis by (simp add: keeps_def s')
qed

subsection \<open>Calls\<close>

definition keeps_all :: "(nat \<times> instr) list \<Rightarrow> bool" where
  "keeps_all table \<longleftrightarrow> (\<forall>(op, f) \<in> set table. \<forall>s r. f s = Some r \<longrightarrow> ends (keeps s) r)"

lemma quiet_ends: "ends (quiet s) r \<Longrightarrow> ends (keeps s) r"
proof (cases r)
  case (Stop x)
  then show "ends (quiet s) r \<Longrightarrow> ends (keeps s) r" by (cases x) (auto intro: quiet_keeps)
qed (auto intro: quiet_keeps)

lemma quiet_all_keeps: "quiet_all t \<Longrightarrow> keeps_all t"
  by (auto simp: quiet_all_def keeps_all_def intro!: quiet_ends)

text \<open>A function of the operating system does not see the context it is called from; it may allocate and
  free.\<close>

definition calls_keep :: "os \<Rightarrow> bool" where
  "calls_keep os \<longleftrightarrow> (\<forall>n as s r s'. os_call os n as s = Some (r, s') \<longrightarrow>
     stack s' = stack s \<and> stackTop s' = stackTop s \<and> objects s' = objects s \<and> (heap_ok s \<longrightarrow> heap_ok s'))"

lemma calls_keepD: "calls_keep os \<Longrightarrow> os_call os n as s = Some (r, s') \<Longrightarrow> keeps s s'"
  unfolding calls_keep_def keeps_def by (metis prefix_order.refl)

text \<open>The operating system below a context.\<close>

definition sound_os :: "os \<Rightarrow> bool" where
  "sound_os os \<longleftrightarrow> valid_malloc (allocator.truncate os) \<and> calls_keep os"

definition runs_keep :: "(int32 \<Rightarrow> vm \<Rightarrow> run_result) \<Rightarrow> bool" where
  "runs_keep ev \<longleftrightarrow> (\<forall>i s b s'. ev i s = Done b s' \<longrightarrow> keeps s s')"

lemma int_quiet: "intInByteCode s = Some (i, s') \<Longrightarrow> quiet s s'"
  by (auto simp: intInByteCode_def quiet_def bind_eq_Some_conv)

lemma pop_quiet: "pop s = Some (w, s') \<Longrightarrow> quiet s s'"
  by (auto simp: pop_def quiet_def bind_eq_Some_conv)

lemma invoke_quiet: "invoke c s = Some s' \<Longrightarrow> quiet s s'"
  by (auto simp: invoke_def quiet_def bind_eq_Some_conv dest!: pushv_quiet)

lemma push_args_quiet: "push_args array argv s = Some s' \<Longrightarrow> quiet s s'"
  by (auto simp: push_args_def Let_def quiet_def bind_eq_Some_conv dest!: pushv_quiet)

lemma store_words_area: "store_words m a ws = Some m' \<Longrightarrow> area m' = area m"
  by (induction ws arbitrary: m a) (auto simp: bind_eq_Some_conv dest!: store_dom)

lemma fetch_area: "store_bytes m a bs = Some m' \<Longrightarrow> area m' = area m"
  unfolding area_dom by (rule store_bytes_dom)

lemma inject_keeps: "injectObjects p n s = Some (r, s') \<Longrightarrow> keeps s s'"
  by (auto simp: injectObjects_def Let_def bind_eq_Some_conv keeps_refl intro: same_keeps split: if_splits)

lemma fetch_keeps: "fetchSnapshot p n s = Some s' \<Longrightarrow> keeps s s'"
  by (auto simp: fetchSnapshot_def bind_eq_Some_conv dest: fetch_area intro!: same_keeps split: if_splits)

lemma allocz_keeps:
  assumes "valid_malloc (allocator.truncate os)" and "allocz os n s = Some (CRet r s')"
  shows "keeps s s'"
proof -
  obtain p t where p: "c_malloc (allocator.truncate os) (unat n) s = (p, t)" by fastforce
  then have "keeps s t" by (rule malloc_keeps [OF assms(1)])
  moreover have "quiet t s'"
    using assms(2) p by (auto simp: allocz_def bind_eq_Some_conv quiet_def dest: store_dom split: if_splits)
  ultimately show ?thesis by (blast intro: keeps_trans quiet_keeps)
qed

lemma new_keeps:
  assumes "sound_os os" and "intInByteCode s = Some (i, t)" and "c_malloc (allocator.truncate os) n t = (p, u)"
  shows "keeps s u"
  using assms malloc_keeps int_quiet quiet_keeps keeps_trans unfolding sound_os_def by metis

lemma heap_keeps:
  assumes "sound_os os"
  shows "keeps_all (ops_heap os)"
proof -
  have "keeps s v" if "intInByteCode s = Some (i, t)" and "c_malloc (allocator.truncate os) n t = (p, u)"
    and "memset (mem u) p b n = Some m" and "pushv p (u\<lparr>mem := m\<rparr>) = Some v" for s i t n p u b m v
  proof -
    have "quiet u v" using pushv_quiet [OF that(4)] store_dom(5) [OF that(3)] by (simp add: quiet_def)
    then show ?thesis using new_keeps [OF assms that(1,2)] quiet_keeps keeps_trans by blast
  qed
  moreover have "keeps s v" if "intInByteCode s = Some (i, t)" and "c_malloc (allocator.truncate os) n t = (p, u)"
    and "pushv p u = Some v" for s i t n p u v
    using new_keeps [OF assms that(1,2)] pushv_quiet [OF that(3)] quiet_keeps keeps_trans by blast
  moreover have "keeps s v" if "pop s = Some (w, t)" and "c_free w t = Some v" for s w t v
    using that pop_quiet quiet_keeps keeps_trans free_keeps by blast
  moreover note int_quiet [THEN quiet_keeps]
  ultimately show ?thesis
    unfolding keeps_all_def ops_heap_def
    by (auto simp: continue_def return_def bind_eq_Some_conv Let_def split: if_splits prod.split_asm)
qed

text \<open>\<open>eval\<close> gives the context back with the stack it had.\<close>

lemma eval_cases:
  assumes "eval os ev obj argv argc info s = Some (CRet r s')"
  shows "\<exists>args t b u. push_args (os_args_array os) args (snd (unloadFrame s)) = Some t \<and> ev obj t = Done b u \<and>
    (if b then \<exists>w v. pop u = Some (w, v) \<and> s' = reloadFrame (fst (unloadFrame s)) v
     else \<exists>v m ws. snapshot (ss_sp (fst (unloadFrame s))) (u\<lparr>vm_out := None\<rparr>) = Some v \<and>
       store_words (mem (snd (unloadFrame v))) info ws = Some m \<and>
       s' = reloadFrame (fst (unloadFrame s)) ((snd (unloadFrame v))\<lparr>mem := m\<rparr>))"
proof -
  obtain args t where t: "push_args (os_args_array os) args (snd (unloadFrame s)) = Some t"
    and r: "load_argv (mem s) argv (nat (sint argc)) = Some args"
    using assms unfolding eval_def bind_eq_Some_conv split_beta Let_def by blast
  then obtain b u where u: "ev obj t = Done b u"
    using assms by (cases "ev obj t") (simp_all add: eval_def split_beta Let_def)
  show ?thesis
  proof (cases b)
    case True
    then have "\<exists>w v. pop u = Some (w, v) \<and> s' = reloadFrame (fst (unloadFrame s)) v"
      using assms t r u by (auto simp: eval_def split_beta Let_def ret_int_def bind_eq_Some_conv)
    then show ?thesis using t u True by (intro exI [of _ args] exI [of _ t] exI [of _ b] exI [of _ u]) simp
  next
    case False
    then have "\<exists>v m ws. snapshot (ss_sp (fst (unloadFrame s))) (u\<lparr>vm_out := None\<rparr>) = Some v \<and>
       store_words (mem (snd (unloadFrame v))) info ws = Some m \<and>
       s' = reloadFrame (fst (unloadFrame s)) ((snd (unloadFrame v))\<lparr>mem := m\<rparr>)"
      using assms t r u
      by (auto simp: eval_def split_beta Let_def ret_int_def bind_eq_Some_conv simp del: store_words.simps)
    then show ?thesis using t u False by (intro exI [of _ args] exI [of _ t] exI [of _ b] exI [of _ u]) simp
  qed
qed

lemma eval_keeps:
  assumes "runs_keep ev" and "eval os ev obj argv argc info s = Some (CRet r s')"
  shows "keeps s s'"
proof -
  let ?s = "snd (unloadFrame s)" and ?outer = "fst (unloadFrame s)"
  have start: "quiet s ?s" by (simp add: unloadFrame_def quiet_def)
  have reload: "keeps s (reloadFrame ?outer v)" if "keeps s v" for v
  proof -
    have "quiet v (reloadFrame ?outer v)"
      using that by (simp add: unloadFrame_def reloadFrame_def quiet_def keeps_def)
    then show ?thesis using that quiet_keeps keeps_trans by blast
  qed
  from eval_cases [OF assms(2)] obtain args t b u where
    t: "push_args (os_args_array os) args ?s = Some t" and u: "ev obj t = Done b u"
    and r: "if b then \<exists>w v. pop u = Some (w, v) \<and> s' = reloadFrame ?outer v
     else \<exists>v m ws. snapshot (ss_sp ?outer) (u\<lparr>vm_out := None\<rparr>) = Some v \<and>
       store_words (mem (snd (unloadFrame v))) info ws = Some m \<and>
       s' = reloadFrame ?outer ((snd (unloadFrame v))\<lparr>mem := m\<rparr>)"
    by blast
  have "keeps s t" using start push_args_quiet [OF t] quiet_keeps keeps_trans by blast
  moreover have "keeps t u" using assms(1) u by (auto simp: runs_keep_def)
  ultimately have su: "keeps s u" by (rule keeps_trans)
  show ?thesis
  proof (cases b)
    case True
    then obtain w v where "pop u = Some (w, v)" and "s' = reloadFrame ?outer v" using r by auto
    then show ?thesis using su pop_quiet quiet_keeps keeps_trans reload by blast
  next
    case False
    then obtain v m ws where v: "snapshot (ss_sp ?outer) (u\<lparr>vm_out := None\<rparr>) = Some v"
      and m: "store_words (mem (snd (unloadFrame v))) info ws = Some m"
      and s': "s' = reloadFrame ?outer ((snd (unloadFrame v))\<lparr>mem := m\<rparr>)" using r by auto
    have "quiet u v" using v by (auto simp: snapshot_def Let_def quiet_def bind_eq_Some_conv split: if_splits)
    moreover have "quiet v ((snd (unloadFrame v))\<lparr>mem := m\<rparr>)"
      using store_words_area [OF m] by (simp add: quiet_def unloadFrame_def)
    ultimately have "keeps s ((snd (unloadFrame v))\<lparr>mem := m\<rparr>)" using su quiet_keeps keeps_trans by blast
    then show ?thesis unfolding s' by (rule reload)
  qed
qed

lemma native_keeps:
  assumes "sound_os os" and "runs_keep ev" and "call_native os ev f as s = Some (CRet r s')"
  shows "keeps s s'"
proof -
  have out: "quiet s (s\<lparr>vm_out := x\<rparr>)" "quiet s (halt s)" "quiet s (s\<lparr>vm_trace := b\<rparr>)"
    "quiet s (s\<lparr>exceptionContext := w\<rparr>)" "quiet s (halt (s\<lparr>vm_out := x\<rparr>))" "quiet s (s\<lparr>vm_trace := b, vm_out := x\<rparr>)" for x b w
    by (simp_all add: quiet_def halt_def)
  have stored: "quiet s (s\<lparr>mem := m\<rparr>)" if "area m = area (mem s)" for m
    using that by (simp add: quiet_def)
  show ?thesis
    using assms(3) out [THEN quiet_keeps] store_dom(5,6) [THEN stored, THEN quiet_keeps]
      allocz_keeps free_keeps inject_keeps fetch_keeps eval_keeps [OF assms(2)] assms(1) calls_keepD [of os]
    by (cases f)
      (auto simp: call_native_def ret_int_def builtInPrint_def builtInAssert_def fMemcpy_def fMemset_def
        setTrace_def set_exceptionContext_def sound_os_def keeps_refl bind_eq_Some_conv Let_def
        split: if_splits prod.split_asm)
qed

lemma xcall_keeps:
  assumes "sound_os os" and "runs_keep ev" and "xcall os ev s = Some r"
  shows "ends (keeps s) r"
proof -
  obtain i t where t: "intInByteCode s = Some (i, t)"
    using assms(3) by (auto simp: xcall_def bind_eq_Some_conv)
  have st: "keeps s t" using int_quiet [OF t] by (rule quiet_keeps)
  have drop: "keeps u (u\<lparr>sp := p\<rparr>)" for u p by (rule same_keeps) simp_all
  have native: "keeps s (u\<lparr>sp := p\<rparr>)" "keeps s u" if "call_native os ev f as t = Some (CRet x u)" for f as x u p
    using st native_keeps [OF assms(1,2) that] drop keeps_trans by blast+
  have pushed: "keeps s v" if "call_native os ev f as t = Some (CRet x u)" "pushv w (u\<lparr>sp := p\<rparr>) = Some v"
    for f as x u p w v
    using native(1) [OF that(1)] quiet_keeps [OF pushv_quiet [OF that(2)]] by (rule keeps_trans)
  show ?thesis
    using assms(3) t st native pushed
    by (auto simp: xcall_def bind_eq_Some_conv Let_def return_def split: if_splits)
      (auto simp: continue_def return_def Let_def split: if_splits call_result.split_asm)
qed

lemma call_keeps:
  assumes "sound_os os" and "runs_keep ev"
  shows "keeps_all (ops_call os ev)"
proof -
  have "quiet s (set_ip i s)" for s i by (simp add: quiet_def)
  note steps = int_quiet [THEN quiet_keeps] pop_quiet [THEN quiet_keeps] invoke_quiet [THEN quiet_keeps]
    pushv_quiet [THEN quiet_keeps] this [THEN quiet_keeps]
  have "keeps s r" if "(invoke p (set_ip i t)) = Some r" "keeps s t" for s p i t r
    using that steps(3,5) keeps_trans by meson
  moreover have "keeps s r" if "(invoke p t) = Some r" "keeps s t" for s p t r
    using that steps(3) keeps_trans by meson
  moreover have "keeps s r" if "(pushv p t) = Some r" "keeps s t" for s p t r
    using that steps(4) keeps_trans by meson
  moreover have "keeps s (set_ip i t)" if "keeps s t" for s t i
    using that steps(5) keeps_trans by meson
  ultimately show ?thesis
    unfolding keeps_all_def ops_call_def using steps(1,2) xcall_keeps [OF assms]
    by (auto simp: continue_def return_def mem_valid_def push_mem_def bind_eq_Some_conv Let_def
        split: if_splits)
qed

subsection \<open>Runs\<close>

lemma exec_keeps:
  assumes "sound_os os" and "runs_keep ev" and "exec os ev b s = Some r"
  shows "ends (keeps s) r"
proof -
  have "keeps_all (switch_table os ev)"
    unfolding switch_table_def
    using heap_keeps [OF assms(1)] call_keeps [OF assms(1,2)] quiet_tables [THEN quiet_all_keeps]
    by (auto simp: keeps_all_def)
  moreover have "keeps s (s\<lparr>vm_out := None\<rparr>)" by (rule same_keeps) simp_all
  ultimately show ?thesis
    using assms(3) by (auto simp: exec_def keeps_all_def return_def bind_eq_Some_conv split: option.splits dest!: map_of_SomeD)
qed

lemma ends_trans: "keeps s t \<Longrightarrow> ends (keeps t) r \<Longrightarrow> ends (keeps s) r"
  by (induction "keeps t" r rule: ends.induct) (auto intro: keeps_trans)

lemma step_keeps:
  assumes "sound_os os" and "runs_keep ev" and "step os ev s = Some r"
  shows "ends (keeps s) r"
proof -
  obtain b where "exec os ev b (set_ip (ip s + 1) (s\<lparr>lastIp := ip s\<rparr>)) = Some r"
    using assms(3) by (auto simp: step_def bind_eq_Some_conv)
  moreover have "keeps s (set_ip (ip s + 1) (s\<lparr>lastIp := ip s\<rparr>))" by (rule same_keeps) simp_all
  ultimately show ?thesis using exec_keeps [OF assms(1,2)] ends_trans by blast
qed

lemma run_object_keeps:
  assumes "\<And>s b s'. loop s = Done b s' \<Longrightarrow> keeps s s'"
  shows "runs_keep (run_object loop)"
proof -
  have "keeps s s'" if "invoke p (s\<lparr>target := x\<rparr>) = Some t" and "loop (t\<lparr>lastIp := 0\<rparr>) = Done b s'" for s p x t b s'
  proof -
    have "keeps s (s\<lparr>target := x\<rparr>)" "keeps t (t\<lparr>lastIp := 0\<rparr>)" by (rule same_keeps; simp)+
    then show ?thesis using invoke_quiet [OF that(1)] assms [OF that(2)] quiet_keeps keeps_trans by blast
  qed
  then show ?thesis
    by (auto simp: runs_keep_def run_object_def keeps_refl bind_eq_Some_conv split: if_splits option.split_asm)
qed

lemma run_keeps: 
  assumes "sound_os os"
  shows "run os n s = Done b s' \<Longrightarrow> keeps s s'"
proof (induction n arbitrary: s b s')
  case (Suc n)
  have ev: "runs_keep (run_object (run os n))"
    by (rule run_object_keeps) (rule Suc.IH)
  obtain r where r: "step os (run_object (run os n)) s = Some r"
    using Suc.prems by (auto split: option.split_asm)
  note kept = step_keeps [OF assms ev r]
  show ?case
  proof (cases r)
    case (Next t)
    then show ?thesis using Suc.prems r kept Suc.IH keeps_trans by auto
  next
    case (Stop x)
    then show ?thesis using Suc.prems r kept by simp
  qed
qed simp

text \<open>A run keeps the heap of its context well-formed: every block that is allocated is mapped and no two
  blocks overlap, whatever the program stores, allocates and frees.\<close>

theorem heap_well_formed:
  assumes "sound_os os" "heap_ok s" "run os n s = Done b s'"
  shows "heap_ok s'"
  using run_keeps [OF assms(1,3)] assms(2) by (simp add: keeps_def)

text \<open>C5: a run leaves the bounds of the stack where they were and only appends to the object table, so
  that an object keeps its index and its address.\<close>

theorem stack_and_objects_kept:
  assumes "sound_os os" "run os n s = Done b s'"
  shows "stack s' = stack s \<and> stackTop s' = stackTop s \<and> length (objects s) \<le> length (objects s') \<and>
    (\<forall>i < length (objects s). objects s' ! i = objects s ! i)"
proof -
  have "stack s' = stack s" "stackTop s' = stackTop s" "prefix (objects s) (objects s')"
    using run_keeps [OF assms] by (simp_all add: keeps_def)
  then show ?thesis by (auto elim!: prefixE simp: nth_append)
qed

text \<open>The constructor starts with such a heap.\<close>

lemma constructor_heap_ok:
  assumes "valid_malloc os"
  shows "heap_ok (ExecutionContext os m Map.empty objs tr f)"
proof -
  have "unat p + n < 2 ^ 64 \<Longrightarrow> mapped (add_block m p n g) p n" for p n g
    by (rule mapped_new) simp
  then show ?thesis
    using assms by (auto simp: heap_ok_def ExecutionContext_def Let_def valid_malloc_def split: if_splits)
qed

subsection \<open>A run that allocates\<close>

definition new_program :: "byte list" where
  "new_program = [156, 3, 0, 0, 0, 0]"

lemma demo_sound: "sound_os demo_heap_os"
  using demo_heap_valid by (simp add: sound_os_def calls_keep_def demo_heap_os_def demo_os_def)

lemma exec_new: "exec os ev B_NEW s = do {
    (i, s) \<leftarrow> intInByteCode s;
    let (p, s) = c_malloc (allocator.truncate os) (size_of_int i) s;
    s \<leftarrow> (if p = 0 then Some s
         else map_option (\<lambda>m. s\<lparr>mem := m\<rparr>) (memset (mem s) p 0 (size_of_int i)));
    continue (pushv p s) }"
  by (subst dispatch, simp_all add: switch_table_def ops_heap_def)

lemma exec_illegal: "exec os ev 0 s = return False (s\<lparr>vm_out := None\<rparr>)"
proof (rule exec_rejects)
  show "0 \<notin> set (map fst (switch_table os ev))" unfolding case_labels by (simp add: case_labels_def)
qed simp

lemma new_program_runs:
  "\<exists>s'. run demo_heap_os 2 (demo new_program []) = Done False s' \<and> heap s' = [0x80000 \<mapsto> 3]"
proof -
  let ?s = "demo new_program []" and ?ev = "run_object (run demo_heap_os 1)"
  let ?s1 = "set_ip 5 (?s\<lparr>lastIp := 0\<rparr>)"
  have bytes: "mem ?s (0x20000 + of_nat i) = Some (new_program ! i)" if "i < 6" for i
    using that unat_offset [of i] by (simp add: demo_def demo_memory_def new_program_def)
  have three: "load32 (mem ?s) 0x20001 = Some 3"
    using demo_int [of 1 new_program "[]"] by (simp add: new_program_def)
  have free: "mem ?s (0x80000 + of_nat i) = None" if "i < 3" for i
  proof -
    have "unat (0x80000 + of_nat i - 0x40000 :: WORD) = 0x40000 + i"
      "unat (0x80000 + of_nat i - 0x20000 :: WORD) = 0x60000 + i"
      using unat_offset [of "0x40000 + i"] unat_offset [of "0x60000 + i"] that by simp_all
    then show ?thesis by (simp add: demo_def demo_memory_def new_program_def Let_def)
  qed
  let ?m = "add_block (mem ?s) 0x80000 3 (\<lambda>x. 0xCD)"
  have malloc: "c_malloc (allocator.truncate demo_heap_os) 3 ?s1 = (0x80000, ?s1\<lparr>mem := ?m, heap := [0x80000 \<mapsto> 3]\<rparr>)"
    using free by (simp add: c_malloc_def demo_heap_os_def demo_os_def demo_malloc_def allocator.defs list_all_iff)
      (simp add: demo_def)
  let ?s2 = "?s1\<lparr>mem := ?m, heap := [0x80000 \<mapsto> 3]\<rparr>"
  have "mapped ?m 0x80000 3" by (simp add: mapped_def add_block_def unat_offset)
  then obtain m where m: "memset ?m 0x80000 0 3 = Some m"
    using store_bytes_defined [of ?m "0x80000" "replicate 3 0"] by (auto simp: memset_def)
  have keep: "m x = mem ?s x" if "\<not> unat (x - 0x80000) < 3" for x
    using store_bytes_get [of ?m "0x80000" "replicate 3 0" m x] m that by (simp add: memset_def add_block_def)
  have "\<not> unat (0x40078 + of_nat i - 0x80000 :: WORD) < 3" if "i < 8" for i
  proof -
    from that have "i = 0 \<or> i = 1 \<or> i = 2 \<or> i = 3 \<or> i = 4 \<or> i = 5 \<or> i = 6 \<or> i = 7" by arith
    then show ?thesis by (elim disjE) simp_all
  qed
  then have "mapped m 0x40078 8"
    using demo_stack_byte [of "[]" new_program "0x78 + i" for i] keep
    by (simp add: mapped_def new_program_def)
  then obtain m2 where m2: "store64 m 0x40078 0x80000 = Some m2"
    using store64_defined by blast
  have last: "m2 0x20005 = Some 0"
    using store_bytes_get [of m "0x40078" "to_bytes 8 0x80000" m2 "0x20005"] m2 keep [of "0x20005"] bytes [of 5]
    by (simp add: store64_def new_program_def)
  let ?s3 = "?s2\<lparr>sp := 0x40078, mem := m2\<rparr>"
  have "pushv 0x80000 (?s2\<lparr>mem := m\<rparr>) = Some ?s3"
    using m2 by (simp add: pushv_def push_def demo_fields)
  then have "exec demo_heap_os ?ev B_NEW (set_ip 1 (?s\<lparr>lastIp := 0\<rparr>)) = Some (Next ?s3)"
    using malloc m three
    by (simp add: exec_new intInByteCode_def demo_fields size_of_int_def continue_def)
  then have "step demo_heap_os ?ev ?s = Some (Next ?s3)"
    using bytes [of 0] by (simp add: step_def demo_fields new_program_def)
  moreover have "step demo_heap_os ev ?s3 = Some (Stop (Done False ((set_ip 6 (?s3\<lparr>lastIp := 5\<rparr>))\<lparr>vm_out := None\<rparr>)))" for ev
    using last exec_illegal by (simp add: step_def demo_fields return_def)
  ultimately show ?thesis by (simp add: numeral_2_eq_2)
qed

lemma new_program_heap: "heap_ok (demo new_program [])"
  by (simp add: heap_ok_def demo_def)

lemma heap_well_formed_witness:
  "\<exists>s'. run demo_heap_os 2 (demo new_program []) = Done False s' \<and> heap s' = [0x80000 \<mapsto> 3] \<and> heap_ok s'"
  using new_program_runs heap_well_formed [OF demo_sound new_program_heap, of 2 False] by blast

lemma stack_and_objects_kept_witness:
  "\<exists>s'. run demo_heap_os 2 (demo new_program []) = Done False s' \<and> stack s' = 0x40000 \<and> objects s' ! 0 = 0x20000"
proof -
  obtain s' where s': "run demo_heap_os 2 (demo new_program []) = Done False s'"
    using new_program_runs by blast
  then show ?thesis
    using stack_and_objects_kept [OF demo_sound s'] by (simp add: demo_fields)
qed

end
