(* ===== verification/Native_Calls.thy ===== *)
theory Native_Calls
  imports Context_Invariant
begin

section \<open>Built-in memory functions and system messages\<close>

text \<open>
  The functions of runtime.cc around \<open>malloc\<close>, \<open>free\<close> and \<open>memcpy\<close>, and \<open>formatMessage\<close>, which copies the text
  of a status code from a buffer of Windows into a block of the program. Their sizes are \<open>int\<close>s, which a call
  extends to a \<open>size_t\<close>.
\<close>

definition builtInMalloc :: "os \<Rightarrow> int32 \<Rightarrow> vm \<Rightarrow> WORD \<times> vm" where
  "builtInMalloc os n s = c_malloc (allocator.truncate os) (size_of_int n) s"

definition builtInFree :: "WORD \<Rightarrow> vm \<Rightarrow> (int32 \<times> vm) option" where
  "builtInFree p s = do { s \<leftarrow> c_free p s; Some (0, s) }"

definition builtInMemcpy :: "WORD \<Rightarrow> WORD \<Rightarrow> int32 \<Rightarrow> vm \<Rightarrow> (WORD \<times> vm) option" where
  "builtInMemcpy dest src n s = do { m \<leftarrow> memcpy (mem s) dest src (size_of_int n); Some (dest, s\<lparr>mem := m\<rparr>) }"

text \<open>\<open>message\<close> is the text that Windows has for the status; when it has none, it leaves the pointer to the
  text as it was, which is not initialised.\<close>

definition formatMessage :: "os \<Rightarrow> byte list option \<Rightarrow> vm \<Rightarrow> (WORD \<times> vm) option" where
  "formatMessage os message s = do {
     lpMessageBuffer \<leftarrow> message;
     let n = size_of_int (of_nat (length lpMessageBuffer) + 1);
     let (p, s) = c_malloc (allocator.truncate os) n s;
     let bs = take n (lpMessageBuffer @ [0]);
     if length bs < n then None
     else do { m \<leftarrow> store_bytes (mem s) p bs; Some (p, s\<lparr>mem := m\<rparr>) } }"

subsection \<open>A block that is freed leaves nothing behind\<close>

lemma remove_add_block:
  assumes "\<forall>i < n. m (p + of_nat i) = None"
  shows "remove_block (add_block m p n f) p n = m"
proof
  fix x
  show "remove_block (add_block m p n f) p n x = m x"
    using assms area_address [of x p] by (auto simp: remove_block_def add_block_def)
qed

lemma malloc_fresh:
  assumes "valid_malloc os" "c_malloc os n s = (p, s')" "p \<noteq> 0"
  shows "\<forall>i < n. mem s (p + of_nat i) = None" and "heap s p = None" and "unat p + n < 2 ^ 64"
    and "s' = s\<lparr>mem := add_block (mem s) p n (os_junk os), heap := (heap s)(p \<mapsto> n)\<rparr>"
proof -
  have p: "p = os_malloc os (mem s) (heap s) n"
    and "s' = s\<lparr>mem := add_block (mem s) p n (os_junk os), heap := (heap s)(p \<mapsto> n)\<rparr>"
    using assms(2,3) by (auto simp: c_malloc_def Let_def split: if_splits)
  then show "s' = s\<lparr>mem := add_block (mem s) p n (os_junk os), heap := (heap s)(p \<mapsto> n)\<rparr>" by blast
  show "\<forall>i < n. mem s (p + of_nat i) = None" "heap s p = None" "unat p + n < 2 ^ 64"
    using assms(1,3) unfolding p valid_malloc_def Let_def by blast+
qed

text \<open>Freeing a block that was just allocated gives back the context as it was.\<close>

theorem malloc_then_free:
  assumes "valid_malloc (allocator.truncate os)" "builtInMalloc os n s = (p, s')"
  shows "builtInFree p s' = Some (0, s)"
proof (cases "p = 0")
  case True
  then show ?thesis
    using assms(2) by (auto simp: builtInMalloc_def builtInFree_def c_malloc_def c_free_def Let_def split: if_splits)
next
  case False
  note new = malloc_fresh [OF assms(1) assms(2) [unfolded builtInMalloc_def] False]
  have "(heap s)(p := None) = heap s" using new(2) by (rule fun_upd_idem)
  then show ?thesis using False remove_add_block [OF new(1)] by (simp add: builtInFree_def c_free_def new(4))
qed

lemma size_of_nat:
  assumes "n < 2 ^ 31"
  shows "size_of_int (of_nat n) = n"
proof -
  have "of_int32 (of_nat n) = (of_nat n :: WORD)"
    using sint_of_nat32 [of n] assms by (simp add: scast_eq)
  then show ?thesis using assms by (simp add: size_of_int_def unat_of_nat take_bit_nat_def)
qed

text \<open>The text of a message is in the block, terminated, and other memory is as it was.\<close>

theorem message_copied:
  assumes "valid_malloc (allocator.truncate os)" "formatMessage os (Some message) s = Some (p, s')" "p \<noteq> 0"
    and "length message < 2 ^ 31 - 1"
  shows "load_bytes (mem s') p (length message + 1) = Some (message @ [0]) \<and>
    (\<forall>x. mem s x \<noteq> None \<longrightarrow> mem s' x = mem s x) \<and> heap s' = (heap s)(p \<mapsto> length message + 1)"
proof -
  let ?n = "length message + 1"
  have n: "size_of_int (of_nat (length message) + 1) = ?n"
    using assms(4) size_of_nat [of ?n] by (simp add: add.commute)
  obtain s1 m where m: "c_malloc (allocator.truncate os) ?n s = (p, s1)" "store_bytes (mem s1) p (message @ [0]) = Some m"
      "s' = s1\<lparr>mem := m\<rparr>"
    using assms(2) by (auto simp: formatMessage_def n Let_def split: prod.splits bind_splits if_splits)
  note new = malloc_fresh [OF assms(1) m(1) assms(3)]
  have "load_bytes m p ?n = Some (message @ [0])"
    using load_bytes_store_same [OF m(2)] assms(4) by simp
  moreover have "m x = mem s x" if "mem s x \<noteq> None" for x
  proof -
    have "\<not> unat (x - p) < ?n" using new(1) area_address [of x p] that by metis
    then show ?thesis
      using store_bytes_get [OF m(2), of x] assms(4) by (simp add: new(4) add_block_def)
  qed
  ultimately show ?thesis by (simp add: m(3) new(4))
qed

text \<open>A status that Windows does not know ends in a fault.\<close>

lemma unknown_message_faults: "formatMessage os None s = None"
  by (simp add: formatMessage_def)

lemma demo_malloc_then_free: "builtInFree (fst (builtInMalloc demo_heap_os 3 s)) (snd (builtInMalloc demo_heap_os 3 s)) = Some (0, s)"
  using malloc_then_free [OF demo_heap_valid] by simp

end
