(* ===== verification/Variant_Props.thy ===== *)
theory Variant_Props
  imports Run_Props
begin

section \<open>Variants on the stack\<close>

text \<open>
  A variant takes two slots, its kind on top of its value. The comparison and arithmetic
  instructions on the list view of the stack, and the assignment of variants in memory.
\<close>

subsection \<open>Comparison\<close>

text \<open>The sign that \<open>varCompare\<close> reports: that of the difference after wrap-around.\<close>

definition compare_sign :: "int \<Rightarrow> int \<Rightarrow> int" where
  "compare_sign x y = sgn (wrap64 (x - y))"

lemma compare_sign_exact:
  assumes "- (2 ^ 63) \<le> x - y" "x - y < 2 ^ 63"
  shows "compare_sign x y = sgn (x - y)"
  using assms by (simp add: compare_sign_def wrap64_id)

lemma compare_sign_reversed:
  assumes "- (2 ^ 63) \<le> x" "x < 2 ^ 63" "- (2 ^ 63) \<le> y" "y < 2 ^ 63"
    and "\<not> (- (2 ^ 63) \<le> x - y \<and> x - y < 2 ^ 63)"
  shows "compare_sign x y = - sgn (x - y)"
proof (cases "x - y < 2 ^ 63")
  case False
  have "wrap64 (x - y) = x - y - 2 ^ 64"
  proof -
    have "(x - y + 2 ^ 63) mod 2 ^ 64 = (x - y + 2 ^ 63 - 2 ^ 64) mod 2 ^ 64"
      by (rule minus_mod_self2 [symmetric])
    also have "\<dots> = x - y + 2 ^ 63 - 2 ^ 64" using False assms by (intro mod_pos_pos_trivial) simp_all
    finally show ?thesis by (simp add: wrap64_def)
  qed
  moreover have "x - y - 2 ^ 64 < 0" "0 < x - y" using False assms by simp_all
  ultimately show ?thesis by (simp add: compare_sign_def sgn_if)
next
  case True
  then have lo: "x - y < - (2 ^ 63)" using assms(5) by simp
  have "wrap64 (x - y) = x - y + 2 ^ 64"
  proof -
    have "(x - y + 2 ^ 63) mod 2 ^ 64 = (x - y + 2 ^ 63 + 2 ^ 64) mod 2 ^ 64"
      by (rule mod_add_self2 [symmetric])
    also have "\<dots> = x - y + 2 ^ 63 + 2 ^ 64" using lo assms by (intro mod_pos_pos_trivial) simp_all
    finally show ?thesis by (simp add: wrap64_def)
  qed
  moreover have "0 < x - y + 2 ^ 64" "x - y < 0" using lo assms by simp_all
  ultimately show ?thesis by (simp add: compare_sign_def sgn_if)
qed

lemma varCompare_law:
  assumes "load64 m l = Some k" "load64 m r = Some k'" "load64 m (l + 8) = Some x" "load64 m (r + 8) = Some y"
  shows "\<exists>c. varCompare m l r = Some c \<and>
    sint c = (if k = k' then compare_sign (sint x) (sint y) else - (2 ^ 31))"
  using assms
  by (simp add: varCompare_def variant_kind_def variant_asLong_def Let_def compare_sign_def sint_arith64 INT_MIN_def)

text \<open>The variants on top of a stack: the right operand, then the left one.\<close>

lemma two_variants:
  assumes "stack_ok s" "stk s = k' # y # k # x # ws"
  shows "load64 (mem s) (sp s) = Some k'" "load64 (mem s) (sp s + 8) = Some y"
    "load64 (mem s) (sp s + 16) = Some k" "load64 (mem s) (sp s + 16 + 8) = Some x"
proof -
  have d: "depth s = Suc (Suc (Suc (Suc (length ws))))" using arg_cong [OF assms(2), of length] by simp
  show "load64 (mem s) (sp s) = Some k'" "load64 (mem s) (sp s + 8) = Some y"
    "load64 (mem s) (sp s + 16) = Some k" "load64 (mem s) (sp s + 16 + 8) = Some x"
    using load_slot [OF assms(1), of 0] load_slot [OF assms(1), of 1] load_slot [OF assms(1), of 2]
      load_slot [OF assms(1), of 3] d assms(2) by (simp_all add: numeral_3_eq_3 add.assoc)
qed

definition variant_tests :: "(nat \<times> (int \<Rightarrow> bool)) list" where
  "variant_tests = [
    (B_EQV, \<lambda>c. c = 0), (B_NEV, \<lambda>c. c \<noteq> 0), (B_GTV, \<lambda>c. c > 0), (B_GEV, \<lambda>c. c \<ge> 0),
    (B_LTV, \<lambda>c. c < 0), (B_LEV, \<lambda>c. c \<le> 0), (B_LGV, \<lambda>c. c \<noteq> 0), (B_NGV, \<lambda>c. c \<le> 0),
    (B_NGEV, \<lambda>c. c < 0), (B_NLV, \<lambda>c. c \<ge> 0), (B_NLEV, \<lambda>c. c > 0), (B_NLGV, \<lambda>c. c = 0)]"

lemma dispatch_variant: "(op, branch) \<in> set ops_variant \<Longrightarrow> exec os ev op = branch"
  by (rule ext, rule dispatch, simp add: switch_table_def)

lemma exec_variant_tests: "list_all (\<lambda>(op, p). exec os ev op = var_test p) variant_tests"
  unfolding variant_tests_def list.pred_inject prod.case
  by (intro conjI list.pred_inject(1); rule dispatch_variant; simp add: ops_variant_def)

text \<open>C29: a comparison of two variants takes both from the stack and pushes the truth value of its test
  on the sign of their difference when their kinds are equal. The sign is the exact one when the
  difference fits in 64 bits, and the opposite one when it does not.\<close>

theorem variant_comparison:
  assumes "(op, p) \<in> set variant_tests" "stack_ok s" "stk s = k # y # k # x # ws"
  shows "\<exists>s'. exec os ev op s = Some (Next s') \<and> stack_ok s' \<and> frame s' = frame s \<and>
    stk s' = of_cbool (p (if - (2 ^ 63) \<le> sint x - sint y \<and> sint x - sint y < 2 ^ 63
       then sgn (sint x - sint y) else - sgn (sint x - sint y))) # ws"
proof -
  have exec: "exec os ev op = var_test p"
    using exec_variant_tests [of os ev] assms(1) by (auto simp: list_all_iff)
  note v = two_variants [OF assms(2,3)]
  obtain c where c: "varCompare (mem s) (sp s + 16) (sp s) = Some c" "sint c = compare_sign (sint x) (sint y)"
    using varCompare_law [OF v(3,1,4,2)] by auto
  have sign: "sint c = (if - (2 ^ 63) \<le> sint x - sint y \<and> sint x - sint y < 2 ^ 63
       then sgn (sint x - sint y) else - sgn (sint x - sint y))"
    using compare_sign_exact [of "sint x" "sint y"] compare_sign_reversed [of "sint x" "sint y"]
      sint_bounds [of x] sint_bounds [of y] c(2) by simp
  have "4 \<le> depth s" using arg_cong [OF assms(3), of length] by simp
  then have t: "stack_ok (s\<lparr>sp := sp s + 32\<rparr>)" "stk (s\<lparr>sp := sp s + 32\<rparr>) = ws"
      "room (s\<lparr>sp := sp s + 32\<rparr>) = room s + 4"
    using raise_sp [OF assms(2), of 4] assms(3) by (simp_all add: eval_nat_numeral)
  then obtain s' where "pushv (of_cbool (p (sint c))) (s\<lparr>sp := sp s + 32\<rparr>) = Some s'" "stack_ok s'"
      "stk s' = of_cbool (p (sint c)) # ws" "frame s' = frame s"
    using push_law [OF t(1), of "of_cbool (p (sint c))"] by auto
  then show ?thesis
    using c(1) by (simp add: exec var_test_def VARIANT_SIZE_def continue_def sign)
qed

lemma variant_comparison_witness:
  "\<exists>s'. exec demo_os (\<lambda>i. Done False) B_LTV (demo [] [9, 1, 9, 0x8000000000000000]) = Some (Next s') \<and>
     stk s' = [0]"
proof -
  let ?s = "demo [] [9, 1, 9, 0x8000000000000000]"
  have "(B_LTV, \<lambda>c. c < 0) \<in> set variant_tests" by (simp add: variant_tests_def)
  moreover have "stack_ok ?s" "stk ?s = [9, 1, 9, 0x8000000000000000]" by (simp_all add: demo_ok)
  ultimately have "\<exists>s'. exec demo_os (\<lambda>i. Done False) B_LTV ?s = Some (Next s') \<and> stack_ok s' \<and> frame s' = frame ?s \<and>
      stk s' = [of_cbool ((if - (2 ^ 63) \<le> sint (0x8000000000000000 :: WORD) - sint (1 :: WORD) \<and>
          sint (0x8000000000000000 :: WORD) - sint (1 :: WORD) < 2 ^ 63
        then sgn (sint (0x8000000000000000 :: WORD) - sint (1 :: WORD))
        else - sgn (sint (0x8000000000000000 :: WORD) - sint (1 :: WORD))) < 0)]"
    by (rule variant_comparison)
  then show ?thesis by auto
qed

subsection \<open>Arithmetic\<close>

text \<open>The variant instructions and the integer instructions they correspond to.\<close>

definition variant_arith :: "(nat \<times> (int \<Rightarrow> int \<Rightarrow> int option)) list" where
  "variant_arith = [
    (B_ADDV, \<lambda>a b. Some (wrap64 (a + b))),
    (B_SUBV, \<lambda>a b. Some (wrap64 (a - b))),
    (B_MULV, \<lambda>a b. Some (wrap64 (a * b))),
    (B_DIVV, \<lambda>a b. if traps a b then None else Some (a sdiv b)),
    (B_REMV, \<lambda>a b. if traps a b then None else Some (a smod b)),
    (B_RSHV, \<lambda>a b. Some (a div 2 ^ nat (b mod 64))),
    (B_LSHV, \<lambda>a b. Some (wrap64 (a * 2 ^ nat (b mod 64)))),
    (B_URSV, \<lambda>a b. Some (wrap64 (a mod 2 ^ 64 div 2 ^ nat (b mod 64)))),
    (B_ANDV, \<lambda>a b. Some (a AND b)),
    (B_ORV, \<lambda>a b. Some (a OR b)),
    (B_XORV, \<lambda>a b. Some (a XOR b))]"

lemma exec_variant_arith:
  "list_all (\<lambda>(op, f). \<exists>g. computes f g \<and> exec os ev op = var_op (var_arith g)) variant_arith"
proof -
  have op: "(op, var_op h) \<in> set ops_variant \<Longrightarrow> h = var_arith g \<Longrightarrow> computes f g \<Longrightarrow>
      \<exists>g. computes f g \<and> exec os ev op = var_op (var_arith g)" for op h f g
    using dispatch_variant by blast
  show ?thesis
    unfolding variant_arith_def list.pred_inject prod.case
  proof (intro conjI list.pred_inject(1))
    show "\<exists>g. computes (\<lambda>a b. if traps a b then None else Some (a sdiv b)) g \<and> exec os ev B_DIVV = var_op (var_arith g)"
      by (rule op [OF _ varDiv_def computes_div(1)]) (simp add: ops_variant_def)
    show "\<exists>g. computes (\<lambda>a b. if traps a b then None else Some (a smod b)) g \<and> exec os ev B_REMV = var_op (var_arith g)"
      by (rule op [OF _ varRem_def computes_div(2)]) (simp add: ops_variant_def)
    show "\<exists>g. computes (\<lambda>a b. Some (wrap64 (a + b))) g \<and> exec os ev B_ADDV = var_op (var_arith g)"
      by (rule op [OF _ varAdd_def computes_total]) (simp_all add: ops_variant_def sint_arith64)
    show "\<exists>g. computes (\<lambda>a b. Some (wrap64 (a - b))) g \<and> exec os ev B_SUBV = var_op (var_arith g)"
      by (rule op [OF _ varSub_def computes_total]) (simp_all add: ops_variant_def sint_arith64)
    show "\<exists>g. computes (\<lambda>a b. Some (wrap64 (a * b))) g \<and> exec os ev B_MULV = var_op (var_arith g)"
      by (rule op [OF _ varMul_def computes_total]) (simp_all add: ops_variant_def sint_arith64)
    show "\<exists>g. computes (\<lambda>a b. Some (a div 2 ^ nat (b mod 64))) g \<and> exec os ev B_RSHV = var_op (var_arith g)"
      by (rule op [OF _ varRsh_def computes_total]) (simp_all add: ops_variant_def sint_sar)
    show "\<exists>g. computes (\<lambda>a b. Some (wrap64 (a * 2 ^ nat (b mod 64)))) g \<and> exec os ev B_LSHV = var_op (var_arith g)"
      by (rule op [OF _ varLsh_def computes_total]) (simp_all only: ops_variant_def sint_shl, simp)
    show "\<exists>g. computes (\<lambda>a b. Some (wrap64 (a mod 2 ^ 64 div 2 ^ nat (b mod 64)))) g \<and>
        exec os ev B_URSV = var_op (var_arith g)"
      by (rule op [OF _ varUrs_def computes_total]) (simp_all only: ops_variant_def sint_shr, simp)
    show "\<exists>g. computes (\<lambda>a b. Some (a AND b)) g \<and> exec os ev B_ANDV = var_op (var_arith g)"
      by (rule op [OF _ varAnd_def computes_total]) (simp_all add: ops_variant_def sint_bits64)
    show "\<exists>g. computes (\<lambda>a b. Some (a OR b)) g \<and> exec os ev B_ORV = var_op (var_arith g)"
      by (rule op [OF _ varOr_def computes_total]) (simp_all add: ops_variant_def sint_bits64)
    show "\<exists>g. computes (\<lambda>a b. Some (a XOR b)) g \<and> exec os ev B_XORV = var_op (var_arith g)"
      by (rule op [OF _ varXor_def computes_total]) (simp_all add: ops_variant_def sint_bits64)
  qed
qed

text \<open>C28: variant arithmetic drops the right operand and replaces the value of the left one, whose
  kind stays, by what the integer specification says of the two values; where that has no
  result the instruction traps.\<close>

theorem variant_arithmetic:
  assumes "(op, f) \<in> set variant_arith" "stack_ok s" "stk s = k' # y # k # x # ws"
  shows "case f (sint x) (sint y) of
      None \<Rightarrow> exec os ev op s = None
    | Some r \<Rightarrow> \<exists>s' v. exec os ev op s = Some (Next s') \<and> stack_ok s' \<and> stk s' = k # v # ws \<and> sint v = r \<and>
        frame s' = frame s"
proof -
  obtain g where g: "computes f g" "exec os ev op = var_op (var_arith g)"
    using exec_variant_arith [of os ev] assms(1) by (auto simp: list_all_iff)
  note v = two_variants [OF assms(2,3)]
  have f: "f (sint x) (sint y) = map_option sint (g x y)" using g(1) by (simp add: computes_def)
  have run: "exec os ev op s = do {
      val \<leftarrow> g x y;
      m \<leftarrow> store64 (mem s) (sp s + 24) val;
      Some (Next (s\<lparr>mem := m, sp := sp s + 16\<rparr>)) }"
    using v by (cases "g x y")
      (simp_all add: g(2) var_op_def var_arith_def variant_asLong_def variant_setLong_def VARIANT_SIZE_def add.assoc)
  show ?thesis
  proof (cases "g x y")
    case None
    then show ?thesis by (simp add: f run)
  next
    case (Some val)
    have d: "3 < depth s" using arg_cong [OF assms(3), of length] by simp
    obtain m where m: "store64 (mem s) (sp s + 24) val = Some m" "stack_ok (s\<lparr>mem := m\<rparr>)"
        "stk (s\<lparr>mem := m\<rparr>) = k' # y # k # val # ws" "frame (s\<lparr>mem := m\<rparr>) = frame s"
      using store_slot [OF assms(2) d, of 8 val] assms(3) by (auto simp: store64_def numeral_3_eq_3)
    have "2 \<le> depth (s\<lparr>mem := m\<rparr>)" using d by (simp add: depth_def)
    then have "stack_ok (s\<lparr>mem := m, sp := sp s + 16\<rparr>)" "stk (s\<lparr>mem := m, sp := sp s + 16\<rparr>) = k # val # ws"
      using raise_sp [OF m(2), of 2] m(3) by (simp_all add: eval_nat_numeral)
    then show ?thesis using m by (simp add: f run Some)
  qed
qed

lemma variant_arithmetic_witness:
  "\<exists>s' v. exec demo_os (\<lambda>i. Done False) B_SUBV (demo [] [9, 3, 9, 10]) = Some (Next s') \<and> stk s' = [9, v] \<and> sint v = 7"
proof -
  have "(B_SUBV, \<lambda>a b. Some (wrap64 (a - b))) \<in> set variant_arith" by (simp add: variant_arith_def)
  moreover have "stack_ok (demo [] [9, 3, 9, 10])" "stk (demo [] [9, 3, 9, 10]) = [9, 3, 9, 10]"
    by (simp_all add: demo_ok)
  ultimately show ?thesis
    using variant_arithmetic [where os = demo_os and ev = "\<lambda>i. Done False"] by (fastforce simp: wrap64_def)
qed

subsection \<open>Assignment\<close>

lemma store64_outside:
  assumes "store64 m a w = Some m'" "disjoint_areas b 8 a 8"
  shows "load64 m' b = load64 m b"
  using load64_store_other [of m a "to_bytes 8 w" m' b] assms by (simp add: store64_def)

lemma halves_disjoint: "disjoint_areas p 8 (p + 8) 8" "disjoint_areas (p + 8) 8 p 8"
proof -
  have add: "unat (w + 8) = unat w + 8" if "unat w < 8" for w :: WORD
    using that by (simp add: unat_word_ariths)
  have small: "8 \<le> unat (of_nat j - 8 :: WORD)" if "j < 8" for j
    using add [of "of_nat j - 8"] that unat_offset [of j] by (cases "unat (of_nat j - 8 :: WORD) < 8") simp_all
  then show "disjoint_areas p 8 (p + 8) 8"
    by (fastforce simp: disjoint_areas_def)
  have "unat (8 + of_nat j :: WORD) = 8 + j" if "j < 8" for j
    using that unat_offset [of "8 + j"] by simp
  then show "disjoint_areas (p + 8) 8 p 8" by (simp add: disjoint_areas_def)
qed

lemma disjoint_halves:
  assumes "disjoint_areas q 16 p 16"
  shows "disjoint_areas q 8 p 8" "disjoint_areas q 8 (p + 8) 8" "disjoint_areas (q + 8) 8 p 8"
    "disjoint_areas (q + 8) 8 (p + 8) 8"
proof -
  have far: "16 \<le> unat (q + of_nat i - p)" if "i < 16" for i
    using assms that by (auto simp: disjoint_areas_def not_less)
  have far8: "16 \<le> unat (q + 8 + of_nat i - p)" if "i < 8" for i
    using far [of "8 + i"] that by (simp add: add.assoc)
  have shift: "8 \<le> unat (w - 8)" if "16 \<le> unat w" for w :: WORD
    using that by (simp add: unat_diff word_le_nat_alt)
  show "disjoint_areas q 8 p 8"
    using far by (auto simp: disjoint_areas_def not_less intro: order_trans [of 8 16])
  show "disjoint_areas (q + 8) 8 p 8"
    using far8 by (auto simp: disjoint_areas_def not_less intro: order_trans [of 8 16])
  show "disjoint_areas q 8 (p + 8) 8"
    unfolding disjoint_areas_def
  proof (intro allI impI)
    fix i :: nat
    assume "i < 8"
    then show "\<not> unat (q + of_nat i - (p + 8)) < 8"
      using shift [OF far [of i]] by (simp add: diff_diff_eq)
  qed
  show "disjoint_areas (q + 8) 8 (p + 8) 8"
    unfolding disjoint_areas_def
  proof (intro allI impI)
    fix i :: nat
    assume "i < 8"
    then show "\<not> unat (q + 8 + of_nat i - (p + 8)) < 8"
      using shift [OF far8 [of i]] by (simp only: diff_diff_eq not_less)
  qed
qed

lemma variant_assign_defined:
  assumes "mapped m p 8" "mapped m (p + 8) 8" "mapped m q 8" "mapped m (q + 8) 8"
  shows "\<exists>m'. variant_assign m p q = Some m'"
proof -
  have st: "\<exists>m'. store64 m a w = Some m' \<and> (\<forall>b n. mapped m' b n = mapped m b n)" if a: "mapped m a 8" for m a w
  proof -
    obtain m' where m': "store64 m a w = Some m'" using store64_defined [OF a] by blast
    have "\<forall>b n. mapped m' b n = mapped m b n" using mapped_dom [OF store64_dom [OF m']] by simp
    then show ?thesis using m' by blast
  qed
  obtain m1 where m1: "store64 m p 0 = Some m1" "\<And>b n. mapped m1 b n = mapped m b n"
    using st [of m p 0] assms(1) by blast
  obtain m2 where m2: "store64 m1 (p + 8) 0 = Some m2" "\<And>b n. mapped m2 b n = mapped m b n"
    using st [of m1 "p + 8" 0] assms(2) m1(2) by auto
  obtain k where k: "load64 m2 q = Some k" using load64_defined [of m2 q] assms(3) m2(2) by auto
  obtain m3 where m3: "store64 m2 p k = Some m3" "\<And>b n. mapped m3 b n = mapped m b n"
    using st [of m2 p k] assms(1) m2(2) by auto
  obtain x where x: "load64 m3 (q + 8) = Some x" using load64_defined [of m3 "q + 8"] assms(4) m3(2) by auto
  obtain m4 where "store64 m3 (p + 8) x = Some m4" using st [of m3 "p + 8" x] assms(2) m3(2) by auto
  then show ?thesis
    using m1 m2 m3 k x
    by (simp add: variant_assign_def variant_clear_def variant_init_def variant_kind_def variant_asLong_def
        variant_setKind_def variant_setLong_def)
qed

text \<open>Assigning a variant copies kind and value and leaves its source as it was when the two do not
  overlap; but assigning a variant to itself, which \<open>operator=\<close> does not test for, clears it.\<close>

theorem variant_assignment:
  assumes "variant_assign m p q = Some m'" "variant_kind m q = Some k" "variant_asLong m q = Some x"
  shows "(disjoint_areas q 16 p 16 \<longrightarrow> variant_kind m' p = Some k \<and> variant_asLong m' p = Some x \<and>
      variant_kind m' q = Some k \<and> variant_asLong m' q = Some x) \<and>
    (q = p \<longrightarrow> variant_kind m' p = Some 0 \<and> variant_asLong m' p = Some 0)"
proof -
  obtain m1 m2 m3 k' x' where c: "store64 m p 0 = Some m1" "store64 m1 (p + 8) 0 = Some m2"
      "load64 m2 q = Some k'" "store64 m2 p k' = Some m3" "load64 m3 (q + 8) = Some x'" "store64 m3 (p + 8) x' = Some m'"
    using assms(1)
    by (auto simp: variant_assign_def variant_clear_def variant_init_def variant_kind_def variant_asLong_def
        variant_setKind_def variant_setLong_def split: bind_splits)
  note hd = halves_disjoint [of p]
  have result: "load64 m' p = Some k'" "load64 m' (p + 8) = Some x'"
    using store64_outside [OF c(6) hd(1)] load64_store64_same [OF c(4)] load64_store64_same [OF c(6)] by simp_all
  have "k' = k \<and> x' = x \<and> load64 m' q = Some k \<and> load64 m' (q + 8) = Some x" if "disjoint_areas q 16 p 16"
  proof -
    note d = disjoint_halves [OF that]
    have "load64 m2 q = Some k" "load64 m3 (q + 8) = Some x" "load64 m3 q = Some k"
      using assms(2,3) store64_outside [OF c(1)] store64_outside [OF c(2)] store64_outside [OF c(4)] d
      by (simp_all add: variant_kind_def variant_asLong_def)
    then show ?thesis
      using c(3,5) store64_outside [OF c(6) d(2)] store64_outside [OF c(6) d(4)] by simp
  qed
  moreover have "k' = 0 \<and> x' = 0" if "q = p"
    using that c store64_outside [OF c(2) hd(1)] load64_store64_same [OF c(1)] load64_store64_same [OF c(2)]
      store64_outside [OF c(4) hd(2)] by simp
  ultimately show ?thesis
    using result by (auto simp: variant_kind_def variant_asLong_def)
qed

lemma variant_assignment_witness:
  "\<exists>m'. variant_assign (mem (demo [] [9, 5])) 0x40070 0x40070 = Some m' \<and>
     variant_kind m' 0x40070 = Some 0 \<and> variant_asLong m' 0x40070 = Some 0"
proof -
  let ?s = "demo [] [9, 5]"
  have ok: "stack_ok ?s" "stk ?s = [9, 5]" "sp ?s = 0x40070" by (simp_all add: demo_ok demo_fields)
  have d: "depth ?s = 2" using arg_cong [OF ok(2), of length] by simp
  have v: "variant_kind (mem ?s) 0x40070 = Some 9" "variant_asLong (mem ?s) 0x40070 = Some 5"
    using load_slot [OF ok(1), of 0] load_slot [OF ok(1), of 1] ok(2,3) d
    by (simp_all add: variant_kind_def variant_asLong_def)
  have "mapped (mem ?s) 0x40070 8" "mapped (mem ?s) (0x40070 + 8) 8"
    using mapped_slot [OF ok(1), of 0] mapped_slot [OF ok(1), of 1] d ok(3) by simp_all
  from variant_assign_defined [OF this this] obtain m'
    where a: "variant_assign (mem ?s) 0x40070 0x40070 = Some m'" by blast
  then show ?thesis using variant_assignment [OF a v] by simp
qed

end
