(* ===== verification/Disassembler.thy ===== *)
theory Disassembler
  imports Interp
begin

section \<open>The disassembler: \<open>ExecutionContext::disassemble\<close>\<close>

text \<open>
  runtime.cc, used by the trace. What it prints is the list of its calls of \<open>printf\<close>: a format and
  the arguments. The second component of a result is \<open>ip\<close> as the function leaves it: the address of
  the last byte of the instruction. \<open>None\<close> is a read of memory that is not there, or of the name
  table past its end.
\<close>

datatype printf_arg = PInt int | PText "string option"

type_synonym printed = "(string \<times> printf_arg list) list"

definition tab :: string where
  "tab = [CHR 0x09]"

definition int_operand :: "int32 \<Rightarrow> vm \<Rightarrow> int option" where
  "int_operand k s = map_option sint (load32 (mem s) (code s + of_int32 (k + 1)))"

definition print_int :: "string \<Rightarrow> (int \<Rightarrow> int) \<Rightarrow> int32 \<Rightarrow> vm \<Rightarrow> (printed \<times> int32) option" where
  "print_int format f k s = do {
     x \<leftarrow> int_operand k s;
     Some ([(format, [PInt (f x)])], k + 4) }"

definition print_two_ints :: "string \<Rightarrow> (int \<Rightarrow> int) \<Rightarrow> int32 \<Rightarrow> vm \<Rightarrow> (printed \<times> int32) option" where
  "print_two_ints format f k s = do {
     x \<leftarrow> int_operand k s;
     y \<leftarrow> int_operand (k + 4) s;
     Some ([(format, [PInt (f x), PInt y])], k + 8) }"

text \<open>An \<open>int\<close> negated, as C wraps it.\<close>

definition negated :: "int \<Rightarrow> int" where
  "negated x = sint (- word_of_int x :: int32)"

subsection \<open>Numbers\<close>

definition disasm_numbers :: "nat \<Rightarrow> int32 \<Rightarrow> vm \<Rightarrow> (printed \<times> int32) option" where
  "disasm_numbers op k s =
     (if op \<in> set [B_NEW, B_INT, B_RET, B_RET1, B_VARG, B_VARG1, B_CHKSTK, B_LDIO, B_STIO, B_POPN,
                   B_INVOKE, B_ZERO_I]
      then print_int (tab @ ''%d'') (\<lambda>x. x) k s
      else if op = B_LONG then do {
        x \<leftarrow> load64 (mem s) (code s + of_int32 (k + 1));
        Some ([(tab @ ''%lld'', [PInt (sint x)])], k + 8) }
      else if op = B_RETN then print_two_ints (tab @ ''%d, %d'') (\<lambda>x. x) k s
      else Some ([], k))"

subsection \<open>Variables and parameters\<close>

definition disasm_variables :: "nat \<Rightarrow> int32 \<Rightarrow> vm \<Rightarrow> (printed \<times> int32) option" where
  "disasm_variables op k s =
     (if op \<in> set [B_LDAA, B_STAA, B_LDAB, B_STAB, B_LDAC, B_LDAS, B_STAS, B_STAV, B_LDAI, B_LDAU,
                   B_STAI, B_AUTO]
      then print_int (tab @ ''[fp%+d]'') (\<lambda>x. x) k s
      else if op \<in> set [B_STVA, B_STVB, B_STVI, B_STVS, B_STVV, B_AVARG]
      then print_int (tab @ ''[fp%+d]'') negated k s
      else if op \<in> set [B_ZERO_A, B_STAO, B_LDAO]
      then print_two_ints (tab @ ''[fp%+d],%d'') (\<lambda>x. x) k s
      else if op = B_STVO then print_two_ints (tab @ ''[fp%+d],%d'') negated k s
      else if op \<in> set [B_LDPA, B_STPA, B_LDPC, B_LDPS, B_STPS, B_LDPB, B_STPB, B_LDPI, B_LDPL, B_LDPU,
                        B_STPI, B_STPL, B_PARAMS]
      then print_int (tab @ ''[param+%d]'') (\<lambda>x. x) k s
      else if op \<in> set [B_LDPO, B_STPO]
      then print_two_ints (tab @ ''[param+%d],%d'') (\<lambda>x. x) k s
      else Some ([], k))"

subsection \<open>Switches and branches\<close>

text \<open>The loops over the cases: a value, in a \<open>switche\<close> also an offset, and a label.\<close>

fun disasm_cases :: "bool \<Rightarrow> nat \<Rightarrow> int32 \<Rightarrow> vm \<Rightarrow> (printed \<times> int32) option" where
  "disasm_cases enum 0 k s = Some ([], k)"
| "disasm_cases enum (Suc n) k s = do {
     v \<leftarrow> int_operand k s;
     let k = k + 4;
     _ \<leftarrow> (if enum then int_operand k s else Some 0);
     let k = (if enum then k + 4 else k);
     label \<leftarrow> int_operand k s;
     let k = k + 4;
     (out, k) \<leftarrow> disasm_cases enum n k s;
     Some ((CHR 0x0A # ''      %08x -> %d'', [PInt v, PInt label]) # out, k) }"

definition disasm_switch :: "bool \<Rightarrow> int32 \<Rightarrow> vm \<Rightarrow> (printed \<times> int32) option" where
  "disasm_switch enum k s = do {
     x \<leftarrow> int_operand k s;
     let k = k + 4;
     y \<leftarrow> int_operand k s;
     let k = k + 4;
     (out, k) \<leftarrow> disasm_cases enum (nat x) k s;
     Some ((tab @ ''%d cases, default '', [PInt x]) # (''%d:'', [PInt y]) # out, k) }"

definition disasm_branches :: "nat \<Rightarrow> int32 \<Rightarrow> vm \<Rightarrow> (printed \<times> int32) option" where
  "disasm_branches op k s =
     (if op = B_SWITCHI then disasm_switch False k s
      else if op = B_SWITCHE then disasm_switch True k s
      else if op \<in> set [B_JMP, B_JZ, B_JNZ] then print_int (tab @ ''%d'') (\<lambda>x. x) k s
      else if op = B_LOCALS then print_int (tab @ ''%d'') (\<lambda>x. x) k s
      else if op = B_SP then print_int (tab @ ''%d,sp'') (\<lambda>x. x) k s
      else Some ([], k))"

subsection \<open>Objects and built-in functions\<close>

definition print_object :: "int \<Rightarrow> vm \<Rightarrow> printed" where
  "print_object x s =
     (if 0 \<le> x \<and> x < int (length (objects s)) then [(''[%d]'', [PInt x])] else [(''<invalid:%d>'', [PInt x])])"

definition print_reference :: "int \<Rightarrow> vm \<Rightarrow> printed" where
  "print_reference x s =
     (if x = - 1 then [(tab @ ''<invalid>'', [])] else (tab, []) # print_object x s)"

definition disasm_objects :: "nat \<Rightarrow> int32 \<Rightarrow> vm \<Rightarrow> (printed \<times> int32) option" where
  "disasm_objects op k s =
     (if op \<in> set [B_STSA, B_STSB, B_STSC, B_STSI, B_STSS, B_LDSA, B_LDSB, B_LDSC, B_LDSI, B_LDSU,
                   B_LDSS, B_VALUE, B_CALL, B_STRING, B_ASTRING, B_ADDR]
      then do {
        x \<leftarrow> int_operand k s;
        Some (print_reference x s, k + 4) }
      else if op = B_XCALL then do {
        x \<leftarrow> int_operand k s;
        out \<leftarrow> (if x = - 1 then Some [(tab @ ''<invalid>'', [])]
                else do {
                  name \<leftarrow> builtInFunctionName (word_of_int x);
                  Some [(tab @ ''%s (%d)'', [PText name, PInt x])] });
        Some (out, k + 4) }
      else if op = B_VCALL then do {
        x \<leftarrow> int_operand k s;
        y \<leftarrow> int_operand (k + 4) s;
        Some ((tab @ ''@%d,'', [PInt x]) # print_object y s, k + 8) }
      else if op = B_STSO then do {
        x \<leftarrow> int_operand k s;
        y \<leftarrow> int_operand (k + 4) s;
        Some (print_reference x s @ [('',%d'', [PInt y])], k + 8) }
      else Some ([], k))"

subsection \<open>An instruction\<close>

text \<open>The labels of the \<open>switch\<close> are distinct: an instruction is printed by one of the four groups.\<close>

definition number_codes :: "nat list" where
  "number_codes = [B_NEW, B_INT, B_RET, B_RET1, B_VARG, B_VARG1, B_CHKSTK, B_LDIO, B_STIO, B_POPN,
     B_INVOKE, B_ZERO_I, B_LONG, B_RETN]"

definition branch_codes :: "nat list" where
  "branch_codes = [B_SWITCHI, B_SWITCHE, B_JMP, B_JZ, B_JNZ, B_LOCALS, B_SP]"

definition object_codes :: "nat list" where
  "object_codes = [B_STSA, B_STSB, B_STSC, B_STSI, B_STSS, B_LDSA, B_LDSB, B_LDSC, B_LDSI, B_LDSU,
     B_LDSS, B_VALUE, B_CALL, B_STRING, B_ASTRING, B_ADDR, B_XCALL, B_VCALL, B_STSO]"

definition disasm_operands :: "nat \<Rightarrow> int32 \<Rightarrow> vm \<Rightarrow> (printed \<times> int32) option" where
  "disasm_operands op k s =
     (if op \<in> set number_codes then disasm_numbers op k s
      else if op \<in> set branch_codes then disasm_branches op k s
      else if op \<in> set object_codes then disasm_objects op k s
      else disasm_variables op k s)"

definition disassemble :: "int32 \<Rightarrow> vm \<Rightarrow> (printed \<times> int32) option" where
  "disassemble k s = do {
     byteCode \<leftarrow> mem s (code s + of_int32 k);
     let op = unat byteCode;
     if B_MAX_BYTECODE \<le> op then None
     else do {
       (out, k2) \<leftarrow> disasm_operands op k s;
       Some ([(''%4d:'' @ tab @ ''%s'', [PInt (sint k), PText (ByteCodeMap_name op)])] @ out @ [([CHR 0x0A], [])], k2) } }"

end
