(* ===== verification/Disasm_Laws.thy ===== *)
theory Disasm_Laws
  imports Disassembler Alu_Spec
begin

section \<open>Disassembler and interpreter agree on the length of instructions\<close>

text \<open>
  Both step through the same byte codes: an instruction that does not jump leaves the interpreter
  where the disassembler stops, one byte after the last operand byte it printed.
\<close>

text \<open>The operand bytes of an instruction, apart from the cases of a switch.\<close>

definition variable_codes :: "nat list" where
  "variable_codes = [B_LDAA, B_STAA, B_LDAB, B_STAB, B_LDAC, B_LDAS, B_STAS, B_STAV, B_LDAI, B_LDAU,
     B_STAI, B_AUTO, B_STVA, B_STVB, B_STVI, B_STVS, B_STVV, B_AVARG, B_ZERO_A, B_STAO, B_LDAO, B_STVO,
     B_LDPA, B_STPA, B_LDPC, B_LDPS, B_STPS, B_LDPB, B_STPB, B_LDPI, B_LDPL, B_LDPU, B_STPI, B_STPL,
     B_PARAMS, B_LDPO, B_STPO]"

definition operand_bytes :: "nat \<Rightarrow> int32" where
  "operand_bytes op =
     (if op \<in> set [B_LONG, B_RETN, B_ZERO_A, B_STAO, B_LDAO, B_STVO, B_LDPO, B_STPO, B_VCALL, B_STSO] then 8
      else if op \<in> set (number_codes @ branch_codes @ object_codes @ variable_codes) then 4
      else 0)"

definition advances :: "int32 \<Rightarrow> instr \<Rightarrow> bool" where
  "advances n f \<longleftrightarrow> (\<forall>s s'. f s = Some (Next s') \<longrightarrow> active s' = (active s)\<lparr>fr_ip := ip s + n\<rparr>)"

text \<open>The byte codes that may continue elsewhere: jumps, calls and returns.\<close>

definition transfer_codes :: "nat list" where
  "transfer_codes = [B_JMP, B_JZ, B_JNZ, B_SWITCHI, B_SWITCHE, B_CALL, B_VCALL, B_ICALL, B_XCALL,
     B_RET, B_RET1, B_RETN]"

definition advances_all :: "(nat \<times> instr) list \<Rightarrow> bool" where
  "advances_all table \<longleftrightarrow> (\<forall>(op, f) \<in> set table. op \<notin> set transfer_codes \<longrightarrow> advances (operand_bytes op) f)"

named_theorems adv_defs \<open>definitions that the effect on the instruction pointer unfolds\<close>

declare continue_def [adv_defs] return_def [adv_defs] mem_valid_def [adv_defs] push_mem_def [adv_defs]
  store_top_def [adv_defs] set_mem_def [adv_defs] intInByteCode_def [adv_defs] longInByteCode_def [adv_defs]
  pushv_def [adv_defs] push_def [adv_defs] pop_def [adv_defs] peek_def [adv_defs]
  unary_def [adv_defs] binary_def [adv_defs] binary_trap_def [adv_defs] at_static_def [adv_defs]
  var_test_def [adv_defs] var_op_def [adv_defs] test_int_def [adv_defs] test_long_def [adv_defs]
  test_unsigned_def [adv_defs] make_variant_def [adv_defs] variant_value_def [adv_defs]
  at_auto_def [adv_defs] at_varg_def [adv_defs] at_params_def [adv_defs] load_object_def [adv_defs]
  store_object_def [adv_defs] store_variant_def [adv_defs] push_address_def [adv_defs]
  at_popped_def [adv_defs] Let_def [adv_defs] reserve_def [adv_defs] c_free_def [adv_defs] c_malloc_def [adv_defs]

lemmas operand_bytes_simps = operand_bytes_def variable_codes_def number_codes_def branch_codes_def object_codes_def transfer_codes_def

lemma advances_arith: "advances_all ops_arith"
  by (simp add: advances_all_def ops_arith_def operand_bytes_simps)
     (auto simp: advances_def adv_defs bind_eq_Some_conv split: if_splits prod.splits)

lemma advances_stack: "advances_all ops_stack"
  by (simp add: advances_all_def ops_stack_def operand_bytes_simps)
     (auto simp: advances_def adv_defs bind_eq_Some_conv split: if_splits prod.splits)

lemma advances_constants: "advances_all ops_constants"
  by (simp add: advances_all_def ops_constants_def operand_bytes_simps)
     (auto simp: advances_def adv_defs bind_eq_Some_conv split: if_splits prod.splits)

lemma advances_static: "advances_all ops_static"
  by (simp add: advances_all_def ops_static_def operand_bytes_simps)
     (auto simp: advances_def adv_defs bind_eq_Some_conv split: if_splits prod.splits)

lemma advances_heap: "advances_all (ops_heap os)"
  by (simp add: advances_all_def ops_heap_def operand_bytes_simps)
     (auto simp: advances_def adv_defs bind_eq_Some_conv split: if_splits prod.splits)

lemma advances_call: "advances_all (ops_call os ev)"
  by (simp add: advances_all_def ops_call_def operand_bytes_simps)
     (auto simp: advances_def adv_defs bind_eq_Some_conv split: if_splits prod.splits)

lemma advances_return: "advances_all ops_return"
  by (simp add: advances_all_def ops_return_def operand_bytes_simps)
     (auto simp: advances_def adv_defs bind_eq_Some_conv split: if_splits prod.splits)

lemma advances_variant: "advances_all ops_variant"
  by (simp add: advances_all_def ops_variant_def operand_bytes_simps)
     (auto simp: advances_def adv_defs bind_eq_Some_conv split: if_splits prod.splits)

lemma advances_compare: "advances_all ops_compare"
  by (simp add: advances_all_def ops_compare_def operand_bytes_simps)
     (auto simp: advances_def adv_defs bind_eq_Some_conv split: if_splits prod.splits)

lemma advances_convert: "advances_all ops_convert"
  by (simp add: advances_all_def ops_convert_def operand_bytes_simps)
     (auto simp: advances_def adv_defs bind_eq_Some_conv split: if_splits prod.splits)

lemma advances_branch: "advances_all ops_branch"
  by (simp add: advances_all_def ops_branch_def operand_bytes_simps)

lemma advances_auto: "advances_all ops_auto"
  by (simp add: advances_all_def ops_auto_def operand_bytes_simps)
     (auto simp: advances_def adv_defs bind_eq_Some_conv split: if_splits prod.splits)

lemma advances_params: "advances_all ops_params"
  by (simp add: advances_all_def ops_params_def operand_bytes_simps)
     (auto simp: advances_def adv_defs bind_eq_Some_conv split: if_splits prod.splits)

lemma advances_indirect: "advances_all ops_indirect"
  by (simp add: advances_all_def ops_indirect_def operand_bytes_simps)
     (auto simp: advances_def adv_defs bind_eq_Some_conv split: if_splits prod.splits)

lemmas advances_tables = advances_arith advances_stack advances_constants advances_static advances_heap
  advances_call advances_return advances_variant advances_compare advances_convert advances_branch
  advances_auto advances_params advances_indirect

lemma advances_all_append: "advances_all (xs @ ys) \<longleftrightarrow> advances_all xs \<and> advances_all ys"
  by (auto simp: advances_all_def)

lemma advances_switch_table: "advances_all (switch_table os ev)"
  by (simp add: switch_table_def advances_all_append advances_tables)

lemma exec_advances:
  assumes "op \<notin> set transfer_codes" "exec os ev op s = Some (Next s')"
  shows "active s' = (active s)\<lparr>fr_ip := ip s + operand_bytes op\<rparr>"
proof (cases "map_of (switch_table os ev) op")
  case None
  then show ?thesis using assms(2) by (simp add: exec_def return_def bind_eq_Some_conv)
next
  case (Some branch)
  then have "(op, branch) \<in> set (switch_table os ev)" by (rule map_of_SomeD)
  then have "advances (operand_bytes op) branch"
    using advances_switch_table [of os ev] assms(1) unfolding advances_all_def by blast
  then show ?thesis using assms(2) Some by (simp add: advances_def exec_def)
qed

lemma print_length:
  "print_int f g k s = Some (out, k') \<Longrightarrow> k' = k + 4"
  "print_two_ints f g k s = Some (out, k') \<Longrightarrow> k' = k + 8"
  by (auto simp: print_int_def print_two_ints_def bind_eq_Some_conv)

lemmas disasm_defs = disasm_numbers_def disasm_branches_def disasm_objects_def disasm_variables_def

lemma numbers_length:
  "\<forall>op \<in> set number_codes. (\<forall>out k'. disasm_numbers op k s = Some (out, k') \<longrightarrow> k' = k + operand_bytes op)"
  by (simp add: disasm_numbers_def operand_bytes_simps) (auto simp: bind_eq_Some_conv dest!: print_length)

lemma branches_length:
  "\<forall>op \<in> set branch_codes. op \<noteq> B_SWITCHI \<longrightarrow> op \<noteq> B_SWITCHE \<longrightarrow> (\<forall>out k'. disasm_branches op k s = Some (out, k') \<longrightarrow> k' = k + operand_bytes op)"
  by (simp add: disasm_branches_def operand_bytes_simps) (auto simp: bind_eq_Some_conv dest!: print_length)

lemma objects_length:
  "\<forall>op \<in> set object_codes. (\<forall>out k'. disasm_objects op k s = Some (out, k') \<longrightarrow> k' = k + operand_bytes op)"
  by (simp add: disasm_objects_def operand_bytes_simps) (auto simp: bind_eq_Some_conv dest!: print_length)

lemma variables_length:
  "\<forall>op \<in> set variable_codes. (\<forall>out k'. disasm_variables op k s = Some (out, k') \<longrightarrow> k' = k + operand_bytes op)"
  by (simp add: disasm_variables_def operand_bytes_simps) (auto simp: bind_eq_Some_conv dest!: print_length)

lemma no_operands:
  assumes "op \<notin> set (number_codes @ branch_codes @ object_codes @ variable_codes)"
  shows "operand_bytes op = 0" "disasm_operands op k s = Some ([], k)"
  using assms by (simp_all add: disasm_operands_def disasm_variables_def operand_bytes_simps)

lemma disasm_length:
  assumes "op \<noteq> B_SWITCHI" "op \<noteq> B_SWITCHE" "disasm_operands op k s = Some (out, k')"
  shows "k' = k + operand_bytes op"
proof (cases "op \<in> set (number_codes @ branch_codes @ object_codes @ variable_codes)")
  case False
  then show ?thesis using no_operands [OF False] assms(3) by simp
next
  case True
  consider "op \<in> set number_codes" | "op \<notin> set number_codes" "op \<in> set branch_codes"
    | "op \<notin> set number_codes" "op \<notin> set branch_codes" "op \<in> set object_codes"
    | "op \<notin> set number_codes" "op \<notin> set branch_codes" "op \<notin> set object_codes" "op \<in> set variable_codes"
    using True by fastforce
  then show ?thesis
  proof cases
    case 1
    then show ?thesis using assms(3) numbers_length unfolding disasm_operands_def by simp
  next
    case 2
    then show ?thesis using assms branches_length unfolding disasm_operands_def by simp
  next
    case 3
    then show ?thesis using assms(3) objects_length unfolding disasm_operands_def by simp
  next
    case 4
    then show ?thesis using assms(3) variables_length unfolding disasm_operands_def by simp
  qed
qed

text \<open>C37: the disassembler and the interpreter agree on where the next instruction starts: when an
  instruction that is no jump, call or return is executed, the interpreter goes on one byte after
  the last byte the disassembler stepped over, in the same function and frame.\<close>

theorem disassembler_follows:
  assumes "disassemble (ip s) s = Some (out, k)" "step os ev s = Some (Next s')"
    "mem s (code s + of_int32 (ip s)) = Some b" "unat b \<notin> set transfer_codes"
  shows "ip s' = k + 1 \<and> code s' = code s \<and> fp s' = fp s"
proof -
  have "exec os ev (unat b) (set_ip (ip s + 1) (s\<lparr>lastIp := ip s\<rparr>)) = Some (Next s')"
    using assms(2,3) by (simp add: step_def Let_def)
  from exec_advances [OF assms(4) this]
  have "active s' = (active s)\<lparr>fr_ip := ip s + 1 + operand_bytes (unat b)\<rparr>" by simp
  moreover obtain out' where "disasm_operands (unat b) (ip s) s = Some (out', k)"
    using assms(1,3) by (auto simp: disassemble_def Let_def bind_eq_Some_conv split: if_splits)
  then have "k = ip s + operand_bytes (unat b)"
    by (rule disasm_length [rotated 2]) (use assms(4) in \<open>auto simp: transfer_codes_def\<close>)
  ultimately show ?thesis by (simp add: add.commute add.left_commute)
qed

lemma disassembler_follows_witness:
  "\<exists>out s'. disassemble 0 (demo [16, 8, 0, 0, 0] [7, 9]) = Some (out, 4) \<and>
    step demo_os (\<lambda>i. Done False) (demo [16, 8, 0, 0, 0] [7, 9]) = Some (Next s') \<and> ip s' = 5"
proof -
  let ?s = "demo [16, 8, 0, 0, 0] [7, 9]"
  have op: "mem ?s (code ?s + of_int32 (ip ?s)) = Some 16"
    using demo_code(1) [of 0 1 "[16, 8, 0, 0, 0]" "[7, 9]"] by (simp add: demo_fields bind_eq_Some_conv)
  have i: "load32 (mem ?s) (code ?s + 1) = Some 8"
    using demo_int [of 1 "[16, 8, 0, 0, 0]" "[7, 9]"] by (simp add: demo_fields)
  have "\<exists>out. disassemble (ip ?s) ?s = Some (out, 4)"
    using op i by (simp add: disassemble_def disasm_operands_def disasm_numbers_def number_codes_def
        print_int_def int_operand_def demo_fields)
  moreover have "(B_POPN, \<lambda>s. do { (i, s) \<leftarrow> intInByteCode s; Some (Next (s\<lparr>sp := sp s + of_int32 i\<rparr>)) })
      \<in> set (switch_table demo_os (\<lambda>i. Done False))"
    by (simp add: switch_table_def ops_stack_def)
  then have "\<exists>s'. step demo_os (\<lambda>i. Done False) ?s = Some (Next s')"
    using op i by (simp add: step_def dispatch intInByteCode_def demo_fields)
  ultimately show ?thesis
    using disassembler_follows [OF _ _ op, of _ 4 demo_os "\<lambda>i. Done False"]
    by (fastforce simp: demo_fields transfer_codes_def)
qed

end
