(* ===== verification/Pxi_Files.thy ===== *)
theory Pxi_Files
  imports Prelude
begin

section \<open>Reading \<open>.pxi\<close> files: class \<open>Pxi\<close>\<close>

text \<open>
  Parasol/pxi.h and pxi.cc. A file opened for reading is its bytes and a position; \<open>fread\<close> of the C
  library returns the bytes there are, at most as many as asked for. The section readers that
  register themselves are arguments, together with the state \<open>'st\<close> they change.
\<close>

record stream =
  content :: "byte list"
  position :: nat

definition fread :: "nat \<Rightarrow> stream \<Rightarrow> byte list \<times> stream" where
  "fread n f =
     (let bs = take n (drop (position f) (content f))
      in (bs, f\<lparr>position := position f + length bs\<rparr>))"

text \<open>\<open>fseek\<close> to an absolute position fails for a negative one only.\<close>

definition fseek :: "int32 \<Rightarrow> stream \<Rightarrow> stream option" where
  "fseek offset f = (if sint offset < 0 then None else Some (f\<lparr>position := nat (sint offset)\<rparr>))"

text \<open>Fields of the structures read from a file, by their offset.\<close>

definition int_field :: "nat \<Rightarrow> byte list \<Rightarrow> int32" where
  "int_field k bs = ucast (from_bytes (take 4 (drop k bs)))"

definition short_field :: "nat \<Rightarrow> byte list \<Rightarrow> nat" where
  "short_field k bs = unat (from_bytes (take 2 (drop k bs)))"

definition long_field :: "nat \<Rightarrow> byte list \<Rightarrow> WORD" where
  "long_field k bs = from_bytes (take 8 (drop k bs))"

definition MAGIC_NUMBER :: int32 where
  "MAGIC_NUMBER = NOT 0x50584920"

definition CURRENT_VERSION :: nat where
  "CURRENT_VERSION = 1"

record PxiHeader =
  magic :: int32
  version :: nat
  sections :: nat

definition read_header :: "byte list \<Rightarrow> PxiHeader" where
  "read_header bs = \<lparr>magic = int_field 0 bs, version = short_field 4 bs, sections = short_field 6 bs\<rparr>"

record SectionEntry =
  sectionType :: nat
  se_offset :: WORD
  se_length :: WORD

definition read_entry :: "byte list \<Rightarrow> SectionEntry" where
  "read_entry bs = \<lparr>sectionType = unat (bs ! 0), se_offset = long_field 8 bs, se_length = long_field 16 bs\<rparr>"

fun read_entries :: "nat \<Rightarrow> byte list \<Rightarrow> SectionEntry list" where
  "read_entries 0 bs = []"
| "read_entries (Suc n) bs = read_entry (take 24 bs) # read_entries n (drop 24 bs)"

subsection \<open>The registry of section readers\<close>

type_synonym ('sec, 'st) reader = "stream \<Rightarrow> WORD \<Rightarrow> 'st \<Rightarrow> ('sec option \<times> 'st) option"
type_synonym ('sec, 'st) ReaderMap = "(nat \<times> ('sec, 'st) reader option) list"

definition registerSectionReader :: "nat \<Rightarrow> ('sec, 'st) reader option \<Rightarrow> ('sec, 'st) ReaderMap \<Rightarrow>
    bool \<times> ('sec, 'st) ReaderMap" where
  "registerSectionReader ty reader readerMap =
     (if list_ex (\<lambda>rm. fst rm = ty) readerMap then (False, readerMap)
      else (True, readerMap @ [(ty, reader)]))"

text \<open>The inner loop of the search: the first reader below \<open>bestPriority\<close> for the type of an entry;
  having found one at \<open>j\<close>, the loop ends because \<open>bestPriority\<close> is now \<open>j\<close>.\<close>

fun find_reader :: "nat \<Rightarrow> nat \<Rightarrow> nat \<Rightarrow> ('sec, 'st) ReaderMap \<Rightarrow> nat option" where
  "find_reader ty bestPriority j [] = None"
| "find_reader ty bestPriority j ((t, reader) # rms) =
     (if bestPriority \<le> j then None
      else if ty = t \<and> reader \<noteq> None then Some j
      else find_reader ty bestPriority (j + 1) rms)"

fun select_section :: "('sec, 'st) ReaderMap \<Rightarrow> SectionEntry list \<Rightarrow> nat \<Rightarrow> int \<Rightarrow> nat \<Rightarrow> int \<times> nat" where
  "select_section readerMap [] i best bestPriority = (best, bestPriority)"
| "select_section readerMap (e # es) i best bestPriority =
     (case find_reader (sectionType e) bestPriority 0 readerMap of
        None \<Rightarrow> select_section readerMap es (i + 1) best bestPriority
      | Some j \<Rightarrow> select_section readerMap es (i + 1) (int i) j)"

subsection \<open>Reading the file\<close>

text \<open>The messages with which \<open>Pxi::read\<close> gives up.\<close>

datatype pxi_error =
    No_file
  | No_header
  | Bad_magic
  | Zero_version
  | No_section_table
  | No_executable_section
  | No_seek int WORD
  | Reader_failed int

definition Pxi_read_sections :: "('sec, 'st) ReaderMap \<Rightarrow> stream \<Rightarrow> 'st \<Rightarrow> ((pxi_error + 'sec) \<times> 'st) option" where
  "Pxi_read_sections readerMap pxiFile st =
     (let (hs, pxiFile) = fread 8 pxiFile in
      if length hs \<noteq> 8 then Some (Inl No_header, st)
      else let header = read_header hs in
      if magic header \<noteq> MAGIC_NUMBER then Some (Inl Bad_magic, st)
      else if version header = 0 then Some (Inl Zero_version, st)
      else let (ts, pxiFile) = fread (24 * sections header) pxiFile in
      if length ts \<noteq> 24 * sections header then Some (Inl No_section_table, st)
      else
        let entries = read_entries (sections header) ts;
            (best, bestPriority) = select_section readerMap entries 0 (- 1) (length readerMap) in
        if best < 0 then Some (Inl No_executable_section, st)
        else
          let e = entries ! nat best in
          case fseek (ucast (se_offset e)) pxiFile of
            None \<Rightarrow> Some (Inl (No_seek best (se_offset e)), st)
          | Some pxiFile \<Rightarrow>
              (case snd (readerMap ! bestPriority) of
                 None \<Rightarrow> None
               | Some reader \<Rightarrow> do {
                   (section, st) \<leftarrow> reader pxiFile (se_length e) st;
                   Some (case section of None \<Rightarrow> Inl (Reader_failed best) | Some s \<Rightarrow> Inr s, st) }))"

text \<open>\<open>Pxi::read()\<close>: \<open>files\<close> are the bytes of the files that \<open>openBinaryFile\<close> opens.\<close>

definition Pxi_read :: "('sec, 'st) ReaderMap \<Rightarrow> (string \<rightharpoonup> byte list) \<Rightarrow> string \<Rightarrow> 'st \<Rightarrow>
    ((pxi_error + 'sec) \<times> 'st) option" where
  "Pxi_read readerMap files filename st =
     (case files filename of
        None \<Rightarrow> Some (Inl No_file, st)
      | Some bs \<Rightarrow> Pxi_read_sections readerMap \<lparr>content = bs, position = 0\<rparr> st)"

text \<open>\<open>Pxi::load\<close>: the section of the object it returns, or null.\<close>

definition Pxi_load :: "('sec, 'st) ReaderMap \<Rightarrow> (string \<rightharpoonup> byte list) \<Rightarrow> string \<Rightarrow> 'st \<Rightarrow> ('sec option \<times> 'st) option" where
  "Pxi_load readerMap files filename st = do {
     (r, st) \<leftarrow> Pxi_read readerMap files filename st;
     Some (case r of Inl e \<Rightarrow> None | Inr s \<Rightarrow> Some s, st) }"

subsection \<open>The section that is chosen\<close>

text \<open>The priority of a section type: the index of the first reader that accepts it.\<close>

definition priority :: "('sec, 'st) ReaderMap \<Rightarrow> nat \<Rightarrow> nat option" where
  "priority readerMap ty = find_reader ty (length readerMap) 0 readerMap"

lemma find_reader_range: "find_reader ty b j rms = Some k \<Longrightarrow> j \<le> k \<and> k < j + length rms"
proof (induction rms arbitrary: j)
  case (Cons rm rms)
  then show ?case by (cases rm) (auto split: if_splits dest!: Cons.IH)
qed simp

lemma find_reader_bound:
  "find_reader ty b j rms =
     (case find_reader ty (j + length rms) j rms of None \<Rightarrow> None | Some k \<Rightarrow> if k < b then Some k else None)"
proof (induction rms arbitrary: j)
  case (Cons rm rms)
  obtain t reader where rm: "rm = (t, reader)" by fastforce
  show ?case
  proof (cases "ty = t \<and> reader \<noteq> None")
    case True
    then show ?thesis by (simp add: rm)
  next
    case False
    have "k < b \<Longrightarrow> \<not> b \<le> j" if "find_reader ty (j + 1 + length rms) (j + 1) rms = Some k" for k
      using find_reader_range [OF that] by simp
    then show ?thesis
      using False Cons.IH [of "j + 1"] by (auto simp: rm split: option.splits)
  qed
qed simp

lemma find_reader_priority:
  "find_reader ty b 0 readerMap =
     (case priority readerMap ty of None \<Rightarrow> None | Some k \<Rightarrow> if k < b then Some k else None)"
  using find_reader_bound [of ty b 0 readerMap] by (simp add: priority_def)

lemma select_section_law:
  assumes "select_section readerMap es i best bp = (best', bp')"
  shows "(\<forall>e \<in> set es. \<forall>p. priority readerMap (sectionType e) = Some p \<longrightarrow> bp \<le> p) \<and> best' = best \<and> bp' = bp \<or>
    (\<exists>m < length es. best' = int (i + m) \<and> priority readerMap (sectionType (es ! m)) = Some bp' \<and> bp' < bp \<and>
      (\<forall>k < length es. \<forall>p. priority readerMap (sectionType (es ! k)) = Some p \<longrightarrow> bp' \<le> p \<and> (k < m \<longrightarrow> bp' < p)))"
  using assms
proof (induction es arbitrary: i best bp)
  case Nil
  then show ?case by simp
next
  case (Cons e es)
  show ?case
  proof (cases "find_reader (sectionType e) bp 0 readerMap")
    case None
    then have high: "priority readerMap (sectionType e) = Some p \<Longrightarrow> bp \<le> p" for p
      by (auto simp: find_reader_priority split: option.splits if_splits)
    from Cons.IH [of "i + 1" best bp] Cons.prems None
    consider "\<forall>e \<in> set es. \<forall>p. priority readerMap (sectionType e) = Some p \<longrightarrow> bp \<le> p" "best' = best" "bp' = bp"
      | m where "m < length es" "best' = int (i + 1 + m)" "priority readerMap (sectionType (es ! m)) = Some bp'" "bp' < bp"
          "\<forall>k < length es. \<forall>p. priority readerMap (sectionType (es ! k)) = Some p \<longrightarrow> bp' \<le> p \<and> (k < m \<longrightarrow> bp' < p)"
      by auto
    then show ?thesis
    proof cases
      case 1
      then show ?thesis using high by auto
    next
      case 2
      have "\<forall>k < length (e # es). \<forall>p. priority readerMap (sectionType ((e # es) ! k)) = Some p \<longrightarrow>
          bp' \<le> p \<and> (k < Suc m \<longrightarrow> bp' < p)"
      proof (intro allI impI)
        fix k p
        assume "k < length (e # es)" "priority readerMap (sectionType ((e # es) ! k)) = Some p"
        then show "bp' \<le> p \<and> (k < Suc m \<longrightarrow> bp' < p)"
          using 2(4,5) high [of p] by (cases k) auto
      qed
      then show ?thesis using 2(1-4) by (intro disjI2 exI [of _ "Suc m"]) simp
    qed
  next
    case (Some j)
    then have j: "priority readerMap (sectionType e) = Some j" "j < bp"
      by (auto simp: find_reader_priority split: option.splits if_splits)
    from Cons.IH [of "i + 1" "int i" j] Cons.prems Some
    consider "\<forall>e \<in> set es. \<forall>p. priority readerMap (sectionType e) = Some p \<longrightarrow> j \<le> p" "best' = int i" "bp' = j"
      | m where "m < length es" "best' = int (i + 1 + m)" "priority readerMap (sectionType (es ! m)) = Some bp'" "bp' < j"
          "\<forall>k < length es. \<forall>p. priority readerMap (sectionType (es ! k)) = Some p \<longrightarrow> bp' \<le> p \<and> (k < m \<longrightarrow> bp' < p)"
      by auto
    then show ?thesis
    proof cases
      case 1
      have "\<forall>k < length (e # es). \<forall>p. priority readerMap (sectionType ((e # es) ! k)) = Some p \<longrightarrow> bp' \<le> p"
      proof (intro allI impI)
        fix k p
        assume "k < length (e # es)" "priority readerMap (sectionType ((e # es) ! k)) = Some p"
        then show "bp' \<le> p" using 1 j by (cases k) auto
      qed
      then show ?thesis using 1(2,3) j by (intro disjI2 exI [of _ 0]) simp
    next
      case 2
      have "\<forall>k < length (e # es). \<forall>p. priority readerMap (sectionType ((e # es) ! k)) = Some p \<longrightarrow>
          bp' \<le> p \<and> (k < Suc m \<longrightarrow> bp' < p)"
      proof (intro allI impI)
        fix k p
        assume "k < length (e # es)" "priority readerMap (sectionType ((e # es) ! k)) = Some p"
        then show "bp' \<le> p \<and> (k < Suc m \<longrightarrow> bp' < p)"
          using 2(4,5) j by (cases k) auto
      qed
      then show ?thesis using 2(1-4) j(2) by (intro disjI2 exI [of _ "Suc m"]) simp
    qed
  qed
qed

text \<open>of the sections of a file, the one that is run is the first among those whose type has
  the earliest registered reader; there is none only if no section has a type with a reader.\<close>

theorem section_selected:
  assumes "select_section readerMap es 0 (- 1) (length readerMap) = (best, bestPriority)"
  shows "(best < 0 \<longleftrightarrow> (\<forall>e \<in> set es. priority readerMap (sectionType e) = None)) \<and>
    (0 \<le> best \<longrightarrow> nat best < length es \<and>
      priority readerMap (sectionType (es ! nat best)) = Some bestPriority \<and>
      (\<forall>k < length es. \<forall>p. priority readerMap (sectionType (es ! k)) = Some p \<longrightarrow>
         bestPriority \<le> p \<and> (k < nat best \<longrightarrow> bestPriority < p)))"
proof -
  have range: "priority readerMap ty = Some p \<Longrightarrow> p < length readerMap" for ty p
    using find_reader_range [of ty "length readerMap" 0 readerMap p] by (simp add: priority_def)
  from select_section_law [OF assms] show ?thesis
  proof (elim disjE)
    assume *: "(\<forall>e \<in> set es. \<forall>p. priority readerMap (sectionType e) = Some p \<longrightarrow> length readerMap \<le> p) \<and>
      best = - 1 \<and> bestPriority = length readerMap"
    then have "priority readerMap (sectionType e) = None" if "e \<in> set es" for e
      using range [of "sectionType e"] that not_less by (cases "priority readerMap (sectionType e)") auto
    then show ?thesis using * by simp
  next
    assume "\<exists>m < length es. best = int (0 + m) \<and> priority readerMap (sectionType (es ! m)) = Some bestPriority \<and>
      bestPriority < length readerMap \<and>
      (\<forall>k < length es. \<forall>p. priority readerMap (sectionType (es ! k)) = Some p \<longrightarrow>
        bestPriority \<le> p \<and> (k < m \<longrightarrow> bestPriority < p))"
    then obtain m where m: "m < length es" "best = int m" "priority readerMap (sectionType (es ! m)) = Some bestPriority"
      "\<forall>k < length es. \<forall>p. priority readerMap (sectionType (es ! k)) = Some p \<longrightarrow>
        bestPriority \<le> p \<and> (k < m \<longrightarrow> bestPriority < p)" by auto
    have "es ! m \<in> set es" using m(1) by simp
    then show ?thesis using m by (auto intro: bexI [of _ "es ! m"])
  qed
qed

definition two_readers :: "(nat, nat) ReaderMap" where
  "two_readers = [(3, Some (\<lambda>f n st. Some (None, st))), (2, Some (\<lambda>f n st. Some (None, st)))]"

lemma section_selected_witness:
  "select_section two_readers
     [\<lparr>sectionType = 2, se_offset = 8, se_length = 1\<rparr>, \<lparr>sectionType = 3, se_offset = 9, se_length = 1\<rparr>]
     0 (- 1) (length two_readers) = (1, 0) \<and>
   priority two_readers 3 = Some 0 \<and> priority two_readers 2 = Some 1"
proof -
  let ?es = "[\<lparr>sectionType = 2, se_offset = 8, se_length = 1\<rparr>, \<lparr>sectionType = 3, se_offset = 9, se_length = 1\<rparr>]"
  have s: "select_section two_readers ?es 0 (- 1) (length two_readers) = (1, 0)"
    by (simp add: two_readers_def)
  show ?thesis
    using section_selected [OF s] s by (simp add: priority_def two_readers_def)
qed

end
