(* ===== verification/Vectors.thy ===== *)
theory Vectors
  imports Prelude "HOL-Library.Multiset"
begin

section \<open>Vectors: \<open>template<class A> class vector\<close>\<close>

text \<open>
  common/vector.h: a growable array. \<open>elements\<close> are all allocated cells (\<open>None\<close> is the null
  pointer), of which the first \<open>elementCount\<close> are in use. Reading or writing a cell that is
  not allocated is \<open>None\<close>. Cells that \<open>new A[n]\<close> leaves unset hold the argument \<open>d\<close>.
\<close>

record 'a vec =
  elements :: "'a list option"
  elementCount :: int

definition cells :: "'a vec \<Rightarrow> 'a list" where
  "cells v = (case elements v of None \<Rightarrow> [] | Some cs \<Rightarrow> cs)"

definition vec_empty :: "'a vec" where
  "vec_empty = \<lparr>elements = None, elementCount = 0\<rparr>"

definition vec_transfer :: "'a list \<Rightarrow> 'a vec" where
  "vec_transfer data = \<lparr>elements = Some data, elementCount = int (length data)\<rparr>"

definition vec_clear :: "'a vec \<Rightarrow> 'a vec" where
  "vec_clear v = \<lparr>elements = None, elementCount = 0\<rparr>"

text \<open>\<open>deleteAll\<close>: the elements that are deleted, in order, and the empty vector.\<close>

definition vec_deleteAll :: "'a vec \<Rightarrow> 'a list \<times> 'a vec" where
  "vec_deleteAll v =
     (case elements v of
        None \<Rightarrow> ([], vec_clear v)
      | Some cs \<Rightarrow> (take (nat (elementCount v)) cs, vec_clear v))"

text \<open>\<open>reserved_size\<close> doubles a 32-bit \<open>int\<close>; the loop may not end, and \<open>None\<close> stands for that.\<close>

partial_function (option) reserved_loop :: "int \<Rightarrow> int32 \<Rightarrow> nat option" where
  "reserved_loop used alloc =
     (if sint alloc < used then reserved_loop used (push_bit 1 alloc) else Some (nat (sint alloc)))"

definition reserved_size :: "int \<Rightarrow> nat option" where
  "reserved_size len = reserved_loop len 0x10"

definition vec_resize :: "'a \<Rightarrow> int \<Rightarrow> 'a vec \<Rightarrow> 'a vec option" where
  "vec_resize d len v =
     (case elements v of
        Some cs \<Rightarrow>
          if len \<le> int (length cs) then Some (if len = 0 then vec_clear v else v\<lparr>elementCount := len\<rparr>)
          else do {
            n \<leftarrow> reserved_size len;
            if length cs = n then Some (v\<lparr>elementCount := len\<rparr>)
            else Some \<lparr>elements = Some (take (nat (elementCount v)) cs @ replicate (n - nat (elementCount v)) d),
                       elementCount = len\<rparr> }
      | None \<Rightarrow>
          if len = 0 then Some v
          else do {
            n \<leftarrow> reserved_size len;
            Some \<lparr>elements = Some (replicate n d), elementCount = len\<rparr> })"

definition vec_at :: "'a vec \<Rightarrow> int \<Rightarrow> 'a option" where
  "vec_at v i = (if 0 \<le> i \<and> nat i < length (cells v) then Some (cells v ! nat i) else None)"

definition vec_set :: "int \<Rightarrow> 'a \<Rightarrow> 'a vec \<Rightarrow> 'a vec option" where
  "vec_set i a v =
     (if 0 \<le> i \<and> nat i < length (cells v) then Some (v\<lparr>elements := Some ((cells v)[nat i := a])\<rparr>) else None)"

definition vec_push_back :: "'a \<Rightarrow> 'a \<Rightarrow> 'a vec \<Rightarrow> 'a vec option" where
  "vec_push_back d a v = do {
     v \<leftarrow> vec_resize d (elementCount v + 1) v;
     vec_set (elementCount v - 1) a v }"

definition vec_pop_back :: "'a \<Rightarrow> 'a vec \<Rightarrow> ('a \<times> 'a vec) option" where
  "vec_pop_back d v = do {
     a \<leftarrow> vec_at v (elementCount v - 1);
     v \<leftarrow> vec_resize d (elementCount v - 1) v;
     Some (a, v) }"

definition vec_peek_back :: "'a vec \<Rightarrow> 'a option" where
  "vec_peek_back v = vec_at v (elementCount v - 1)"

text \<open>The loops that shift elements: \<open>n\<close> copies from index \<open>j\<close> to \<open>j - k\<close> upwards, and from \<open>j - 1\<close>
  to \<open>j\<close> downwards.\<close>

fun shift_down :: "nat \<Rightarrow> int \<Rightarrow> int \<Rightarrow> 'a vec \<Rightarrow> 'a vec option" where
  "shift_down 0 j k v = Some v"
| "shift_down (Suc n) j k v = do {
     a \<leftarrow> vec_at v j;
     v \<leftarrow> vec_set (j - k) a v;
     shift_down n (j + 1) k v }"

fun shift_up :: "nat \<Rightarrow> int \<Rightarrow> 'a vec \<Rightarrow> 'a vec option" where
  "shift_up 0 j v = Some v"
| "shift_up (Suc n) j v = do {
     a \<leftarrow> vec_at v (j - 1);
     v \<leftarrow> vec_set j a v;
     shift_up n (j - 1) v }"

definition vec_remove :: "'a \<Rightarrow> int \<Rightarrow> int \<Rightarrow> 'a vec \<Rightarrow> 'a vec option" where
  "vec_remove d i cnt v =
     (if i < 0 \<or> elementCount v \<le> i then Some v
      else
        let cnt = (if elementCount v < i + cnt then elementCount v - i else cnt) in
        do {
          v \<leftarrow> shift_down (nat (elementCount v - (i + cnt))) (i + cnt) cnt v;
          vec_resize d (elementCount v - cnt) v })"

definition vec_insert :: "'a \<Rightarrow> int \<Rightarrow> 'a \<Rightarrow> 'a vec \<Rightarrow> 'a vec option" where
  "vec_insert d i a v =
     (if i < 0 \<or> elementCount v < i then Some v
      else do {
        v \<leftarrow> vec_resize d (elementCount v + 1) v;
        v \<leftarrow> shift_up (nat (elementCount v - 1 - i)) (elementCount v - 1) v;
        vec_set i a v })"

text \<open>\<open>find\<close> and \<open>contains\<close> look at the elements in use.\<close>

fun find_from :: "'a \<Rightarrow> int \<Rightarrow> 'a list \<Rightarrow> int" where
  "find_from a i [] = - 1"
| "find_from a i (x # xs) = (if x = a then i else find_from a (i + 1) xs)"

definition vlist :: "'a vec \<Rightarrow> 'a list" where
  "vlist v = take (nat (elementCount v)) (cells v)"

definition vec_find :: "'a \<Rightarrow> 'a vec \<Rightarrow> int" where
  "vec_find a v = find_from a 0 (vlist v)"

definition vec_contains :: "'a \<Rightarrow> 'a vec \<Rightarrow> bool" where
  "vec_contains a v = list_ex (\<lambda>x. a = x) (vlist v)"

definition vec_setAll :: "'a \<Rightarrow> 'a vec \<Rightarrow> 'a vec" where
  "vec_setAll a v =
     v\<lparr>elements := map_option (\<lambda>cs. replicate (nat (elementCount v)) a @ drop (nat (elementCount v)) cs) (elements v)\<rparr>"

text \<open>
  The quicksort. \<open>compare\<close> stands for the \<open>compare\<close> member of the elements; its \<open>int\<close> result is
  negated for a descending sort. The partition moves the elements in \<open>[min + 1, max)\<close> that come
  after the pivot to the end of the range and returns the index where its loop stops.
\<close>

definition relation :: "('a \<Rightarrow> 'a \<Rightarrow> int32) \<Rightarrow> bool \<Rightarrow> 'a \<Rightarrow> 'a \<Rightarrow> int32" where
  "relation cmp ascending p x = (if ascending then cmp p x else - cmp p x)"

function partition_from :: "('a \<Rightarrow> 'a \<Rightarrow> int32) \<Rightarrow> bool \<Rightarrow> 'a \<Rightarrow> int \<Rightarrow> int \<Rightarrow> 'a vec \<Rightarrow> (int \<times> 'a vec) option" where
  "partition_from cmp ascending pivot i greaterFillPoint v =
     (if i < greaterFillPoint then do {
        x \<leftarrow> vec_at v i;
        if sint (relation cmp ascending pivot x) < 0 then do {
          high \<leftarrow> vec_at v (greaterFillPoint - 1);
          v \<leftarrow> vec_set (greaterFillPoint - 1) x v;
          v \<leftarrow> vec_set i high v;
          partition_from cmp ascending pivot i (greaterFillPoint - 1) v }
        else do {
          v \<leftarrow> vec_set (i - 1) x v;
          partition_from cmp ascending pivot (i + 1) greaterFillPoint v } }
      else Some (i, v))"
  by auto
termination
  by (relation "measure (\<lambda>(cmp, ascending, pivot, i, g, v). nat (g - i))") auto

declare partition_from.simps [simp del]

lemma partition_from_stops:
  "partition_from cmp ascending pivot i g v = Some (j, v') \<Longrightarrow> i \<le> g \<Longrightarrow> i \<le> j \<and> j \<le> g"
proof (induction cmp ascending pivot i g v arbitrary: j v' rule: partition_from.induct)
  case (1 cmp ascending pivot i g v)
  have run: "(if i < g then do {
        x \<leftarrow> vec_at v i;
        if sint (relation cmp ascending pivot x) < 0 then do {
          high \<leftarrow> vec_at v (g - 1);
          v \<leftarrow> vec_set (g - 1) x v;
          v \<leftarrow> vec_set i high v;
          partition_from cmp ascending pivot i (g - 1) v }
        else do {
          v \<leftarrow> vec_set (i - 1) x v;
          partition_from cmp ascending pivot (i + 1) g v } }
      else Some (i, v)) = Some (j, v')"
    using "1.prems"(1) by (subst (asm) partition_from.simps)
  show ?case
  proof (cases "i < g")
    case False
    then show ?thesis using run "1.prems"(2) by simp
  next
    case i: True
    with run obtain x where x: "vec_at v i = Some x" by (auto simp: bind_eq_Some_conv)
    show ?thesis
    proof (cases "sint (relation cmp ascending pivot x) < 0")
      case True
      with run i x obtain high v1 v2 where "vec_at v (g - 1) = Some high" "vec_set (g - 1) x v = Some v1"
          "vec_set i high v1 = Some v2" "partition_from cmp ascending pivot i (g - 1) v2 = Some (j, v')"
        by (auto simp: bind_eq_Some_conv)
      from 1(1) [OF i x True this] i show ?thesis by simp
    next
      case False
      with run i x obtain v1 where "vec_set (i - 1) x v = Some v1"
          "partition_from cmp ascending pivot (i + 1) g v1 = Some (j, v')"
        by (auto simp: bind_eq_Some_conv)
      from 1(2) [OF i x False this] i show ?thesis by simp
    qed
  qed
qed

function sort_range :: "('a \<Rightarrow> 'a \<Rightarrow> int32) \<Rightarrow> bool \<Rightarrow> int \<Rightarrow> int \<Rightarrow> 'a vec \<Rightarrow> 'a vec option" where
  "sort_range cmp ascending mn mx v =
     (if mx \<le> mn then Some v
      else do {
        pivot \<leftarrow> vec_at v mn;
        (i, v) \<leftarrow> partition_from cmp ascending pivot (mn + 1) mx v;
        v \<leftarrow> vec_set (i - 1) pivot v;
        v \<leftarrow> sort_range cmp ascending mn (i - 1) v;
        sort_range cmp ascending i mx v })"
  by auto
termination
  by (relation "measure (\<lambda>(cmp, ascending, mn, mx, v). nat (mx - mn))")
     (auto dest: partition_from_stops)

declare sort_range.simps [simp del]

definition vec_sort :: "('a \<Rightarrow> 'a \<Rightarrow> int32) \<Rightarrow> bool \<Rightarrow> 'a vec \<Rightarrow> 'a vec option" where
  "vec_sort cmp ascending v = sort_range cmp ascending 0 (elementCount v) v"

text \<open>
  The binary searches; \<open>cmp\<close> is \<open>key.compare\<close>. \<open>binarySearch\<close> starts with \<open>max = a.size()\<close>, one past
  the last element. \<open>binarySearchClosestGreater\<close> carries the last \<open>mid\<close> and \<open>relation\<close>.
\<close>

function binarySearch_from :: "('a \<Rightarrow> int32) \<Rightarrow> 'a vec \<Rightarrow> int \<Rightarrow> int \<Rightarrow> int option" where
  "binarySearch_from cmp a mn mx =
     (if mn \<le> mx then
        let mid = (mx + mn) div 2 in do {
          x \<leftarrow> vec_at a mid;
          if cmp x = 0 then Some mid
          else if sint (cmp x) < 0 then binarySearch_from cmp a mn (mid - 1)
          else binarySearch_from cmp a (mid + 1) mx }
      else Some (- 1))"
  by auto
termination
  by (relation "measure (\<lambda>(cmp, a, mn, mx). nat (mx + 1 - mn))") auto

declare binarySearch_from.simps [simp del]

definition binarySearch :: "('a \<Rightarrow> int32) \<Rightarrow> 'a vec \<Rightarrow> int option" where
  "binarySearch cmp a = binarySearch_from cmp a 0 (elementCount a)"

function closestGreater_from :: "('a \<Rightarrow> int32) \<Rightarrow> 'a vec \<Rightarrow> int \<Rightarrow> int32 \<Rightarrow> int \<Rightarrow> int \<Rightarrow> int option" where
  "closestGreater_from cmp a mid rel mn mx =
     (if mn \<le> mx then
        let mid = (mx + mn) div 2 in do {
          x \<leftarrow> vec_at a mid;
          if cmp x = 0 then Some mid
          else if sint (cmp x) < 0 then closestGreater_from cmp a mid (cmp x) mn (mid - 1)
          else closestGreater_from cmp a mid (cmp x) (mid + 1) mx }
      else Some (if 0 < sint rel then mid + 1 else mid))"
  by auto
termination
  by (relation "measure (\<lambda>(cmp, a, mid, rel, mn, mx). nat (mx + 1 - mn))") auto

declare closestGreater_from.simps [simp del]

definition binarySearchClosestGreater :: "('a \<Rightarrow> int32) \<Rightarrow> 'a vec \<Rightarrow> int option" where
  "binarySearchClosestGreater cmp a = closestGreater_from cmp a (- 1) (- 1) 0 (elementCount a - 1)"

subsection \<open>Growth\<close>

definition vec_ok :: "'a vec \<Rightarrow> bool" where
  "vec_ok v \<longleftrightarrow> 0 \<le> elementCount v \<and> nat (elementCount v) \<le> length (cells v)"

lemma length_vlist: "vec_ok v \<Longrightarrow> length (vlist v) = nat (elementCount v)"
  by (simp add: vlist_def vec_ok_def)

lemma sint_power: "k < 31 \<Longrightarrow> sint (2 ^ k :: int32) = 2 ^ k"
proof -
  assume k: "k < 31"
  then have "(2 :: int) ^ k < 2 ^ 31" by (intro power_strict_increasing) simp_all
  moreover have "- (2 ^ 31) \<le> (2 :: int) ^ k" by (rule order_trans [of _ 0]) simp_all
  ultimately have "signed_take_bit 31 ((2 :: int) ^ k) = 2 ^ k" by (intro signed_take_bit_int_eq_self)
  moreover have "sint (word_of_int (2 ^ k) :: int32) = signed_take_bit 31 (2 ^ k)"
    by (simp only: signed_of_int) simp
  moreover have "(2 ^ k :: int32) = word_of_int (2 ^ k)" by simp
  ultimately show ?thesis by (simp only:)
qed

lemma reserved_loop_law:
  assumes "used \<le> 2 ^ 30" "k \<le> 30"
  shows "\<exists>n. reserved_loop used (2 ^ k) = Some n \<and> used \<le> int n \<and> 2 ^ k \<le> n \<and> n \<le> 2 ^ 30"
  using assms(2)
proof (induction "30 - k" arbitrary: k)
  case 0
  then have "k = 30" by simp
  then show ?case
    using assms(1) sint_power [of 30] by (subst reserved_loop.simps) simp
next
  case (Suc j)
  then have k: "k < 30" "j = 30 - Suc k" by simp_all
  show ?case
  proof (cases "sint (2 ^ k :: int32) < used")
    case True
    have "push_bit 1 (2 ^ k) = (2 ^ Suc k :: int32)" by (simp add: push_bit_eq_mult)
    moreover obtain n where "reserved_loop used (2 ^ Suc k) = Some n" "used \<le> int n" "2 ^ Suc k \<le> n" "n \<le> 2 ^ 30"
      using Suc.hyps(1) [of "Suc k"] k by (metis Suc_leI)
    moreover have "(2 :: nat) ^ k \<le> 2 ^ Suc k" by simp
    ultimately show ?thesis
      using True by (subst reserved_loop.simps) (auto simp: mult.commute intro: order_trans)
  next
    case False
    have "(2 :: nat) ^ k \<le> 2 ^ 30" using k(1) by (intro power_increasing) simp_all
    then show ?thesis
      using False sint_power [of k] k by (subst reserved_loop.simps) (simp add: nat_power_eq)
  qed
qed

lemma reserved_size_law:
  assumes "len \<le> 2 ^ 30"
  shows "\<exists>n. reserved_size len = Some n \<and> len \<le> int n \<and> 16 \<le> n"
proof -
  have "\<exists>n. reserved_loop len (2 ^ 4) = Some n \<and> len \<le> int n \<and> 2 ^ 4 \<le> n \<and> n \<le> 2 ^ 30"
    by (rule reserved_loop_law [OF assms]) simp
  then show ?thesis by (auto simp: reserved_size_def)
qed

lemma resize_law:
  assumes "vec_ok v" "0 \<le> len" "len \<le> 2 ^ 30"
  shows "\<exists>v'. vec_resize d len v = Some v' \<and> vec_ok v' \<and> elementCount v' = len \<and>
    take (nat (elementCount v)) (vlist v') = take (nat len) (vlist v)"
proof -
  obtain n where n: "reserved_size len = Some n" "len \<le> int n" "16 \<le> n"
    using reserved_size_law [OF assms(3)] by blast
  show ?thesis
  proof (cases "elements v")
    case None
    then have "elementCount v = 0" using assms(1) by (simp add: vec_ok_def cells_def)
    then show ?thesis
      using None n assms by (auto simp: vec_resize_def vec_ok_def cells_def vlist_def)
  next
    case (Some cs)
    have c: "0 \<le> elementCount v" "nat (elementCount v) \<le> length cs"
      using assms(1) Some by (simp_all add: vec_ok_def cells_def)
    show ?thesis
    proof (cases "len \<le> int (length cs)")
      case True
      then show ?thesis
        using Some c assms(2)
        by (auto simp: vec_resize_def vec_ok_def cells_def vlist_def vec_clear_def min_def)
    next
      case False
      then have "elementCount v < len" using c by linarith
      then show ?thesis
        using Some c n False
        by (auto simp: vec_resize_def vec_ok_def cells_def vlist_def min_def)
    qed
  qed
qed

lemma vlist_set:
  assumes "vec_ok v" "0 \<le> i" "i < elementCount v"
  shows "\<exists>v'. vec_set i a v = Some v' \<and> vec_ok v' \<and> elementCount v' = elementCount v \<and>
    vlist v' = (vlist v)[nat i := a]"
  using assms by (auto simp: vec_set_def vec_ok_def cells_def vlist_def take_update_swap split: option.splits)

lemma vlist_at:
  assumes "vec_ok v" "0 \<le> i" "i < elementCount v"
  shows "vec_at v i = Some (vlist v ! nat i)"
  using assms by (auto simp: vec_at_def vec_ok_def vlist_def)

lemma push_back_law:
  assumes "vec_ok v" "elementCount v < 2 ^ 30"
  shows "\<exists>v'. vec_push_back d a v = Some v' \<and> vec_ok v' \<and> vlist v' = vlist v @ [a]"
proof -
  have nn: "0 \<le> elementCount v" using assms(1) by (simp add: vec_ok_def)
  obtain v1 where v1: "vec_resize d (elementCount v + 1) v = Some v1" "vec_ok v1"
      "elementCount v1 = elementCount v + 1"
      "take (nat (elementCount v)) (vlist v1) = take (nat (elementCount v + 1)) (vlist v)"
    using resize_law [OF assms(1), of "elementCount v + 1" d] nn assms(2) by auto
  obtain v2 where v2: "vec_set (elementCount v) a v1 = Some v2" "vec_ok v2" "vlist v2 = (vlist v1)[nat (elementCount v) := a]"
    using vlist_set [OF v1(2), of "elementCount v" a] v1(3) nn by auto
  have len: "length (vlist v) = nat (elementCount v)" "length (vlist v1) = Suc (nat (elementCount v))"
    using length_vlist [OF assms(1)] length_vlist [OF v1(2)] v1(3) nn by simp_all
  then have "take (nat (elementCount v)) (vlist v1) = vlist v" using v1(4) nn by simp
  then have "vlist v2 = vlist v @ [a]"
    using v2(3) len by (simp add: upd_conv_take_nth_drop)
  then show ?thesis using v1 v2 by (simp add: vec_push_back_def)
qed

lemma pop_back_law:
  assumes "vec_ok v" "vlist v = xs @ [a]" "elementCount v \<le> 2 ^ 30"
  shows "\<exists>v'. vec_pop_back d v = Some (a, v') \<and> vec_ok v' \<and> vlist v' = xs"
proof -
  have n: "elementCount v = int (length xs) + 1"
    using length_vlist [OF assms(1)] assms(1,2) by (simp add: vec_ok_def)
  obtain v1 where v1: "vec_resize d (elementCount v - 1) v = Some v1" "vec_ok v1"
      "elementCount v1 = elementCount v - 1"
      "take (nat (elementCount v)) (vlist v1) = take (nat (elementCount v - 1)) (vlist v)"
    using resize_law [OF assms(1), of "elementCount v - 1" d] n assms(3) by auto
  have "vlist v1 = xs"
    using v1(4) length_vlist [OF v1(2)] v1(3) n assms(2) by simp
  moreover have "vec_at v (elementCount v - 1) = Some a"
    using vlist_at [OF assms(1), of "elementCount v - 1"] n assms(2) by simp
  ultimately show ?thesis using v1 by (simp add: vec_pop_back_def)
qed

lemma shift_down_law:
  assumes "vec_ok v" "k \<le> j" "int (j + n) \<le> elementCount v"
  shows "\<exists>v'. shift_down n (int j) (int k) v = Some v' \<and> vec_ok v' \<and> elementCount v' = elementCount v \<and>
    (\<forall>p < nat (elementCount v). vlist v' ! p = (if j - k \<le> p \<and> p < j - k + n then vlist v ! (p + k) else vlist v ! p))"
  using assms
proof (induction n arbitrary: v j)
  case 0
  then show ?case by simp
next
  case (Suc n)
  have at: "vec_at v (int j) = Some (vlist v ! j)"
    using vlist_at [OF Suc.prems(1), of "int j"] Suc.prems(3) by simp
  obtain v1 where v1: "vec_set (int j - int k) (vlist v ! j) v = Some v1" "vec_ok v1"
      "elementCount v1 = elementCount v" "vlist v1 = (vlist v)[j - k := vlist v ! j]"
    using vlist_set [OF Suc.prems(1), of "int j - int k" "vlist v ! j"] Suc.prems(2,3)
    by (auto simp: nat_diff_distrib)
  obtain v2 where v2: "shift_down n (int (Suc j)) (int k) v1 = Some v2" "vec_ok v2"
      "elementCount v2 = elementCount v1"
      "\<forall>p < nat (elementCount v1). vlist v2 ! p =
         (if Suc j - k \<le> p \<and> p < Suc j - k + n then vlist v1 ! (p + k) else vlist v1 ! p)"
    using Suc.IH [OF v1(2), of "Suc j"] Suc.prems(2,3) v1(3) by auto
  have len: "length (vlist v) = nat (elementCount v)" by (rule length_vlist [OF Suc.prems(1)])
  define m where "m = j - k"
  have m: "j = m + k" "Suc j - k = Suc m" "j - k = m" using Suc.prems(2) by (simp_all add: m_def)
  have "vlist v2 ! p = (if m \<le> p \<and> p < m + Suc n then vlist v ! (p + k) else vlist v ! p)"
    if p: "p < nat (elementCount v)" for p
  proof -
    have 2: "vlist v2 ! p = (if Suc m \<le> p \<and> p < Suc m + n then vlist v1 ! (p + k) else vlist v1 ! p)"
      using v2(4) p v1(3) unfolding m by simp
    have 1: "vlist v1 = (vlist v)[m := vlist v ! (m + k)]" using v1(4) unfolding m by simp
    have "m < length (vlist v)" using p len Suc.prems(3) m(1) by simp
    then show ?thesis
      unfolding 2 1 by (cases "p = m") simp_all
  qed
  moreover have "int j + 1 = int (Suc j)" by simp
  ultimately show ?case
    unfolding m(3) shift_down.simps at bind.bind_lunit v1(1) using v2(1-3) v1(3) by (simp add: add.commute)
qed

lemma shift_up_law:
  assumes "vec_ok v" "n \<le> j" "int j < elementCount v"
  shows "\<exists>v'. shift_up n (int j) v = Some v' \<and> vec_ok v' \<and> elementCount v' = elementCount v \<and>
    (\<forall>p < nat (elementCount v). vlist v' ! p = (if j - n < p \<and> p \<le> j then vlist v ! (p - 1) else vlist v ! p))"
  using assms
proof (induction n arbitrary: v j)
  case 0
  then show ?case by auto
next
  case (Suc n)
  have at: "vec_at v (int j - 1) = Some (vlist v ! (j - 1))"
    using vlist_at [OF Suc.prems(1), of "int j - 1"] Suc.prems(2,3) by (simp add: nat_diff_distrib)
  obtain v1 where v1: "vec_set (int j) (vlist v ! (j - 1)) v = Some v1" "vec_ok v1"
      "elementCount v1 = elementCount v" "vlist v1 = (vlist v)[j := vlist v ! (j - 1)]"
    using vlist_set [OF Suc.prems(1), of "int j" "vlist v ! (j - 1)"] Suc.prems(2,3) by auto
  have jm: "int j - 1 = int (j - 1)" using Suc.prems(2) by simp
  obtain v2 where v2: "shift_up n (int j - 1) v1 = Some v2" "vec_ok v2"
      "elementCount v2 = elementCount v1"
      "\<forall>p < nat (elementCount v1). vlist v2 ! p =
         (if j - 1 - n < p \<and> p \<le> j - 1 then vlist v1 ! (p - 1) else vlist v1 ! p)"
    unfolding jm using Suc.IH [OF v1(2), of "j - 1"] Suc.prems(2,3) v1(3) by fastforce
  have len: "length (vlist v) = nat (elementCount v)" by (rule length_vlist [OF Suc.prems(1)])
  define m where "m = j - Suc n"
  have m: "j = Suc (m + n)" "j - 1 - n = m" "j - Suc n = m" using Suc.prems(2) by (simp_all add: m_def)
  have "vlist v2 ! p = (if m < p \<and> p \<le> j then vlist v ! (p - 1) else vlist v ! p)"
    if p: "p < nat (elementCount v)" for p
  proof -
    have 2: "vlist v2 ! p = (if m < p \<and> p \<le> j - 1 then vlist v1 ! (p - 1) else vlist v1 ! p)"
      using v2(4) p v1(3) unfolding m(2) by simp
    have "j < length (vlist v)" using len Suc.prems(3) by simp
    then show ?thesis
      unfolding 2 v1(4) using m(1) by (cases "p = j") auto
  qed
  then show ?case
    unfolding m(3) shift_up.simps at bind.bind_lunit v1(1) using v2(1-3) v1(3) by simp
qed

lemma remove_law:
  assumes ok: "vec_ok v" and i: "int i < elementCount v" and size: "elementCount v \<le> 2 ^ 30"
  shows "\<exists>v'. vec_remove d (int i) (int k) v = Some v' \<and> vec_ok v' \<and>
    vlist v' = take i (vlist v) @ drop (i + k) (vlist v)"
proof -
  define c where "c = min k (nat (elementCount v) - i)"
  have n: "0 \<le> elementCount v" using ok by (simp add: vec_ok_def)
  have cnt: "(if elementCount v < int i + int k then elementCount v - int i else int k) = int c"
    using i n by (auto simp: c_def min_def)
  have c: "int (i + c + (nat (elementCount v) - (i + c))) = elementCount v" "i + c \<le> nat (elementCount v)"
    using i n by (auto simp: c_def)
  obtain v1 where v1: "shift_down (nat (elementCount v) - (i + c)) (int (i + c)) (int c) v = Some v1" "vec_ok v1"
      "elementCount v1 = elementCount v"
      "\<forall>p < nat (elementCount v). vlist v1 ! p =
        (if i + c - c \<le> p \<and> p < i + c - c + (nat (elementCount v) - (i + c)) then vlist v ! (p + c) else vlist v ! p)"
    using shift_down_law [OF ok, of c "i + c" "nat (elementCount v) - (i + c)"] c(1) by auto
  obtain v2 where v2: "vec_resize d (elementCount v - int c) v1 = Some v2" "vec_ok v2"
      "elementCount v2 = elementCount v - int c"
      "take (nat (elementCount v1)) (vlist v2) = take (nat (elementCount v - int c)) (vlist v1)"
    using resize_law [OF v1(2), of "elementCount v - int c" d] c size by auto
  have len: "length (vlist v) = nat (elementCount v)" "length (vlist v1) = nat (elementCount v)"
    "length (vlist v2) = nat (elementCount v) - c"
    using length_vlist [OF ok] length_vlist [OF v1(2)] length_vlist [OF v2(2)] v1(3) v2(3) by (simp_all add: nat_diff_distrib')
  have e: "vlist v2 = take (nat (elementCount v) - c) (vlist v1)"
    using v2(4) len v1(3) c by (simp add: nat_diff_distrib')
  have "vlist v2 = take i (vlist v) @ drop (i + c) (vlist v)"
    unfolding e using len c v1(4) by (intro nth_equalityI) (auto simp: nth_append add.commute)
  moreover have "drop (i + c) (vlist v) = drop (i + k) (vlist v)"
    using len i n by (auto simp: c_def min_def)
  moreover have "nat (elementCount v - (int i + int c)) = nat (elementCount v) - (i + c)" using n by linarith
  ultimately show ?thesis
    using v1(1,3) v2(1-3) cnt i by (simp add: vec_remove_def Let_def)
qed

lemma vec_insert_law:
  assumes ok: "vec_ok v" and i: "int i \<le> elementCount v" and size: "elementCount v < 2 ^ 30"
  shows "\<exists>v'. vec_insert d (int i) a v = Some v' \<and> vec_ok v' \<and>
    vlist v' = take i (vlist v) @ a # drop i (vlist v)"
proof -
  define n where "n = nat (elementCount v)"
  have n: "elementCount v = int n" "i \<le> n" using i ok by (auto simp: n_def vec_ok_def)
  have len: "length (vlist v) = n" using length_vlist [OF ok] n by simp
  obtain v1 where v1: "vec_resize d (elementCount v + 1) v = Some v1" "vec_ok v1" "elementCount v1 = int (Suc n)"
      "take n (vlist v1) = take (Suc n) (vlist v)"
    using resize_law [OF ok, of "elementCount v + 1" d] n size by (auto simp: nat_add_distrib)
  obtain v2 where v2: "shift_up (n - i) (int n) v1 = Some v2" "vec_ok v2" "elementCount v2 = int (Suc n)"
      "\<forall>p < nat (int (Suc n)). vlist v2 ! p = (if n - (n - i) < p \<and> p \<le> n then vlist v1 ! (p - 1) else vlist v1 ! p)"
    using shift_up_law [OF v1(2), of "n - i" n] v1(3) by auto
  obtain v3 where v3: "vec_set (int i) a v2 = Some v3" "vec_ok v3" "vlist v3 = (vlist v2)[i := a]"
    using vlist_set [OF v2(2), of "int i" a] v2(3) n by auto
  have l2: "length (vlist v2) = Suc n" using length_vlist [OF v2(2)] v2(3) by simp
  have l1: "vlist v1 ! p = vlist v ! p" if "p < n" for p
    using that arg_cong [OF v1(4), of "\<lambda>l. l ! p"] len by simp
  have "vlist v3 = take i (vlist v) @ a # drop i (vlist v)"
  proof (rule nth_equalityI)
    show "length (vlist v3) = length (take i (vlist v) @ a # drop i (vlist v))"
      using v3(3) l2 len n by simp
    fix p assume "p < length (vlist v3)"
    then have p: "p < Suc n" using v3(3) l2 by simp
    then have e: "vlist v2 ! p = (if i < p then vlist v1 ! (p - 1) else vlist v1 ! p)"
      using v2(4) n by simp
    show "vlist v3 ! p = (take i (vlist v) @ a # drop i (vlist v)) ! p"
      using p n len l2 e l1 by (cases p i rule: linorder_cases) (auto simp: v3(3) nth_append nth_Cons')
  qed
  moreover have "nat (int (Suc n) - 1 - int i) = n - i" "int (Suc n) - 1 = int n" by simp_all
  ultimately show ?thesis
    using v1 v2 v3 n by (simp add: vec_insert_def)
qed

subsection \<open>Sorting\<close>

lemma fill_commute: "k \<noteq> a \<Longrightarrow> k \<noteq> b \<Longrightarrow> xs[a := x, b := y, k := z] = xs[k := z, a := x, b := y]"
  by (metis list_update_swap)

text \<open>What one run of the partition loop leaves: the cells with the pivot filled in are a
  permutation, nothing moves outside the range, and the two parts are on their side of the pivot.\<close>

lemma partition_law:
  assumes "vec_ok v" "1 \<le> i" "i \<le> g" "int g \<le> elementCount v"
  shows "\<exists>j v'. partition_from cmp ascending pivot (int i) (int g) v = Some (int j, v') \<and> vec_ok v' \<and>
    elementCount v' = elementCount v \<and> i \<le> j \<and> j \<le> g \<and>
    mset ((vlist v')[j - 1 := pivot]) = mset ((vlist v)[i - 1 := pivot]) \<and>
    (\<forall>p. p < i - 1 \<or> g \<le> p \<longrightarrow> vlist v' ! p = vlist v ! p) \<and>
    (\<forall>p. i - 1 \<le> p \<and> p < j - 1 \<longrightarrow> \<not> sint (relation cmp ascending pivot (vlist v' ! p)) < 0) \<and>
    (\<forall>p. j \<le> p \<and> p < g \<longrightarrow> sint (relation cmp ascending pivot (vlist v' ! p)) < 0)"
  using assms
proof (induction "g - i" arbitrary: i g v)
  case 0
  then show ?case by (subst partition_from.simps) auto
next
  case (Suc n)
  let ?xs = "vlist v"
  have len: "length ?xs = nat (elementCount v)" by (rule length_vlist [OF Suc.prems(1)])
  have b: "i < g" "g \<le> length ?xs" "g - 1 < length ?xs" using Suc.hyps(2) Suc.prems(4) len by auto
  have i2: "0 \<le> int i" "int i < elementCount v" using b(1) Suc.prems(4) by auto
  have i: "vec_at v (int i) = Some (?xs ! i)"
    using vlist_at [OF Suc.prems(1), of "int i"] b len by simp
  show ?case
  proof (cases "sint (relation cmp ascending pivot (?xs ! i)) < 0")
    case True
    have g1: "int g - 1 = int (g - 1)" using b by simp
    have g2: "0 \<le> int (g - 1)" "int (g - 1) < elementCount v" using b Suc.prems(4) by auto
    have hi: "vec_at v (int (g - 1)) = Some (?xs ! (g - 1))"
      using vlist_at [OF Suc.prems(1), of "int (g - 1)"] b len by (simp add: nat_diff_distrib)
    obtain v1 where v1: "vec_set (int (g - 1)) (?xs ! i) v = Some v1" "vec_ok v1" "elementCount v1 = elementCount v"
        "vlist v1 = ?xs[g - 1 := ?xs ! i]"
      using vlist_set [OF Suc.prems(1) g2, of "?xs ! i", unfolded nat_int] by blast
    obtain v2 where v2: "vec_set (int i) (?xs ! (g - 1)) v1 = Some v2" "vec_ok v2" "elementCount v2 = elementCount v"
        "vlist v2 = ?xs[g - 1 := ?xs ! i, i := ?xs ! (g - 1)]"
      using vlist_set [OF v1(2), of "int i" "?xs ! (g - 1)"] i2 v1(3,4) by auto
    have ih: "n = g - 1 - i" "i \<le> g - 1" "int (g - 1) \<le> elementCount v2"
      using Suc.hyps(2) b g2 v2(3) by auto
    obtain j v' where IH: "partition_from cmp ascending pivot (int i) (int (g - 1)) v2 = Some (int j, v')" "vec_ok v'"
        "elementCount v' = elementCount v" "i \<le> j" "j \<le> g - 1"
        "mset ((vlist v')[j - 1 := pivot]) = mset ((vlist v2)[i - 1 := pivot])"
        "\<forall>p. p < i - 1 \<or> g - 1 \<le> p \<longrightarrow> vlist v' ! p = vlist v2 ! p"
        "\<forall>p. i - 1 \<le> p \<and> p < j - 1 \<longrightarrow> \<not> sint (relation cmp ascending pivot (vlist v' ! p)) < 0"
        "\<forall>p. j \<le> p \<and> p < g - 1 \<longrightarrow> sint (relation cmp ascending pivot (vlist v' ! p)) < 0"
      using Suc.hyps(1) [OF ih(1) v2(2) Suc.prems(2) ih(2,3), unfolded v2(3)] by (elim exE conjE) (rule that)
    have run: "partition_from cmp ascending pivot (int i) (int g) v = Some (int j, v')"
    proof -
      have "int i < int g" using b by simp
      then show ?thesis
        using i True hi v1(1) v2(1) IH(1) by (subst partition_from.simps) (simp only: g1 bind.bind_lunit if_True Let_def)
    qed
    have "(vlist v2)[i - 1 := pivot] = ?xs[i - 1 := pivot, g - 1 := ?xs[i - 1 := pivot] ! i, i := ?xs[i - 1 := pivot] ! (g - 1)]"
      unfolding v2(4) using b Suc.prems(2) fill_commute [of "i - 1" "g - 1" i ?xs] by simp
    then have perm: "mset ((vlist v')[j - 1 := pivot]) = mset (?xs[i - 1 := pivot])"
      using IH(6) b mset_swap [of i "?xs[i - 1 := pivot]" "g - 1"] by simp
    have same: "vlist v' ! p = ?xs ! p" if "p < i - 1 \<or> g \<le> p" for p
    proof -
      have p: "p \<noteq> i" "p \<noteq> g - 1" "p < i - 1 \<or> g - 1 \<le> p" using that b by auto
      then have "vlist v' ! p = vlist v2 ! p" using IH(7) by blast
      then show ?thesis using v2(4) p(1,2) by simp
    qed
    have "vlist v' ! (g - 1) = vlist v2 ! (g - 1)" using IH(7) by blast
    then have "vlist v' ! (g - 1) = ?xs ! i"
      using v2(4) b by (cases "i = g - 1") simp_all
    then have high: "sint (relation cmp ascending pivot (vlist v' ! p)) < 0" if "j \<le> p" "p < g" for p
      using that IH(9) True by (cases "p = g - 1") auto
    have "j \<le> g" using IH(5) by simp
    with run IH(2-4,8) perm same high show ?thesis by blast
  next
    case False
    have i1: "int i - 1 = int (i - 1)" using Suc.prems(2) by simp
    have i3: "0 \<le> int (i - 1)" "int (i - 1) < elementCount v" using i2 by auto
    obtain v1 where v1: "vec_set (int (i - 1)) (?xs ! i) v = Some v1" "vec_ok v1" "elementCount v1 = elementCount v"
        "vlist v1 = ?xs[i - 1 := ?xs ! i]"
      using vlist_set [OF Suc.prems(1) i3, of "?xs ! i", unfolded nat_int] by blast
    have ih: "n = g - Suc i" "1 \<le> Suc i" "Suc i \<le> g" "int g \<le> elementCount v1"
      using Suc.hyps(2) b Suc.prems(4) v1(3) by auto
    obtain j v' where IH: "partition_from cmp ascending pivot (int (Suc i)) (int g) v1 = Some (int j, v')" "vec_ok v'"
        "elementCount v' = elementCount v" "Suc i \<le> j" "j \<le> g"
        "mset ((vlist v')[j - 1 := pivot]) = mset ((vlist v1)[i := pivot])"
        "\<forall>p. p < i \<or> g \<le> p \<longrightarrow> vlist v' ! p = vlist v1 ! p"
        "\<forall>p. i \<le> p \<and> p < j - 1 \<longrightarrow> \<not> sint (relation cmp ascending pivot (vlist v' ! p)) < 0"
        "\<forall>p. j \<le> p \<and> p < g \<longrightarrow> sint (relation cmp ascending pivot (vlist v' ! p)) < 0"
      using Suc.hyps(1) [OF ih(1) v1(2) ih(2-4), unfolded v1(3) diff_Suc_1] by (elim exE conjE) (rule that)
    have run: "partition_from cmp ascending pivot (int i) (int g) v = Some (int j, v')"
      using i False v1(1) IH(1) b by (subst partition_from.simps) (simp add: i1 add.commute)
    let ?ys = "?xs[i - 1 := pivot]"
    have "(vlist v1)[i := pivot] = ?ys[i - 1 := ?ys ! i, i := ?ys ! (i - 1)]"
      unfolding v1(4) using b Suc.prems(2) by simp
    then have perm: "mset ((vlist v')[j - 1 := pivot]) = mset ?ys"
      using IH(6) b mset_swap [of i ?ys "i - 1"] by simp
    have same: "vlist v' ! p = ?xs ! p" if "p < i - 1 \<or> g \<le> p" for p
    proof -
      have p: "p \<noteq> i - 1" "p < i \<or> g \<le> p" using that b by auto
      then have "vlist v' ! p = vlist v1 ! p" using IH(7) by blast
      then show ?thesis using v1(4) p(1) by simp
    qed
    have "vlist v' ! (i - 1) = vlist v1 ! (i - 1)" using IH(7) Suc.prems(2) by simp
    then have "vlist v' ! (i - 1) = ?xs ! i"
      using v1(4) b Suc.prems(2) by simp
    then have low: "\<not> sint (relation cmp ascending pivot (vlist v' ! p)) < 0" if "i - 1 \<le> p" "p < j - 1" for p
      using that IH(8) False by (cases "p = i - 1") auto
    have "i \<le> j" using IH(4) by simp
    with run IH(2,3,5,9) perm same low show ?thesis by blast
  qed
qed

text \<open>A permutation that moves nothing outside a range permutes the range.\<close>

lemma segment_perm:
  assumes m: "mset ys = mset xs" and same: "\<forall>p. p < l \<or> h \<le> p \<longrightarrow> ys ! p = xs ! p"
    and lh: "l \<le> h" "h \<le> length xs" and P: "\<And>p. l \<le> p \<Longrightarrow> p < h \<Longrightarrow> P (xs ! p)" and q: "l \<le> q" "q < h"
  shows "P (ys ! q)"
proof -
  have len: "length ys = length xs" using m by (rule mset_eq_length)
  have split: "zs = take l zs @ take (h - l) (drop l zs) @ drop h zs" for zs :: "'a list"
    using lh(1) by (metis append_take_drop_id drop_drop le_add_diff_inverse2)
  have "take l ys = take l xs" using same len by (intro nth_equalityI) auto
  moreover have "drop h ys = drop h xs" using same len by (intro nth_equalityI) auto
  ultimately have "mset (take (h - l) (drop l ys)) = mset (take (h - l) (drop l xs))"
    using m split [of xs] split [of ys] by (metis mset_append add_left_cancel add_right_cancel)
  then have e: "set (take (h - l) (drop l ys)) = set (take (h - l) (drop l xs))" by (rule mset_eq_setD)
  have "ys ! q = take (h - l) (drop l ys) ! (q - l)" using q lh len by simp
  moreover have "q - l < length (take (h - l) (drop l ys))" using q lh len by simp
  ultimately have "ys ! q \<in> set (take (h - l) (drop l xs))" using e nth_mem by metis
  then obtain k where "k < h - l" "ys ! q = xs ! (l + k)" using lh by (auto simp: in_set_conv_nth)
  then show ?thesis using P [of "l + k"] by simp
qed

text \<open>
  What the sort needs from \<open>compare\<close>: exchanging the arguments exchanges the sign, being less is
  transitive, and the result is never the one \<open>int\<close> whose negation overflows.
\<close>

locale comparer =
  fixes cmp :: "'a \<Rightarrow> 'a \<Rightarrow> int32"
  assumes sign: "sint (cmp a b) < 0 \<longleftrightarrow> 0 < sint (cmp b a)"
    and less_trans: "sint (cmp a b) < 0 \<Longrightarrow> sint (cmp b c) < 0 \<Longrightarrow> sint (cmp a c) < 0"
    and negatable: "sint (cmp a b) \<noteq> - (2 ^ 31)"
begin

definition precedes :: "bool \<Rightarrow> 'a \<Rightarrow> 'a \<Rightarrow> bool" where
  "precedes ascending a b \<longleftrightarrow> (if ascending then sint (cmp a b) < 0 else sint (cmp b a) < 0)"

lemma relation_precedes: "sint (relation cmp ascending a b) < 0 \<longleftrightarrow> precedes ascending a b"
proof -
  have "- (2 ^ 31) < sint (cmp a b)" "sint (cmp a b) < 2 ^ 31"
    using negatable [of a b] sint_range_size [of "cmp a b"] by (auto simp: word_size)
  then have "sint (- cmp a b) = - sint (cmp a b)"
    by (simp add: sint_word_minus signed_take_bit_int_eq_self)
  then show ?thesis by (simp add: relation_def precedes_def sign [of b a])
qed

lemma precedes_trans: "precedes asc a b \<Longrightarrow> precedes asc b c \<Longrightarrow> precedes asc a c"
  by (auto simp: precedes_def intro: less_trans split: if_splits)

lemma precedes_asym: "precedes asc a b \<Longrightarrow> \<not> precedes asc b a"
  using sign by (fastforce simp: precedes_def split: if_splits)

lemma sort_range_law:
  assumes "vec_ok v" "l \<le> h" "int h \<le> elementCount v"
  shows "\<exists>v'. sort_range cmp asc (int l) (int h) v = Some v' \<and> vec_ok v' \<and> elementCount v' = elementCount v \<and>
    mset (vlist v') = mset (vlist v) \<and> (\<forall>p. p < l \<or> h \<le> p \<longrightarrow> vlist v' ! p = vlist v ! p) \<and>
    (\<forall>p q. l \<le> p \<and> p < q \<and> q < h \<longrightarrow> \<not> precedes asc (vlist v' ! q) (vlist v' ! p))"
  using assms
proof (induction "h - l" arbitrary: l h v rule: less_induct)
  case less
  show ?case
  proof (cases "l = h")
    case True
    then show ?thesis using less.prems by (subst sort_range.simps) auto
  next
    case False
    let ?xs = "vlist v"
    have lh: "l < h" using False less.prems(2) by simp
    have len: "length ?xs = nat (elementCount v)" by (rule length_vlist [OF less.prems(1)])
    define pivot where "pivot = ?xs ! l"
    have at: "vec_at v (int l) = Some pivot"
      using vlist_at [OF less.prems(1), of "int l"] lh less.prems(3) by (simp add: pivot_def)
    obtain j v1 where part: "partition_from cmp asc pivot (int (Suc l)) (int h) v = Some (int j, v1)" "vec_ok v1"
        "elementCount v1 = elementCount v" "Suc l \<le> j" "j \<le> h"
        "mset ((vlist v1)[j - 1 := pivot]) = mset (?xs[Suc l - 1 := pivot])"
        "\<forall>p. p < Suc l - 1 \<or> h \<le> p \<longrightarrow> vlist v1 ! p = ?xs ! p"
        "\<forall>p. Suc l - 1 \<le> p \<and> p < j - 1 \<longrightarrow> \<not> precedes asc pivot (vlist v1 ! p)"
        "\<forall>p. j \<le> p \<and> p < h \<longrightarrow> precedes asc pivot (vlist v1 ! p)"
      using partition_law [OF less.prems(1), of "Suc l" h cmp asc pivot] lh less.prems(3)
      unfolding relation_precedes by auto
    have j1: "int j - 1 = int (j - 1)" and lj: "l \<le> j - 1" "j - 1 < h" using part(4,5) by auto
    have j2: "j - 1 - l < h - l" "h - j < h - l" using lj part(4) by linarith+
    obtain v2 where v2: "vec_set (int (j - 1)) pivot v1 = Some v2" "vec_ok v2" "elementCount v2 = elementCount v"
        "vlist v2 = (vlist v1)[j - 1 := pivot]"
      using vlist_set [OF part(2), of "int (j - 1)" pivot] part(3) lj less.prems(3) by auto
    have len2: "length (vlist v2) = nat (elementCount v)" using length_vlist [OF v2(2)] v2(3) by simp
    have len1: "length (vlist v1) = nat (elementCount v)" using length_vlist [OF part(2)] part(3) by simp
    have m2: "mset (vlist v2) = mset ?xs" using part(6) v2(4) by (simp add: pivot_def)
    have s2: "vlist v2 ! p = ?xs ! p" if "p < l \<or> h \<le> p" for p
      using that part(7) v2(4) lj by auto
    have mid2: "vlist v2 ! (j - 1) = pivot" using v2(4) lj len1 less.prems(3) by simp
    have low2: "\<not> precedes asc pivot (vlist v2 ! p)" if "l \<le> p" "p < j - 1" for p
      using that part(8) v2(4) by simp
    have high2: "precedes asc pivot (vlist v2 ! p)" if "j \<le> p" "p < h" for p
      using that part(4,9) v2(4) by simp
    obtain v3 where v3: "sort_range cmp asc (int l) (int (j - 1)) v2 = Some v3" "vec_ok v3" "elementCount v3 = elementCount v"
        "mset (vlist v3) = mset (vlist v2)" "\<forall>p. p < l \<or> j - 1 \<le> p \<longrightarrow> vlist v3 ! p = vlist v2 ! p"
        "\<forall>p q. l \<le> p \<and> p < q \<and> q < j - 1 \<longrightarrow> \<not> precedes asc (vlist v3 ! q) (vlist v3 ! p)"
      using less.hyps [OF j2(1) v2(2) lj(1)] v2(3) lj less.prems(3) by force
    obtain v4 where v4: "sort_range cmp asc (int j) (int h) v3 = Some v4" "vec_ok v4" "elementCount v4 = elementCount v"
        "mset (vlist v4) = mset (vlist v3)" "\<forall>p. p < j \<or> h \<le> p \<longrightarrow> vlist v4 ! p = vlist v3 ! p"
        "\<forall>p q. j \<le> p \<and> p < q \<and> q < h \<longrightarrow> \<not> precedes asc (vlist v4 ! q) (vlist v4 ! p)"
      using less.hyps [OF j2(2) v3(2) part(5)] v3(3) less.prems(3) by force
    have len3: "length (vlist v3) = nat (elementCount v)" using length_vlist [OF v3(2)] v3(3) by simp
    have low: "\<not> precedes asc pivot (vlist v4 ! p)" if "l \<le> p" "p < j - 1" for p
      using segment_perm [OF v3(4,5) lj(1) _ _ that, of "\<lambda>x. \<not> precedes asc pivot x"] low2 that v4(5) lj len2 less.prems(3)
      by auto
    have "precedes asc pivot (vlist v3 ! p)" if "j \<le> p" "p < h" for p
      using high2 [OF that] v3(5) that by simp
    then have high: "precedes asc pivot (vlist v4 ! p)" if "j \<le> p" "p < h" for p
      using segment_perm [OF v4(4,5) part(5) _ _ that, of "precedes asc pivot"] len3 less.prems(3) by auto
    have mid: "vlist v4 ! (j - 1) = pivot" using mid2 v3(5) v4(5) part(4) by simp
    have sorted: "\<not> precedes asc (vlist v4 ! q) (vlist v4 ! p)" if pq: "l \<le> p" "p < q" "q < h" for p q
    proof (cases "q < j")
      case True
      then show ?thesis
        using pq v3(6) v4(5) low [of p] mid by (cases "q = j - 1") auto
    next
      case False
      consider "p < j - 1" | "p = j - 1" | "j \<le> p" by linarith
      then show ?thesis
      proof cases
        case 1
        then show ?thesis using low [of p] high [of q] pq False precedes_trans by auto
      next
        case 2
        then show ?thesis using high [of q] pq False mid precedes_asym by auto
      next
        case 3
        then show ?thesis using v4(6) pq by blast
      qed
    qed
    have same: "vlist v4 ! p = ?xs ! p" if "p < l \<or> h \<le> p" for p
      using that v4(5) v3(5) s2 [OF that] lj part(4,5) by auto
    have "sort_range cmp asc (int l) (int h) v = Some v4"
      using at part(1) v2(1) v3(1) v4(1) lh by (subst sort_range.simps) (simp add: j1 add.commute)
    moreover have "mset (vlist v4) = mset ?xs" using v4(4) v3(4) m2 by simp
    ultimately show ?thesis using v4(2,3) same sorted by blast
  qed
qed

lemma sort_law:
  assumes "vec_ok v"
  shows "\<exists>v'. vec_sort cmp asc v = Some v' \<and> vec_ok v' \<and> mset (vlist v') = mset (vlist v) \<and>
    sorted_wrt (\<lambda>a b. \<not> precedes asc b a) (vlist v')"
proof -
  have "elementCount v = int (nat (elementCount v))" using assms by (simp add: vec_ok_def)
  then obtain v' where "vec_sort cmp asc v = Some v'" "vec_ok v'" "elementCount v' = elementCount v"
      "mset (vlist v') = mset (vlist v)"
      "\<forall>p q. 0 \<le> p \<and> p < q \<and> q < nat (elementCount v) \<longrightarrow> \<not> precedes asc (vlist v' ! q) (vlist v' ! p)"
    using sort_range_law [OF assms, of 0 "nat (elementCount v)" asc] by (auto simp: vec_sort_def)
  then show ?thesis
    by (auto simp: sorted_wrt_iff_nth_less length_vlist)
qed

end

subsection \<open>Searching a sorted vector\<close>

text \<open>The vector is sorted for the key: what the key is less than comes last, what it is greater
  than comes first.\<close>

definition sorted_for :: "('a \<Rightarrow> int32) \<Rightarrow> 'a list \<Rightarrow> bool" where
  "sorted_for cmp xs \<longleftrightarrow>
     sorted_wrt (\<lambda>x y. (0 < sint (cmp y) \<longrightarrow> 0 < sint (cmp x)) \<and> (sint (cmp x) < 0 \<longrightarrow> sint (cmp y) < 0)) xs"

text \<open>What the search returns: \<open>-1\<close> for the empty vector, the index of an equal element if there is
  one, else the index of the first element the key is less than (the size if there is none).\<close>

definition closest :: "('a \<Rightarrow> int32) \<Rightarrow> 'a list \<Rightarrow> int \<Rightarrow> bool" where
  "closest cmp xs r \<longleftrightarrow>
     0 \<le> r \<and> nat r \<le> length xs \<and> (\<forall>p < nat r. 0 \<le> sint (cmp (xs ! p))) \<and>
     (\<forall>p < length xs. nat r \<le> p \<longrightarrow> sint (cmp (xs ! p)) \<le> 0) \<and>
     ((\<exists>x \<in> set xs. cmp x = 0) \<longrightarrow> nat r < length xs \<and> cmp (xs ! nat r) = 0)"

lemma sorted_for_nth:
  assumes "sorted_for cmp xs" "p < q" "q < length xs"
  shows "0 < sint (cmp (xs ! q)) \<Longrightarrow> 0 < sint (cmp (xs ! p))"
    and "sint (cmp (xs ! p)) < 0 \<Longrightarrow> sint (cmp (xs ! q)) < 0"
    and "sint (cmp (xs ! q)) = 0 \<Longrightarrow> 0 \<le> sint (cmp (xs ! p))"
    and "sint (cmp (xs ! p)) = 0 \<Longrightarrow> sint (cmp (xs ! q)) \<le> 0"
  using sorted_wrt_nth_less [OF assms(1) [unfolded sorted_for_def] assms(2,3)] by auto

lemma closestGreater_law:
  assumes "vec_ok a" "sorted_for cmp (vlist a)" "0 \<le> mn" "mn \<le> mx + 1" "mx < elementCount a"
    "\<forall>p. p < nat mn \<longrightarrow> 0 < sint (cmp (vlist a ! p))"
    "\<forall>p. nat (mx + 1) \<le> p \<and> p < length (vlist a) \<longrightarrow> sint (cmp (vlist a ! p)) < 0"
    "mx < mn \<Longrightarrow> (if 0 < sint rel then mid + 1 else mid) = mn"
  shows "\<exists>r. closestGreater_from cmp a mid rel mn mx = Some r \<and> closest cmp (vlist a) r"
  using assms
proof (induction "nat (mx + 1 - mn)" arbitrary: mid rel mn mx rule: less_induct)
  case less
  have len: "length (vlist a) = nat (elementCount a)" by (rule length_vlist [OF less.prems(1)])
  show ?case
  proof (cases "mn \<le> mx")
    case False
    then have e: "mn = mx + 1" using less.prems(4) by simp
    have low: "0 < sint (cmp (vlist a ! p))" if "p < nat mn" for p using less.prems(6) that by blast
    have high: "sint (cmp (vlist a ! p)) < 0" if "nat mn \<le> p" "p < length (vlist a)" for p
      using less.prems(7) that e by blast
    have "cmp (vlist a ! p) \<noteq> 0" if "p < length (vlist a)" for p
    proof (cases "p < nat mn")
      case True
      then show ?thesis using low [OF True] by auto
    next
      case False
      then show ?thesis using high [of p] that by auto
    qed
    then have none: "\<not> (\<exists>x \<in> set (vlist a). cmp x = 0)" by (auto simp: in_set_conv_nth)
    have "nat mn \<le> length (vlist a)" using e less.prems(5) len by simp
    then have "closest cmp (vlist a) mn"
      unfolding closest_def using less.prems(3) low high none by (simp add: less_imp_le)
    then show ?thesis
      using False less.prems(8) by (subst closestGreater_from.simps) simp
  next
    case True
    define m where "m = (mx + mn) div 2"
    have m: "mn \<le> m" "m \<le> mx" "0 \<le> m" using True less.prems(3) by (auto simp: m_def)
    have bound: "nat m < length (vlist a)" using m less.prems(5) len by simp
    have at: "vec_at a m = Some (vlist a ! nat m)"
      using vlist_at [OF less.prems(1), of m] m less.prems(5) by simp
    let ?c = "cmp (vlist a ! nat m)"
    consider "?c = 0" | "sint ?c < 0" | "0 < sint ?c"
      by (metis linorder_neqE_linordered_idom sint_0 signed_word_eqI)
    then show ?thesis
    proof cases
      case 1
      have "sint (cmp (vlist a ! p)) \<le> 0" if "nat m \<le> p" "p < length (vlist a)" for p
        using sorted_for_nth(4) [OF less.prems(2), of "nat m" p] that 1 by (cases "p = nat m") auto
      moreover have "0 \<le> sint (cmp (vlist a ! p))" if "p < nat m" for p
        using sorted_for_nth(3) [OF less.prems(2) that bound] 1 by simp
      ultimately have "closest cmp (vlist a) m"
        unfolding closest_def using bound m 1 by simp
      then show ?thesis
        using True at 1 by (subst closestGreater_from.simps) (simp add: m_def)
    next
      case 2
      have "\<exists>r. closestGreater_from cmp a m ?c mn (m - 1) = Some r \<and> closest cmp (vlist a) r"
      proof (rule less.hyps)
        show "nat (m - 1 + 1 - mn) < nat (mx + 1 - mn)" using m by simp
        show "\<forall>p. nat (m - 1 + 1) \<le> p \<and> p < length (vlist a) \<longrightarrow> sint (cmp (vlist a ! p)) < 0"
          using 2 sorted_for_nth(2) [OF less.prems(2), of "nat m"] by (auto simp: le_less)
        show "m - 1 < mn \<Longrightarrow> (if 0 < sint ?c then m + 1 else m) = mn" using 2 m by simp
      qed (use less.prems m in simp_all)
      then show ?thesis
        using True at 2 by (subst closestGreater_from.simps) (auto simp: m_def [symmetric] Let_def)
    next
      case 3
      have "\<exists>r. closestGreater_from cmp a m ?c (m + 1) mx = Some r \<and> closest cmp (vlist a) r"
      proof (rule less.hyps)
        show "nat (mx + 1 - (m + 1)) < nat (mx + 1 - mn)" using m by simp
        show "\<forall>p. p < nat (m + 1) \<longrightarrow> 0 < sint (cmp (vlist a ! p))"
        proof (intro allI impI)
          fix p assume "p < nat (m + 1)"
          then have "p = nat m \<or> p < nat m" using m by linarith
          then show "0 < sint (cmp (vlist a ! p))"
            using 3 sorted_for_nth(1) [OF less.prems(2) _ bound] by auto
        qed
        show "mx < m + 1 \<Longrightarrow> (if 0 < sint ?c then m + 1 else m) = m + 1" using 3 by simp
      qed (use less.prems m in simp_all)
      then show ?thesis
        using True at 3 by (subst closestGreater_from.simps) (auto simp: m_def [symmetric] Let_def)
    qed
  qed
qed

subsection \<open>The vector as a list\<close>

text \<open>The demonstration vector holds the list \<open>xs\<close> in exactly allocated cells.\<close>

lemma transfer_ok: "vec_ok (vec_transfer xs)" "vlist (vec_transfer xs) = xs"
    "elementCount (vec_transfer xs) = int (length xs)"
  by (simp_all add: vec_transfer_def vec_ok_def vlist_def cells_def)

text \<open>C40: Inserting into a vector of fewer than \<open>2 ^ 30\<close> elements at an index up to its size never
  leaves the allocated cells, keeps the vector well formed and puts the element between the first
  \<open>i\<close> elements and the rest; removing \<open>k\<close> elements from an index inside the vector drops exactly the
  elements \<open>i\<close> to \<open>i + k - 1\<close> (those that exist), while \<open>i + k\<close> is an int.\<close>

theorem vector_insert_remove:
  assumes "vec_ok v" "elementCount v < 2 ^ 30"
  shows "(int i \<le> elementCount v \<longrightarrow> (\<exists>v'. vec_insert d (int i) a v = Some v' \<and> vec_ok v' \<and>
      vlist v' = take i (vlist v) @ a # drop i (vlist v))) \<and>
    (int i < elementCount v \<and> int i + int k < 2 ^ 31 \<longrightarrow> (\<exists>v'. vec_remove d (int i) (int k) v = Some v' \<and> vec_ok v' \<and>
      vlist v' = take i (vlist v) @ drop (i + k) (vlist v)))"
  using vec_insert_law [OF assms(1) _ assms(2)] remove_law [OF assms(1)] assms(2) by simp

lemma vector_insert_remove_witness:
  "(\<exists>v'. vec_insert 0 1 7 (vec_transfer [1, 2, 3 :: int]) = Some v' \<and> vlist v' = [1, 7, 2, 3]) \<and>
    (\<exists>v'. vec_remove 0 1 1 (vec_transfer [1, 2, 3 :: int]) = Some v' \<and> vlist v' = [1, 3])"
  using vector_insert_remove [of "vec_transfer [1, 2, 3 :: int]" 1 0 7 1]
  by (auto simp: transfer_ok)

text \<open>\<open>push_back\<close> appends in place or grows the allocation, and \<open>pop_back\<close> undoes it: it returns
  the element pushed last and leaves the elements there were.\<close>

theorem vector_push_pop:
  assumes "vec_ok v" "elementCount v < 2 ^ 30"
  shows "\<exists>v1 v2. vec_push_back d a v = Some v1 \<and> vlist v1 = vlist v @ [a] \<and>
    vec_pop_back d v1 = Some (a, v2) \<and> vec_ok v2 \<and> vlist v2 = vlist v"
proof -
  obtain v1 where v1: "vec_push_back d a v = Some v1" "vec_ok v1" "vlist v1 = vlist v @ [a]"
    using push_back_law [OF assms] by blast
  have "elementCount v1 = elementCount v + 1"
    using length_vlist [OF v1(2)] length_vlist [OF assms(1)] v1(2,3) assms(1) unfolding vec_ok_def by auto
  then obtain v2 where "vec_pop_back d v1 = Some (a, v2)" "vec_ok v2" "vlist v2 = vlist v"
    using pop_back_law [OF v1(2,3)] assms(2) by auto
  with v1 show ?thesis by blast
qed

lemma vector_push_pop_witness:
  "\<exists>v1 v2. vec_push_back 0 (4 :: int) (vec_transfer [1, 2, 3]) = Some v1 \<and> vlist v1 = [1, 2, 3, 4] \<and>
    vec_pop_back 0 v1 = Some (4, v2) \<and> vlist v2 = [1, 2, 3]"
  using vector_push_pop [of "vec_transfer [1, 2, 3 :: int]" 0 4] by (auto simp: transfer_ok)

text \<open>on a vector sorted for the key, \<open>binarySearchClosestGreater\<close> ends, reads only elements, and
  returns -1 for the empty vector, an index whose element equals the key if there is one, and
  otherwise the index of the first element greater than the key (the size if there is none).\<close>

theorem closest_greater_found:
  assumes "vec_ok a" "sorted_for cmp (vlist a)"
  shows "\<exists>r. binarySearchClosestGreater cmp a = Some r \<and>
    (if vlist a = [] then r = - 1 else closest cmp (vlist a) r)"
proof (cases "elementCount a = 0")
  case True
  then have "vlist a = []" by (simp add: vlist_def)
  then show ?thesis
    using True by (simp add: binarySearchClosestGreater_def closestGreater_from.simps)
next
  case False
  then have "0 < elementCount a" using assms(1) by (simp add: vec_ok_def)
  moreover from this have "vlist a \<noteq> []" using length_vlist [OF assms(1)] by auto
  ultimately show ?thesis
    using closestGreater_law [OF assms, of 0 "elementCount a - 1" "- 1" "- 1"] length_vlist [OF assms(1)]
    by (auto simp: binarySearchClosestGreater_def)
qed

lemma closest_greater_found_witness:
  "\<exists>r. binarySearchClosestGreater (\<lambda>x :: int32. 5 - x) (vec_transfer [1, 3, 7]) = Some r \<and>
    closest (\<lambda>x. 5 - x) [1, 3, 7] r"
  using closest_greater_found [of "vec_transfer [1, 3, 7 :: int32]" "\<lambda>x. 5 - x"]
  by (simp add: transfer_ok sorted_for_def)

text \<open>\<open>binarySearch\<close> starts with \<open>max\<close> one past the last element: in a vector with no room to
  spare, a search for a key greater than every element reads the cell after the last one, and so
  does any search of an empty vector.\<close>

theorem binary_search_reads_past_end:
  assumes "0 < sint (cmp a)"
  shows "binarySearch cmp vec_empty = None \<and> binarySearch cmp (vec_transfer [a]) = None \<and>
    binarySearchClosestGreater cmp (vec_transfer [a]) = Some 1"
proof -
  have "cmp a \<noteq> 0" using assms by auto
  then show ?thesis
    using assms by (simp add: binarySearch_def binarySearchClosestGreater_def vec_empty_def vec_transfer_def
        binarySearch_from.simps closestGreater_from.simps vec_at_def cells_def Let_def)
qed

lemma binary_search_reads_past_end_witness:
  "binarySearch (\<lambda>x :: int32. 5 - x) (vec_transfer [1]) = None"
  using binary_search_reads_past_end [of "\<lambda>x :: int32. 5 - x" 1] by simp

end
