(* ===== verification/Sections.thy ===== *)
theory Sections
  imports Interp Pxi_Files Vectors
begin

section \<open>Byte-code sections: loading and running a program\<close>

text \<open>
  \<open>class ByteCodeSection\<close> (runtime.h, runtime.cc). The constructor reads the object table, the image
  and the relocations of a section, and turns offsets into addresses. The process it runs in is its
  memory and the blocks \<open>malloc\<close> handed out. \<open>None\<close> is a fault: a write outside a buffer, an index
  outside the object table, an unmapped address.
\<close>

record process =
  p_mem :: memory
  p_heap :: "WORD \<rightharpoonup> nat"

definition process_malloc :: "allocator \<Rightarrow> nat \<Rightarrow> process \<Rightarrow> WORD \<times> process" where
  "process_malloc os n pr =
     (let p = os_malloc os (p_mem pr) (p_heap pr) n in
      if p = 0 then (0, pr)
      else (p, pr\<lparr>p_mem := add_block (p_mem pr) p n (os_junk os), p_heap := (p_heap pr)(p \<mapsto> n)\<rparr>))"

record ByteCodeSectionHeader =
  entryPoint :: int32
  objectCount :: int32
  relocationCount :: int32

definition read_section_header :: "byte list \<Rightarrow> ByteCodeSectionHeader" where
  "read_section_header bs =
     \<lparr>entryPoint = int_field 0 bs, objectCount = int_field 4 bs, relocationCount = int_field 8 bs\<rparr>"

record ByteCodeRelocation =
  relocObject :: int32
  relocOffset :: int32
  reference :: int32
  rel_offset :: int32

definition read_relocation :: "byte list \<Rightarrow> ByteCodeRelocation" where
  "read_relocation bs =
     \<lparr>relocObject = int_field 0 bs, relocOffset = int_field 4 bs, reference = int_field 8 bs,
      rel_offset = int_field 12 bs\<rparr>"

fun read_ints :: "nat \<Rightarrow> byte list \<Rightarrow> int32 list" where
  "read_ints 0 bs = []"
| "read_ints (Suc n) bs = int_field 0 bs # read_ints n (drop 4 bs)"

fun read_relocations :: "nat \<Rightarrow> byte list \<Rightarrow> ByteCodeRelocation list" where
  "read_relocations 0 bs = []"
| "read_relocations (Suc n) bs = read_relocation bs # read_relocations n (drop 16 bs)"

text \<open>\<open>ByteCodeSection\<close>; \<open>sec_image\<close> is 0 when the constructor gave up.\<close>

record byte_code_section =
  sec_objects :: "WORD list"
  sec_image :: WORD
  sec_entryPoint :: int32

datatype section_error =
    No_section_header
  | Zero_image
  | No_object_table
  | No_image
  | No_relocations

subsection \<open>Loading\<close>

text \<open>
  A table of \<open>count\<close> records of \<open>size\<close> bytes read into a vector that was resized to \<open>count\<close>: the bytes,
  or \<open>None\<close> in the inner option when there are too few. A negative count gives a vector of 16
  records, and its product with the size, as a \<open>size_t\<close>, asks for more bytes than any file has: the
  read then runs over the end of the vector, or fails.
\<close>

definition read_table :: "nat \<Rightarrow> int32 \<Rightarrow> stream \<Rightarrow> (byte list option \<times> stream) option" where
  "read_table width count' f =
     (if 0 \<le> sint count' then do {
        _ \<leftarrow> (if count' = 0 then Some 0 else reserved_size (sint count'));
        let n = nat (sint count') * width;
        let (bs, f) = fread n f;
        Some (if length bs = n then Some bs else None, f) }
      else if 16 * width < length (drop (position f) (content f)) then None
      else Some (None, f))"

definition relocate :: "WORD list \<Rightarrow> ByteCodeRelocation \<Rightarrow> memory \<Rightarrow> memory option" where
  "relocate objs r m =
     (let i = sint (relocObject r); j = sint (reference r) in
      if 0 \<le> i \<and> nat i < length objs \<and> 0 \<le> j \<and> nat j < length objs
      then store64 m (objs ! nat i + of_int32 (relocOffset r)) (objs ! nat j + of_int32 (rel_offset r))
      else None)"

fun relocate_all :: "WORD list \<Rightarrow> ByteCodeRelocation list \<Rightarrow> memory \<Rightarrow> memory option" where
  "relocate_all objs [] m = Some m"
| "relocate_all objs (r # rs) m = do { m \<leftarrow> relocate objs r m; relocate_all objs rs m }"

definition ByteCodeSection :: "allocator \<Rightarrow> stream \<Rightarrow> WORD \<Rightarrow> process \<Rightarrow>
    ((section_error + byte_code_section) \<times> process) option" where
  "ByteCodeSection os pxiFile len pr =
     (let (hs, pxiFile) = fread 16 pxiFile in
      if length hs \<noteq> 16 then Some (Inl No_section_header, pr)
      else
        let header = read_section_header hs;
            imageLength = to_int (len - 16 - of_int32 (objectCount header) * 4 - of_int32 (relocationCount header) * 16)
        in if imageLength = 0 then Some (Inl Zero_image, pr)
        else do {
          (objectTable, pxiFile) \<leftarrow> read_table 4 (objectCount header) pxiFile;
          case objectTable of None \<Rightarrow> Some (Inl No_object_table, pr)
          | Some ts \<Rightarrow>
              let (data, pr) = process_malloc os (size_of_int imageLength) pr;
                  (image, pxiFile) = fread (size_of_int imageLength) pxiFile
              in do {
                m \<leftarrow> store_bytes (p_mem pr) data image;
                let pr = pr\<lparr>p_mem := m\<rparr>;
                if length image \<noteq> size_of_int imageLength then Some (Inl No_image, pr)
                else do {
                  (relocations, pxiFile) \<leftarrow> read_table 16 (relocationCount header) pxiFile;
                  case relocations of None \<Rightarrow> Some (Inl No_relocations, pr)
                  | Some rs \<Rightarrow>
                      let objs = map (\<lambda>i. data + of_int32 i) (read_ints (nat (sint (objectCount header))) ts)
                      in do {
                        m \<leftarrow> relocate_all objs (read_relocations (nat (sint (relocationCount header))) rs) (p_mem pr);
                        Some (Inr \<lparr>sec_objects = objs, sec_image = data, sec_entryPoint = entryPoint header\<rparr>,
                              pr\<lparr>p_mem := m\<rparr>) } } } })"

definition section_valid :: "byte_code_section \<Rightarrow> bool" where
  "section_valid section \<longleftrightarrow> 0 < length (sec_objects section) \<and> sec_image section \<noteq> 0"

text \<open>\<open>byteCodeSectionReader\<close>: an invalid section is deleted, and its destructor frees the image.\<close>

definition delete_section :: "byte_code_section \<Rightarrow> process \<Rightarrow> process option" where
  "delete_section section pr =
     (if sec_image section = 0 then Some pr
      else do {
        n \<leftarrow> p_heap pr (sec_image section);
        Some (pr\<lparr>p_mem := remove_block (p_mem pr) (sec_image section) n,
                 p_heap := (p_heap pr)(sec_image section := None)\<rparr>) })"

definition byteCodeSectionReader :: "allocator \<Rightarrow> (byte_code_section, process) reader" where
  "byteCodeSectionReader os pxiFile len pr = do {
     (r, pr) \<leftarrow> ByteCodeSection os pxiFile len pr;
     case r of
       Inl e \<Rightarrow> Some (None, pr)
     | Inr section \<Rightarrow>
         if section_valid section then Some (Some section, pr)
         else do { pr \<leftarrow> delete_section section pr; Some (None, pr) } }"

subsection \<open>Running\<close>

text \<open>\<open>collectIp\<close>: the object a code address belongs to and the offset, or the address itself.\<close>

datatype ip_text = Object_ip int int | Invalid_address WORD int

definition collectIp :: "vm \<Rightarrow> WORD \<Rightarrow> int32 \<Rightarrow> ip_text" where
  "collectIp s byteCodes k =
     (let i = valueIndex byteCodes s in
      if i < 0 then Invalid_address byteCodes (sint k) else Object_ip i (sint k))"

definition dumpIp :: "vm \<Rightarrow> ip_text" where
  "dumpIp s = collectIp s (code s) (lastIp s)"

text \<open>The walk over the frames on the stack; frames that form a cycle make it endless.\<close>

partial_function (option) dump_frames :: "vm \<Rightarrow> WORD \<Rightarrow> ip_text list option" where
  "dump_frames s a = do {
     f \<leftarrow> load64 (mem s) a;
     c \<leftarrow> load64 (mem s) (a + 8);
     k \<leftarrow> load32 (mem s) (a + 16);
     if sint k \<le> 0 then Some []
     else do {
       rest \<leftarrow> dump_frames s f;
       Some (collectIp s c k # rest) } }"

definition dumpStack :: "vm \<Rightarrow> ip_text list option" where
  "dumpStack s = (if fp s = 0 then Some [] else dump_frames s (fp s))"

text \<open>
  \<open>ByteCodeSection::run\<close>: a fresh context over the objects, the arguments after the program name,
  and a run of the entry point with \<open>n\<close> instructions of fuel. The trace flag and the frame pointer of
  the fresh context are the arguments \<open>junk_trace\<close> and \<open>junk_fp\<close>. What the section has printed comes with the
  result, as in \<open>vm_out\<close>.
\<close>

datatype section_result =
    Returned bool int32 "byte list option"
  | Section_faulted
  | Section_exited int32
  | Section_native
  | Section_fuel

definition section_run :: "os \<Rightarrow> nat \<Rightarrow> string list \<Rightarrow> bool \<Rightarrow> bool \<Rightarrow> WORD \<Rightarrow> byte_code_section \<Rightarrow> process \<Rightarrow> section_result" where
  "section_run os n args tr junk_trace junk_fp section pr =
     (let s = ExecutionContext (allocator.truncate os) (p_mem pr) (p_heap pr) (sec_objects section) junk_trace junk_fp in
      case push_args (os_args_array os) (drop 1 args) s of
        None \<Rightarrow> Section_faulted
      | Some s \<Rightarrow>
          (let s = s\<lparr>vm_trace := tr, vm_out := (if tr then None else vm_out s)\<rparr>; (_, s) = unloadFrame s in
           case run_object (run os n) (sec_entryPoint section) s of
             Done True s \<Rightarrow> (case pop s of None \<Rightarrow> Section_faulted | Some (x, s) \<Rightarrow> Returned True (to_int x) (vm_out s))
           | Done False s \<Rightarrow> (case dumpStack s of None \<Rightarrow> Section_faulted | Some _ \<Rightarrow> Returned False (- 1) None)
           | Faulted \<Rightarrow> Section_faulted
           | Exited c \<Rightarrow> Section_exited c
           | NativeThrow \<Rightarrow> Section_native
           | OutOfFuel \<Rightarrow> Section_fuel))"

end
