(* ===== verification/Section_Laws.thy ===== *)
theory Section_Laws
  imports Sections Context_Props
begin

section \<open>Loading a section, and running a program from its file\<close>

text \<open>
  A writer for the format of byte-code sections and \<open>.pxi\<close> files, what the loader leaves in memory
  for it, and the whole way from the bytes of a file to the number the program returns.
\<close>

subsection \<open>Writing what the loader reads\<close>

definition int_bytes :: "int32 \<Rightarrow> byte list" where
  "int_bytes i = to_bytes 4 (of_unsigned i)"

definition relocation_bytes :: "ByteCodeRelocation \<Rightarrow> byte list" where
  "relocation_bytes r = int_bytes (relocObject r) @ int_bytes (relocOffset r) @ int_bytes (reference r) @
     int_bytes (rel_offset r)"

definition section_bytes :: "int32 \<Rightarrow> int32 list \<Rightarrow> byte list \<Rightarrow> ByteCodeRelocation list \<Rightarrow> byte list" where
  "section_bytes entry offs img rels =
     int_bytes entry @ int_bytes (of_nat (length offs)) @ int_bytes (of_nat (length rels)) @ int_bytes 0 @
     concat (map int_bytes offs) @ img @ concat (map relocation_bytes rels)"

lemma length_int_bytes [simp]: "length (int_bytes i) = 4"
  by (simp add: int_bytes_def)

lemma length_relocation_bytes [simp]: "length (relocation_bytes r) = 16"
  by (simp add: relocation_bytes_def)

lemma length_concat_ints [simp]: "length (concat (map int_bytes is)) = 4 * length is"
  by (induction "is") auto

lemma length_concat_relocations [simp]: "length (concat (map relocation_bytes rs)) = 16 * length rs"
  by (induction rs) auto

lemma length_section_bytes:
  "length (section_bytes entry offs img rels) = 16 + 4 * length offs + length img + 16 * length rels"
  by (simp add: section_bytes_def)

lemma int_field_bytes: "int_field 0 (int_bytes i @ bs) = i"
  by (simp add: int_field_def int_bytes_def from_to_bytes flip: take_bit_32_64) 

lemma int_field_skip: "length a = k \<Longrightarrow> int_field (k + j) (a @ bs) = int_field j bs"
  by (auto simp: int_field_def add.commute simp flip: drop_drop)

lemma read_ints_bytes: "read_ints (length is) (concat (map int_bytes is) @ bs) = is"
  by (induction "is") (simp_all add: int_field_bytes)

lemma read_relocation_bytes: "read_relocation (relocation_bytes r @ bs) = r"
  using int_field_skip [of "int_bytes (relocObject r)" 4 0]
    int_field_skip [of "int_bytes (relocObject r) @ int_bytes (relocOffset r)" 8 0]
    int_field_skip [of "int_bytes (relocObject r) @ int_bytes (relocOffset r) @ int_bytes (reference r)" 12 0]
  by (simp add: read_relocation_def relocation_bytes_def int_field_bytes)

lemma read_relocations_bytes: "read_relocations (length rs) (concat (map relocation_bytes rs) @ bs) = rs"
  by (induction rs) (simp_all add: read_relocation_bytes)

subsection \<open>Relocation\<close>

text \<open>The place a relocation changes, as an offset in the image, and what the loader expects of it.\<close>

definition slot_at :: "int32 list \<Rightarrow> ByteCodeRelocation \<Rightarrow> int" where
  "slot_at offs r = sint (offs ! nat (sint (relocObject r))) + sint (relocOffset r)"

definition relocation_ok :: "int32 list \<Rightarrow> nat \<Rightarrow> ByteCodeRelocation \<Rightarrow> bool" where
  "relocation_ok offs n r \<longleftrightarrow>
     0 \<le> sint (relocObject r) \<and> nat (sint (relocObject r)) < length offs \<and>
     0 \<le> sint (reference r) \<and> nat (sint (reference r)) < length offs \<and>
     0 \<le> slot_at offs r \<and> slot_at offs r + 8 \<le> int n"

definition separate :: "int32 list \<Rightarrow> ByteCodeRelocation \<Rightarrow> ByteCodeRelocation \<Rightarrow> bool" where
  "separate offs r r' \<longleftrightarrow> slot_at offs r + 8 \<le> slot_at offs r' \<or> slot_at offs r' + 8 \<le> slot_at offs r"

text \<open>Byte \<open>k\<close> of the image is not part of any relocated address.\<close>

definition unrelocated :: "int32 list \<Rightarrow> ByteCodeRelocation list \<Rightarrow> nat \<Rightarrow> bool" where
  "unrelocated offs rels k \<longleftrightarrow> (\<forall>r\<in>set rels. int k < slot_at offs r \<or> slot_at offs r + 8 \<le> int k)"

definition addresses :: "WORD \<Rightarrow> int32 list \<Rightarrow> WORD list" where
  "addresses p offs = map (\<lambda>i. p + of_int32 i) offs"

lemma length_addresses [simp]: "length (addresses p offs) = length offs"
  by (simp add: addresses_def)

lemma of_int32_sint: "of_int32 i = word_of_int (sint i)"
  by simp

lemma slot_address:
  assumes "relocation_ok offs n r"
  shows "addresses p offs ! nat (sint (relocObject r)) + of_int32 (relocOffset r) = p + of_nat (nat (slot_at offs r))"
  using assms by (simp add: relocation_ok_def addresses_def slot_at_def add.assoc wi_hom_syms)

lemma image_distance:
  assumes "k < 2 ^ 31" "j < 2 ^ 31"
  shows "unat (p + of_nat k - (p + of_nat j) :: WORD) < 8 \<longleftrightarrow> j \<le> k \<and> k < j + 8"
proof (cases "j \<le> k")
  case True
  then have "(p + of_nat k - (p + of_nat j) :: WORD) = of_nat (k - j)" by simp
  then show ?thesis using True assms unat_offset [of "k - j"] by auto
next
  case False
  let ?d = "p + of_nat k - (p + of_nat j) :: WORD"
  have "\<not> unat ?d < 8"
  proof
    assume small: "unat ?d < 8"
    have "(of_nat (j + unat ?d) :: WORD) = of_nat k" by simp
    then have "j + unat ?d = k"
      using unat_offset [of "j + unat ?d"] unat_offset [of k] small assms by simp
    then show False using False by simp
  qed
  then show ?thesis using False by simp
qed

lemma relocate_all_law:
  assumes "n < 2 ^ 31"
  shows "mapped m p n \<Longrightarrow> \<forall>r\<in>set rs. relocation_ok offs n r \<Longrightarrow>
    \<exists>m'. relocate_all (addresses p offs) rs m = Some m' \<and> dom m' = dom m \<and>
      (\<forall>k<n. unrelocated offs rs k \<longrightarrow> m' (p + of_nat k) = m (p + of_nat k)) \<and>
      (\<forall>x. unat (x - p) \<ge> n \<longrightarrow> m' x = m x) \<and>
      (sorted_wrt (separate offs) rs \<longrightarrow>
        (\<forall>r\<in>set rs. load64 m' (p + of_nat (nat (slot_at offs r))) =
           Some (addresses p offs ! nat (sint (reference r)) + of_int32 (rel_offset r))))"
proof (induction rs arbitrary: m)
  case Nil
  then show ?case by simp
next
  case (Cons r rs)
  define j where "j = nat (slot_at offs r)"
  let ?w = "addresses p offs ! nat (sint (reference r)) + of_int32 (rel_offset r)"
  let ?a = "p + of_nat j"
  have r: "relocation_ok offs n r" and rs: "\<forall>r\<in>set rs. relocation_ok offs n r" using Cons.prems(2) by auto
  have k: "j + 8 \<le> n" "slot_at offs r = int j" using r by (auto simp: relocation_ok_def j_def)
  have "mapped m ?a 8" using k(1) unat_offset [of j] assms by (intro mapped_sub [OF Cons.prems(1)]) simp
  then obtain m1 where m1: "store64 m ?a ?w = Some m1" using store64_defined by blast
  have "relocate (addresses p offs) r m = Some m1"
    using m1 slot_address [OF r, of p, folded j_def] r by (simp add: relocate_def relocation_ok_def Let_def)
  moreover obtain m' where m': "relocate_all (addresses p offs) rs m1 = Some m'" "dom m' = dom m1"
      "\<forall>k<n. unrelocated offs rs k \<longrightarrow> m' (p + of_nat k) = m1 (p + of_nat k)"
      "\<forall>x. n \<le> unat (x - p) \<longrightarrow> m' x = m1 x"
      "sorted_wrt (separate offs) rs \<longrightarrow>
        (\<forall>r\<in>set rs. load64 m' (p + of_nat (nat (slot_at offs r))) =
           Some (addresses p offs ! nat (sint (reference r)) + of_int32 (rel_offset r)))"
    using Cons.IH [OF _ rs, of m1] Cons.prems(1) mapped_dom [OF store64_dom [OF m1]] by auto
  ultimately have run: "relocate_all (addresses p offs) (r # rs) m = Some m'" by simp
  have inside: "m1 (p + of_nat k) = m (p + of_nat k)" if "k < n" "int k < slot_at offs r \<or> slot_at offs r + 8 \<le> int k" for k
    using store64_get [OF m1, of "p + of_nat k"] image_distance [of k j p] that k assms by auto
  have outside: "m1 x = m x" if "n \<le> unat (x - p)" for x
  proof -
    have "\<not> unat (x - ?a) < 8"
    proof
      assume small: "unat (x - ?a) < 8"
      have "x - p = of_nat (j + unat (x - ?a))" by simp
      then have "unat (x - p) = j + unat (x - ?a)" using unat_offset [of "j + unat (x - ?a)"] small k assms by simp
      then show False using that small k by simp
    qed
    then show ?thesis using store64_get [OF m1, of x] by simp
  qed
  have "load64 m' ?a = Some ?w" if "sorted_wrt (separate offs) (r # rs)"
  proof -
    have "m' (?a + of_nat i) = m1 (?a + of_nat i)" if i: "i < 8" for i
    proof -
      have "unrelocated offs rs (j + i)"
        using \<open>sorted_wrt (separate offs) (r # rs)\<close> k i by (auto simp: unrelocated_def separate_def)
      then show ?thesis using m'(3) k i by (simp add: add.assoc flip: of_nat_add)
    qed
    then have "load64 m' ?a = load64 m1 ?a"
      unfolding load64_def by (intro arg_cong [where f = "map_option from_bytes"] load_bytes_cong)
    then show ?thesis using load64_store64_same [OF m1] by simp
  qed
  then show ?case
    using run m' store64_dom [OF m1] inside outside by (intro exI [of _ m']) (auto simp: unrelocated_def k(2))
qed

subsection \<open>Reading\<close>

abbreviation remaining :: "stream \<Rightarrow> byte list" where
  "remaining f \<equiv> drop (position f) (content f)"

lemma fread_law:
  assumes "remaining f = a @ b"
  obtains f' where "fread (length a) f = (a, f')" "remaining f' = b"
proof -
  have "fread (length a) f = (a, f\<lparr>position := position f + length a\<rparr>)"
    using assms by (simp add: fread_def)
  moreover have "remaining (f\<lparr>position := position f + length a\<rparr>) = b"
    using assms by (metis append_eq_conv_conj drop_drop add.commute stream.select_convs stream.simps(3,4)
        stream.surjective stream.update_convs(2))
  ultimately show thesis using that by blast
qed

lemma sint_count: "n \<le> 2 ^ 28 \<Longrightarrow> sint (of_nat n :: int32) = int n"
  by (rule sint_of_nat32) simp

lemma read_table_law:
  assumes "remaining f = bs @ rest" "length bs = n * width" "n \<le> 2 ^ 28"
  obtains f' where "read_table width (of_nat n) f = Some (Some bs, f')" "remaining f' = rest"
proof -
  obtain f' where f': "fread (length bs) f = (bs, f')" "remaining f' = rest"
    by (rule fread_law [OF assms(1)])
  obtain k where "reserved_size (int n) = Some k" using reserved_size_law [of "int n"] assms(3) by auto
  then have "\<exists>k. (if (of_nat n :: int32) = 0 then Some 0 else reserved_size (int n)) = Some k" by simp
  then have "read_table width (of_nat n) f = Some (Some bs, f')"
    using f'(1) assms(2) sint_count [OF assms(3)] by (auto simp: read_table_def Let_def)
  then show thesis using that f'(2) by blast
qed

lemma image_length:
  assumes "a \<le> 2 ^ 28" "b \<le> 2 ^ 28" "0 < n" "n < 2 ^ 31"
  shows "to_int (of_nat (16 + 4 * a + n + 16 * b) - 16 - of_int32 (of_nat a) * 4 - of_int32 (of_nat b) * 16) = of_nat n"
    and "(of_nat n :: int32) \<noteq> 0" and "size_of_int (of_nat n) = n"
proof -
  have c: "of_int32 (of_nat a) = of_nat a" "of_int32 (of_nat b) = of_nat b" "of_int32 (of_nat n) = of_nat n"
    using assms by (intro of_int32_offset; simp)+
  have "(of_nat (16 + 4 * a + n + 16 * b) - 16 - of_int32 (of_nat a) * 4 - of_int32 (of_nat b) * 16 :: WORD) = of_nat n"
    unfolding c by simp
  then show "to_int (of_nat (16 + 4 * a + n + 16 * b) - 16 - of_int32 (of_nat a) * 4 - of_int32 (of_nat b) * 16) = of_nat n"
    using c(3) by (metis to_int_of_int32)
  show "(of_nat n :: int32) \<noteq> 0" using assms(3) sint_of_nat32 [OF assms(4)] by (metis sint_0 of_nat_0_eq_iff not_less0)
  show "size_of_int (of_nat n) = n" using unat_offset [of n] assms(4) by (simp add: size_of_int_def c(3))
qed

text \<open>What the constructor leaves: the objects at their places in a fresh block that holds the image, each
  relocated address filled in, and nothing else changed.\<close>

definition loaded :: "WORD \<Rightarrow> int32 \<Rightarrow> int32 list \<Rightarrow> byte list \<Rightarrow> ByteCodeRelocation list \<Rightarrow> process \<Rightarrow>
    byte_code_section \<Rightarrow> process \<Rightarrow> bool" where
  "loaded p entry offs img rels pr sec pr' \<longleftrightarrow>
     sec = \<lparr>sec_objects = addresses p offs, sec_image = p, sec_entryPoint = entry\<rparr> \<and>
     p_heap pr' = (p_heap pr)(p \<mapsto> length img) \<and> mapped (p_mem pr') p (length img) \<and>
     (\<forall>k<length img. unrelocated offs rels k \<longrightarrow> p_mem pr' (p + of_nat k) = Some (img ! k)) \<and>
     (\<forall>x. length img \<le> unat (x - p) \<longrightarrow> p_mem pr' x = p_mem pr x) \<and>
     (\<forall>r\<in>set rels. load64 (p_mem pr') (p + of_nat (nat (slot_at offs r))) =
        Some (addresses p offs ! nat (sint (reference r)) + of_int32 (rel_offset r)))"

lemma header_bytes:
  "read_section_header (int_bytes a @ int_bytes b @ int_bytes c @ int_bytes d) =
     \<lparr>entryPoint = a, objectCount = b, relocationCount = c\<rparr>"
  using int_field_skip [of "int_bytes a" 4 0] int_field_skip [of "int_bytes a @ int_bytes b" 8 0]
  by (simp add: read_section_header_def int_field_bytes)

lemma image_stored:
  assumes "length img < 2 ^ 31"
  obtains m where "store_bytes (add_block m0 p (length img) junk) p img = Some m" "mapped m p (length img)"
    "\<And>k. k < length img \<Longrightarrow> m (p + of_nat k) = Some (img ! k)"
    "\<And>x. length img \<le> unat (x - p) \<Longrightarrow> m x = m0 x"
proof -
  have block: "mapped (add_block m0 p (length img) junk) p (length img)"
    using assms unat_offset by (auto simp: mapped_def add_block_def)
  then obtain m where m: "store_bytes (add_block m0 p (length img) junk) p img = Some m"
    using store_bytes_defined by blast
  note get = store_bytes_get [OF m]
  show thesis
  proof (rule that [OF m])
    show "mapped m p (length img)" using block mapped_dom [OF store_bytes_dom [OF m]] by simp
    show "m (p + of_nat k) = Some (img ! k)" if "k < length img" for k
      using get [of "p + of_nat k"] that assms unat_offset [of k] by simp
    show "m x = m0 x" if "length img \<le> unat (x - p)" for x
      using get [of x] that assms by (simp add: add_block_def)
  qed
qed

lemma section_loaded:
  assumes malloc: "os_malloc os (p_mem pr) (p_heap pr) (length img) = p" "p \<noteq> 0"
    and sizes: "length offs \<le> 2 ^ 28" "length rels \<le> 2 ^ 26" "0 < length img" "length img < 2 ^ 31"
    and rels: "\<forall>r\<in>set rels. relocation_ok offs (length img) r" "sorted_wrt (separate offs) rels"
    and stored: "remaining f = section_bytes entry offs img rels @ rest"
    and len: "len = of_nat (length (section_bytes entry offs img rels))"
  shows "\<exists>sec pr'. ByteCodeSection os f len pr = Some (Inr sec, pr') \<and> loaded p entry offs img rels pr sec pr'"
proof -
  let ?hs = "int_bytes entry @ int_bytes (of_nat (length offs)) @ int_bytes (of_nat (length rels)) @ int_bytes 0"
  let ?ts = "concat (map int_bytes offs)" and ?rs = "concat (map relocation_bytes rels)"
  obtain f1 where f1: "fread (length ?hs) f = (?hs, f1)" "remaining f1 = ?ts @ img @ ?rs @ rest"
    by (rule fread_law [of f ?hs]) (use stored in \<open>simp_all add: section_bytes_def\<close>)
  obtain f2 where f2: "read_table 4 (of_nat (length offs)) f1 = Some (Some ?ts, f2)" "remaining f2 = img @ ?rs @ rest"
    by (rule read_table_law [OF f1(2), of "length offs" 4]) (use sizes(1) in simp_all)
  obtain f3 where f3: "fread (length img) f2 = (img, f3)" "remaining f3 = ?rs @ rest"
    by (rule fread_law [OF f2(2)])
  obtain f4 where f4: "read_table 16 (of_nat (length rels)) f3 = Some (Some ?rs, f4)"
    by (rule read_table_law [OF f3(2), of "length rels" 16]) (use sizes(2) in simp_all)
  obtain m where m: "store_bytes (add_block (p_mem pr) p (length img) (os_junk os)) p img = Some m"
      "mapped m p (length img)" "\<And>k. k < length img \<Longrightarrow> m (p + of_nat k) = Some (img ! k)"
      "\<And>x. length img \<le> unat (x - p) \<Longrightarrow> m x = p_mem pr x"
    using image_stored [OF sizes(4)] by blast
  obtain m' where m': "relocate_all (addresses p offs) rels m = Some m'" "dom m' = dom m"
      "\<forall>k<length img. unrelocated offs rels k \<longrightarrow> m' (p + of_nat k) = m (p + of_nat k)"
      "\<forall>x. length img \<le> unat (x - p) \<longrightarrow> m' x = m x"
      "\<forall>r\<in>set rels. load64 m' (p + of_nat (nat (slot_at offs r))) =
        Some (addresses p offs ! nat (sint (reference r)) + of_int32 (rel_offset r))"
    using relocate_all_law [OF sizes(4) m(2) rels(1)] rels(2) by blast
  have imageLength: "to_int (len - 16 - of_int32 (of_nat (length offs)) * 4 - of_int32 (of_nat (length rels)) * 16) =
      of_nat (length img)"
    using image_length(1) [of "length offs" "length rels" "length img"] sizes by (simp add: len length_section_bytes)
  note img = image_length(2,3) [of 0 0 "length img", OF _ _ sizes(3,4)]
  have counts: "nat (sint (of_nat (length offs) :: int32)) = length offs" "nat (sint (of_nat (length rels) :: int32)) = length rels"
    using sint_count [of "length offs"] sint_count [of "length rels"] sizes by simp_all
  have tables: "read_ints (length offs) ?ts = offs" "read_relocations (length rels) ?rs = rels"
    using read_ints_bytes [of offs "[]"] read_relocations_bytes [of rels "[]"] by simp_all
  let ?s = "\<lparr>sec_objects = addresses p offs, sec_image = p, sec_entryPoint = entry\<rparr>"
  let ?pr = "pr\<lparr>p_mem := m', p_heap := (p_heap pr)(p \<mapsto> length img)\<rparr>"
  have "ByteCodeSection os f len pr = Some (Inr ?s, ?pr)"
    using f1(1) f2(1) f3(1) f4 m(1) m'(1) malloc imageLength img
    by (simp add: ByteCodeSection_def header_bytes process_malloc_def Let_def counts tables addresses_def)
  moreover have "loaded p entry offs img rels pr ?s ?pr"
    using m(2-4) m' mapped_dom [OF m'(2)] by (simp add: loaded_def)
  ultimately show ?thesis by blast
qed

subsection \<open>A fresh context\<close>

lemma stack_size: "STACK_SIZE = 8 * 262144"
  by (simp add: STACK_SIZE_def STACK_SLOT_def)

lemma fresh_context:
  assumes valid: "valid_malloc os" and q: "os_malloc os m h STACK_SIZE \<noteq> 0"
    and s: "s = ExecutionContext os m h objs tr junk_fp"
  shows "stack_ok s" "room s = 262144" "stk s = []" "objects s = objs"
    and "m x = Some b \<Longrightarrow> \<not> in_stack s x \<and> mem s x = Some b"
proof -
  let ?q = "os_malloc os m h STACK_SIZE"
  have block: "\<And>i. i < STACK_SIZE \<Longrightarrow> m (?q + of_nat i) = None" "unat ?q + STACK_SIZE < 2 ^ 64" "0x10000 \<le> ?q"
    using valid q unfolding valid_malloc_def Let_def by blast+
  have fields: "stack s = ?q" "stackTop s = ?q + of_nat STACK_SIZE" "sp s = ?q + of_nat STACK_SIZE"
      "mem s = add_block m ?q STACK_SIZE (os_junk os)" "objects s = objs"
    using q by (simp_all add: s ExecutionContext_def Let_def)
  have size: "unat (of_nat STACK_SIZE :: WORD) = STACK_SIZE" using unat_offset [of STACK_SIZE] stack_size by simp
  have top: "unat (?q + of_nat STACK_SIZE) = unat ?q + STACK_SIZE"
    using block(2) size by (simp add: unat_word_ariths)
  then have le: "?q \<le> ?q + of_nat STACK_SIZE" by (simp add: word_le_nat_alt)
  have "8 \<le> ?q" by (rule order_trans [OF _ block(3)]) simp
  moreover have "mapped (mem s) ?q STACK_SIZE"
    using unat_offset stack_size by (auto simp: fields mapped_def add_block_def)
  ultimately show "stack_ok s" using le size by (simp add: stack_ok_def fields)
  show "room s = 262144" using top stack_size by (simp add: room_def fields)
  show "stk s = []" by (simp add: stk_def depth_def fields)
  show "objects s = objs" by (rule fields(5))
  assume x: "m x = Some b"
  have "\<not> unat (x - ?q) < STACK_SIZE"
  proof
    assume "unat (x - ?q) < STACK_SIZE"
    from block(1) [OF this] x show False by simp
  qed
  then show "\<not> in_stack s x \<and> mem s x = Some b"
    using x size by (simp add: in_stack_def fields add_block_def)
qed

lemma args_pushed:
  assumes "stack_ok s" "2 \<le> room s"
  obtains s' where "push_args array argv s = Some s'" "stack_ok s'" "room s' + 2 = room s"
    "frame s' = frame (s\<lparr>vm_args := argv\<rparr>)"
proof -
  let ?s = "s\<lparr>vm_args := argv\<rparr>" and ?n = "word_of_nat (length argv) :: WORD"
  have ok: "stack_ok ?s" "0 < room ?s" using assms by (simp_all add: stack_ok_def room_def)
  obtain s1 where s1: "pushv array ?s = Some s1" "stack_ok s1" "room ?s = Suc (room s1)" "frame s1 = frame ?s"
    using push_law [OF ok] by blast
  have "room ?s = room s" by (simp add: room_def)
  then have "0 < room s1" using s1(3) assms(2) by simp
  then obtain s2 where s2: "pushv (push_bit 32 ?n OR ?n) s1 = Some s2" "stack_ok s2" "room s1 = Suc (room s2)" "frame s2 = frame s1"
    using push_law [OF s1(2)] by blast
  have "push_args array argv s = Some s2" using s1(1) s2(1) by (simp add: push_args_def Let_def)
  then show thesis using that s1 s2 \<open>room ?s = room s\<close> by simp
qed

subsection \<open>The whole way\<close>

text \<open>C6: what the loader makes of a well-formed section: for any object table, image and relocations
  that stay inside the image and apart from each other, \<open>byteCodeSectionReader\<close> returns a section
  whose objects are at their offsets in a fresh block, every byte of the image that is not part of a
  relocated address is the byte of the file, every relocated address holds the address of its
  object plus the offset, and all other memory is as before.\<close>

theorem section_reader_loads:
  assumes "os_malloc os (p_mem pr) (p_heap pr) (length img) = p" "p \<noteq> 0"
    and "offs \<noteq> []" "length offs \<le> 2 ^ 28" "length rels \<le> 2 ^ 26" "0 < length img" "length img < 2 ^ 31"
    and "\<forall>r\<in>set rels. relocation_ok offs (length img) r" "sorted_wrt (separate offs) rels"
    and "remaining f = section_bytes entry offs img rels @ rest"
    and "len = of_nat (length (section_bytes entry offs img rels))"
  shows "\<exists>sec pr'. byteCodeSectionReader os f len pr = Some (Some sec, pr') \<and> loaded p entry offs img rels pr sec pr'"
proof -
  obtain sec pr' where run: "ByteCodeSection os f len pr = Some (Inr sec, pr')"
    and l: "loaded p entry offs img rels pr sec pr'"
    using section_loaded [OF assms(1,2,4-11)] by blast
  have "section_valid sec" using l assms(2,3) by (simp add: loaded_def section_valid_def)
  then show ?thesis using run l by (auto simp: byteCodeSectionReader_def)
qed

lemma section_reader_loads_witness:
  "\<exists>sec pr'. byteCodeSectionReader \<lparr>os_malloc = demo_malloc, os_junk = \<lambda>x. 0\<rparr>
       \<lparr>content = section_bytes 0 [0, 8] (replicate 16 7) [\<lparr>relocObject = 1, relocOffset = 0, reference = 0, rel_offset = 4\<rparr>],
         position = 0\<rparr> 56 \<lparr>p_mem = Map.empty, p_heap = Map.empty\<rparr> = Some (Some sec, pr') \<and>
     load64 (p_mem pr') 0x80008 = Some 0x80004 \<and> p_mem pr' 0x80003 = Some 7"
proof -
  let ?r = "\<lparr>relocObject = 1, relocOffset = 0, reference = 0, rel_offset = 4\<rparr>"
  let ?img = "replicate 16 7 :: byte list"
  have slot: "slot_at [0, 8] ?r = 8" by (simp add: slot_at_def)
  have "\<exists>sec pr'. byteCodeSectionReader \<lparr>os_malloc = demo_malloc, os_junk = \<lambda>x. 0\<rparr>
       \<lparr>content = section_bytes 0 [0, 8] ?img [?r], position = 0\<rparr> 56 \<lparr>p_mem = Map.empty, p_heap = Map.empty\<rparr> =
         Some (Some sec, pr') \<and>
      loaded 0x80000 0 [0, 8] ?img [?r] \<lparr>p_mem = Map.empty, p_heap = Map.empty\<rparr> sec pr'"
    by (rule section_reader_loads)
       (simp_all add: demo_malloc_def list_all_iff relocation_ok_def slot length_section_bytes)
  then obtain sec pr' where run: "byteCodeSectionReader \<lparr>os_malloc = demo_malloc, os_junk = \<lambda>x. 0\<rparr>
       \<lparr>content = section_bytes 0 [0, 8] ?img [?r], position = 0\<rparr> 56 \<lparr>p_mem = Map.empty, p_heap = Map.empty\<rparr> =
         Some (Some sec, pr')"
      and l: "loaded 0x80000 0 [0, 8] ?img [?r] \<lparr>p_mem = Map.empty, p_heap = Map.empty\<rparr> sec pr'" by blast
  have "load64 (p_mem pr') 0x80008 = Some 0x80004"
    using l by (simp add: loaded_def slot addresses_def)
  moreover have "p_mem pr' (0x80000 + of_nat 3) = Some (?img ! 3)"
    using l unfolding loaded_def by (simp add: unrelocated_def slot del: of_nat_numeral)
  ultimately show ?thesis using run by (intro exI conjI) simp_all
qed

text \<open>A program section: object \<open>k\<close> holds the byte code, untouched by relocations.\<close>

definition holds_program :: "int32 \<Rightarrow> byte list \<Rightarrow> int32 list \<Rightarrow> byte list \<Rightarrow> ByteCodeRelocation list \<Rightarrow> bool" where
  "holds_program k cs offs img rels \<longleftrightarrow>
     0 \<le> sint k \<and> nat (sint k) < length offs \<and>
     (let o' = sint (offs ! nat (sint k)) in
        0 \<le> o' \<and> nat o' + length cs \<le> length img \<and> take (length cs) (drop (nat o') img) = cs \<and>
        (\<forall>i<length cs. unrelocated offs rels (nat o' + i)))"

lemma loaded_program:
  assumes l: "loaded p entry offs img rels pr sec pr'" and h: "holds_program k cs offs img rels"
    and i: "i < length cs"
  shows "p_mem pr' (sec_objects sec ! nat (sint k) + of_nat i) = Some (cs ! i)"
proof -
  define o' where "o' = nat (sint (offs ! nat (sint k)))"
  have h': "nat (sint k) < length offs" "sint (offs ! nat (sint k)) = int o'" "o' + length cs \<le> length img"
      "take (length cs) (drop o' img) = cs" "unrelocated offs rels (o' + i)"
    using h i by (simp_all add: holds_program_def Let_def o'_def)
  have "sec_objects sec ! nat (sint k) + of_nat i = p + of_nat (o' + i)"
  proof -
    have "of_int32 (offs ! nat (sint k)) = of_nat o'" using h'(2) by (metis of_int32_sint of_int_of_nat_eq)
    then show ?thesis using l h'(1) by (simp add: loaded_def addresses_def)
  qed
  moreover have "img ! (o' + i) = cs ! i" using h'(3,4) i by (metis nth_drop nth_take add_leD1)
  moreover have "p_mem pr' (p + of_nat (o' + i)) = Some (img ! (o' + i))"
    using l h'(3,5) i by (simp add: loaded_def del: of_nat_add)
  ultimately show ?thesis by (simp only:)
qed

lemma section_runs:
  assumes l: "loaded p entry offs img rels pr sec pr'"
    and h: "holds_program entry (concat (map encode is) @ return_code) offs img rels"
    and spec: "simple_run is [] = Some [r]" and small: "length is \<le> 200000"
    and malloc: "valid_malloc (allocator.truncate os)"
      "os_malloc os (p_mem pr') (p_heap pr') STACK_SIZE \<noteq> 0"
  shows "section_run os (length is + Suc n) args tr junk_trace junk_fp sec pr' =
    Returned True (word_of_int r) (if tr then None else Some [])"
proof -
  let ?cs = "concat (map encode is) @ return_code" and ?a = "sec_objects sec ! nat (sint entry)"
  define s0 where "s0 = ExecutionContext (allocator.truncate os) (p_mem pr') (p_heap pr') (sec_objects sec) junk_trace junk_fp"
  have q: "os_malloc (allocator.truncate os) (p_mem pr') (p_heap pr') STACK_SIZE \<noteq> 0"
    using malloc(2) by (simp add: allocator.defs)
  note ctx = fresh_context [OF malloc(1) q s0_def]
  have len: "length ?cs < 2 ^ 31"
  proof -
    have "length (encode i) \<le> 9" for i by (cases i) simp_all
    then have "length (concat (map encode is)) \<le> 9 * length is" by (induction "is") (auto intro: add_mono)
    then show ?thesis using small by (simp add: return_code_def)
  qed
  have code: "\<not> in_stack s0 (?a + of_nat i) \<and> mem s0 (?a + of_nat i) = Some (?cs ! i)" if "i < length ?cs" for i
    by (rule ctx(5) [OF loaded_program [OF l h that]])
  then have prog0: "program_at (s0\<lparr>vm_args := drop 1 args\<rparr>) ?a ?cs"
    using len by (simp add: program_at_def outside_stack_def in_stack_def load_bytes_iff)
  obtain s1 where s1: "push_args (os_args_array os) (drop 1 args) s0 = Some s1" "stack_ok s1" "room s1 + 2 = room s0"
      "frame s1 = frame (s0\<lparr>vm_args := drop 1 args\<rparr>)"
    by (rule args_pushed [OF ctx(1), of "os_args_array os" "drop 1 args"]) (use ctx(2) in simp_all)
  have "frame s1 = (frame (s0\<lparr>vm_args := drop 1 args\<rparr>))\<lparr>active := active s0, lastIp := lastIp s0\<rparr>"
    using s1(4) by (simp add: frame_def)
  from program_frame [OF prog0 this] have prog1: "program_at s1 ?a ?cs" .
  define s2 where "s2 = s1\<lparr>vm_trace := tr, vm_out := (if tr then None else vm_out s1), active := null_frame\<rparr>"
  have printed: "vm_out s2 = (if tr then None else Some [])"
    using arg_cong [OF s1(4), of vm_out] by (simp add: s2_def frame_def s0_def ExecutionContext_def Let_def)
  have objs: "objects s2 = sec_objects sec"
    using arg_cong [OF s1(4), of objects] ctx(4) by (simp add: s2_def frame_def)
  have ok: "stack_ok s2" "length is + 3 \<le> room s2" "fp s2 = 0"
    using s1(2,3) ctx(2) small by (simp_all add: s2_def stack_ok_def room_def null_frame_def)
  have obj: "0 \<le> sint entry" "nat (sint entry) < length (objects s2)"
    using h l by (simp_all add: objs holds_program_def loaded_def)
  have prog2: "program_at s2 (objects s2 ! nat (sint entry)) ?cs"
    unfolding objs using prog1 by (simp add: s2_def program_at_def outside_stack_def in_stack_def)
  obtain s3 where s3: "run_object (run os (length is + Suc n)) entry s2 = Done True s3" "stack_ok s3"
      "map sint (stk s3) = r # map sint (stk s2)" "vm_out s3 = vm_out s2"
    using function_runs [where os = os, OF ok obj prog2 spec] by (elim exE conjE) (rule that, erule allE, assumption+)
  obtain x xs where x: "stk s3 = x # xs" "sint x = r" using s3(3) by (cases "stk s3") auto
  have "to_int x = word_of_int r" unfolding x(2) [symmetric]
    using ucast_down_wi [where x = "sint x" and 'a = 64 and 'b = 32] by (simp add: is_down)
  moreover have "sec_entryPoint sec = entry" using l by (simp add: loaded_def)
  ultimately show ?thesis
    using s1(1) s3(1) pop_stk(1) [OF s3(2) x(1)] s3(4) printed
    by (simp add: section_run_def Let_def unloadFrame_def s2_def flip: s0_def)
qed

text \<open>A \<open>.pxi\<close> file with one section of byte codes, as the compiler writes it.\<close>

definition pxi_bytes :: "byte list \<Rightarrow> byte list" where
  "pxi_bytes sec =
     int_bytes MAGIC_NUMBER @ [1, 0] @ [1, 0] @
     [of_nat ST_BYTE_CODES, 0, 0, 0, 0, 0, 0, 0] @ to_bytes 8 32 @ to_bytes 8 (of_nat (length sec)) @ sec"

lemma long_field_bytes: "length a = k \<Longrightarrow> long_field k (a @ to_bytes 8 w @ b) = w"
  by (simp add: long_field_def from_to_bytes_8)

lemma pxi_selects:
  fixes rd :: "('sec, 'st) reader"
  assumes "rd \<lparr>content = pxi_bytes sec, position = 32\<rparr> (of_nat (length sec)) z = Some (Some x, z')"
  shows "Pxi_load [(ST_BYTE_CODES, Some rd)] (Map.empty(name \<mapsto> pxi_bytes sec)) name z = Some (Some x, z')"
proof -
  let ?f = "\<lparr>content = pxi_bytes sec, position = 0\<rparr>"
  let ?hs = "int_bytes MAGIC_NUMBER @ [1, 0] @ [1, 0]"
  let ?e = "[2, 0, 0, 0, 0, 0, 0, 0] @ to_bytes 8 32 @ to_bytes 8 (of_nat (length sec))"
  have hs: "fread 8 ?f = (?hs, \<lparr>content = pxi_bytes sec, position = 8\<rparr>)"
    by (simp add: fread_def pxi_bytes_def)
  have ts: "fread 24 \<lparr>content = pxi_bytes sec, position = 8\<rparr> = (?e, \<lparr>content = pxi_bytes sec, position = 32\<rparr>)"
    by (simp add: fread_def pxi_bytes_def)
  have header: "read_header ?hs = \<lparr>magic = MAGIC_NUMBER, version = 1, sections = 1\<rparr>"
    by (simp add: read_header_def int_field_bytes short_field_def)
  have entry: "read_entry ?e = \<lparr>sectionType = ST_BYTE_CODES, se_offset = 32, se_length = of_nat (length sec)\<rparr>"
    using long_field_bytes [of "[2, 0, 0, 0, 0, 0, 0, 0]" 8 32 "to_bytes 8 (of_nat (length sec))"]
      long_field_bytes [of "[2, 0, 0, 0, 0, 0, 0, 0] @ to_bytes 8 32" 16 "of_nat (length sec)" "[]"]
    by (simp add: read_entry_def)
  have "Pxi_read_sections [(ST_BYTE_CODES, Some rd)] ?f z = Some (Inr x, z')"
    using assms
    by (simp add: Pxi_read_sections_def hs header ts entry fseek_def Let_def del: append.simps)
  then show ?thesis by (simp add: Pxi_load_def Pxi_read_def)
qed

lemma file_runs:
  assumes "valid_malloc (allocator.truncate os)"
    and "os_malloc os (p_mem pr) (p_heap pr) (length img) = p" "p \<noteq> 0"
    and "offs \<noteq> []" "length offs \<le> 2 ^ 28" "length rels \<le> 2 ^ 26" "0 < length img" "length img < 2 ^ 31"
    and "\<forall>r\<in>set rels. relocation_ok offs (length img) r" "sorted_wrt (separate offs) rels"
    and "holds_program entry (concat (map encode is) @ return_code) offs img rels"
    and "simple_run is [] = Some [r]" "length is \<le> 200000"
  shows "\<exists>sec pr'. Pxi_load [(ST_BYTE_CODES, Some (byteCodeSectionReader (allocator.truncate os)))]
      (Map.empty(name \<mapsto> pxi_bytes (section_bytes entry offs img rels))) name pr = Some (Some sec, pr') \<and>
    loaded p entry offs img rels pr sec pr' \<and>
    (os_malloc os (p_mem pr') (p_heap pr') STACK_SIZE \<noteq> 0 \<longrightarrow>
      section_run os (length is + Suc n) args tr junk_trace junk_fp sec pr' = Returned True (word_of_int r) (if tr then None else Some []))"
proof -
  let ?sec = "section_bytes entry offs img rels" and ?os = "allocator.truncate os"
  let ?f = "\<lparr>content = pxi_bytes ?sec, position = 32\<rparr>"
  have malloc: "os_malloc ?os (p_mem pr) (p_heap pr) (length img) = p" using assms(2) by (simp add: allocator.defs)
  have "remaining ?f = ?sec @ []" by (simp add: pxi_bytes_def)
  then obtain sec pr' where l: "ByteCodeSection ?os ?f (of_nat (length ?sec)) pr = Some (Inr sec, pr')"
      "loaded p entry offs img rels pr sec pr'"
    using section_loaded [OF malloc assms(3,5-10) _ refl] by blast
  have "section_valid sec" using l(2) assms(3,4) by (simp add: loaded_def section_valid_def)
  then have "byteCodeSectionReader ?os ?f (of_nat (length ?sec)) pr = Some (Some sec, pr')"
    using l(1) by (simp add: byteCodeSectionReader_def)
  from pxi_selects [of "byteCodeSectionReader ?os", OF this] section_runs [OF l(2) assms(11-13,1)] l(2)
  show ?thesis by blast
qed

text \<open>C3: from the bytes of a file to the result of the program: \<open>Pxi::load\<close> of a file with one section of
  byte codes, whose entry object is a function of constants and arithmetic, gives a section, and
  \<open>run\<close> of that section returns true with the value of the integer specification. The section may
  hold any other objects and any relocations outside the function.\<close>

theorem file_to_result:
  assumes "valid_malloc (allocator.truncate os)"
    and "os_malloc os (p_mem pr) (p_heap pr) (length img) = p" "p \<noteq> 0"
    and "offs \<noteq> []" "length offs \<le> 2 ^ 28" "length rels \<le> 2 ^ 26" "0 < length img" "length img < 2 ^ 31"
    and "\<forall>r\<in>set rels. relocation_ok offs (length img) r" "sorted_wrt (separate offs) rels"
    and "holds_program entry (concat (map encode is) @ return_code) offs img rels"
    and "simple_run is [] = Some [r]" "length is \<le> 200000"
  shows "\<exists>sec pr'. Pxi_load [(ST_BYTE_CODES, Some (byteCodeSectionReader (allocator.truncate os)))]
      (Map.empty(name \<mapsto> pxi_bytes (section_bytes entry offs img rels))) name pr = Some (Some sec, pr') \<and>
    loaded p entry offs img rels pr sec pr' \<and>
    (os_malloc os (p_mem pr') (p_heap pr') STACK_SIZE \<noteq> 0 \<longrightarrow>
      section_run os (length is + Suc n) args tr junk_trace junk_fp sec pr' = Returned True (word_of_int r) (if tr then None else Some []))"
  by (rule file_runs [OF assms])

text \<open>An allocator with one small block and one for the stack, as an instance.\<close>

definition two_blocks :: os where
  "two_blocks = demo_os\<lparr>os_junk := \<lambda>x. 0,
     os_malloc := \<lambda>m h n.
       if n \<le> 64 then demo_malloc m h n
       else if n \<le> STACK_SIZE \<and> list_all (\<lambda>i. m (0x1000000 + of_nat i) = None) [0..<n] \<and> h 0x1000000 = None
       then 0x1000000 else 0\<rparr>"

lemma two_blocks_malloc:
  "os_malloc two_blocks m h n =
     (if n \<le> 64 then demo_malloc m h n
      else if n \<le> STACK_SIZE \<and> list_all (\<lambda>i. m (0x1000000 + of_nat i) = None) [0..<n] \<and> h 0x1000000 = None
      then 0x1000000 else 0)"
  by (simp add: two_blocks_def)

lemma two_blocks_valid: "valid_malloc (allocator.truncate two_blocks)"
  using stack_size
  by (auto simp: valid_malloc_def allocator.defs two_blocks_malloc demo_malloc_def Let_def list_all_iff split: if_splits)

lemma two_blocks_stack:
  assumes l: "loaded 0x80000 entry offs img rels \<lparr>p_mem = Map.empty, p_heap = Map.empty\<rparr> sec pr'" and len: "length img \<le> 64"
  shows "os_malloc two_blocks (p_mem pr') (p_heap pr') STACK_SIZE \<noteq> 0"
proof -
  have "p_mem pr' (0x1000000 + of_nat i) = None" if "i < STACK_SIZE" for i
  proof -
    have "(0x1000000 + of_nat i - 0x80000 :: WORD) = of_nat (0xF80000 + i)" by simp
    then have "length img \<le> unat (0x1000000 + of_nat i - 0x80000 :: WORD)"
      using unat_offset [of "0xF80000 + i"] that stack_size len by simp
    then show ?thesis using l by (simp add: loaded_def)
  qed
  moreover have "p_heap pr' 0x1000000 = None" using l by (simp add: loaded_def)
  ultimately show ?thesis using stack_size by (simp add: two_blocks_malloc list_all_iff)
qed

lemma file_to_result_witness:
  "\<exists>sec pr'. Pxi_load [(ST_BYTE_CODES, Some (byteCodeSectionReader (allocator.truncate two_blocks)))]
      [''p.pxi'' \<mapsto> pxi_bytes (section_bytes 0 [0] (concat (map encode [Push 20, Push (- 6), Alu B_DIV]) @ return_code) [])]
      ''p.pxi'' \<lparr>p_mem = Map.empty, p_heap = Map.empty\<rparr> = Some (Some sec, pr') \<and>
    section_run two_blocks 4 [] False False 0 sec pr' = Returned True (- 3) (Some [])"
proof -
  let ?is = "[Push 20, Push (- 6), Alu B_DIV]"
  let ?img = "concat (map encode ?is) @ return_code" and ?pr = "\<lparr>p_mem = Map.empty, p_heap = Map.empty\<rparr>"
  have len: "length ?img = 24" by (simp add: return_code_def)
  have spec: "simple_run ?is [] = Some [- 3]"
    by (simp add: alu_step_def alu1_def alu2_def traps_def signed_divide_int_def)
  have prog: "holds_program 0 ?img [0] ?img []"
    by (simp add: holds_program_def unrelocated_def Let_def)
  have first: "os_malloc two_blocks Map.empty Map.empty 24 = 0x80000"
    by (simp add: two_blocks_malloc demo_malloc_def list_all_iff)
  have "\<exists>sec pr'. Pxi_load [(ST_BYTE_CODES, Some (byteCodeSectionReader (allocator.truncate two_blocks)))]
      [''p.pxi'' \<mapsto> pxi_bytes (section_bytes 0 [0] ?img [])] ''p.pxi'' ?pr = Some (Some sec, pr') \<and>
    loaded 0x80000 0 [0] ?img [] ?pr sec pr' \<and>
    (os_malloc two_blocks (p_mem pr') (p_heap pr') STACK_SIZE \<noteq> 0 \<longrightarrow>
      section_run two_blocks (length ?is + Suc 0) [] False False 0 sec pr' = Returned True (word_of_int (- 3)) (if False then None else Some []))"
    by (rule file_to_result [OF two_blocks_valid _ _ _ _ _ _ _ _ _ prog spec])
       (use first len in \<open>simp_all del: concat.simps\<close>)
  then obtain sec pr' where run: "Pxi_load [(ST_BYTE_CODES, Some (byteCodeSectionReader (allocator.truncate two_blocks)))]
      [''p.pxi'' \<mapsto> pxi_bytes (section_bytes 0 [0] ?img [])] ''p.pxi'' ?pr = Some (Some sec, pr')"
    and l: "loaded 0x80000 0 [0] ?img [] ?pr sec pr'"
    and r: "os_malloc two_blocks (p_mem pr') (p_heap pr') STACK_SIZE \<noteq> 0 \<longrightarrow>
      section_run two_blocks (length ?is + Suc 0) [] False False 0 sec pr' = Returned True (word_of_int (- 3)) (if False then None else Some [])" by blast
  have "os_malloc two_blocks (p_mem pr') (p_heap pr') STACK_SIZE \<noteq> 0"
    by (rule two_blocks_stack [OF l]) (use len in simp)
  then have "section_run two_blocks (length ?is + Suc 0) [] False False 0 sec pr' = Returned True (word_of_int (- 3)) (if False then None else Some [])"
    using r by blast
  moreover have "length ?is + Suc 0 = 4" by simp
  ultimately have "section_run two_blocks 4 [] False False 0 sec pr' = Returned True (word_of_int (- 3)) (Some [])"
    by (simp only: if_False)
  then show ?thesis using run by (intro exI conjI) simp_all
qed

end
