(* ===== verification/Strings.thy ===== *)
theory Strings
  imports Vectors
begin

section \<open>Strings: \<open>class string\<close>, the operations that read\<close>

text \<open>
  common/string.h and string.cc. A string object is seen here as the list of its \<open>length\<close> bytes;
  no allocation at all is the empty list. The theory holds the operations that read a string and
  build another; the buffer underneath, its growth and its terminator are in theory Buffers. Bytes
  are written as numbers, the character in a comment where it matters. The C library's
  classification of characters is that of the C locale. \<open>memcmp\<close> returns the difference of the first
  pair of bytes that differ (the library promises its sign).
\<close>

type_synonym cstr = "byte list"

definition isspace :: "byte \<Rightarrow> bool" where
  "isspace c \<longleftrightarrow> c = 32 \<or> 9 \<le> c \<and> c \<le> 13"

definition isdigit :: "byte \<Rightarrow> bool" where
  "isdigit c \<longleftrightarrow> 48 \<le> c \<and> c \<le> 57"

definition isxdigit :: "byte \<Rightarrow> bool" where
  "isxdigit c \<longleftrightarrow> isdigit c \<or> 97 \<le> c \<and> c \<le> 102 \<or> 65 \<le> c \<and> c \<le> 70"

definition isoctal :: "byte \<Rightarrow> bool" where
  "isoctal c \<longleftrightarrow> 48 \<le> c \<and> c \<le> 55"

definition to_lower :: "byte \<Rightarrow> byte" where
  "to_lower c = (if 65 \<le> c \<and> c \<le> 90 then c + 32 else c)"

fun memcmp :: "nat \<Rightarrow> byte list \<Rightarrow> byte list \<Rightarrow> int32" where
  "memcmp (Suc n) (x # xs) (y # ys) = (if x = y then memcmp n xs ys else ucast x - ucast y)"
| "memcmp n xs ys = 0"

text \<open>A C string ends at its first NUL; \<open>strcmp\<close> compares two of them, the terminator as 0.\<close>

definition cstring_of :: "byte list \<Rightarrow> byte list" where
  "cstring_of xs = takeWhile (\<lambda>c. c \<noteq> 0) xs"

fun strcmp :: "byte list \<Rightarrow> byte list \<Rightarrow> int32" where
  "strcmp [] [] = 0"
| "strcmp [] (y # ys) = (if y = 0 then strcmp [] ys else - ucast y)"
| "strcmp (x # xs) [] = (if x = 0 then strcmp xs [] else ucast x)"
| "strcmp (x # xs) (y # ys) = (if x = y then strcmp xs ys else ucast x - ucast y)"

subsection \<open>Tests and comparison\<close>

definition str_beginsWith :: "cstr \<Rightarrow> cstr \<Rightarrow> bool" where
  "str_beginsWith s prefix =
     (if length s < length prefix then False
      else if length prefix = 0 then True
      else memcmp (length prefix) prefix s = 0)"

definition str_endsWith :: "cstr \<Rightarrow> cstr \<Rightarrow> bool" where
  "str_endsWith s suffix =
     (if length s \<le> length suffix then False
      else if length suffix = 0 then False
      else strcmp (cstring_of suffix) (cstring_of (drop (length s - length suffix) s)) = 0)"

definition str_equal :: "cstr \<Rightarrow> cstr \<Rightarrow> bool" where
  "str_equal s1 s2 = (if length s1 \<noteq> length s2 then False else memcmp (length s1) s1 s2 = 0)"

definition str_less :: "cstr \<Rightarrow> cstr \<Rightarrow> bool" where
  "str_less s1 s2 =
     (let n = (if length s1 < length s2 then length s1 else length s2);
          r = memcmp n s1 s2
      in if sint r < 0 then True else if 0 < sint r then False else length s1 < length s2)"

definition str_compare :: "cstr \<Rightarrow> cstr \<Rightarrow> int32" where
  "str_compare s1 s2 =
     (let n = (if length s1 < length s2 then length s1 else length s2);
          r = memcmp n s1 s2
      in if r \<noteq> 0 then r else of_nat (length s1) - of_nat (length s2))"

text \<open>The free function \<open>compare\<close> computes the shorter length and then passes the length of the
  text to \<open>memcmp\<close>; \<open>None\<close> when that reads beyond the terminator of \<open>ref\<close>.\<close>

definition text_compare :: "cstr \<Rightarrow> byte list \<Rightarrow> int32 option" where
  "text_compare ref text =
     (if length ref + 1 < length text then None
      else let i = memcmp (length text) (ref @ [0]) text in
        Some (if i \<noteq> 0 then i
              else if length text < length ref then 1
              else if length ref < length text then - 1
              else 0))"

definition str_toBool :: "cstr \<Rightarrow> bool" where
  "str_toBool s =
     (if length s = 4 then (if memcmp 4 s [116, 114, 117, 101] = 0 then True else False)
      else if length s = 5 then (if memcmp 5 s [102, 97, 108, 115, 101] = 0 then False else False)
      else False)"

subsection \<open>Searching, cutting and converting\<close>

fun find_char :: "byte \<Rightarrow> nat \<Rightarrow> byte list \<Rightarrow> int" where
  "find_char c i [] = - 1"
| "find_char c i (x # xs) = (if x = c then int i else find_char c (i + 1) xs)"

definition str_find :: "byte \<Rightarrow> nat \<Rightarrow> cstr \<Rightarrow> int" where
  "str_find c offset s = find_char c offset (drop offset s)"

fun rfind_char :: "byte \<Rightarrow> nat \<Rightarrow> cstr \<Rightarrow> int" where
  "rfind_char c 0 s = - 1"
| "rfind_char c (Suc i) s = (if s ! i = c then int i else rfind_char c i s)"

definition str_rfind :: "byte \<Rightarrow> int \<Rightarrow> cstr \<Rightarrow> int" where
  "str_rfind c offset s = rfind_char c (nat (if offset = - 1 then int (length s) else offset)) s"

text \<open>\<open>substr\<close>: \<open>None\<close> where the copy reads before the string or beyond its terminator.\<close>

definition str_substr :: "int \<Rightarrow> int \<Rightarrow> cstr \<Rightarrow> cstr option" where
  "str_substr offset cnt s =
     (let offset = (if int (length s) < offset then int (length s) else offset);
          cnt = (if cnt = - 1 then int (length s) - offset
                   else if int (length s) < cnt then int (length s) - offset
                   else cnt)
      in if cnt = 0 then Some []
         else if offset < 0 \<or> cnt < 0 \<or> int (length s) + 1 < offset + cnt then None
         else Some (take (nat cnt) (drop (nat offset) (s @ [0]))))"

fun trim_prefix :: "byte list \<Rightarrow> nat" where
  "trim_prefix [] = 0"
| "trim_prefix (c # cs) = (if isspace c then trim_prefix cs + 1 else 0)"

fun trim_suffix :: "cstr \<Rightarrow> nat \<Rightarrow> nat \<Rightarrow> nat" where
  "trim_suffix s prefix 0 = 0"
| "trim_suffix s prefix (Suc k) =
     (if prefix < Suc k then if isspace (s ! k) then trim_suffix s prefix k else Suc k else Suc k)"

definition str_trim :: "cstr \<Rightarrow> cstr option" where
  "str_trim s =
     (if length s = 0 then Some []
      else let prefix = trim_prefix s; suffix = trim_suffix s prefix (length s)
        in str_substr (int prefix) (int suffix - int prefix) s)"

definition str_tolower :: "cstr \<Rightarrow> cstr" where
  "str_tolower s = map to_lower s"

definition piece :: "cstr \<Rightarrow> nat \<Rightarrow> nat \<Rightarrow> cstr" where
  "piece s start len = take len (drop start s)"

fun split_loop :: "byte \<Rightarrow> cstr \<Rightarrow> byte list \<Rightarrow> nat \<Rightarrow> nat \<Rightarrow> cstr list \<Rightarrow> nat \<times> cstr list" where
  "split_loop delimiter s [] i tokenStart out = (tokenStart, out)"
| "split_loop delimiter s (c # cs) i tokenStart out =
     (if c = delimiter then split_loop delimiter s cs (i + 1) (i + 1) (out @ [piece s tokenStart (i - tokenStart)])
      else split_loop delimiter s cs (i + 1) tokenStart out)"

definition str_split :: "byte \<Rightarrow> cstr \<Rightarrow> cstr list" where
  "str_split delimiter s =
     (if s \<noteq> [] then
        let (tokenStart, out) = split_loop delimiter s s 0 0 []
        in if 0 < tokenStart then out @ [piece s tokenStart (length s - tokenStart)] else out @ [s]
      else [[]])"

fun hex_loop :: "int32 \<Rightarrow> byte list \<Rightarrow> int32" where
  "hex_loop v [] = v"
| "hex_loop v (c # cs) =
     (if 48 \<le> c \<and> c \<le> 57 then hex_loop (v * 16 + (ucast c - 48)) cs
      else if 97 \<le> c \<and> c \<le> 102 then hex_loop (v * 16 + 10 + (ucast c - 97)) cs
      else if 65 \<le> c \<and> c \<le> 70 then hex_loop (v * 16 + 10 + (ucast c - 65)) cs
      else v)"

definition str_asHex :: "cstr \<Rightarrow> int32" where
  "str_asHex s =
     (if 2 < length s \<and> s ! 0 = 48 \<and> (s ! 1 = 120 \<or> s ! 1 = 88) then hex_loop 0 (drop 2 s)
      else hex_loop 0 s)"

text \<open>\<open>hashValue\<close>: the bytes are signed characters; two bytes read as an unsigned short are little-endian.\<close>

definition ushort :: "byte \<Rightarrow> byte \<Rightarrow> int32" where
  "ushort lo hi = ucast lo OR push_bit 8 (ucast hi)"

fun hash_loop :: "nat \<Rightarrow> int32 \<Rightarrow> byte list \<Rightarrow> int32" where
  "hash_loop i v [] = v"
| "hash_loop i v (c # cs) = hash_loop (i + 1) (v + push_bit (i mod 8) (scast c)) cs"

definition str_hashValue :: "cstr \<Rightarrow> int32" where
  "str_hashValue s =
     (case s of
        [] \<Rightarrow> 0
      | [a] \<Rightarrow> scast a
      | [a, b] \<Rightarrow> ushort a b
      | [a, b, c] \<Rightarrow> ushort a b + push_bit 2 (scast c)
      | [a, b, c, d] \<Rightarrow> ushort a b + push_bit 1 (ushort c d)
      | _ \<Rightarrow> hash_loop 0 (of_nat (length s)) s)"

subsection \<open>C escapes\<close>

definition hex_char :: "nat \<Rightarrow> byte" where
  "hex_char d = (if d < 10 then of_nat (48 + d) else of_nat (87 + d))"

text \<open>The text \<open>printf\<close> makes of \<open>%x\<close>.\<close>

fun hex_text :: "nat \<Rightarrow> byte list" where
  "hex_text n = (if n < 16 then [hex_char n] else hex_text (n div 16) @ [hex_char (n mod 16)])"

declare hex_text.simps [simp del]

definition escape_char :: "byte \<Rightarrow> byte list" where
  "escape_char c =
     (if c = 92 then [92, 92]
      else if c = 7 then [92, 97]
      else if c = 8 then [92, 98]
      else if c = 12 then [92, 102]
      else if c = 10 then [92, 110]
      else if c = 13 then [92, 114]
      else if c = 11 then [92, 118]
      else if 32 \<le> c \<and> c < 127 then [c]
      else [92, 120] @ hex_text (unat c))"

definition str_escapeC :: "cstr \<Rightarrow> cstr" where
  "str_escapeC s = concat (map escape_char s)"

definition hex_value :: "byte \<Rightarrow> int" where
  "hex_value c = (if isdigit c then uint c - 48 else 10 + uint (to_lower c) - 97)"

text \<open>The digit loops return the value and the characters from the first one that is no digit, or
  \<open>None\<close> where the value no longer fits a byte.\<close>

fun hex_digits :: "int \<Rightarrow> byte list \<Rightarrow> (int \<times> byte list) option" where
  "hex_digits v [] = Some (v, [])"
| "hex_digits v (c # cs) =
     (if isxdigit c then if 0xff < v * 16 then None else hex_digits (v * 16 + hex_value c) cs
      else Some (v, c # cs))"

fun octal_digits :: "int \<Rightarrow> byte list \<Rightarrow> (int \<times> byte list) option" where
  "octal_digits v [] = Some (v, [])"
| "octal_digits v (c # cs) =
     (if isoctal c then if 0xff < v * 8 then None else octal_digits (v * 8 + (uint c - 48)) cs
      else Some (v, c # cs))"

lemma hex_digits_shorter: "hex_digits v cs = Some (w, rest) \<Longrightarrow> length rest \<le> length cs"
  by (induction v cs rule: hex_digits.induct) (auto split: if_splits)

lemma octal_digits_shorter: "octal_digits v cs = Some (w, rest) \<Longrightarrow> length rest \<le> length cs"
  by (induction v cs rule: octal_digits.induct) (auto split: if_splits)

definition simple_escape :: "byte \<Rightarrow> byte" where
  "simple_escape c =
     (if c = 97 then 7 else if c = 98 then 8 else if c = 102 then 12 else if c = 110 then 10
      else if c = 114 then 13 else if c = 116 then 9 else if c = 118 then 11 else c)"

text \<open>\<open>unescapeC\<close>: the result and the output. A digit loop leaves \<open>i\<close> on the first character that is
  no digit, and the step of the \<open>for\<close> loop then moves past it.\<close>

function unescape_loop :: "byte list \<Rightarrow> cstr \<Rightarrow> bool \<times> cstr" where
  "unescape_loop [] out = (True, out)"
| "unescape_loop (c # cs) out =
     (if c = 92 then
        (case cs of
           [] \<Rightarrow> (False, out)
         | e # ds \<Rightarrow>
             if e = 120 \<or> e = 88 then
               (case ds of
                  [] \<Rightarrow> (False, out)
                | x # _ \<Rightarrow>
                    if \<not> isxdigit x then (False, out)
                    else (case hex_digits 0 ds of
                            None \<Rightarrow> (False, out)
                          | Some (v, rest) \<Rightarrow> unescape_loop (drop 1 rest) (out @ [word_of_int v])))
             else if e = 48 then
               (case ds of
                  [] \<Rightarrow> (False, out)
                | x # _ \<Rightarrow>
                    if \<not> isoctal x then (False, out)
                    else (case octal_digits 0 ds of
                            None \<Rightarrow> (False, out)
                          | Some (v, rest) \<Rightarrow> unescape_loop (drop 1 rest) (out @ [word_of_int v])))
             else unescape_loop ds (out @ [simple_escape e]))
      else unescape_loop cs (out @ [c]))"
  by pat_completeness auto
termination
  by (relation "measure (\<lambda>(cs, out). length cs)")
     (auto dest!: hex_digits_shorter octal_digits_shorter)

declare unescape_loop.simps [simp del]

definition str_unescapeC :: "cstr \<Rightarrow> bool \<times> cstr" where
  "str_unescapeC s = (if length s = 0 then (True, []) else unescape_loop s [])"

end
