(* ===== verification/Hash_Tables.thy ===== *)
theory Hash_Tables
  imports Strings
begin

section \<open>Hash tables: \<open>dictionary\<close> and \<open>map\<close>\<close>

text \<open>
  common/dictionary.h (keys are strings) and common/map.h (keys are pointers) hold the same open
  hash table twice; they differ in the index where the search for a key starts. The operations are
  given once, with that index as an argument, and then for both classes. An entry that is not valid
  is \<open>None\<close>; its key and value are all zero bytes. \<open>None\<close> as the result of an operation means that a
  search found neither the key nor a free entry (it does not end), or a read past the entries.
\<close>

record ('k, 'v) table =
  entries :: "('k \<times> 'v) option list"
  entriesCount :: nat
  allocatedEntries :: nat
  rehashThreshold :: int

definition INITIAL_TABLE_SIZE :: nat where
  "INITIAL_TABLE_SIZE = 64"

definition REHASH_SHIFT :: nat where
  "REHASH_SHIFT = 3"

definition dict_start :: "cstr \<Rightarrow> nat \<Rightarrow> nat" where
  "dict_start key n = unat (str_hashValue key AND (of_nat n - 1))"

definition map_start :: "WORD \<Rightarrow> nat \<Rightarrow> nat" where
  "map_start key n = unat (signed_drop_bit 4 key AND (of_nat n - 1))"

partial_function (option) find_entry :: "('k \<times> 'v) option list \<Rightarrow> nat \<Rightarrow> 'k \<Rightarrow> nat \<Rightarrow> nat option" where
  "find_entry es n key x =
     (case es ! x of
        None \<Rightarrow> Some x
      | Some (k, v) \<Rightarrow>
          if k = key then Some x
          else find_entry es n key (if n \<le> x + 1 then 0 else x + 1))"

definition findEntry :: "('k \<Rightarrow> nat \<Rightarrow> nat) \<Rightarrow> 'k \<Rightarrow> ('k, 'v) table \<Rightarrow> nat option" where
  "findEntry start key t = find_entry (entries t) (allocatedEntries t) key (start key (allocatedEntries t))"

definition tooFull :: "('k, 'v) table \<Rightarrow> bool" where
  "tooFull t \<longleftrightarrow> rehashThreshold t < int (entriesCount t)"

text \<open>The threshold is computed in 32 bits.\<close>

definition threshold :: "nat \<Rightarrow> int" where
  "threshold n = sint (signed_drop_bit REHASH_SHIFT (of_nat n * (push_bit REHASH_SHIFT 1 - 1) :: int32))"

text \<open>\<open>rehash\<close> moves the entries by \<open>insert\<close>, and \<open>insert\<close> calls \<open>rehash\<close>: the loop over the old
  entries takes \<open>insert\<close> as its argument \<open>ins\<close>.\<close>

fun reinsert :: "('k \<Rightarrow> 'v \<Rightarrow> ('k, 'v) table \<Rightarrow> (bool \<times> ('k, 'v) table) option) \<Rightarrow>
    ('k \<times> 'v) option list \<Rightarrow> nat \<Rightarrow> ('k, 'v) table \<Rightarrow> ('k, 'v) table option" where
  "reinsert ins old 0 t = Some t"
| "reinsert ins [] (Suc e) t = None"
| "reinsert ins (None # old) (Suc e) t = reinsert ins old (Suc e) t"
| "reinsert ins (Some (k, v) # old) (Suc e) t = do {
     (_, t) \<leftarrow> ins k v t;
     reinsert ins old e t }"

definition rehash_by :: "('k \<Rightarrow> 'v \<Rightarrow> ('k, 'v) table \<Rightarrow> (bool \<times> ('k, 'v) table) option) \<Rightarrow>
    ('k, 'v) table \<Rightarrow> ('k, 'v) table option" where
  "rehash_by ins t = do {
     t' \<leftarrow> reinsert ins (entries t) (entriesCount t)
       (t\<lparr>allocatedEntries := allocatedEntries t * 2, entries := replicate (allocatedEntries t * 2) None,
          entriesCount := 0\<rparr>);
     Some (t'\<lparr>rehashThreshold := threshold (allocatedEntries t')\<rparr>) }"

lemma reinsert_mono [partial_function_mono]:
  assumes "\<And>k v t. mono_option (\<lambda>f. ins f k v t)"
  shows "mono_option (\<lambda>f. reinsert (ins f) old e t)"
proof (induction old arbitrary: e t)
  case Nil
  then show ?case by (cases e) (simp_all add: option.const_mono)
next
  case (Cons slot old)
  show ?case
  proof (cases e)
    case 0
    then show ?thesis by (simp add: option.const_mono)
  next
    case (Suc n)
    show ?thesis
    proof (cases slot)
      case None
      then show ?thesis using Suc Cons.IH by simp
    next
      case (Some kv)
      then show ?thesis
        using Suc by (cases kv) (auto intro!: bind_mono assms Cons.IH split: prod.split)
    qed
  qed
qed

lemma rehash_by_mono [partial_function_mono]:
  assumes "\<And>k v t. mono_option (\<lambda>f. ins f k v t)"
  shows "mono_option (\<lambda>f. rehash_by (ins f) t)"
  unfolding rehash_by_def by (intro bind_mono reinsert_mono assms option.const_mono)

partial_function (option) table_insert :: "('k \<Rightarrow> nat \<Rightarrow> nat) \<Rightarrow> 'k \<Rightarrow> 'v \<Rightarrow> ('k, 'v) table \<Rightarrow>
    (bool \<times> ('k, 'v) table) option" where
  "table_insert start key value t = do {
     x \<leftarrow> findEntry start key t;
     if entries t ! x = None then do {
       (x, t) \<leftarrow> (if tooFull t then do {
                     t \<leftarrow> rehash_by (table_insert start) t;
                     x \<leftarrow> findEntry start key t;
                     Some (x, t) }
                   else Some (x, t));
       Some (True, t\<lparr>entries := (entries t)[x := Some (key, value)], entriesCount := entriesCount t + 1\<rparr>) }
     else Some (False, t) }"

definition rehash :: "('k \<Rightarrow> nat \<Rightarrow> nat) \<Rightarrow> ('k, 'v) table \<Rightarrow> ('k, 'v) table option" where
  "rehash start t = rehash_by (table_insert start) t"

text \<open>The free entry \<open>e\<close> that \<open>put\<close>, \<open>replace\<close> and \<open>insert\<close> fill, after a rehash when the table is
  too full.\<close>

definition free_entry :: "('k \<Rightarrow> nat \<Rightarrow> nat) \<Rightarrow> 'k \<Rightarrow> nat \<Rightarrow> ('k, 'v) table \<Rightarrow> (nat \<times> ('k, 'v) table) option" where
  "free_entry start key x t =
     (if tooFull t then do {
        t \<leftarrow> rehash start t;
        x \<leftarrow> findEntry start key t;
        Some (x, t) }
      else Some (x, t))"

definition fill_entry :: "nat \<Rightarrow> 'k \<Rightarrow> 'v \<Rightarrow> ('k, 'v) table \<Rightarrow> ('k, 'v) table" where
  "fill_entry x key value t =
     t\<lparr>entries := (entries t)[x := Some (key, value)], entriesCount := entriesCount t + 1\<rparr>"

definition table_put :: "('k \<Rightarrow> nat \<Rightarrow> nat) \<Rightarrow> 'k \<Rightarrow> 'v \<Rightarrow> ('k, 'v) table \<Rightarrow> (bool \<times> ('k, 'v) table) option" where
  "table_put start key value t = do {
     x \<leftarrow> findEntry start key t;
     if entries t ! x = None then do {
       (x, t) \<leftarrow> free_entry start key x t;
       Some (True, fill_entry x key value t) }
     else Some (False, t\<lparr>entries := (entries t)[x := Some (key, value)]\<rparr>) }"

text \<open>The value found; \<open>zero\<close> is the value of an entry that was never filled.\<close>

definition table_get :: "('k \<Rightarrow> nat \<Rightarrow> nat) \<Rightarrow> 'v \<Rightarrow> 'k \<Rightarrow> ('k, 'v) table \<Rightarrow> 'v option" where
  "table_get start zero key t = do {
     x \<leftarrow> findEntry start key t;
     Some (case entries t ! x of None \<Rightarrow> zero | Some (k, v) \<Rightarrow> v) }"

definition table_replace :: "('k \<Rightarrow> nat \<Rightarrow> nat) \<Rightarrow> 'v \<Rightarrow> 'k \<Rightarrow> 'v \<Rightarrow> ('k, 'v) table \<Rightarrow> ('v \<times> ('k, 'v) table) option" where
  "table_replace start zero key value t = do {
     x \<leftarrow> findEntry start key t;
     case entries t ! x of
       None \<Rightarrow> do {
         (x, t) \<leftarrow> free_entry start key x t;
         Some (zero, fill_entry x key value t) }
     | Some (k, v) \<Rightarrow> Some (v, t\<lparr>entries := (entries t)[x := Some (key, value)]\<rparr>) }"

definition table_probe :: "('k \<Rightarrow> nat \<Rightarrow> nat) \<Rightarrow> 'k \<Rightarrow> ('k, 'v) table \<Rightarrow> bool option" where
  "table_probe start key t = do {
     x \<leftarrow> findEntry start key t;
     Some (entries t ! x \<noteq> None) }"

text \<open>\<open>clear\<close> halves the initial size and lets \<open>rehash\<close> double it; with no entries it moves none.\<close>

definition table_clear :: "('k \<Rightarrow> nat \<Rightarrow> nat) \<Rightarrow> ('k, 'v) table \<Rightarrow> ('k, 'v) table option" where
  "table_clear start t =
     rehash start (t\<lparr>entries := [], entriesCount := 0, allocatedEntries := INITIAL_TABLE_SIZE div 2\<rparr>)"

subsection \<open>Iteration\<close>

function iter_next :: "('k, 'v) table \<Rightarrow> nat \<Rightarrow> nat" where
  "iter_next t i =
     (if i + 1 < allocatedEntries t \<and> entries t ! (i + 1) = None then iter_next t (i + 1) else i + 1)"
  by auto
termination
  by (relation "measure (\<lambda>(t, i). allocatedEntries t - i)") auto

declare iter_next.simps [simp del]

definition iter_hasNext :: "('k, 'v) table \<Rightarrow> nat \<Rightarrow> bool" where
  "iter_hasNext t i \<longleftrightarrow> i < allocatedEntries t"

function first_valid :: "('k, 'v) table \<Rightarrow> nat \<Rightarrow> nat" where
  "first_valid t i =
     (if i < allocatedEntries t then if entries t ! i \<noteq> None then i else first_valid t (i + 1) else i)"
  by auto
termination
  by (relation "measure (\<lambda>(t, i). allocatedEntries t - i)") auto

declare first_valid.simps [simp del]

definition iter_begin :: "('k, 'v) table \<Rightarrow> nat" where
  "iter_begin t = (if entriesCount t = 0 then allocatedEntries t else first_valid t 0)"

definition table_first :: "'v \<Rightarrow> ('k, 'v) table \<Rightarrow> 'v" where
  "table_first a t =
     (let i = first_valid t 0
      in if i < allocatedEntries t then (case entries t ! i of None \<Rightarrow> a | Some (k, v) \<Rightarrow> v) else a)"

text \<open>The loop over a table: from \<open>i\<close>, what \<open>key()\<close> and \<open>operator*\<close> return at each step.\<close>

lemma iter_next_greater: "i < iter_next t i"
proof (induction t i rule: iter_next.induct)
  case (1 t i)
  then show ?case by (subst iter_next.simps) auto
qed

function iterate :: "('k, 'v) table \<Rightarrow> nat \<Rightarrow> ('k \<times> 'v) option list" where
  "iterate t i = (if iter_hasNext t i then entries t ! i # iterate t (iter_next t i) else [])"
  by auto
termination
  by (relation "measure (\<lambda>(t, i). allocatedEntries t - i)")
     (auto simp: iter_hasNext_def diff_less_mono2 iter_next_greater)

declare iterate.simps [simp del]

definition table_deleteAll :: "('k \<Rightarrow> nat \<Rightarrow> nat) \<Rightarrow> ('k, 'v) table \<Rightarrow> (('k \<times> 'v) option list \<times> ('k, 'v) table) option" where
  "table_deleteAll start t = do {
     t' \<leftarrow> table_clear start t;
     Some (iterate t (iter_begin t), t') }"

subsection \<open>The two classes\<close>

text \<open>\<open>dictionary<A>\<close> and \<open>map<A, B>\<close>.\<close>

type_synonym 'v dictionary = "(cstr, 'v) table"
type_synonym 'v pointer_map = "(WORD, 'v) table"

definition new_table :: "('k, 'v) table" where
  "new_table = \<lparr>entries = [], entriesCount = 0, allocatedEntries = 0, rehashThreshold = 0\<rparr>"

definition dictionary :: "'v dictionary option" where
  "dictionary = table_clear dict_start new_table"

definition dict_insert :: "cstr \<Rightarrow> 'v \<Rightarrow> 'v dictionary \<Rightarrow> (bool \<times> 'v dictionary) option" where
  "dict_insert = table_insert dict_start"

definition dict_put :: "cstr \<Rightarrow> 'v \<Rightarrow> 'v dictionary \<Rightarrow> (bool \<times> 'v dictionary) option" where
  "dict_put = table_put dict_start"

definition dict_replace :: "'v \<Rightarrow> cstr \<Rightarrow> 'v \<Rightarrow> 'v dictionary \<Rightarrow> ('v \<times> 'v dictionary) option" where
  "dict_replace = table_replace dict_start"

definition dict_get :: "'v \<Rightarrow> cstr \<Rightarrow> 'v dictionary \<Rightarrow> 'v option" where
  "dict_get = table_get dict_start"

definition dict_probe :: "cstr \<Rightarrow> 'v dictionary \<Rightarrow> bool option" where
  "dict_probe = table_probe dict_start"

definition dict_clear :: "'v dictionary \<Rightarrow> 'v dictionary option" where
  "dict_clear = table_clear dict_start"

definition pointer_map :: "'v pointer_map option" where
  "pointer_map = table_clear map_start new_table"

definition map_insert :: "WORD \<Rightarrow> 'v \<Rightarrow> 'v pointer_map \<Rightarrow> (bool \<times> 'v pointer_map) option" where
  "map_insert = table_insert map_start"

definition map_put :: "WORD \<Rightarrow> 'v \<Rightarrow> 'v pointer_map \<Rightarrow> (bool \<times> 'v pointer_map) option" where
  "map_put = table_put map_start"

definition map_get :: "'v \<Rightarrow> WORD \<Rightarrow> 'v pointer_map \<Rightarrow> 'v option" where
  "map_get = table_get map_start"

definition map_probe :: "WORD \<Rightarrow> 'v pointer_map \<Rightarrow> bool option" where
  "map_probe = table_probe map_start"

definition map_clear :: "'v pointer_map \<Rightarrow> 'v pointer_map option" where
  "map_clear = table_clear map_start"

definition map_findEntry :: "WORD \<Rightarrow> 'v pointer_map \<Rightarrow> nat option" where
  "map_findEntry = findEntry map_start"

definition map_tooFull :: "'v pointer_map \<Rightarrow> bool" where
  "map_tooFull = tooFull"

definition map_rehash :: "'v pointer_map \<Rightarrow> 'v pointer_map option" where
  "map_rehash = rehash map_start"

definition map_deleteAll :: "'v pointer_map \<Rightarrow> ((WORD \<times> 'v) option list \<times> 'v pointer_map) option" where
  "map_deleteAll = table_deleteAll map_start"

definition map_begin :: "'v pointer_map \<Rightarrow> nat" where
  "map_begin = iter_begin"

definition map_valid :: "'v pointer_map \<Rightarrow> nat \<Rightarrow> bool" where
  "map_valid = iter_hasNext"

definition map_next :: "'v pointer_map \<Rightarrow> nat \<Rightarrow> nat" where
  "map_next = iter_next"

text \<open>The number of entries; both classes have it under the same name.\<close>

definition table_size :: "('k, 'v) table \<Rightarrow> nat" where
  "table_size t = entriesCount t"

end
