(* ===== verification/Command_Line.thy ===== *)
theory Command_Line
  imports Strings Hash_Tables
begin

section \<open>Command lines: \<open>commandLine::Command\<close>\<close>

text \<open>
  common/command_line.h and command_line.cc. The arguments that \<open>new\<close> allocates are kept in the list
  \<open>heap\<close>, in the order of their allocation; a pointer to one is its position there, and a null pointer
  of a dictionary entry is \<open>None\<close>. C strings are lists of bytes without a NUL; text that goes to the
  standard output is a list of bytes. The width of the console, a call of Windows, is a parameter:
  \<open>None\<close> when the call fails.
\<close>

definition ascii :: "string \<Rightarrow> byte list" where
  "ascii s = List.map of_char s"

subsection \<open>Arguments\<close>

datatype ArgumentClass = AC_STRING | AC_BOOLEAN | AC_HELP

text \<open>\<open>Argument<string>\<close> and \<open>Argument<bool>\<close> add a value to \<open>BaseArgument\<close>; their constructor clears it.\<close>

datatype arg_value = String_Value cstr | Bool_Value bool

record argument =
  argumentClass :: ArgumentClass
  helpText :: cstr
  shortOption :: byte
  longOption :: "cstr option"
  arg_set :: bool
  arg_val :: arg_value

definition Argument :: "ArgumentClass \<Rightarrow> byte \<Rightarrow> cstr option \<Rightarrow> cstr \<Rightarrow> argument" where
  "Argument cls short long help =
     \<lparr>argumentClass = cls, helpText = help, shortOption = short, longOption = long, arg_set = False,
      arg_val = (if cls = AC_STRING then String_Value [] else Bool_Value False)\<rparr>"

definition setValue :: "cstr \<Rightarrow> argument \<Rightarrow> argument" where
  "setValue v a =
     a\<lparr>arg_set := True,
       arg_val := (case argumentClass a of
                    AC_STRING \<Rightarrow> String_Value v
                  | AC_BOOLEAN \<Rightarrow> Bool_Value (if str_equal v (ascii ''false'') then False else True)
                  | AC_HELP \<Rightarrow> Bool_Value (if str_equal v (ascii ''false'') then False else True))\<rparr>"

definition argument_compare :: "argument \<Rightarrow> argument \<Rightarrow> int32" where
  "argument_compare a other =
     (case longOption a of
        Some l \<Rightarrow>
          (case longOption other of
             None \<Rightarrow> 1
           | Some l' \<Rightarrow>
               let result = strcmp l l'
               in if result \<noteq> 0 then result else scast (shortOption other) - scast (shortOption a))
      | None \<Rightarrow>
          (case longOption other of
             Some l' \<Rightarrow> - 1
           | None \<Rightarrow> scast (shortOption other) - scast (shortOption a)))"

subsection \<open>The definition of a command\<close>

record command =
  shortOptions :: "nat option dictionary"
  longOptions :: "nat option dictionary"
  finalMin :: int
  finalMax :: int
  finalArgumentsHelpText :: "cstr option"
  cmd_description :: "cstr option"
  finalArgc :: int
  finalArgv :: "cstr list"
  cmd_command :: cstr
  help_argument :: "nat option"
  allArguments :: "nat vec"
  heap :: "argument list"

definition Command :: "command option" where
  "Command = do {
     short \<leftarrow> dictionary;
     long \<leftarrow> dictionary;
     Some \<lparr>shortOptions = short, longOptions = long, finalMin = 0, finalMax = 0,
       finalArgumentsHelpText = None, cmd_description = None, finalArgc = 0, finalArgv = [],
       cmd_command = [], help_argument = None, allArguments = vec_empty, heap = []\<rparr> }"

definition finalArguments :: "int \<Rightarrow> int \<Rightarrow> cstr \<Rightarrow> command \<Rightarrow> command" where
  "finalArguments mn mx help c = c\<lparr>finalMin := mn, finalMax := mx, finalArgumentsHelpText := Some help\<rparr>"

definition description :: "cstr \<Rightarrow> command \<Rightarrow> command" where
  "description help c = c\<lparr>cmd_description := Some help\<rparr>"

definition new_argument :: "argument \<Rightarrow> command \<Rightarrow> nat \<times> command" where
  "new_argument a c = (length (heap c), c\<lparr>heap := heap c @ [a]\<rparr>)"

definition defineOption :: "byte \<Rightarrow> cstr option \<Rightarrow> nat \<Rightarrow> command \<Rightarrow> (bool \<times> command) option" where
  "defineOption short long arg c = do {
     args \<leftarrow> vec_push_back 0 arg (allArguments c);
     let c = c\<lparr>allArguments := args\<rparr>;
     (fresh, c) \<leftarrow>
       (if short \<noteq> 0 then do {
          (fresh, d) \<leftarrow> dict_put [short] (Some arg) (shortOptions c);
          Some (fresh, c\<lparr>shortOptions := d\<rparr>) }
        else Some (True, c));
     if \<not> fresh then Some (False, c)
     else
       (case long of
          None \<Rightarrow> Some (True, c)
        | Some l \<Rightarrow> do {
            (fresh, d) \<leftarrow> dict_put l (Some arg) (longOptions c);
            Some (fresh, c\<lparr>longOptions := d\<rparr>) }) }"

definition stringArgument :: "byte \<Rightarrow> cstr option \<Rightarrow> cstr \<Rightarrow> command \<Rightarrow> (nat option \<times> command) option" where
  "stringArgument short long help c = do {
     let (arg, c) = new_argument (Argument AC_STRING short long help) c;
     (ok, c) \<leftarrow> defineOption short long arg c;
     Some (if ok then Some arg else None, c) }"

definition booleanArgument :: "byte \<Rightarrow> cstr option \<Rightarrow> cstr \<Rightarrow> command \<Rightarrow> (nat option \<times> command) option" where
  "booleanArgument short long help c = do {
     let (arg, c) = new_argument (Argument AC_BOOLEAN short long help) c;
     (ok, c) \<leftarrow> defineOption short long arg c;
     Some (if ok then Some arg else None, c) }"

definition helpArgument :: "byte \<Rightarrow> cstr option \<Rightarrow> cstr \<Rightarrow> command \<Rightarrow> (bool \<times> command) option" where
  "helpArgument short long help c =
     (if help_argument c \<noteq> None then Some (False, c)
      else do {
        let (arg, c) = new_argument (Argument AC_HELP short long help) c;
        (ok, c) \<leftarrow> defineOption short long arg c;
        Some (if ok then (True, c\<lparr>help_argument := Some arg\<rparr>) else (False, c)) })"

subsection \<open>The help text\<close>

text \<open>\<open>printf("%*c", n, ' ')\<close> and \<open>newLine\<close>.\<close>

definition blanks :: "int \<Rightarrow> byte list" where
  "blanks n = replicate (nat (max 1 (abs n))) 32"

definition newLine :: "int \<Rightarrow> nat \<Rightarrow> byte list" where
  "newLine indent newLineCount = replicate newLineCount 10 @ (if 0 < indent then blanks indent else [])"

text \<open>The loop over white space at the end of a word: what it prints, \<open>alreadyPrinted\<close> and the rest
  of the text. After a carriage return the text advances twice; \<open>None\<close> when that steps over the
  terminator.\<close>

fun wrap_spaces :: "int \<Rightarrow> int \<Rightarrow> cstr \<Rightarrow> (byte list \<times> int \<times> cstr) option" where
  "wrap_spaces indent alreadyPrinted [] = Some ([], alreadyPrinted, [])"
| "wrap_spaces indent alreadyPrinted (c # cs) =
     (if \<not> isspace c then Some ([], alreadyPrinted, c # cs)
      else if c = 10 then do {
        (out, ap, rest) \<leftarrow> wrap_spaces indent 0 cs;
        Some (newLine indent 2 @ out, ap, rest) }
      else if c = 13 then
        (case cs of
           [] \<Rightarrow> None
         | d # ds \<Rightarrow> do {
             (out, ap, rest) \<leftarrow> wrap_spaces indent 0 ds;
             Some (newLine indent 1 @ out, ap, rest) })
      else wrap_spaces indent alreadyPrinted cs)"

lemma wrap_spaces_shorter: "wrap_spaces indent ap s = Some (out, ap', rest) \<Longrightarrow> length rest \<le> length s"
  by (induction indent ap s arbitrary: out rest rule: wrap_spaces.induct)
     (fastforce split: if_splits list.splits bind_splits)+

text \<open>One word of the text.\<close>

definition print_word :: "int \<Rightarrow> int \<Rightarrow> int \<Rightarrow> byte list \<Rightarrow> byte list \<times> int" where
  "print_word indent lineLength alreadyPrinted word =
     (let wordLength = int (length word)
      in if 0 < alreadyPrinted then
           if lineLength < alreadyPrinted + wordLength + 1 then (newLine indent 1 @ word, wordLength)
           else (32 # word, alreadyPrinted + (wordLength + 1))
         else (word, alreadyPrinted + wordLength))"

lemma dropWhile_shorter: "dropWhile P s = c # cs \<Longrightarrow> length cs < length s"
  using length_dropWhile_le [of P s] by simp

text \<open>In the last case the first step of the inner loop, over the blank \<open>c\<close>, is taken at once.\<close>

function wrap_loop :: "int \<Rightarrow> int \<Rightarrow> int \<Rightarrow> cstr \<Rightarrow> byte list option" where
  "wrap_loop indent lineLength alreadyPrinted s =
     (if s = [] then Some []
      else
        (case print_word indent lineLength alreadyPrinted (takeWhile (\<lambda>c. \<not> isspace c) s) of
           (out, alreadyPrinted) \<Rightarrow>
             (case dropWhile (\<lambda>c. \<not> isspace c) s of
                [] \<Rightarrow> Some out
              | c # cs \<Rightarrow>
                  if c = 10 then do {
                    out' \<leftarrow> wrap_loop indent lineLength 0 cs;
                    Some (out @ newLine indent 2 @ out') }
                  else if c = 13 then do {
                    out' \<leftarrow> wrap_loop indent lineLength 0 cs;
                    Some (out @ newLine indent 1 @ out') }
                  else
                    (case wrap_spaces indent alreadyPrinted cs of
                       None \<Rightarrow> None
                     | Some (out1, alreadyPrinted, rest) \<Rightarrow> do {
                         out2 \<leftarrow> wrap_loop indent lineLength alreadyPrinted rest;
                         Some (out @ out1 @ out2) }))))"
  by auto
termination
  by (relation "measure (\<lambda>(i, l, a, s). length s)")
     (auto dest!: dropWhile_shorter wrap_spaces_shorter)

declare wrap_loop.simps [simp del]

definition wrapTo :: "int \<Rightarrow> int \<Rightarrow> int \<Rightarrow> cstr \<Rightarrow> byte list option" where
  "wrapTo alreadyPrinted indent lineLength s = do {
     let lineLength = lineLength - indent;
     let (out, alreadyPrinted) =
       (if alreadyPrinted < indent then (blanks (indent - alreadyPrinted), 0) else ([], alreadyPrinted));
     out' \<leftarrow> wrap_loop indent lineLength alreadyPrinted s;
     Some (out @ out' @ [10]) }"

text \<open>\<open>help()\<close> prints and ends the process: the text, and the command with its arguments sorted.
  One line per argument, in \<open>option_text\<close>.\<close>

definition option_text :: "int \<Rightarrow> int \<Rightarrow> argument \<Rightarrow> byte list option" where
  "option_text indent lineLength a = do {
     let name =
       ascii ''    '' @ (if shortOption a \<noteq> 0 then ascii ''-'' @ [shortOption a] else ascii ''  '') @ ascii ''  '';
     let (long, alreadyPrinted) =
       (case longOption a of
          Some l \<Rightarrow> (ascii ''--'' @ l, 10 + int (length l))
        | None \<Rightarrow> ([], 8));
     let (nl, alreadyPrinted) = (if indent \<le> alreadyPrinted then ([10], 0) else ([], alreadyPrinted));
     out \<leftarrow> wrapTo alreadyPrinted indent lineLength (helpText a);
     Some (name @ long @ nl @ out) }"

fun option_texts :: "int \<Rightarrow> int \<Rightarrow> argument list \<Rightarrow> byte list option" where
  "option_texts indent lineLength [] = Some []"
| "option_texts indent lineLength (a # as) = do {
     out \<leftarrow> option_text indent lineLength a;
     out' \<leftarrow> option_texts indent lineLength as;
     Some (out @ out') }"

text \<open>\<open>indent\<close> and \<open>lineLength\<close> for a console of the given width.\<close>

definition console_layout :: "int option \<Rightarrow> int \<times> int" where
  "console_layout console =
     (case console of
        None \<Rightarrow> (22, 80)
      | Some width \<Rightarrow> (if width - 1 < 60 then (width - 1) sdiv 3 else 22, width - 1))"

abbreviation heap_compare :: "argument list \<Rightarrow> nat \<Rightarrow> nat \<Rightarrow> int32" where
  "heap_compare h i j \<equiv> argument_compare (h ! i) (h ! j)"

definition cmd_help :: "int option \<Rightarrow> command \<Rightarrow> (byte list \<times> command) option" where
  "cmd_help console c = do {
     let (indent, lineLength) = console_layout console;
     let use = ascii ''Use is: '' @ cmd_command c @
       (if 0 < elementCount (allArguments c) then ascii '' [options]'' else []);
     final \<leftarrow>
       (case finalArgumentsHelpText c of
          Some h \<Rightarrow> wrapTo (8 + int (length (cmd_command c))) (lineLength sdiv 4) lineLength h
        | None \<Rightarrow> Some [10]);
     (options, c) \<leftarrow>
       (if 0 < elementCount (allArguments c) then do {
          args \<leftarrow> vec_sort (heap_compare (heap c)) True (allArguments c);
          out \<leftarrow> option_texts indent lineLength (List.map ((!) (heap c)) (vlist args));
          Some (10 # ascii ''Options:'' @ [10] @ out @ [10], c\<lparr>allArguments := args\<rparr>) }
        else Some ([], c));
     about \<leftarrow> (case cmd_description c of Some d \<Rightarrow> wrapTo 0 0 lineLength d | None \<Rightarrow> Some []);
     Some (use @ final @ options @ about, c) }"

subsection \<open>Parsing\<close>

text \<open>How \<open>parse\<close> ends: it returns, or \<open>help()\<close> has ended the process.\<close>

datatype parsed = Returned bool | Exited

definition set_argument :: "nat \<Rightarrow> cstr \<Rightarrow> command \<Rightarrow> command" where
  "set_argument n v c = c\<lparr>heap := (heap c)[n := setValue v (heap c ! n)]\<rparr>"

definition unknown :: "cstr \<Rightarrow> byte list" where
  "unknown key = ascii ''Unknown argument: '' @ key @ [10]"

text \<open>A long argument, after the two dashes. \<open>Inl\<close> holds the message of an unknown one.\<close>

definition long_option :: "cstr \<Rightarrow> command \<Rightarrow> (byte list \<times> command + command) option" where
  "long_option arg c = do {
     let key = takeWhile (\<lambda>b. b \<noteq> 61) arg;
     let v = drop (length key + 1) arg;
     b \<leftarrow> dict_get None key (longOptions c);
     (case b of
        None \<Rightarrow> Some (Inl (unknown key, c))
      | Some n \<Rightarrow> Some (Inr (set_argument n v c))) }"

text \<open>The letters after a single dash; \<open>i\<close> is the index in \<open>argv\<close>, moved by an argument that takes the
  next element for its value.\<close>

fun short_options :: "cstr list \<Rightarrow> nat \<Rightarrow> cstr \<Rightarrow> command \<Rightarrow> (byte list \<times> command + nat \<times> command) option" where
  "short_options argv i [] c = Some (Inr (i, c))"
| "short_options argv i (a # arg) c = do {
     b \<leftarrow> dict_get None [a] (shortOptions c);
     (case b of
        None \<Rightarrow> Some (Inl (unknown [a], c))
      | Some n \<Rightarrow>
          if argumentClass (heap c ! n) = AC_STRING then
            if arg \<noteq> [] then Some (Inr (i, set_argument n arg c))
            else if i < length argv - 1 then Some (Inr (i + 1, set_argument n (argv ! (i + 1)) c))
            else Some (Inr (i, set_argument n [] c))
          else short_options argv i arg (set_argument n [] c)) }"

lemma short_options_index: "short_options argv i arg c = Some (Inr (j, c')) \<Longrightarrow> i \<le> j"
  by (induction argv i arg c rule: short_options.induct) (auto split: if_splits bind_splits option.splits)

text \<open>The loop over \<open>argv\<close>: the index at which the final arguments start.\<close>

function parse_loop :: "cstr list \<Rightarrow> nat \<Rightarrow> command \<Rightarrow> (byte list \<times> command + nat \<times> command) option" where
  "parse_loop argv i c =
     (if i < length argv then
        (case argv ! i of
           a # arg \<Rightarrow>
             if a = 45 then
               (case arg of
                  [] \<Rightarrow> parse_loop argv (i + 1) c
                | b # long \<Rightarrow>
                    if b = 45 then
                      if long = [] then Some (Inr (i, c))
                      else
                        (case long_option long c of
                           None \<Rightarrow> None
                         | Some (Inl e) \<Rightarrow> Some (Inl e)
                         | Some (Inr c) \<Rightarrow> parse_loop argv (i + 1) c)
                    else
                      (case short_options argv i arg c of
                         None \<Rightarrow> None
                       | Some (Inl e) \<Rightarrow> Some (Inl e)
                       | Some (Inr (j, c)) \<Rightarrow> parse_loop argv (j + 1) c))
             else Some (Inr (i, c))
         | [] \<Rightarrow> Some (Inr (i, c)))
      else Some (Inr (i, c)))"
  by pat_completeness auto
termination
  by (relation "measure (\<lambda>(argv, i, c). length argv - i)") (auto dest!: short_options_index simp del: short_options.simps)

declare parse_loop.simps [simp del]

text \<open>\<open>parse\<close> on \<open>argv\<close>, which holds at least the command's own name.\<close>

definition parse :: "int option \<Rightarrow> cstr list \<Rightarrow> command \<Rightarrow> (parsed \<times> byte list \<times> command) option" where
  "parse console argv c = do {
     r \<leftarrow> parse_loop argv 1 (c\<lparr>cmd_command := hd argv\<rparr>);
     (case r of
        Inl (message, c) \<Rightarrow> Some (Returned False, message, c)
      | Inr (i, c) \<Rightarrow> do {
          let c = c\<lparr>finalArgv := drop i argv, finalArgc := int (length argv) - int i\<rparr>;
          if (case help_argument c of None \<Rightarrow> False | Some h \<Rightarrow> arg_val (heap c ! h) = Bool_Value True)
          then do {
            (out, c) \<leftarrow> cmd_help console c;
            Some (Exited, out, c) }
          else Some (Returned (finalMin c \<le> finalArgc c \<and> finalArgc c \<le> finalMax c), [], c) }) }"

end
