(* ===== verification/Hash_Laws.thy ===== *)
theory Hash_Laws
  imports Hash_Tables
begin

section \<open>The hash table as a finite map\<close>

text \<open>
  A table stands for the finite map of its filled entries. The invariant: the keys are distinct and
  every key is reached from its start index over filled entries; the count is right and there is a
  free entry, so that every search ends. All laws are proved for any start index that stays inside a
  table whose size is a power of two (locale \<open>probing\<close>), and hold for both classes.
\<close>

subsection \<open>Start indices\<close>

locale probing =
  fixes start :: "'k \<Rightarrow> nat \<Rightarrow> nat"
  assumes start_less: "k \<le> 30 \<Longrightarrow> start key (2 ^ k) < 2 ^ k"

lemma unat_and_mask_less: "unat (w AND (2 ^ k - 1)) < 2 ^ k"
proof -
  have "w AND (2 ^ k - 1) = take_bit k w" by (simp add: take_bit_eq_mask mask_eq_exp_minus_1)
  then have "unat (w AND (2 ^ k - 1)) = take_bit k (unat w)" by (simp add: unsigned_take_bit_eq)
  then show ?thesis by simp
qed

lemma of_nat_power_2: "of_nat (2 ^ k) = (2 ^ k :: 'a :: len word)"
  by simp

interpretation dictionary: probing dict_start
  by unfold_locales (simp only: dict_start_def of_nat_power_2 unat_and_mask_less)

interpretation pointer_map: probing map_start
  by unfold_locales (simp only: map_start_def of_nat_power_2 unat_and_mask_less)

subsection \<open>The invariant\<close>

definition filled :: "('k \<times> 'v) option list \<Rightarrow> ('k \<times> 'v) list" where
  "filled es = List.map_filter id es"

definition table_map :: "('k, 'v) table \<Rightarrow> 'k \<rightharpoonup> 'v" where
  "table_map t = map_of (filled (entries t))"

text \<open>The \<open>d\<close>-th entry a search that starts at \<open>s\<close> looks at, and the number of entries it looks at
  before index \<open>i\<close>.\<close>

definition slot :: "nat \<Rightarrow> nat \<Rightarrow> nat \<Rightarrow> nat" where
  "slot n s d = (s + d) mod n"

definition distance :: "nat \<Rightarrow> nat \<Rightarrow> nat \<Rightarrow> nat" where
  "distance n s i = (i + n - s) mod n"

definition unique_keys :: "('k \<times> 'v) option list \<Rightarrow> bool" where
  "unique_keys es \<longleftrightarrow>
     (\<forall>i j k v w. i < length es \<and> j < length es \<and> es ! i = Some (k, v) \<and> es ! j = Some (k, w) \<longrightarrow> i = j)"

definition reached :: "('k \<Rightarrow> nat \<Rightarrow> nat) \<Rightarrow> ('k \<times> 'v) option list \<Rightarrow> 'k \<Rightarrow> nat \<Rightarrow> bool" where
  "reached start es key i \<longleftrightarrow>
     (\<forall>d < distance (length es) (start key (length es)) i. es ! slot (length es) (start key (length es)) d \<noteq> None)"

definition well_probed :: "('k \<Rightarrow> nat \<Rightarrow> nat) \<Rightarrow> ('k \<times> 'v) option list \<Rightarrow> bool" where
  "well_probed start es \<longleftrightarrow>
     unique_keys es \<and> (\<forall>i k v. i < length es \<and> es ! i = Some (k, v) \<longrightarrow> reached start es k i)"

lemma distance_cases:
  assumes "s < n" "i < n"
  shows "distance n s i = (if s \<le> i then i - s else i + n - s)"
proof (cases "s \<le> i")
  case True
  then have e: "i + n - s = (i - s) + n" by simp
  have "(i - s + n) mod n = i - s"
    using assms by (metis mod_add_self2 mod_less less_imp_diff_less)
  then show ?thesis unfolding distance_def e using True by simp
next
  case False
  then show ?thesis using assms by (simp add: distance_def)
qed

lemma slot_cases: "s < n \<Longrightarrow> d < n \<Longrightarrow> slot n s d = (if s + d < n then s + d else s + d - n)"
  by (simp add: slot_def mod_if)

lemma slot_distance: "s < n \<Longrightarrow> i < n \<Longrightarrow> slot n s (distance n s i) = i"
  by (auto simp: distance_cases slot_cases split: if_splits)

lemma distance_slot: "s < n \<Longrightarrow> d < n \<Longrightarrow> distance n s (slot n s d) = d"
  by (auto simp: distance_cases slot_cases split: if_splits)

lemma slot_less: "0 < n \<Longrightarrow> slot n s d < n"
  by (simp add: slot_def)

lemma slot_inj: "s < n \<Longrightarrow> d < n \<Longrightarrow> e < n \<Longrightarrow> slot n s d = slot n s e \<Longrightarrow> d = e"
  by (metis distance_slot)

lemma distance_less: "0 < n \<Longrightarrow> distance n s i < n"
  by (simp add: distance_def)

lemma slot_step: "slot n s (Suc d) = (if n \<le> slot n s d + 1 then 0 else slot n s d + 1)" if "0 < n"
  using that by (simp add: slot_def mod_Suc) (metis Suc_leI le_antisym mod_less_divisor not_less_eq_eq)

text \<open>Where a search ends: at the first entry on its way that is free or holds the key.\<close>

definition stops :: "('k \<times> 'v) option list \<Rightarrow> 'k \<Rightarrow> nat \<Rightarrow> bool" where
  "stops es key x \<longleftrightarrow> (case es ! x of None \<Rightarrow> True | Some (k, v) \<Rightarrow> k = key)"

lemma find_entry_stops:
  assumes "0 < n" "d \<le> m" "stops es key (slot n s m)" "\<forall>e. d \<le> e \<and> e < m \<longrightarrow> \<not> stops es key (slot n s e)"
  shows "find_entry es n key (slot n s d) = Some (slot n s m)"
  using assms(2-4)
proof (induction "m - d" arbitrary: d)
  case 0
  then show ?case
    by (subst find_entry.simps) (auto simp: stops_def split: option.splits)
next
  case (Suc j)
  then have d: "d < m" "\<not> stops es key (slot n s d)" by auto
  then obtain k v where kv: "es ! slot n s d = Some (k, v)" "k \<noteq> key"
    by (auto simp: stops_def split: option.splits)
  have "find_entry es n key (slot n s (Suc d)) = Some (slot n s m)"
    using Suc d by auto
  then show ?case
    using kv slot_step [OF assms(1)] by (subst find_entry.simps) simp
qed

lemma find_entry_law:
  assumes "s < n" "n = length es" "x < n" "stops es key x"
  shows "\<exists>m < n. find_entry es n key s = Some (slot n s m) \<and> stops es key (slot n s m) \<and>
    (\<forall>d < m. \<not> stops es key (slot n s d))"
proof -
  define m where "m = (LEAST m. stops es key (slot n s m))"
  have "stops es key (slot n s (distance n s x))" using assms slot_distance [of s n x] by simp
  then have m: "stops es key (slot n s m)" "m \<le> distance n s x"
    unfolding m_def by (rule LeastI, rule Least_le)
  have before: "\<not> stops es key (slot n s d)" if "d < m" for d
    using that not_less_Least unfolding m_def by blast
  have "m < n" using m(2) distance_less [of n s x] assms(1) by simp
  moreover have "find_entry es n key (slot n s 0) = Some (slot n s m)"
    using assms(1) m(1) before by (intro find_entry_stops) auto
  moreover have "slot n s 0 = s" using assms(1) by (simp add: slot_def)
  ultimately show ?thesis using m before by auto
qed

subsection \<open>Entries as a map\<close>

lemma filled_simps [simp]:
  "filled [] = []" "filled (None # es) = filled es" "filled (Some kv # es) = kv # filled es"
  "filled (replicate n None) = []"
  by (simp_all add: filled_def map_filter_simps) (induction n; simp add: map_filter_simps)

lemma filled_append [simp]: "filled (es @ fs) = filled es @ filled fs"
  by (induction es) (auto simp: filled_def map_filter_simps split: option.splits)

lemma set_filled: "set (filled es) = {kv. Some kv \<in> set es}"
proof (induction es)
  case (Cons e es)
  then show ?case by (cases e) auto
qed simp

lemma length_filled: "length (filled es) + count_list es None = length es"
proof (induction es)
  case (Cons e es)
  then show ?case by (cases e) simp_all
qed simp

lemma free_slot: "length (filled es) < length es \<longleftrightarrow> None \<in> set es"
  using length_filled [of es] count_list_0_iff [of es None] by (auto simp: neq0_conv [symmetric] simp del: neq0_conv)

lemma filled_update:
  assumes "x < length es"
  shows "es ! x = None \<Longrightarrow> length (filled (es[x := Some kv])) = length (filled es) + 1"
    and "es ! x = Some kw \<Longrightarrow> length (filled (es[x := Some kv])) = length (filled es)"
proof -
  have "es = take x es @ es ! x # drop (Suc x) es" using assms by (rule id_take_nth_drop)
  then have "filled es = filled (take x es) @ filled [es ! x] @ filled (drop (Suc x) es)"
    by (metis append_Cons append_Nil filled_append)
  moreover have "filled (es[x := Some kv]) = filled (take x es) @ kv # filled (drop (Suc x) es)"
    using assms by (simp add: upd_conv_take_nth_drop)
  ultimately show "es ! x = None \<Longrightarrow> length (filled (es[x := Some kv])) = length (filled es) + 1"
    "es ! x = Some kw \<Longrightarrow> length (filled (es[x := Some kv])) = length (filled es)"
    by simp_all
qed

lemma unique_keysD:
  "unique_keys es \<Longrightarrow> i < length es \<Longrightarrow> j < length es \<Longrightarrow> es ! i = Some (k, v) \<Longrightarrow> es ! j = Some (k, w) \<Longrightarrow> i = j"
  unfolding unique_keys_def by blast

lemma map_of_filled:
  assumes "unique_keys es"
  shows "map_of (filled es) k = Some v \<longleftrightarrow> (\<exists>i < length es. es ! i = Some (k, v))"
proof
  assume "map_of (filled es) k = Some v"
  then have "Some (k, v) \<in> set es" by (auto dest!: map_of_SomeD simp: set_filled)
  then show "\<exists>i < length es. es ! i = Some (k, v)" by (simp add: in_set_conv_nth)
next
  assume "\<exists>i < length es. es ! i = Some (k, v)"
  then obtain i where i: "i < length es" "es ! i = Some (k, v)" by blast
  then have "(k, v) \<in> set (filled es)" unfolding set_filled by (metis mem_Collect_eq nth_mem)
  then obtain w where w: "map_of (filled es) k = Some w" by (metis map_of_eq_None_iff fst_conv image_eqI option.exhaust)
  then have "Some (k, w) \<in> set es" by (auto dest!: map_of_SomeD simp: set_filled)
  then obtain j where "j < length es" "es ! j = Some (k, w)" by (auto simp: in_set_conv_nth)
  then show "map_of (filled es) k = Some v"
    using unique_keysD [OF assms] i w by fastforce
qed

lemma map_of_filled_update:
  assumes u: "unique_keys es" and x: "x < length es"
    and other: "\<And>i v. i < length es \<Longrightarrow> es ! i = Some (key, v) \<Longrightarrow> i = x"
    and kept: "\<And>k v. es ! x = Some (k, v) \<Longrightarrow> k = key"
  shows "unique_keys (es[x := Some (key, a)])"
    and "map_of (filled (es[x := Some (key, a)])) = (map_of (filled es))(key \<mapsto> a)"
proof -
  show u': "unique_keys (es[x := Some (key, a)])"
    unfolding unique_keys_def
  proof (intro allI impI)
    fix i j k v w
    assume *: "i < length (es[x := Some (key, a)]) \<and> j < length (es[x := Some (key, a)]) \<and>
        es[x := Some (key, a)] ! i = Some (k, v) \<and> es[x := Some (key, a)] ! j = Some (k, w)"
    then show "i = j"
      using x other unique_keysD [OF u, of i j k v w] by (auto simp: nth_list_update split: if_splits)
  qed
  show "map_of (filled (es[x := Some (key, a)])) = (map_of (filled es))(key \<mapsto> a)"
  proof (rule ext)
    fix k
    have "map_of (filled (es[x := Some (key, a)])) k = Some v \<longleftrightarrow> ((map_of (filled es))(key \<mapsto> a)) k = Some v" for v
    proof (cases "k = key")
      case True
      have "(\<exists>i < length (es[x := Some (key, a)]). es[x := Some (key, a)] ! i = Some (key, v)) \<longleftrightarrow> v = a"
        using x other by (metis length_list_update nth_list_update_eq nth_list_update_neq option.inject prod.inject)
      then show ?thesis unfolding map_of_filled [OF u'] using True by auto
    next
      case False
      have "es[x := Some (key, a)] ! i = Some (k, v) \<longleftrightarrow> es ! i = Some (k, v)" for i
        using False kept x by (cases "i = x") auto
      then show ?thesis unfolding map_of_filled [OF u'] using False map_of_filled [OF u, of k v] by simp
    qed
    then show "map_of (filled (es[x := Some (key, a)])) k = ((map_of (filled es))(key \<mapsto> a)) k"
      by (metis not_None_eq)
  qed
qed

lemma unique_keys_Cons:
  assumes "unique_keys (e # es)"
  shows "unique_keys es" "e = Some (k, v) \<Longrightarrow> k \<notin> fst ` set (filled es)"
proof -
  show "unique_keys es"
    unfolding unique_keys_def
    using unique_keysD [OF assms, of "Suc i" "Suc j" for i j] by fastforce
  show "k \<notin> fst ` set (filled es)" if e: "e = Some (k, v)"
  proof
    assume "k \<in> fst ` set (filled es)"
    then obtain w where "Some (k, w) \<in> set es" by (auto simp: set_filled)
    then obtain i where "i < length es" "es ! i = Some (k, w)" by (auto simp: in_set_conv_nth)
    then show False using unique_keysD [OF assms, of 0 "Suc i" k v w] e by simp
  qed
qed

lemma distinct_filled: "unique_keys es \<Longrightarrow> distinct (map fst (filled es))"
proof (induction es)
  case (Cons e es)
  note u = unique_keys_Cons [OF Cons.prems]
  show ?case
  proof (cases e)
    case (Some kv)
    obtain k v where kv: "kv = (k, v)" by fastforce
    show ?thesis using u(2) [of k v] Some kv Cons.IH u(1) by simp
  qed (use Cons.IH u(1) in simp)
qed simp

lemma card_dom_filled:
  assumes "unique_keys es"
  shows "card (dom (map_of (filled es))) = length (filled es)"
  using distinct_filled [OF assms] by (metis distinct_card dom_map_of_conv_image_fst length_map list.set_map)

lemma well_probed_update:
  assumes w: "well_probed start es" and x: "x < length es"
    and other: "\<And>i v. i < length es \<Longrightarrow> es ! i = Some (key, v) \<Longrightarrow> i = x"
    and kept: "\<And>k v. es ! x = Some (k, v) \<Longrightarrow> k = key" and path: "reached start es key x"
  shows "well_probed start (es[x := Some (key, a)])"
proof -
  have mono: "reached start es k i \<Longrightarrow> reached start (es[x := Some (key, a)]) k i" for k i
    using x by (auto simp: reached_def nth_list_update)
  have "unique_keys (es[x := Some (key, a)])"
    using w by (intro map_of_filled_update(1) x other kept) (simp_all add: well_probed_def)
  moreover have "reached start (es[x := Some (key, a)]) k i"
    if "i < length es" "es[x := Some (key, a)] ! i = Some (k, v)" for i k v
  proof (cases "i = x")
    case True
    then have "k = key" using that x by simp
    then show ?thesis using mono path True by simp
  next
    case False
    then have "es ! i = Some (k, v)" using that by simp
    then show ?thesis using mono w that(1) unfolding well_probed_def by blast
  qed
  ultimately show ?thesis unfolding well_probed_def by auto
qed

context probing
begin

lemma search_law:
  assumes w: "well_probed start es" and n: "length es = 2 ^ k" "k \<le> 30" and free: "None \<in> set es"
  shows "\<exists>x < length es. find_entry es (length es) key (start key (length es)) = Some x \<and> reached start es key x \<and>
    es ! x = map_option (Pair key) (map_of (filled es) key)"
proof -
  let ?n = "length es" and ?s = "start key (length es)"
  have s: "?s < ?n" using start_less n by simp
  obtain j where j: "j < ?n" "es ! j = None" using free by (auto simp: in_set_conv_nth)
  then obtain m where m: "m < ?n" "find_entry es ?n key ?s = Some (slot ?n ?s m)" "stops es key (slot ?n ?s m)"
      "\<forall>d < m. \<not> stops es key (slot ?n ?s d)"
    using find_entry_law [OF s refl j(1)] by (auto simp: stops_def)
  let ?x = "slot ?n ?s m"
  have x: "?x < ?n" using slot_less s by (metis gr_zeroI not_less_zero)
  have dist: "distance ?n ?s ?x = m" by (rule distance_slot [OF s m(1)])
  have "es ! slot ?n ?s d \<noteq> None" if "d < m" for d
    using m(4) [rule_format, OF that] by (auto simp: stops_def split: option.splits)
  then have path: "reached start es key ?x" by (simp add: reached_def dist)
  have u: "unique_keys es" using w by (simp add: well_probed_def)
  have "es ! ?x = map_option (Pair key) (map_of (filled es) key)"
  proof (cases "map_of (filled es) key")
    case None
    then have "es ! ?x \<noteq> Some (key, v)" for v using map_of_filled [OF u, of key v] x by auto
    then show ?thesis using None m(3) by (auto simp: stops_def split: option.splits)
  next
    case (Some v)
    then obtain i where i: "i < ?n" "es ! i = Some (key, v)" using map_of_filled [OF u] by blast
    let ?d = "distance ?n ?s i"
    have di: "slot ?n ?s ?d = i" by (rule slot_distance [OF s i(1)])
    have "stops es key (slot ?n ?s ?d)" using di i(2) by (simp add: stops_def)
    then have "m \<le> ?d" using m(4) not_less by blast
    have "es ! ?x \<noteq> None"
    proof (cases "m = ?d")
      case True
      then show ?thesis using di i(2) by simp
    next
      case False
      then have "m < ?d" using \<open>m \<le> ?d\<close> by simp
      then show ?thesis using w i unfolding well_probed_def reached_def by blast
    qed
    then obtain w' where "es ! ?x = Some (key, w')" using m(3) by (auto simp: stops_def split: option.splits)
    moreover from this have "?x = i" using unique_keysD [OF u x i(1)] i(2) by blast
    ultimately show ?thesis using i(2) Some by simp
  qed
  then show ?thesis using m(2) x path by blast
qed

end

subsection \<open>Rehashing and insertion\<close>

definition filling :: "('k \<Rightarrow> nat \<Rightarrow> nat) \<Rightarrow> ('k, 'v) table \<Rightarrow> bool" where
  "filling start t \<longleftrightarrow>
     length (entries t) = allocatedEntries t \<and> (\<exists>k. 6 \<le> k \<and> k \<le> 28 \<and> allocatedEntries t = 2 ^ k) \<and>
     well_probed start (entries t) \<and> entriesCount t = length (filled (entries t))"

text \<open>The invariant of a table between operations.\<close>

definition table_ok :: "('k \<Rightarrow> nat \<Rightarrow> nat) \<Rightarrow> ('k, 'v) table \<Rightarrow> bool" where
  "table_ok start t \<longleftrightarrow>
     filling start t \<and> rehashThreshold t = threshold (allocatedEntries t) \<and>
     int (entriesCount t) \<le> rehashThreshold t + 1 \<and>
     (allocatedEntries t = 64 \<or> 7 * allocatedEntries t \<le> 16 * entriesCount t)"

lemma threshold_power:
  assumes "k \<le> 28" "6 \<le> k"
  shows "threshold (2 ^ k) = 7 * 2 ^ (k - 3)"
proof -
  have "(of_nat (2 ^ k) * (push_bit REHASH_SHIFT 1 - 1) :: int32) = word_of_int (7 * 2 ^ k)"
    by (simp add: REHASH_SHIFT_def mult.commute)
  moreover have "sint (word_of_int (7 * 2 ^ k) :: int32) = 7 * 2 ^ k"
  proof -
    have pow: "(2 :: int) ^ k \<le> 268435456" "(0 :: int) \<le> 2 ^ k"
      using power_increasing [OF assms(1), of "2 :: int"] by simp_all
    have lower: "- 2147483648 \<le> (7 * 2 ^ k :: int)" using pow(2) by linarith
    then have "signed_take_bit 31 (7 * 2 ^ k :: int) = 7 * 2 ^ k" using pow lower by (intro signed_take_bit_int_eq_self) simp_all
    then show ?thesis by (simp only: signed_of_int) simp
  qed
  ultimately have "threshold (2 ^ k) = drop_bit 3 (7 * 2 ^ k)"
    by (simp only: threshold_def sint_signed_drop_bit_eq REHASH_SHIFT_def)
  also have "\<dots> = 7 * 2 ^ k div 8" by (simp add: drop_bit_eq_div)
  also have "(2 :: int) ^ k = 8 * 2 ^ (k - 3)"
    using assms(2) power_add [of "2 :: int" 3 "k - 3"] by simp
  finally show ?thesis by simp
qed

lemma filling_unique: "filling start t \<Longrightarrow> unique_keys (entries t)"
  by (simp add: filling_def well_probed_def)

lemma filling_free: "filling start t \<Longrightarrow> entriesCount t < allocatedEntries t \<Longrightarrow> None \<in> set (entries t)"
  by (simp add: filling_def free_slot [symmetric])

lemma filling_update:
  assumes t: "filling start t" and x: "x < allocatedEntries t" and "reached start (entries t) key x"
    and e: "entries t ! x = map_option (Pair key) (table_map t key)"
  shows "well_probed start ((entries t)[x := Some (key, a)])"
    and "map_of (filled ((entries t)[x := Some (key, a)])) = (table_map t)(key \<mapsto> a)"
    and "length (filled ((entries t)[x := Some (key, a)])) =
      entriesCount t + (if table_map t key = None then 1 else 0)"
proof -
  have len: "x < length (entries t)" using t x by (simp add: filling_def)
  have other: "i = x" if "i < length (entries t)" "entries t ! i = Some (key, v)" for i v
  proof -
    have "table_map t key = Some v"
      using map_of_filled [OF filling_unique [OF t]] that by (auto simp: table_map_def)
    then show ?thesis using unique_keysD [OF filling_unique [OF t] that(1) len that(2)] e by auto
  qed
  have kept: "k = key" if "entries t ! x = Some (k, v)" for k v
    using that e by (metis map_option_eq_Some prod.inject)
  show "well_probed start ((entries t)[x := Some (key, a)])"
    using well_probed_update [OF _ len other kept assms(3), where a = a] t by (simp add: filling_def)
  show "map_of (filled ((entries t)[x := Some (key, a)])) = (table_map t)(key \<mapsto> a)"
    using map_of_filled_update(2) [OF filling_unique [OF t] len other kept, where a = a] by (simp add: table_map_def)
  show "length (filled ((entries t)[x := Some (key, a)])) = entriesCount t + (if table_map t key = None then 1 else 0)"
    using filled_update [OF len] e t by (auto simp: filling_def)
qed

context probing
begin

lemma findEntry_law:
  assumes "filling start t" "entriesCount t < allocatedEntries t"
  shows "\<exists>x < allocatedEntries t. findEntry start key t = Some x \<and> reached start (entries t) key x \<and>
    entries t ! x = map_option (Pair key) (table_map t key)"
proof -
  obtain k where "length (entries t) = 2 ^ k" "k \<le> 30" "length (entries t) = allocatedEntries t"
    using assms(1) by (auto simp: filling_def)
  moreover have "well_probed start (entries t)" using assms(1) by (simp add: filling_def)
  ultimately show ?thesis
    using search_law [of "entries t" k key] filling_free [OF assms] by (simp add: findEntry_def table_map_def)
qed

lemma fill_law:
  assumes "filling start t" "x < allocatedEntries t" "reached start (entries t) key x"
    "entries t ! x = map_option (Pair key) (table_map t key)" "table_map t key = None"
  shows "filling start (fill_entry x key a t)" "table_map (fill_entry x key a t) = (table_map t)(key \<mapsto> a)"
  using filling_update [OF assms(1-4), of a] assms(1,5)
  by (simp_all add: filling_def fill_entry_def table_map_def)

lemma insert_room:
  assumes "filling start t" "entriesCount t < allocatedEntries t" "\<not> tooFull t" "table_map t key = None"
  shows "\<exists>t'. table_insert start key a t = Some (True, t') \<and> filling start t' \<and>
    table_map t' = (table_map t)(key \<mapsto> a) \<and> entriesCount t' = entriesCount t + 1 \<and>
    allocatedEntries t' = allocatedEntries t \<and> rehashThreshold t' = rehashThreshold t"
proof -
  obtain x where x: "x < allocatedEntries t" "findEntry start key t = Some x" "reached start (entries t) key x"
      "entries t ! x = map_option (Pair key) (table_map t key)"
    using findEntry_law [OF assms(1,2)] by blast
  have "table_insert start key a t = Some (True, fill_entry x key a t)"
    using x(2,4) assms(3,4) by (subst table_insert.simps) (simp add: fill_entry_def)
  then show ?thesis
    using fill_law [OF assms(1) x(1,3,4) assms(4), of a] by (auto simp: fill_entry_def)
qed

lemma reinsert_law:
  assumes "filling start t" "unique_keys old" "length (filled old) = e"
    "\<forall>(k, v) \<in> set (filled old). table_map t k = None"
    "int (entriesCount t + e) \<le> rehashThreshold t + 1" "entriesCount t + e < allocatedEntries t"
  shows "\<exists>t'. reinsert (table_insert start) old e t = Some t' \<and> filling start t' \<and>
    table_map t' = table_map t ++ map_of (filled old) \<and> entriesCount t' = entriesCount t + e \<and>
    allocatedEntries t' = allocatedEntries t \<and> rehashThreshold t' = rehashThreshold t"
  using assms
proof (induction old arbitrary: e t)
  case Nil
  then show ?case by simp
next
  case (Cons slot old)
  note u = unique_keys_Cons [OF Cons.prems(2)]
  show ?case
  proof (cases slot)
    case None
    then have "reinsert (table_insert start) (slot # old) e t = reinsert (table_insert start) old e t"
      by (cases e) simp_all
    then show ?thesis using Cons.IH [OF Cons.prems(1) u(1)] Cons.prems(3-6) None by simp
  next
    case (Some kv)
    obtain k v where kv: "kv = (k, v)" by fastforce
    obtain n where n: "e = Suc n" "length (filled old) = n" using Cons.prems(3) Some by simp
    have new: "table_map t k = None" using Cons.prems(4) Some kv by simp
    have "\<not> tooFull t" "entriesCount t < allocatedEntries t" using Cons.prems(5,6) n by (simp_all add: tooFull_def)
    then obtain t1 where t1: "table_insert start k v t = Some (True, t1)" "filling start t1"
        "table_map t1 = (table_map t)(k \<mapsto> v)" "entriesCount t1 = entriesCount t + 1"
        "allocatedEntries t1 = allocatedEntries t" "rehashThreshold t1 = rehashThreshold t"
      using insert_room [OF Cons.prems(1) _ _ new] by blast
    have fresh: "k \<notin> fst ` set (filled old)" using u(2) Some kv by simp
    have absent: "\<forall>(k, v) \<in> set (filled old). table_map t1 k = None"
      using Cons.prems(4) fresh Some t1(3) by (force simp: image_iff)
    obtain t2 where t2: "reinsert (table_insert start) old n t1 = Some t2" "filling start t2"
        "table_map t2 = table_map t1 ++ map_of (filled old)" "entriesCount t2 = entriesCount t1 + n"
        "allocatedEntries t2 = allocatedEntries t1" "rehashThreshold t2 = rehashThreshold t1"
      using Cons.IH [OF t1(2) u(1) n(2) absent] Cons.prems(5,6) t1(4-6) n(1) by auto
    have "k \<notin> dom (map_of (filled old))" using fresh by (simp add: dom_map_of_conv_image_fst)
    then have "table_map t1 ++ map_of (filled old) = table_map t ++ map_of (filled (slot # old))"
      unfolding t1(3) Some kv by (simp add: map_add_upd_left)
    then have "table_map t2 = table_map t ++ map_of (filled (slot # old))" using t2(3) by simp
    moreover have "reinsert (table_insert start) (slot # old) e t = Some t2"
      using t1(1) t2(1) n(1) Some kv by simp
    ultimately show ?thesis using t2(2,4-6) t1(4-6) n(1) by (intro exI [of _ t2]) simp
  qed
qed

lemma rehash_law:
  assumes "unique_keys (entries t)" "entriesCount t = length (filled (entries t))"
    "allocatedEntries t = 2 ^ k" "5 \<le> k" "k \<le> 27"
    "int (entriesCount t) \<le> rehashThreshold t + 1 \<or> entriesCount t = 0" "entriesCount t < 2 * allocatedEntries t"
  shows "\<exists>t'. rehash start t = Some t' \<and> filling start t' \<and> table_map t' = table_map t \<and>
    entriesCount t' = entriesCount t \<and> allocatedEntries t' = 2 * allocatedEntries t \<and>
    rehashThreshold t' = threshold (allocatedEntries t')"
proof -
  define t0 where "t0 = t\<lparr>allocatedEntries := allocatedEntries t * 2,
    entries := replicate (allocatedEntries t * 2) None, entriesCount := 0\<rparr>"
  have "well_probed start (replicate n None)" for n
    by (auto simp: well_probed_def unique_keys_def)
  then have t0: "filling start t0"
    using assms(3-5) by (auto simp: filling_def t0_def intro!: exI [of _ "Suc k"])
  have empty: "table_map t0 = Map.empty" by (simp add: table_map_def t0_def)
  have "\<exists>t'. reinsert (table_insert start) (entries t) (entriesCount t) t0 = Some t' \<and> filling start t' \<and>
    table_map t' = table_map t0 ++ map_of (filled (entries t)) \<and> entriesCount t' = entriesCount t0 + entriesCount t \<and>
    allocatedEntries t' = allocatedEntries t0 \<and> rehashThreshold t' = rehashThreshold t0"
  proof (cases "entriesCount t = 0")
    case True
    then have "filled (entries t) = []" using assms(2) by simp
    then show ?thesis using True t0 by (auto simp: t0_def)
  next
    case False
    then show ?thesis
      using assms by (intro reinsert_law t0) (simp_all add: empty, simp_all add: t0_def)
  qed
  then obtain t' where t': "reinsert (table_insert start) (entries t) (entriesCount t) t0 = Some t'"
      "filling start t'" "table_map t' = table_map t0 ++ map_of (filled (entries t))"
      "entriesCount t' = entriesCount t0 + entriesCount t" "allocatedEntries t' = allocatedEntries t0"
    by blast
  have "rehash start t = Some (t'\<lparr>rehashThreshold := threshold (allocatedEntries t')\<rparr>)"
    using t'(1) by (simp add: rehash_def rehash_by_def t0_def)
  moreover have "table_map t' = table_map t" unfolding t'(3) empty by (simp add: table_map_def)
  ultimately show ?thesis
    using t'(2,4,5) by (simp add: filling_def table_map_def t0_def)
qed

lemma clear_law: "\<exists>t'. table_clear start t = Some t' \<and> table_ok start t' \<and> table_map t' = Map.empty"
proof -
  let ?t = "t\<lparr>entries := [], entriesCount := 0, allocatedEntries := INITIAL_TABLE_SIZE div 2\<rparr>"
  have "\<exists>t'. rehash start ?t = Some t' \<and> filling start t' \<and> table_map t' = table_map ?t \<and>
    entriesCount t' = entriesCount ?t \<and> allocatedEntries t' = 2 * allocatedEntries ?t \<and>
    rehashThreshold t' = threshold (allocatedEntries t')"
    by (rule rehash_law [of _ 5]) (simp_all add: unique_keys_def INITIAL_TABLE_SIZE_def)
  then show ?thesis
    using threshold_power [of 6]
    by (auto simp: table_clear_def table_ok_def table_map_def INITIAL_TABLE_SIZE_def)
qed

text \<open>The size of the table follows the number of entries: below \<open>2 ^ 26\<close> entries a rehash never
  passes \<open>2 ^ 28\<close>, the last size whose threshold an \<open>int\<close> can compute.\<close>

lemma ok_room:
  assumes "table_ok start t"
  shows "entriesCount t < allocatedEntries t"
    and "tooFull t \<Longrightarrow> entriesCount t < 2 ^ 26 \<Longrightarrow> \<exists>k. allocatedEntries t = 2 ^ k \<and> 6 \<le> k \<and> k \<le> 27"
    and "tooFull t \<Longrightarrow> 7 * allocatedEntries t < 8 * entriesCount t"
proof -
  obtain k where k: "6 \<le> k" "k \<le> 28" "allocatedEntries t = 2 ^ k"
    using assms by (auto simp: table_ok_def filling_def)
  have p: "(2 :: nat) ^ k = 8 * 2 ^ (k - 3)" using k(1) power_add [of "2 :: nat" 3 "k - 3"] by simp
  have "8 \<le> (2 :: nat) ^ (k - 3)" using k(1) power_increasing [of 3 "k - 3" "2 :: nat"] by simp
  moreover have thr: "rehashThreshold t = int (7 * 2 ^ (k - 3))"
    using assms k threshold_power [OF k(2,1)] by (simp add: table_ok_def)
  moreover have "int (entriesCount t) \<le> rehashThreshold t + 1" using assms by (simp add: table_ok_def)
  ultimately show "entriesCount t < allocatedEntries t"
    unfolding k(3) p thr by linarith
  show "7 * allocatedEntries t < 8 * entriesCount t" if "tooFull t"
  proof -
    have "int (7 * 2 ^ (k - 3)) < int (entriesCount t)" using that thr by (simp only: tooFull_def)
    then have "7 * 2 ^ (k - 3) < entriesCount t" by (simp only: of_nat_less_iff)
    then show ?thesis unfolding k(3) p by linarith
  qed
  show "\<exists>k. allocatedEntries t = 2 ^ k \<and> 6 \<le> k \<and> k \<le> 27" if "tooFull t" "entriesCount t < 2 ^ 26"
  proof -
    have "7 * 2 ^ k < (8 * 2 ^ 26 :: nat)"
      using \<open>tooFull t \<Longrightarrow> 7 * allocatedEntries t < 8 * entriesCount t\<close> that k(3) by linarith
    then have "k \<noteq> 28" by auto
    then show ?thesis using k by auto
  qed
qed

lemma get_law:
  assumes "table_ok start t"
  shows "table_get start zero key t = Some (case table_map t key of None \<Rightarrow> zero | Some v \<Rightarrow> v)"
    and "table_probe start key t = Some (table_map t key \<noteq> None)"
proof -
  have "filling start t" using assms by (simp add: table_ok_def)
  from findEntry_law [OF this ok_room(1) [OF assms], of key]
  show "table_get start zero key t = Some (case table_map t key of None \<Rightarrow> zero | Some v \<Rightarrow> v)"
    "table_probe start key t = Some (table_map t key \<noteq> None)"
    by (auto simp: table_get_def table_probe_def split: option.splits)
qed

lemma free_entry_law:
  assumes ok: "table_ok start t" and small: "entriesCount t < 2 ^ 26" and new: "table_map t key = None"
    and x: "findEntry start key t = Some x" "x < allocatedEntries t" "reached start (entries t) key x" "entries t ! x = None"
  shows "\<exists>y t'. free_entry start key x t = Some (y, t') \<and> table_ok start (fill_entry y key a t') \<and>
    table_map (fill_entry y key a t') = (table_map t)(key \<mapsto> a)"
proof (cases "tooFull t")
  case False
  have f: "filling start t" using ok by (simp add: table_ok_def)
  have "table_ok start (fill_entry x key a t)"
    using fill_law(1) [OF f x(2,3) _ new, of a] x(4) new ok False
    by (auto simp: table_ok_def fill_entry_def tooFull_def)
  then show ?thesis
    using fill_law(2) [OF f x(2,3) _ new, of a] x(4) new False by (simp add: free_entry_def)
next
  case True
  have f: "filling start t" using ok by (simp add: table_ok_def)
  obtain k where k: "allocatedEntries t = 2 ^ k" "6 \<le> k" "k \<le> 27"
    using ok_room(2) [OF ok True small] by blast
  obtain t' where t': "rehash start t = Some t'" "filling start t'" "table_map t' = table_map t"
      "entriesCount t' = entriesCount t" "allocatedEntries t' = 2 * allocatedEntries t"
      "rehashThreshold t' = threshold (allocatedEntries t')"
  proof -
    have "entriesCount t = length (filled (entries t))" "int (entriesCount t) \<le> rehashThreshold t + 1"
      "entriesCount t < 2 * allocatedEntries t" "5 \<le> k"
      using f ok ok_room(1) [OF ok] k(2) by (simp_all add: filling_def table_ok_def)
    then show ?thesis
      using that rehash_law [OF filling_unique [OF f] _ k(1) _ k(3)] by blast
  qed
  have room: "entriesCount t' < allocatedEntries t'" using t'(4,5) ok_room(1) [OF ok] by simp
  obtain y where y: "y < allocatedEntries t'" "findEntry start key t' = Some y" "reached start (entries t') key y"
      "entries t' ! y = map_option (Pair key) (table_map t' key)"
    using findEntry_law [OF t'(2) room] by blast
  have new': "table_map t' key = None" using t'(3) new by simp
  have thr: "rehashThreshold t' = 7 * 2 ^ (k - 2)"
    using t'(5,6) k threshold_power [of "Suc k"] by (simp add: Suc_diff_le)
  have "(2 :: nat) ^ (2 + (k - 2)) = 4 * 2 ^ (k - 2)" by (simp only: power_add) simp
  moreover have "2 + (k - 2) = k" using k(2) by simp
  ultimately have "(2 :: nat) ^ k = 4 * 2 ^ (k - 2)" by (simp only:)
  then have "entriesCount t \<le> 7 * 2 ^ (k - 2)"
    using ok_room(1) [OF ok] k(1) by linarith
  then have "int (entriesCount t) \<le> int (7 * 2 ^ (k - 2))" by (simp only: of_nat_le_iff)
  then have "int (entriesCount t) \<le> rehashThreshold t'" using thr by simp
  then have "table_ok start (fill_entry y key a t')"
    using fill_law(1) [OF t'(2) y(1,3,4) new', of a] t'(4-6) ok_room(3) [OF ok True]
    by (simp add: table_ok_def fill_entry_def)
  then show ?thesis
    using True t'(1,3) y(2) fill_law(2) [OF t'(2) y(1,3,4) new', of a] by (simp add: free_entry_def)
qed

lemma update_law:
  assumes ok: "table_ok start t" and x: "x < allocatedEntries t" "reached start (entries t) key x"
    "entries t ! x = map_option (Pair key) (table_map t key)" and "table_map t key = Some v"
  shows "table_ok start (t\<lparr>entries := (entries t)[x := Some (key, a)]\<rparr>)"
    and "table_map (t\<lparr>entries := (entries t)[x := Some (key, a)]\<rparr>) = (table_map t)(key \<mapsto> a)"
proof -
  have f: "filling start t" using ok by (simp add: table_ok_def)
  have "filling start (t\<lparr>entries := (entries t)[x := Some (key, a)]\<rparr>)"
    using filling_update [OF f x, of a] f assms(5) unfolding filling_def by simp
  then show "table_ok start (t\<lparr>entries := (entries t)[x := Some (key, a)]\<rparr>)"
    using ok unfolding table_ok_def by simp
  show "table_map (t\<lparr>entries := (entries t)[x := Some (key, a)]\<rparr>) = (table_map t)(key \<mapsto> a)"
    using filling_update(2) [OF f x, of a] by (simp add: table_map_def)
qed

lemma table_insert_steps:
  "table_insert start key a t = do {
     x \<leftarrow> findEntry start key t;
     if entries t ! x = None then do {
       (x, t) \<leftarrow> free_entry start key x t;
       Some (True, fill_entry x key a t) }
     else Some (False, t) }"
  by (subst table_insert.simps) (simp only: free_entry_def rehash_def fill_entry_def)

lemma put_law:
  assumes ok: "table_ok start t" and small: "entriesCount t < 2 ^ 26"
  shows "\<exists>t'. table_put start key a t = Some (table_map t key = None, t') \<and> table_ok start t' \<and>
    table_map t' = (table_map t)(key \<mapsto> a)"
proof -
  have f: "filling start t" using ok by (simp add: table_ok_def)
  obtain x where x: "x < allocatedEntries t" "findEntry start key t = Some x" "reached start (entries t) key x"
      "entries t ! x = map_option (Pair key) (table_map t key)"
    using findEntry_law [OF f ok_room(1) [OF ok]] by blast
  show ?thesis
  proof (cases "table_map t key")
    case None
    then show ?thesis
      using free_entry_law [OF ok small None x(2,1,3), where a = a] x(2,4) by (auto simp: table_put_def)
  next
    case (Some v)
    then have "table_put start key a t = Some (False, t\<lparr>entries := (entries t)[x := Some (key, a)]\<rparr>)"
      using x(2,4) by (simp add: table_put_def)
    then show ?thesis using update_law [OF ok x(1,3,4) Some, of a] Some by simp
  qed
qed

lemma insert_law:
  assumes ok: "table_ok start t" and small: "entriesCount t < 2 ^ 26"
  shows "\<exists>t'. table_insert start key a t = Some (table_map t key = None, t') \<and> table_ok start t' \<and>
    table_map t' = (if table_map t key = None then (table_map t)(key \<mapsto> a) else table_map t)"
proof -
  have f: "filling start t" using ok by (simp add: table_ok_def)
  obtain x where x: "x < allocatedEntries t" "findEntry start key t = Some x" "reached start (entries t) key x"
      "entries t ! x = map_option (Pair key) (table_map t key)"
    using findEntry_law [OF f ok_room(1) [OF ok]] by blast
  show ?thesis
  proof (cases "table_map t key")
    case None
    obtain y t' where y: "free_entry start key x t = Some (y, t')" "table_ok start (fill_entry y key a t')"
        "table_map (fill_entry y key a t') = (table_map t)(key \<mapsto> a)"
      using free_entry_law [OF ok small None x(2,1,3), where a = a] x(4) None by auto
    have "table_insert start key a t = Some (True, fill_entry y key a t')"
      using x(2,4) None y(1) by (simp add: table_insert_steps)
    then show ?thesis using None y by simp
  next
    case (Some v)
    then have "table_insert start key a t = Some (False, t)"
      using x(2,4) by (subst table_insert.simps) simp
    then show ?thesis using Some ok by simp
  qed
qed

lemma replace_law:
  assumes ok: "table_ok start t" and small: "entriesCount t < 2 ^ 26"
  shows "\<exists>t'. table_replace start zero key a t =
      Some (case table_map t key of None \<Rightarrow> zero | Some v \<Rightarrow> v, t') \<and> table_ok start t' \<and>
    table_map t' = (table_map t)(key \<mapsto> a)"
proof -
  have f: "filling start t" using ok by (simp add: table_ok_def)
  obtain x where x: "x < allocatedEntries t" "findEntry start key t = Some x" "reached start (entries t) key x"
      "entries t ! x = map_option (Pair key) (table_map t key)"
    using findEntry_law [OF f ok_room(1) [OF ok]] by blast
  show ?thesis
  proof (cases "table_map t key")
    case None
    then show ?thesis
      using free_entry_law [OF ok small None x(2,1,3), where a = a] x(2,4) by (auto simp: table_replace_def)
  next
    case (Some v)
    then have "table_replace start zero key a t = Some (v, t\<lparr>entries := (entries t)[x := Some (key, a)]\<rparr>)"
      using x(2,4) by (simp add: table_replace_def)
    then show ?thesis using update_law [OF ok x(1,3,4) Some, of a] Some by simp
  qed
qed

end

subsection \<open>Iteration\<close>

lemma first_valid_law:
  "i \<le> allocatedEntries t \<Longrightarrow> length (entries t) = allocatedEntries t \<Longrightarrow>
    i \<le> first_valid t i \<and> first_valid t i \<le> allocatedEntries t \<and>
    filled (drop (first_valid t i) (entries t)) = filled (drop i (entries t)) \<and>
    (first_valid t i < allocatedEntries t \<longrightarrow> entries t ! first_valid t i \<noteq> None)"
proof (induction t i rule: first_valid.induct)
  case (1 t i)
  show ?case
  proof (cases "i < allocatedEntries t \<and> entries t ! i = None")
    case True
    then have "drop i (entries t) = None # drop (Suc i) (entries t)"
      using "1.prems" by (metis Cons_nth_drop_Suc)
    then show ?thesis
      using "1.IH" "1.prems" True by (subst (1 2 3 4 5) first_valid.simps) simp
  next
    case False
    then show ?thesis using "1.prems" by (subst (1 2 3 4 5) first_valid.simps) auto
  qed
qed

lemma iter_next_first_valid: "i < allocatedEntries t \<Longrightarrow> iter_next t i = first_valid t (i + 1)"
proof (induction t i rule: iter_next.induct)
  case (1 t i)
  show ?case
  proof (cases "i + 1 < allocatedEntries t \<and> entries t ! (i + 1) = None")
    case True
    then have "iter_next t i = iter_next t (i + 1)" by (subst iter_next.simps) simp
    also have "\<dots> = first_valid t (i + 1 + 1)" using 1 True by simp
    also have "\<dots> = first_valid t (i + 1)" using True by (subst (2) first_valid.simps) simp
    finally show ?thesis .
  next
    case False
    then show ?thesis by (subst iter_next.simps, subst first_valid.simps) auto
  qed
qed

lemma iterate_law:
  "i \<le> allocatedEntries t \<Longrightarrow> length (entries t) = allocatedEntries t \<Longrightarrow>
    (i < allocatedEntries t \<Longrightarrow> entries t ! i \<noteq> None) \<Longrightarrow>
    iterate t i = map Some (filled (drop i (entries t)))"
proof (induction t i rule: iterate.induct)
  case (1 t i)
  show ?case
  proof (cases "i < allocatedEntries t")
    case True
    then obtain kv where kv: "entries t ! i = Some kv" using "1.prems"(3) by auto
    have d: "drop i (entries t) = Some kv # drop (Suc i) (entries t)"
      using True "1.prems"(2) kv by (metis Cons_nth_drop_Suc)
    have n: "iter_next t i = first_valid t (Suc i)" using iter_next_first_valid [OF True] by simp
    have "iterate t (iter_next t i) = map Some (filled (drop (Suc i) (entries t)))"
      using "1.IH" first_valid_law [of "Suc i" t] "1.prems"(2) True unfolding n
      by (simp add: iter_hasNext_def)
    then show ?thesis using True d kv by (subst iterate.simps) (simp add: iter_hasNext_def)
  next
    case False
    then show ?thesis using "1.prems" by (subst iterate.simps) (simp add: iter_hasNext_def)
  qed
qed

lemma iterate_all:
  assumes "filling start t"
  shows "iterate t (iter_begin t) = map Some (filled (entries t))"
proof (cases "entriesCount t = 0")
  case True
  then have "filled (entries t) = []" using assms by (simp add: filling_def)
  then show ?thesis
    using True by (subst iterate.simps) (simp add: iter_begin_def iter_hasNext_def)
next
  case False
  have len: "length (entries t) = allocatedEntries t" using assms by (simp add: filling_def)
  then show ?thesis
    using False first_valid_law [of 0 t] iterate_law [of "first_valid t 0" t]
    by (simp add: iter_begin_def)
qed

subsection \<open>The contract of a lookup table\<close>

text \<open>What the clients of a table rely on, and what follows for a sequence of \<open>put\<close>s.\<close>

fun put_all :: "('k \<Rightarrow> 'v \<Rightarrow> 't \<Rightarrow> (bool \<times> 't) option) \<Rightarrow> ('k \<times> 'v) list \<Rightarrow> 't \<Rightarrow> 't option" where
  "put_all put [] t = Some t"
| "put_all put ((k, v) # kvs) t = do {
     (_, t) \<leftarrow> put k v t;
     put_all put kvs t }"

definition value_of :: "'v \<Rightarrow> 'v option \<Rightarrow> 'v" where
  "value_of zero v = (case v of None \<Rightarrow> zero | Some v \<Rightarrow> v)"

locale lookup_table =
  fixes ok :: "'t \<Rightarrow> bool" and content :: "'t \<Rightarrow> 'k \<rightharpoonup> 'v"
    and get :: "'v \<Rightarrow> 'k \<Rightarrow> 't \<Rightarrow> 'v option" and put :: "'k \<Rightarrow> 'v \<Rightarrow> 't \<Rightarrow> (bool \<times> 't) option"
  assumes get: "ok t \<Longrightarrow> get zero k t = Some (value_of zero (content t k))"
    and put: "ok t \<Longrightarrow> card (dom (content t)) < 2 ^ 26 \<Longrightarrow>
      \<exists>t'. put k v t = Some (content t k = None, t') \<and> ok t' \<and> content t' = (content t)(k \<mapsto> v)"
    and finite_dom: "ok t \<Longrightarrow> finite (dom (content t))"
begin

lemma put_all_law:
  assumes "ok t" "card (dom (content t)) + length kvs \<le> 2 ^ 26"
  shows "\<exists>t'. put_all put kvs t = Some t' \<and> ok t' \<and> content t' = content t ++ map_of (rev kvs)"
  using assms
proof (induction kvs arbitrary: t)
  case Nil
  then show ?case by simp
next
  case (Cons kv kvs)
  obtain k v where kv: "kv = (k, v)" by fastforce
  obtain t1 where t1: "put k v t = Some (content t k = None, t1)" "ok t1" "content t1 = (content t)(k \<mapsto> v)"
    using put [OF Cons.prems(1), of k v] Cons.prems(2) by auto
  have "card (dom (content t1)) \<le> card (dom (content t)) + 1"
    using finite_dom [OF Cons.prems(1)] by (simp add: t1(3) card_insert_if)
  then obtain t2 where "put_all put kvs t1 = Some t2" "ok t2" "content t2 = content t1 ++ map_of (rev kvs)"
    using Cons.IH [OF t1(2)] Cons.prems(2) by auto
  moreover have "content t1 ++ map_of (rev kvs) = content t ++ map_of (rev (kv # kvs))"
    unfolding t1(3) kv by (simp add: map_of_append map_add_assoc [symmetric] map_add_upd)
  ultimately show ?case using t1(1) kv by simp
qed

lemma put_get:
  assumes "ok t" "card (dom (content t)) < 2 ^ 26"
  shows "\<exists>t'. put k v t = Some (content t k = None, t') \<and> ok t' \<and>
    (\<forall>k'. get zero k' t' = (if k' = k then Some v else get zero k' t))"
proof -
  obtain t' where "put k v t = Some (content t k = None, t')" "ok t'" "content t' = (content t)(k \<mapsto> v)"
    using put [OF assms] by blast
  then show ?thesis using get assms(1) by (simp add: value_of_def)
qed

end

context probing
begin

lemma table_contract: "lookup_table (table_ok start) table_map (table_get start) (table_put start)"
proof
  fix t :: "('k, 'v) table" and zero :: 'v and k v
  assume ok: "table_ok start t"
  show "table_get start zero k t = Some (value_of zero (table_map t k))"
    using get_law(1) [OF ok] by (simp add: value_of_def)
  have card: "card (dom (table_map t)) = entriesCount t"
    using ok card_dom_filled [of "entries t"] filling_unique [of start t]
    by (simp add: table_ok_def filling_def table_map_def)
  show "finite (dom (table_map t))" by (simp add: table_map_def finite_dom_map_of)
  show "\<exists>t'. table_put start k v t = Some (table_map t k = None, t') \<and> table_ok start t' \<and>
      table_map t' = (table_map t)(k \<mapsto> v)" if "card (dom (table_map t)) < 2 ^ 26"
    using put_law [OF ok] that unfolding card by blast
qed

end

abbreviation dictionary_ok :: "'v dictionary \<Rightarrow> bool" where
  "dictionary_ok \<equiv> table_ok dict_start"

abbreviation pointer_map_ok :: "'v pointer_map \<Rightarrow> bool" where
  "pointer_map_ok \<equiv> table_ok map_start"

interpretation dict: lookup_table dictionary_ok table_map dict_get dict_put
  unfolding dict_get_def dict_put_def by (rule dictionary.table_contract)

interpretation pmap: lookup_table pointer_map_ok table_map map_get map_put
  unfolding map_get_def map_put_def by (rule pointer_map.table_contract)

lemma new_dictionary: "\<exists>d. dictionary = Some d \<and> dictionary_ok d \<and> table_map d = Map.empty"
  unfolding dictionary_def by (rule dictionary.clear_law)

lemma new_pointer_map: "\<exists>m. pointer_map = Some m \<and> pointer_map_ok m \<and> table_map m = Map.empty"
  unfolding pointer_map_def by (rule pointer_map.clear_law)

subsection \<open>Properties\<close>

text \<open>C35: a dictionary is a finite map: from the constructor, any sequence of up to \<open>2 ^ 26\<close> \<open>put\<close>s,
  with the rehashes it causes, ends, and a \<open>get\<close> then finds the value put last for its key, or the
  zero value for a key that was never put.\<close>

theorem dictionary_puts:
  assumes "length kvs \<le> 2 ^ 26"
  shows "\<exists>d d'. dictionary = Some d \<and> put_all dict_put kvs d = Some d' \<and>
    (\<forall>k. dict_get zero k d' = Some (value_of zero (map_of (rev kvs) k)))"
proof -
  obtain d :: "'a dictionary" where d: "dictionary = Some d" "dictionary_ok d" "table_map d = Map.empty"
    using new_dictionary by blast
  then obtain d' where "put_all dict_put kvs d = Some d'" "dictionary_ok d'" "table_map d' = map_of (rev kvs)"
    using dict.put_all_law [OF d(2), of kvs] assms by auto
  then show ?thesis using d(1) dict.get by metis
qed

lemma dictionary_puts_witness:
  "\<exists>d d'. dictionary = Some d \<and> put_all dict_put [([97], 1), ([98], 2), ([97], 3)] d = Some d' \<and>
    dict_get 0 [97] d' = Some (3 :: int) \<and> dict_get 0 [99] d' = Some 0"
  using dictionary_puts [of "[([97], 1), ([98], 2), ([97], 3 :: int)]" 0] by (fastforce simp: value_of_def)

text \<open>The invariant of a dictionary (a size that is a power of two, distinct keys, every key on
  the path of its search, a free entry) is kept by \<open>put\<close>, \<open>insert\<close>, \<open>replace\<close> and \<open>clear\<close>; each ends and
  reports what it found: \<open>put\<close> and \<open>insert\<close> whether the key was new, \<open>replace\<close> the old value, and
  \<open>insert\<close> changes no entry there was.\<close>

theorem dictionary_invariant:
  assumes "dictionary_ok d" "entriesCount d < 2 ^ 26"
  shows "(\<exists>d'. dict_put k v d = Some (table_map d k = None, d') \<and> dictionary_ok d' \<and>
      table_map d' = (table_map d)(k \<mapsto> v)) \<and>
    (\<exists>d'. dict_insert k v d = Some (table_map d k = None, d') \<and> dictionary_ok d' \<and>
      table_map d' = (if table_map d k = None then (table_map d)(k \<mapsto> v) else table_map d)) \<and>
    (\<exists>d'. dict_replace zero k v d = Some (value_of zero (table_map d k), d') \<and> dictionary_ok d' \<and>
      table_map d' = (table_map d)(k \<mapsto> v)) \<and>
    (\<exists>d'. dict_clear d = Some d' \<and> dictionary_ok d' \<and> table_map d' = Map.empty) \<and>
    dict_probe k d = Some (table_map d k \<noteq> None)"
  unfolding dict_put_def dict_insert_def dict_replace_def dict_clear_def dict_probe_def value_of_def
  using dictionary.put_law [OF assms] dictionary.insert_law [OF assms] dictionary.replace_law [OF assms]
    dictionary.clear_law dictionary.get_law(2) [OF assms(1)]
  by blast

lemma dictionary_invariant_witness:
  "\<exists>d d'. dictionary = Some d \<and> dict_put [97] (5 :: int) d = Some (True, d') \<and> dictionary_ok d'"
proof -
  obtain d :: "int dictionary" where d: "dictionary = Some d" "dictionary_ok d" "table_map d = Map.empty"
    using new_dictionary by blast
  have "entriesCount d = card (dom (table_map d))"
    using d(2) card_dom_filled [of "entries d"] filling_unique [of dict_start d]
    by (simp add: table_ok_def filling_def table_map_def)
  then have "entriesCount d < 2 ^ 26" using d(3) by simp
  from dictionary_invariant [OF d(2) this, of "[97]" 5 0] d show ?thesis by auto
qed

text \<open>the loop \<open>begin\<close>, \<open>hasNext\<close>, \<open>next\<close> over a well-formed table ends, never stands on an entry
  that is not valid, and meets every entry of the map exactly once; \<open>size\<close> is their number.\<close>

theorem iteration_complete:
  assumes "table_ok start t"
  shows "\<exists>kvs. iterate t (iter_begin t) = map Some kvs \<and> distinct (map fst kvs) \<and>
    map_of kvs = table_map t \<and> length kvs = entriesCount t"
proof -
  have f: "filling start t" using assms by (simp add: table_ok_def)
  then show ?thesis
    using iterate_all [OF f] distinct_filled [OF filling_unique [OF f]]
    by (intro exI [of _ "filled (entries t)"]) (simp add: table_map_def filling_def)
qed

lemma iteration_complete_witness:
  "\<exists>d :: int dictionary. dictionary = Some d \<and> iterate d (iter_begin d) = []"
proof -
  obtain d :: "int dictionary" where d: "dictionary = Some d" "dictionary_ok d" "table_map d = Map.empty"
    using new_dictionary by blast
  obtain kvs where "iterate d (iter_begin d) = map Some kvs" "map_of kvs = table_map d"
    using iteration_complete [OF d(2)] by blast
  then show ?thesis using d by auto
qed

text \<open>\<open>map\<close>, keyed by pointers, is a finite map in the same way.\<close>

theorem pointer_map_puts:
  assumes "length kvs \<le> 2 ^ 26"
  shows "\<exists>m m'. pointer_map = Some m \<and> put_all map_put kvs m = Some m' \<and>
    (\<forall>k. map_get zero k m' = Some (value_of zero (map_of (rev kvs) k)))"
proof -
  obtain m :: "'a pointer_map" where m: "pointer_map = Some m" "pointer_map_ok m" "table_map m = Map.empty"
    using new_pointer_map by blast
  then obtain m' where "put_all map_put kvs m = Some m'" "pointer_map_ok m'" "table_map m' = map_of (rev kvs)"
    using pmap.put_all_law [OF m(2), of kvs] assms by auto
  then show ?thesis using m(1) pmap.get by metis
qed

lemma pointer_map_puts_witness:
  "\<exists>m m'. pointer_map = Some m \<and> put_all map_put [(0x1000, 1), (0x1400, 2)] m = Some m' \<and>
    map_get 0 0x1400 m' = Some (2 :: int)"
  using pointer_map_puts [of "[(0x1000, 1), (0x1400, 2 :: int)]" 0] by (fastforce simp: value_of_def)

end
