(* ===== verification/String_Laws.thy ===== *)
theory String_Laws
  imports Strings
begin

section \<open>What the string operations compute\<close>

text \<open>
  The operations of theory Strings against what they are for: splitting and joining, trimming,
  the order of strings, hexadecimal numbers, and escapes.
\<close>

subsection \<open>Splitting\<close>

fun join :: "byte \<Rightarrow> cstr list \<Rightarrow> cstr" where
  "join d [] = []"
| "join d [p] = p"
| "join d (p # ps) = p @ d # join d ps"

lemma join_snoc: "join d (ps @ [p]) = concat (map (\<lambda>q. q @ [d]) ps) @ p"
proof (induction ps)
  case (Cons q ps)
  then show ?case by (cases ps) simp_all
qed simp

lemma split_loop_law:
  assumes "drop i s = cs" "i \<le> length s" "t \<le> i" "split_loop d s cs i t out = (t', out')"
    "d \<notin> set (take (i - t) (drop t s))"
  shows "concat (map (\<lambda>p. p @ [d]) out') @ drop t' s = concat (map (\<lambda>p. p @ [d]) out) @ drop t s \<and>
    length out' = length out + count_list cs d \<and> set out' \<subseteq> set out \<union> {p. d \<notin> set p} \<and>
    d \<notin> set (drop t' s) \<and> t' \<le> length s \<and> (t' = 0 \<longleftrightarrow> t = 0 \<and> d \<notin> set cs)"
  using assms
proof (induction cs arbitrary: i t out)
  case Nil
  then have "i = length s" "d \<notin> set (drop t s)" by simp_all
  with Nil show ?case by auto
next
  case (Cons c cs)
  have "i < length s" using Cons.prems(1) by (metis drop_eq_Nil list.distinct(1) not_le)
  then have i: "i < length s" "s ! i = c" "drop (Suc i) s = cs"
    using Cons_nth_drop_Suc [of i s] Cons.prems(1) by simp_all
  have whole: "drop t s = take (i - t) (drop t s) @ c # cs"
    using Cons.prems(1,3) by (metis append_take_drop_id drop_drop le_add_diff_inverse2)
  show ?case
  proof (cases "c = d")
    case True
    have "split_loop d s cs (Suc i) (Suc i) (out @ [piece s t (i - t)]) = (t', out')"
      using Cons.prems(4) True by simp
    from Cons.IH [OF i(3) _ _ this] i(1) True Cons.prems(5)
    have "concat (map (\<lambda>p. p @ [d]) out') @ drop t' s = concat (map (\<lambda>p. p @ [d]) out) @ piece s t (i - t) @ d # drop (Suc i) s"
      and "length out' = length out + count_list (c # cs) d" "set out' \<subseteq> set out \<union> {p. d \<notin> set p}"
      and "d \<notin> set (drop t' s) \<and> t' \<le> length s" "t' \<noteq> 0"
      by (auto simp: piece_def)
    moreover have "piece s t (i - t) @ d # drop (Suc i) s = drop t s"
      using whole i(3) True by (simp add: piece_def)
    ultimately show ?thesis using True by simp
  next
    case False
    have "split_loop d s cs (Suc i) t out = (t', out')" using Cons.prems(4) False by simp
    moreover have "take (Suc i - t) (drop t s) = take (i - t) (drop t s) @ [c]"
      using whole i Cons.prems(2,3) by (simp add: Suc_diff_le take_Suc_conv_app_nth)
    ultimately have "concat (map (\<lambda>p. p @ [d]) out') @ drop t' s = concat (map (\<lambda>p. p @ [d]) out) @ drop t s \<and>
      length out' = length out + count_list cs d \<and> set out' \<subseteq> set out \<union> {p. d \<notin> set p} \<and>
      d \<notin> set (drop t' s) \<and> t' \<le> length s \<and> (t' = 0 \<longleftrightarrow> t = 0 \<and> d \<notin> set cs)"
      using Cons.IH [OF i(3), of t out] i(1) False Cons.prems(3,5) by auto
    then show ?thesis using False by simp
  qed
qed

text \<open>C39: \<open>split\<close> cuts a string at every delimiter and nowhere else: the pieces, joined by the
  delimiter, are the string, no piece holds the delimiter, and there is one piece more than there
  are delimiters.\<close>

theorem split_join:
  "join d (str_split d s) = s \<and> length (str_split d s) = count_list s d + 1 \<and>
   (\<forall>p \<in> set (str_split d s). d \<notin> set p)"
proof (cases "s = []")
  case True
  then show ?thesis by (simp add: str_split_def)
next
  case False
  obtain t out where split: "split_loop d s s 0 0 [] = (t, out)" by fastforce
  note law = split_loop_law [of 0 s s 0 d "[]" t out, simplified, OF split]
  have "str_split d s = out @ [drop t s]"
  proof (cases "t = 0")
    case True
    then have "out = []" using law False by simp
    with True show ?thesis using split False by (simp add: str_split_def)
  next
    case nz: False
    then show ?thesis using split False by (simp add: str_split_def piece_def)
  qed
  then show ?thesis using law by (auto simp: join_snoc)
qed

lemma split_join_witness: "join 44 (str_split 44 [97, 44, 44, 98]) = [97, 44, 44, 98] \<and>
    length (str_split 44 [97, 44, 44, 98]) = 3"
  using split_join [of 44 "[97, 44, 44, 98]"] by simp

subsection \<open>Trimming\<close>

lemma trim_prefix_law: "drop (trim_prefix s) s = dropWhile isspace s" "trim_prefix s \<le> length s"
  by (induction s) auto

lemma trim_suffix_law:
  "p \<le> k \<Longrightarrow> k \<le> length s \<Longrightarrow>
    p \<le> trim_suffix s p k \<and> trim_suffix s p k \<le> k \<and>
    take (trim_suffix s p k - p) (drop p s) = rev (dropWhile isspace (rev (take (k - p) (drop p s))))"
proof (induction s p k rule: trim_suffix.induct)
  case (2 s p k)
  show ?case
  proof (cases "p < Suc k")
    case True
    then have "take (Suc k - p) (drop p s) = take (k - p) (drop p s) @ [s ! k]"
      using 2 by (simp add: Suc_diff_le take_Suc_conv_app_nth)
    then show ?thesis using 2 True by auto
  next
    case False
    then have "p = Suc k" using "2.prems" by simp
    then show ?thesis by simp
  qed
qed auto

text \<open>\<open>trim\<close> removes the white space at both ends and nothing else, and its copy stays inside
  the string.\<close>

theorem trim_strips:
  "str_trim s = Some (rev (dropWhile isspace (rev (dropWhile isspace s))))"
proof (cases "s = []")
  case True
  then show ?thesis by (simp add: str_trim_def)
next
  case False
  define p where "p = trim_prefix s"
  define e where "e = trim_suffix s p (length s)"
  have p: "p \<le> length s" "drop p s = dropWhile isspace s"
    using trim_prefix_law [of s] by (simp_all add: p_def)
  have e: "p \<le> e" "e \<le> length s" "take (e - p) (drop p s) = rev (dropWhile isspace (rev (drop p s)))"
    using trim_suffix_law [OF p(1) order_refl] by (simp_all add: e_def)
  have "str_trim s = str_substr (int p) (int e - int p) s"
    using False by (simp add: str_trim_def p_def e_def Let_def)
  also have "\<dots> = Some (take (e - p) (drop p s))"
    using p(1) e(1,2) by (auto simp: str_substr_def Let_def nat_diff_distrib take_append)
  finally show ?thesis using e(3) p(2) by simp
qed

subsection \<open>The order of strings\<close>

lemma byte_diff_sign: "sint (ucast x - ucast y :: int32) = uint (x :: byte) - uint (y :: byte)"
proof -
  have "(ucast x - ucast y :: int32) = word_of_int (uint x - uint y)"
    by (simp only: ucast_eq wi_hom_syms)
  then have "sint (ucast x - ucast y :: int32) = signed_take_bit 31 (uint x - uint y)"
    by (simp only: signed_of_int) simp
  moreover have "0 \<le> uint x" "uint x < 256" "0 \<le> uint y" "uint y < 256"
    using uint_lt2p [of x] uint_lt2p [of y] by simp_all
  ultimately show ?thesis
    by (simp add: signed_take_bit_int_eq_self)
qed

lemma ucast_byte_eq: "(ucast x :: int32) = ucast y \<longleftrightarrow> x = (y :: byte)"
proof
  assume "(ucast x :: int32) = ucast y"
  then have "sint (ucast x - ucast y :: int32) = 0" by simp
  then show "x = y" unfolding byte_diff_sign by (simp add: word_uint_eq_iff)
qed simp

lemma memcmp_eq_0: "n \<le> length xs \<Longrightarrow> n \<le> length ys \<Longrightarrow> memcmp n xs ys = 0 \<longleftrightarrow> take n xs = take n ys"
  by (induction n xs ys rule: memcmp.induct) (auto simp: ucast_byte_eq)

lemma sint_zero_iff: "sint (w :: int32) = 0 \<longleftrightarrow> w = 0"
  by (metis sint_0 signed_word_eqI)

lemma memcmp_less:
  "n = min (length xs) (length ys) \<Longrightarrow>
    (sint (memcmp n xs ys) < 0 \<or> memcmp n xs ys = 0 \<and> length xs < length ys) \<longleftrightarrow> ord_class.lexordp xs ys"
proof (induction n xs ys rule: memcmp.induct)
  case (1 n x xs y ys)
  have "x \<noteq> y \<Longrightarrow> \<not> x < y \<Longrightarrow> y < x" by auto
  with 1 show ?case
    by (cases "x = y") (auto simp: byte_diff_sign ucast_byte_eq simp flip: word_less_def)
qed (auto simp: neq_Nil_conv min_def split: if_splits)

lemma sint_length_diff:
  assumes "a < 2 ^ 31" "b < 2 ^ 31"
  shows "sint (of_nat a - of_nat b :: int32) = int a - int b"
proof -
  have "(of_nat a - of_nat b :: int32) = word_of_int (int a - int b)" by simp
  then have "sint (of_nat a - of_nat b :: int32) = signed_take_bit 31 (int a - int b)"
    by (simp only: signed_of_int) simp
  also have "\<dots> = int a - int b" using assms by (intro signed_take_bit_int_eq_self) auto
  finally show ?thesis .
qed

text \<open>\<open>operator<\<close> is the lexicographic order of the unsigned bytes, \<open>operator==\<close> is equality, and
  \<open>compare\<close> agrees with both by its sign on strings whose lengths an \<open>int\<close> holds.\<close>

theorem string_order:
  assumes "length s < 2 ^ 31" "length t < 2 ^ 31"
  shows "str_equal s t = (s = t) \<and> str_less s t = ord_class.lexordp s t \<and>
    (sint (str_compare s t) < 0 \<longleftrightarrow> ord_class.lexordp s t) \<and> (str_compare s t = 0 \<longleftrightarrow> s = t)"
proof -
  define r where "r = memcmp (min (length s) (length t)) s t"
  have less: "sint r < 0 \<or> r = 0 \<and> length s < length t \<longleftrightarrow> ord_class.lexordp s t"
    using memcmp_less [OF refl, of s t] by (simp add: r_def)
  have zero: "r = 0 \<longleftrightarrow> take (min (length s) (length t)) s = take (min (length s) (length t)) t"
    using memcmp_eq_0 [of "min (length s) (length t)" s t] by (simp add: r_def)
  have n: "(if length s < length t then length s else length t) = min (length s) (length t)" by simp
  have cmp: "str_compare s t = (if r \<noteq> 0 then r else of_nat (length s) - of_nat (length t))"
    unfolding str_compare_def n by (simp add: r_def Let_def)
  have diff: "sint (of_nat (length s) - of_nat (length t) :: int32) = int (length s) - int (length t)"
    by (rule sint_length_diff [OF assms])
  have eq: "s = t \<longleftrightarrow> r = 0 \<and> length s = length t"
    using zero by auto
  have "str_equal s t = (s = t)"
    using memcmp_eq_0 [of "length s" s t] by (auto simp: str_equal_def)
  moreover have "str_less s t = ord_class.lexordp s t"
    unfolding str_less_def n Let_def r_def [symmetric] less [symmetric]
    by (cases "r = 0") (auto simp: sint_zero_iff)
  moreover have "sint (str_compare s t) < 0 \<longleftrightarrow> ord_class.lexordp s t"
    unfolding cmp less [symmetric] using diff by auto
  moreover have "str_compare s t = 0 \<longleftrightarrow> s = t"
    unfolding cmp eq using diff by (auto simp: sint_zero_iff [symmetric])
  ultimately show ?thesis by blast
qed

lemma string_order_witness:
  "str_less [97, 98] [97, 98, 1] \<and> sint (str_compare [97, 98] [97, 98, 1]) < 0"
  using string_order [of "[97, 98]" "[97, 98, 1]"] by simp

subsection \<open>Hexadecimal numbers\<close>

lemma unat_hex_char: "d < 16 \<Longrightarrow> unat (hex_char d) = (if d < 10 then 48 + d else 87 + d)"
  by (simp add: hex_char_def unat_of_nat del: of_nat_add)

lemma hex_char_cases:
  assumes "d < 16"
  shows "hex_loop v (hex_char d # cs) = hex_loop (v * 16 + of_nat d) cs" "hex_char d \<noteq> 120" "hex_char d \<noteq> 88"
proof -
  note u = unat_hex_char [OF assms]
  have "(ucast (hex_char d) :: int32) = of_nat (unat (hex_char d))" by simp
  then have c: "(ucast (hex_char d) :: int32) = (if d < 10 then 48 + of_nat d else 87 + of_nat d)"
    unfolding u by simp
  show "hex_loop v (hex_char d # cs) = hex_loop (v * 16 + of_nat d) cs"
    using assms by (simp add: word_le_nat_alt u c)
  show "hex_char d \<noteq> 120" "hex_char d \<noteq> 88"
    using assms u by (auto simp: word_unat_eq_iff split: if_splits)
qed

lemma hex_text_law:
  "hex_loop v (hex_text n @ cs) = hex_loop (v * 16 ^ length (hex_text n) + of_nat n) cs \<and>
    120 \<notin> set (hex_text n) \<and> 88 \<notin> set (hex_text n)"
proof (induction n arbitrary: v cs rule: hex_text.induct)
  case (1 n)
  show ?case
  proof (cases "n < 16")
    case True
    then show ?thesis
      using hex_char_cases [OF True] by (subst (1 2 3 4) hex_text.simps) simp
  next
    case False
    have d: "n mod 16 < 16" by simp
    have num: "of_nat (n div 16) * 16 + of_nat (n mod 16) = (of_nat n :: int32)"
      by (metis div_mult_mod_eq of_nat_add of_nat_mult of_nat_numeral)
    have digits: "hex_text n = hex_text (n div 16) @ [hex_char (n mod 16)]"
      using False by (subst hex_text.simps) simp
    have "hex_loop v (hex_text n @ cs) =
        hex_loop ((v * 16 ^ length (hex_text (n div 16)) + of_nat (n div 16)) * 16 + of_nat (n mod 16)) cs"
      unfolding digits using "1.IH" [OF False] hex_char_cases(1) [OF d] by (simp del: hex_loop.simps)
    also have "(v * 16 ^ length (hex_text (n div 16)) + of_nat (n div 16)) * 16 + of_nat (n mod 16) =
        v * 16 ^ length (hex_text n) + of_nat n"
      unfolding digits num [symmetric] by (simp add: distrib_right add.assoc mult.assoc mult.commute)
    finally show ?thesis
      using "1.IH" [OF False] hex_char_cases(2,3) [OF d] by (auto simp: digits)
  qed
qed

text \<open>\<open>asHex\<close> reads back what \<open>%x\<close> prints, with and without the prefix \<open>0x\<close>, for every 32-bit
  number.\<close>

theorem asHex_reads_printed:
  "str_asHex (hex_text (unat n)) = n \<and> str_asHex ([48, 120] @ hex_text (unat n)) = n"
proof -
  have no: "120 \<notin> set (hex_text (unat n))" "88 \<notin> set (hex_text (unat n))"
    using hex_text_law [of 0 "unat n" "[]"] by simp_all
  have loop: "hex_loop 0 (hex_text (unat n)) = n" using hex_text_law [of 0 "unat n" "[]"] by simp
  have "hex_text (unat n) ! 1 \<noteq> 120 \<and> hex_text (unat n) ! 1 \<noteq> 88" if "2 < length (hex_text (unat n))"
    using no that nth_mem [of 1 "hex_text (unat n)"] by (metis One_nat_def Suc_lessD numeral_2_eq_2)
  then have "str_asHex (hex_text (unat n)) = n" using loop by (auto simp: str_asHex_def)
  moreover have "hex_text (unat n) \<noteq> []" by (subst hex_text.simps) simp
  ultimately show ?thesis using loop by (simp add: str_asHex_def)
qed

subsection \<open>Escapes\<close>

text \<open>The characters \<open>escapeC\<close> passes or writes with one letter.\<close>

definition plain_char :: "byte \<Rightarrow> bool" where
  "plain_char c \<longleftrightarrow> c \<in> {7, 8, 10, 11, 12, 13} \<or> 32 \<le> c \<and> c < 127"

lemma unescape_escape_char:
  "plain_char c \<Longrightarrow> unescape_loop (escape_char c @ cs) out = unescape_loop cs (out @ [c])"
  by (auto simp: plain_char_def escape_char_def unescape_loop.simps simple_escape_def)

lemma unescape_escape:
  "\<forall>c \<in> set s. plain_char c \<Longrightarrow> unescape_loop (str_escapeC s) out = (True, out @ s)"
  by (induction s arbitrary: out) (simp_all add: str_escapeC_def unescape_escape_char unescape_loop.simps)

text \<open>C36: \<open>unescapeC\<close> undoes \<open>escapeC\<close> on strings of printable characters and of the control
  characters that have a letter of their own in \<open>escapeC\<close>.\<close>

theorem escape_roundtrip:
  assumes "\<forall>c \<in> set s. plain_char c"
  shows "str_unescapeC (str_escapeC s) = (True, s)"
  using unescape_escape [OF assms, of "[]"] by (auto simp: str_unescapeC_def unescape_loop.simps)

lemma escape_roundtrip_witness: "str_unescapeC (str_escapeC [92, 10, 65, 34]) = (True, [92, 10, 65, 34])"
  by (rule escape_roundtrip) (simp add: plain_char_def)

text \<open>Hexadecimal escapes do not come back: a tab is written \<open>\x9\<close> with nothing to end the
  number, so a following letter \<open>a\<close> is read as part of it; and a character that does end the number
  is skipped. A NUL written \<open>\0\<close> at the end of a string is refused.\<close>

theorem hex_escape_not_read_back:
  "str_unescapeC (str_escapeC [9, 97]) = (True, [0x9a]) \<and>
   str_unescapeC (str_escapeC [9, 46]) = (True, [9]) \<and>
   fst (str_unescapeC [92, 48]) = False"
  by (simp add: str_escapeC_def escape_char_def hex_text.simps hex_char_def str_unescapeC_def
      unescape_loop.simps isxdigit_def isdigit_def hex_value_def to_lower_def)

end
