(* ===== verification/Command_Laws.thy ===== *)
theory Command_Laws
  imports Command_Line Hash_Laws String_Laws
begin

section \<open>Properties of the command line\<close>

text \<open>
  The order of arguments satisfies the contract \<open>comparer\<close> of the vector's sort, and the two tables of
  options the contract \<open>lookup_table\<close> of the dictionary; the properties of \<open>help\<close> and \<open>parse\<close> rest on
  these interpretations.
\<close>

subsection \<open>The order of arguments\<close>

definition head :: "byte list \<Rightarrow> byte" where
  "head xs = (case xs of [] \<Rightarrow> 0 | x # _ \<Rightarrow> x)"

lemma head_simps [simp]: "head [] = 0" "head (x # xs) = x"
  by (simp_all add: head_def)

lemma strcmp_swap: "strcmp ys xs = - strcmp xs ys"
  by (induction xs ys rule: strcmp.induct) auto

lemma strcmp_step:
  "strcmp xs ys = (if head xs = head ys then strcmp (tl xs) (tl ys) else ucast (head xs) - ucast (head ys))"
  by (cases xs; cases ys) auto

lemma sint_neg: "- (2 ^ 31) < sint w \<Longrightarrow> sint (- w :: int32) = - sint w"
  using sint_range_size [of w] by (simp add: word_size sint_word_minus signed_take_bit_int_eq_self)

lemma strcmp_range: "- 255 \<le> sint (strcmp xs ys)"
proof (induction xs ys rule: strcmp.induct)
  case (2 y ys)
  then show ?case using byte_diff_sign [of 0 y] uint_lt2p [of y] by auto
next
  case (3 x xs)
  then show ?case using byte_diff_sign [of x 0] order_trans [of "- 255" 0 "uint x"] by auto
next
  case (4 x xs y ys)
  have "uint y < 256" "0 \<le> uint x" using uint_lt2p [of y] by simp_all
  then have "- 255 \<le> uint x - uint y" by linarith
  then show ?case using 4 by (simp add: byte_diff_sign)
qed simp

lemma strcmp_less_step:
  "sint (strcmp xs ys) < 0 \<longleftrightarrow> head xs < head ys \<or> head xs = head ys \<and> sint (strcmp (tl xs) (tl ys)) < 0"
  by (subst strcmp_step) (auto simp: byte_diff_sign word_less_def)

lemma strcmp_0_step: "strcmp xs ys = 0 \<longleftrightarrow> head xs = head ys \<and> strcmp (tl xs) (tl ys) = 0"
  by (subst strcmp_step) (auto simp: ucast_byte_eq)

lemma strcmp_trans:
  "sint (strcmp xs ys) < 0 \<Longrightarrow> sint (strcmp ys zs) < 0 \<Longrightarrow> sint (strcmp xs zs) < 0"
proof (induction "length xs + length ys + length zs" arbitrary: xs ys zs rule: less_induct)
  case less
  show ?case
  proof (cases "xs = [] \<and> ys = [] \<and> zs = []")
    case False
    then have "length (tl xs) + length (tl ys) + length (tl zs) < length xs + length ys + length zs"
      by (cases xs; cases ys; cases zs) auto
    from less.hyps [OF this] less.prems show ?thesis
      unfolding strcmp_less_step [of xs] strcmp_less_step [of ys] by auto
  qed (use less.prems in simp)
qed

lemma strcmp_cong: "strcmp xs ys = 0 \<Longrightarrow> strcmp xs zs = strcmp ys zs"
proof (induction "length xs + length ys + length zs" arbitrary: xs ys zs rule: less_induct)
  case less
  show ?case
  proof (cases "xs = [] \<and> ys = [] \<and> zs = []")
    case False
    then have "length (tl xs) + length (tl ys) + length (tl zs) < length xs + length ys + length zs"
      by (cases xs; cases ys; cases zs) auto
    moreover have "head xs = head ys" "strcmp (tl xs) (tl ys) = 0" using less.prems strcmp_0_step by blast+
    ultimately show ?thesis using less.hyps by (subst (1 2) strcmp_step) simp
  qed simp
qed

lemma sint_char_diff: "sint (scast x - scast y :: int32) = sint (x :: byte) - sint (y :: byte)"
proof -
  have "(scast x - scast y :: int32) = word_of_int (sint x - sint y)"
    by (simp only: scast_eq wi_hom_syms)
  then have "sint (scast x - scast y :: int32) = signed_take_bit 31 (sint x - sint y)"
    by (simp only: signed_of_int) simp
  moreover have "- 128 \<le> sint x" "sint x < 128" "- 128 \<le> sint y" "sint y < 128"
    using sint_range_size [of x] sint_range_size [of y] by (simp_all add: word_size)
  ultimately show ?thesis
    by (simp add: signed_take_bit_int_eq_self)
qed

text \<open>The order that \<open>argument_compare\<close> computes: no long option first, then the long options, then the
  short ones downwards.\<close>

fun long_less :: "cstr option \<Rightarrow> cstr option \<Rightarrow> bool" where
  "long_less None (Some l) = True"
| "long_less (Some l) (Some l') = (sint (strcmp l l') < 0)"
| "long_less x y = False"

fun long_same :: "cstr option \<Rightarrow> cstr option \<Rightarrow> bool" where
  "long_same None None = True"
| "long_same (Some l) (Some l') = (strcmp l l' = 0)"
| "long_same x y = False"

lemma argument_less:
  "sint (argument_compare a b) < 0 \<longleftrightarrow>
     long_less (longOption a) (longOption b) \<or>
     long_same (longOption a) (longOption b) \<and> sint (shortOption b) < sint (shortOption a)"
  by (auto simp: argument_compare_def Let_def sint_char_diff split: option.splits)

lemma argument_greater:
  "0 < sint (argument_compare a b) \<longleftrightarrow>
     long_less (longOption b) (longOption a) \<or>
     long_same (longOption b) (longOption a) \<and> sint (shortOption a) < sint (shortOption b)"
proof -
  have "0 < sint (strcmp l l') \<longleftrightarrow> sint (strcmp l' l) < 0" for l l'
    using strcmp_range [of l l'] sint_neg [of "strcmp l l'"] by (simp add: strcmp_swap [of l' l])
  moreover have "strcmp l l' = 0 \<longleftrightarrow> strcmp l' l = 0" for l l' by (metis strcmp_swap neg_equal_0_iff_equal)
  ultimately show ?thesis
    by (auto simp: argument_compare_def Let_def sint_char_diff split: option.splits)
qed

lemma argument_range: "- 255 \<le> sint (argument_compare a b)"
  using sint_range_size [of "shortOption a"] sint_range_size [of "shortOption b"]
  by (auto simp: argument_compare_def Let_def sint_char_diff word_size strcmp_range split: option.splits)

lemma long_less_trans: "long_less x y \<Longrightarrow> long_less y z \<Longrightarrow> long_less x z"
  by (cases x; cases y; cases z) (auto intro: strcmp_trans)

lemma strcmp_cong_right: "strcmp ys zs = 0 \<Longrightarrow> strcmp xs ys = strcmp xs zs"
  by (metis strcmp_cong strcmp_swap)

lemma long_same_less: "long_same x y \<Longrightarrow> long_less y z \<Longrightarrow> long_less x z"
  by (cases x; cases y; cases z; simp) (metis strcmp_cong)

lemma long_less_same: "long_less x y \<Longrightarrow> long_same y z \<Longrightarrow> long_less x z"
  by (cases x; cases y; cases z; simp) (metis strcmp_cong_right)

lemma long_same_trans: "long_same x y \<Longrightarrow> long_same y z \<Longrightarrow> long_same x z"
  by (cases x; cases y; cases z; simp) (metis strcmp_cong)

text \<open>The contract of the sort, for two arguments and for two pointers to them.\<close>

interpretation argument_order: comparer argument_compare
proof
  fix a b c
  show "sint (argument_compare a b) < 0 \<longleftrightarrow> 0 < sint (argument_compare b a)"
    by (simp add: argument_less argument_greater)
  show "sint (argument_compare a b) \<noteq> - (2 ^ 31)" using argument_range [of a b] by simp
  show "sint (argument_compare a b) < 0 \<Longrightarrow> sint (argument_compare b c) < 0 \<Longrightarrow> sint (argument_compare a c) < 0"
    unfolding argument_less
    by (auto intro: long_less_trans long_same_less long_less_same long_same_trans)
qed

interpretation pointer_order: comparer "heap_compare h" for h
  by unfold_locales (fact argument_order.sign, fact argument_order.less_trans, fact argument_order.negatable)

subsection \<open>Wrapped text\<close>

function words :: "byte list \<Rightarrow> byte list list" where
  "words s =
     (case dropWhile isspace s of
        [] \<Rightarrow> []
      | c # cs \<Rightarrow> (c # takeWhile (\<lambda>b. \<not> isspace b) cs) # words (dropWhile (\<lambda>b. \<not> isspace b) cs))"
  by auto
termination
  by (relation "measure length") (auto dest!: dropWhile_shorter intro: le_less_trans [OF length_dropWhile_le])

declare words.simps [simp del]

lemma words_blank: "list_all isspace pre \<Longrightarrow> words (pre @ s) = words s"
  by (subst (1 2) words.simps) (simp add: dropWhile_append1 list_all_iff dropWhile_append2)

lemma words_Nil [simp]: "words [] = []"
  by (simp add: words.simps)

lemma words_join:
  assumes "list_all isspace pre" "list_all (\<lambda>b. \<not> isspace b) word"
    and "word = [] \<or> rest = [] \<or> isspace (hd rest)"
  shows "words (pre @ word @ rest) = (if word = [] then [] else [word]) @ words rest"
proof (cases word)
  case (Cons c cs)
  have "takeWhile (\<lambda>b. \<not> isspace b) (cs @ rest) = cs" "dropWhile (\<lambda>b. \<not> isspace b) (cs @ rest) = rest"
    using assms(2,3) Cons by (cases rest; auto simp: list_all_iff)+
  moreover have "\<not> isspace c" using assms(2) Cons by simp
  ultimately have "words (word @ rest) = word # words rest"
    using Cons by (subst words.simps) simp
  then show ?thesis using Cons words_blank [OF assms(1)] by simp
qed (simp add: words_blank [OF assms(1)])

lemma blank_newLine: "list_all isspace (newLine indent n)" "0 < n \<Longrightarrow> newLine indent n \<noteq> []"
  by (auto simp: newLine_def blanks_def list_all_iff isspace_def)

lemma blank_blanks: "list_all isspace (blanks n)"
  by (simp add: blanks_def list_all_iff isspace_def)

text \<open>Texts without a carriage return behind a blank: \<open>wrapTo\<close> steps over the character after such a one.\<close>

fun plain :: "cstr \<Rightarrow> bool" where
  "plain (c # d # s) = ((d = 13 \<longrightarrow> \<not> isspace c) \<and> plain (d # s))"
| "plain s = True"

lemma plain_Cons: "plain (c # s) \<Longrightarrow> plain s"
  by (cases s) auto

lemma plain_dropWhile: "plain s \<Longrightarrow> plain (dropWhile P s)"
  by (induction s) (auto dest: plain_Cons)

lemma plain_blanks: "plain (c # s) \<Longrightarrow> isspace c \<Longrightarrow> 13 \<notin> set (takeWhile isspace s)"
  by (induction s arbitrary: c) (auto split: if_splits)

lemma wrap_spaces_law:
  "13 \<notin> set (takeWhile isspace s) \<Longrightarrow> \<exists>out ap'. wrap_spaces indent ap s = Some (out, ap', dropWhile isspace s) \<and>
     list_all isspace out \<and> (out = [] \<and> ap' = ap \<or> out \<noteq> [] \<and> ap' = 0)"
proof (induction s arbitrary: ap)
  case (Cons c cs)
  then show ?case using Cons.IH [of 0] Cons.IH [of ap] blank_newLine [where indent = indent and n = 2] by fastforce
qed simp

lemma print_word_law:
  assumes "0 \<le> ap"
  obtains pre ap' where "print_word indent len ap word = (pre @ word, ap')" "list_all isspace pre"
    "ap = 0 \<or> pre \<noteq> [] " "0 \<le> ap'" "word = [] \<or> 0 < ap'"
proof (cases "0 < ap")
  case True
  show thesis
  proof (cases "len < ap + int (length word) + 1")
    case True
    then show thesis
      using that [of "newLine indent 1" "int (length word)"] blank_newLine [where indent = indent and n = 1] \<open>0 < ap\<close>
      by (auto simp: print_word_def Let_def)
  next
    case False
    then show thesis
      using that [of "[32]" "ap + (int (length word) + 1)"] \<open>0 < ap\<close>
      by (auto simp: print_word_def Let_def isspace_def)
  qed
next
  case False
  then show thesis
    using assms that [of "[]" "ap + int (length word)"] by (auto simp: print_word_def Let_def)
qed

lemma hd_blank: "list_all isspace pre \<Longrightarrow> pre \<noteq> [] \<Longrightarrow> isspace (hd (pre @ s))"
  by (cases pre) auto

lemma hd_dropWhile_not: "dropWhile (\<lambda>b. \<not> P b) s = c # cs \<Longrightarrow> P c"
  by (metis dropWhile_eq_Cons_conv)

lemma words_split:
  "words s = (let w = takeWhile (\<lambda>b. \<not> isspace b) s in if w = [] then [] else [w]) @
     words (dropWhile (\<lambda>b. \<not> isspace b) s)"
proof -
  have "takeWhile (\<lambda>b. \<not> isspace b) s = [] \<or> dropWhile (\<lambda>b. \<not> isspace b) s = [] \<or>
      isspace (hd (dropWhile (\<lambda>b. \<not> isspace b) s))"
    using hd_dropWhile by blast
  moreover have "list_all (\<lambda>b. \<not> isspace b) (takeWhile (\<lambda>b. \<not> isspace b) s)"
    unfolding list_all_iff by (blast dest: set_takeWhileD)
  ultimately show ?thesis
    using words_join [of "[]" "takeWhile (\<lambda>b. \<not> isspace b) s" "dropWhile (\<lambda>b. \<not> isspace b) s"]
    by (simp only: append_Nil takeWhile_dropWhile_id list.pred_inject Let_def)
qed

lemma words_drop: "words (c # s) = words s" if "isspace c"
  using words_blank [of "[c]" s] that by simp

lemma words_append:
  "t = [] \<or> isspace (hd t) \<Longrightarrow> words (s @ t) = words s @ words t"
proof (induction "length s" arbitrary: s rule: less_induct)
  case less
  let ?w = "takeWhile (\<lambda>b. \<not> isspace b) s"
  have w: "list_all (\<lambda>b. \<not> isspace b) ?w" unfolding list_all_iff by (blast dest: set_takeWhileD)
  show ?case
  proof (cases "dropWhile (\<lambda>b. \<not> isspace b) s")
    case Nil
    then have s: "?w = s" by (simp add: dropWhile_eq_Nil_conv)
    then show ?thesis
      using words_join [of "[]" s t] words_join [of "[]" s "[]"] w [unfolded s] less.prems by simp
  next
    case (Cons c cs)
    have s: "s = ?w @ c # cs" using Cons by (metis takeWhile_dropWhile_id)
    have c: "isspace c" by (rule hd_dropWhile_not [OF Cons])
    have "words (cs @ t) = words cs @ words t" using less dropWhile_shorter [OF Cons] by blast
    moreover have "words (?w @ c # r) = (if ?w = [] then [] else [?w]) @ words r" for r
      using words_join [of "[]" ?w "c # r"] w c words_drop by simp
    ultimately show ?thesis using s by (metis append.assoc append_Cons)
  qed
qed

lemma wrap_loop_law:
  "plain s \<Longrightarrow> 0 \<le> ap \<Longrightarrow> \<exists>out. wrap_loop indent len ap s = Some out \<and> words out = words s \<and>
     (0 < ap \<longrightarrow> out = [] \<or> isspace (hd out))"
proof (induction "length s" arbitrary: s ap rule: less_induct)
  case less
  let ?ns = "\<lambda>b. \<not> isspace b"
  let ?w = "takeWhile ?ns s"
  show ?case
  proof (cases "s = []")
    case False
    obtain pre ap1 where pw: "print_word indent len ap ?w = (pre @ ?w, ap1)" "list_all isspace pre"
      "ap = 0 \<or> pre \<noteq> []" "0 \<le> ap1" "?w = [] \<or> 0 < ap1"
      using print_word_law [OF less.prems(2)] by blast
    have w: "list_all ?ns ?w" by (auto simp: list_all_iff dest: set_takeWhileD)
    have first: "0 < ap \<longrightarrow> pre @ t = [] \<or> isspace (hd (pre @ t))" for t
      using pw(2,3) hd_blank by auto
    show ?thesis
    proof (cases "dropWhile ?ns s")
      case Nil
      then have "wrap_loop indent len ap s = Some (pre @ ?w)"
        using pw(1) False by (subst wrap_loop.simps) (simp only: if_False prod.case list.case)
      moreover have "words (pre @ ?w) = words s"
        using words_join [OF pw(2) w, of "[]"] words_split [of s] Nil by (simp add: Let_def)
      ultimately show ?thesis using first by auto
    next
      case (Cons c cs)
      have c: "isspace c" "length cs < length s" "plain (c # cs)" "plain cs"
        using hd_dropWhile_not [OF Cons] dropWhile_shorter [OF Cons] plain_dropWhile [OF less.prems(1), of ?ns]
        by (auto simp: Cons dest: plain_Cons)
      obtain out1 ap2 rest where mid: "list_all isspace out1" "?w = [] \<or> out1 \<noteq> [] \<or> 0 < ap2" "0 \<le> ap2"
        "length rest < length s" "plain rest" "words rest = words cs"
        and run: "\<And>out2. wrap_loop indent len ap2 rest = Some out2 \<Longrightarrow>
          wrap_loop indent len ap s = Some (pre @ ?w @ out1 @ out2)"
      proof (cases "c = 10 \<or> c = 13")
        case True
        let ?nl = "newLine indent (if c = 10 then 2 else 1)"
        have "wrap_loop indent len ap s = Some (pre @ ?w @ ?nl @ out2)"
          if "wrap_loop indent len 0 cs = Some out2" for out2
          using that True pw(1) False Cons by (subst wrap_loop.simps) auto
        moreover have "list_all isspace ?nl" "?nl \<noteq> []"
          using blank_newLine [where indent = indent and n = 2] blank_newLine [where indent = indent and n = 1] by auto
        ultimately show thesis using that [of ?nl 0 cs] c by simp
      next
        case not_nl: False
        obtain out1 ap2 where ws: "wrap_spaces indent ap1 cs = Some (out1, ap2, dropWhile isspace cs)"
          "list_all isspace out1" "out1 = [] \<and> ap2 = ap1 \<or> out1 \<noteq> [] \<and> ap2 = 0"
          using wrap_spaces_law [OF plain_blanks [OF c(3,1)]] by blast
        have "wrap_loop indent len ap s = Some (pre @ ?w @ out1 @ out2)"
          if "wrap_loop indent len ap2 (dropWhile isspace cs) = Some out2" for out2
          using that pw(1) False Cons not_nl ws(1) by (subst wrap_loop.simps) simp
        moreover have "words (dropWhile isspace cs) = words cs" by (subst (1 2) words.simps) simp
        ultimately show thesis
          using that [of out1 ap2 "dropWhile isspace cs"] ws(2,3) pw(4,5) c
            length_dropWhile_le [of isspace cs] plain_dropWhile [OF c(4)] by auto
      qed
      obtain out2 where o2: "wrap_loop indent len ap2 rest = Some out2" "words out2 = words rest"
        "0 < ap2 \<longrightarrow> out2 = [] \<or> isspace (hd out2)"
        using less.hyps [OF mid(4,5,3)] by blast
      have "?w = [] \<or> out1 @ out2 = [] \<or> isspace (hd (out1 @ out2))"
        using mid(1,2) o2(3) hd_blank [of out1 out2] by (cases "out1 = []") auto
      from words_join [OF pw(2) w this]
      have "words (pre @ ?w @ out1 @ out2) = words s"
        using words_split [of s] Cons words_blank [OF mid(1)] o2(2) mid(6) words_drop [OF c(1)] by (simp add: Let_def)
      then show ?thesis using run [OF o2(1)] first [of "?w @ out1 @ out2"] by blast
    qed
  qed (simp add: wrap_loop.simps)
qed

lemma wrapTo_law:
  assumes "plain s" "0 \<le> ap"
  shows "\<exists>out. wrapTo ap indent len s = Some out \<and> words out = words s"
proof -
  define pre :: "byte list" where "pre = (if ap < indent then blanks (indent - ap) else [])"
  define ap1 where "ap1 = (if ap < indent then 0 else ap)"
  have pre: "list_all isspace pre" "0 \<le> ap1" using assms(2) blank_blanks by (simp_all add: pre_def ap1_def)
  obtain out where out: "wrap_loop indent (len - indent) ap1 s = Some out" "words out = words s"
    using wrap_loop_law [OF assms(1) pre(2)] by blast
  have "words (out @ [10]) = words out"
    using words_append [of "[10]" out] words_drop [of 10 "[]"] by (simp add: isspace_def)
  then have "words (pre @ out @ [10]) = words s" using words_blank [OF pre(1)] out(2) by simp
  then show ?thesis using out(1) by (auto simp: wrapTo_def pre_def ap1_def Let_def)
qed

subsection \<open>The help text\<close>

definition texts_plain :: "command \<Rightarrow> bool" where
  "texts_plain c \<longleftrightarrow> (\<forall>h. finalArgumentsHelpText c = Some h \<longrightarrow> plain h) \<and>
     (\<forall>d. cmd_description c = Some d \<longrightarrow> plain d) \<and>
     (\<forall>i\<in>set (vlist (allArguments c)). plain (helpText (heap c ! i)))"

lemma wrapTo_defined: "plain s \<Longrightarrow> 0 \<le> ap \<Longrightarrow> \<exists>out. wrapTo ap indent len s = Some out"
  using wrapTo_law by blast

lemma option_text_defined: "plain (helpText a) \<Longrightarrow> \<exists>out. option_text indent len a = Some out"
  using wrapTo_defined [of "helpText a" 0 indent len] wrapTo_defined [of "helpText a" 8 indent len]
    wrapTo_defined [of "helpText a" "10 + int (length (the (longOption a)))" indent len]
  by (auto simp: option_text_def Let_def split: option.splits)

lemma option_texts_defined: "\<forall>a\<in>set as. plain (helpText a) \<Longrightarrow> \<exists>out. option_texts indent len as = Some out"
proof (induction as)
  case (Cons a as)
  then show ?case using option_text_defined [of a indent len] by auto
qed simp

lemma wrap_option_defined: "(\<forall>d. x = Some d \<longrightarrow> plain d) \<Longrightarrow> 0 \<le> ap \<Longrightarrow>
    \<exists>out. (case x of Some h \<Rightarrow> wrapTo ap indent len h | None \<Rightarrow> Some e) = Some out"
  using wrapTo_defined by (cases x) auto

text \<open>\<open>wrapTo\<close> prints the words of its text, all of them and in their order, with blanks and line ends
  between them, for any width and indent; the text holds no carriage return behind a blank.\<close>

theorem wrapTo_words:
  assumes "plain s" "0 \<le> alreadyPrinted"
  shows "\<exists>out. wrapTo alreadyPrinted indent lineLength s = Some out \<and> words out = words s"
  by (rule wrapTo_law [OF assms])

lemma wrapTo_words_witness:
  "\<exists>out. wrapTo 0 2 6 (ascii ''ab cd ef'') = Some out \<and> words out = [ascii ''ab'', ascii ''cd'', ascii ''ef'']"
proof -
  have "words (ascii ''ab cd ef'') = [ascii ''ab'', ascii ''cd'', ascii ''ef'']"
    by (simp add: words.simps isspace_def ascii_def)
  then show ?thesis using wrapTo_words [of "ascii ''ab cd ef''" 0 2 6] by (simp add: ascii_def isspace_def)
qed

lemma help_runs:
  assumes "vec_ok (allArguments c)" "texts_plain c"
  shows "\<exists>out c'. cmd_help console c = Some (out, c') \<and> heap c' = heap c \<and>
    mset (vlist (allArguments c')) = mset (vlist (allArguments c)) \<and>
    sorted_wrt (\<lambda>i j. 0 \<le> sint (argument_compare (heap c ! j) (heap c ! i))) (vlist (allArguments c'))"
proof -
  obtain v where v: "vec_sort (heap_compare (heap c)) True (allArguments c) = Some v" "vec_ok v"
      "mset (vlist v) = mset (vlist (allArguments c))"
      "sorted_wrt (\<lambda>i j. \<not> pointer_order.precedes (heap c) True j i) (vlist v)"
    using pointer_order.sort_law [OF assms(1), of "heap c" True] by blast
  have sorted: "sorted_wrt (\<lambda>i j. 0 \<le> sint (argument_compare (heap c ! j) (heap c ! i))) (vlist v)"
    using v(4) by (rule sorted_wrt_mono_rel [rotated]) (simp add: pointer_order.precedes_def not_less)
  obtain indent len where layout: "console_layout console = (indent, len)" by fastforce
  have "set (vlist v) = set (vlist (allArguments c))" using v(3) by (metis set_mset_mset)
  then obtain opts where opts: "option_texts indent len (map ((!) (heap c)) (vlist v)) = Some opts"
    using option_texts_defined [of "map ((!) (heap c)) (vlist v)" indent len] assms(2) by (auto simp: texts_plain_def)
  obtain final where final: "(case finalArgumentsHelpText c of
      Some h \<Rightarrow> wrapTo (8 + int (length (cmd_command c))) (len sdiv 4) len h | None \<Rightarrow> Some [10]) = Some final"
    using wrap_option_defined [of "finalArgumentsHelpText c"] assms(2)
    by (metis (no_types, lifting) texts_plain_def of_nat_0_le_iff add_nonneg_nonneg zero_le_numeral)
  obtain about where about: "(case cmd_description c of Some d \<Rightarrow> wrapTo 0 0 len d | None \<Rightarrow> Some []) = Some about"
    using wrap_option_defined [where x = "cmd_description c" and ap = 0 and indent = 0 and len = len and e = "[]"] assms(2) by (auto simp: texts_plain_def)
  show ?thesis
  proof (cases "0 < elementCount (allArguments c)")
    case True
    then show ?thesis using v opts final about layout sorted by (auto simp: cmd_help_def)
  next
    case False
    then have "vlist (allArguments c) = []" using assms(1) by (simp add: vlist_def)
    then show ?thesis using False final about layout by (auto simp: cmd_help_def)
  qed
qed

text \<open>\<open>help()\<close> lists every argument exactly once, in the order of \<open>compare\<close>: none comes before a
  smaller one. It ends for every width of the console.\<close>

theorem help_sorts_arguments:
  assumes "vec_ok (allArguments c)" "texts_plain c"
  shows "\<exists>out c'. cmd_help console c = Some (out, c') \<and> heap c' = heap c \<and>
    mset (vlist (allArguments c')) = mset (vlist (allArguments c)) \<and>
    sorted_wrt (\<lambda>i j. 0 \<le> sint (argument_compare (heap c ! j) (heap c ! i))) (vlist (allArguments c'))"
  by (rule help_runs [OF assms])

end
