(* ===== verification/Option_Laws.thy ===== *)
theory Option_Laws
  imports Command_Laws
begin

section \<open>Properties of option definitions and of \<open>parse\<close>\<close>

text \<open>
  The invariant of a command between calls, what defining an option does, and what \<open>parse\<close> makes of
  an argument vector. All of it uses the dictionaries through the contract \<open>lookup_table\<close>.
\<close>

subsection \<open>The invariant\<close>

definition option_table :: "(argument \<Rightarrow> cstr option) \<Rightarrow> argument list \<Rightarrow> nat option dictionary \<Rightarrow> bool" where
  "option_table name h d \<longleftrightarrow> dictionary_ok d \<and> card (dom (table_map d)) \<le> length h \<and>
     (\<forall>k b. table_map d k = Some b \<longrightarrow> (\<exists>n<length h. b = Some n \<and> name (h ! n) = Some k))"

abbreviation short_name :: "argument \<Rightarrow> cstr option" where
  "short_name a \<equiv> (if shortOption a = 0 then None else Some [shortOption a])"

definition command_ok :: "command \<Rightarrow> bool" where
  "command_ok c \<longleftrightarrow>
     option_table short_name (heap c) (shortOptions c) \<and> option_table longOption (heap c) (longOptions c) \<and>
     vec_ok (allArguments c) \<and> mset (vlist (allArguments c)) = mset [0..<length (heap c)] \<and>
     (\<forall>n. help_argument c = Some n \<longrightarrow> n < length (heap c))"

lemma option_table_get:
  "option_table name h d \<Longrightarrow> dict_get None k d = Some (case table_map d k of None \<Rightarrow> None | Some b \<Rightarrow> b)"
  by (simp add: option_table_def dict.get value_of_def)

lemma option_table_append:
  assumes "option_table name h d"
  shows "option_table name (h @ [a]) d"
proof -
  have "\<exists>n<length (h @ [a]). b = Some n \<and> name ((h @ [a]) ! n) = Some k" if kb: "table_map d k = Some b" for k b
  proof -
    obtain n where "n < length h" "b = Some n" "name (h ! n) = Some k"
      using assms kb unfolding option_table_def by blast
    then show ?thesis by (intro exI [of _ n]) (simp add: nth_append)
  qed
  then show ?thesis using assms by (simp add: option_table_def)
qed

lemma option_table_put:
  assumes t: "option_table name h d" and n: "n < length h" "name (h ! n) = Some k" and small: "length h < 2 ^ 26"
    and room: "card (dom (table_map d)) < length h"
  obtains d' where "dict_put k (Some n) d = Some (table_map d k = None, d')" "option_table name h d'"
    "table_map d' = (table_map d)(k \<mapsto> Some n)"
proof -
  have ok: "dictionary_ok d" and card: "card (dom (table_map d)) < 2 ^ 26"
    using t room small by (simp_all add: option_table_def)
  obtain d' where d': "dict_put k (Some n) d = Some (table_map d k = None, d')" "dictionary_ok d'"
      "table_map d' = (table_map d)(k \<mapsto> Some n)"
    using dict.put [OF ok card] by blast
  have "card (dom (table_map d')) \<le> length h"
    using dict.finite_dom [OF ok] room by (simp add: d'(3) card_insert_if)
  moreover have "\<exists>n'<length h. b = Some n' \<and> name (h ! n') = Some k'" if "table_map d' k' = Some b" for k' b
    using that t n unfolding d'(3) option_table_def by (cases "k' = k") auto
  ultimately have "option_table name h d'" using d'(2) by (simp add: option_table_def)
  then show thesis using that d'(1,3) by blast
qed

lemma Command_ok: "\<exists>c. Command = Some c \<and> command_ok c \<and> heap c = [] \<and> help_argument c = None \<and>
    finalMin c = 0 \<and> finalMax c = 0 \<and>
    table_map (shortOptions c) = Map.empty \<and> table_map (longOptions c) = Map.empty"
proof -
  obtain d :: "nat option dictionary" where d: "dictionary = Some d" and "dictionary_ok d" "table_map d = Map.empty"
    using new_dictionary by blast
  then have t: "option_table name [] d" for name by (simp add: option_table_def)
  define c where "c = \<lparr>shortOptions = d, longOptions = d, finalMin = 0, finalMax = 0,
       finalArgumentsHelpText = None, cmd_description = None, finalArgc = 0, finalArgv = [],
       cmd_command = [], help_argument = None, allArguments = vec_empty, heap = []\<rparr>"
  have "Command = Some c" by (simp add: Command_def d [THEN eq_reflection] c_def)
  moreover have "command_ok c" using t by (simp add: c_def command_ok_def vec_empty_def vec_ok_def vlist_def)
  moreover have "heap c = [] \<and> help_argument c = None \<and> finalMin c = 0 \<and> finalMax c = 0 \<and>
      shortOptions c = d \<and> longOptions c = d"
    by (simp add: c_def)
  ultimately show ?thesis using \<open>table_map d = Map.empty\<close> by (intro exI [of _ c] conjI) simp_all
qed

subsection \<open>Defining an option\<close>

definition known :: "byte \<Rightarrow> command \<Rightarrow> bool" where
  "known short c \<longleftrightarrow> short \<noteq> 0 \<and> table_map (shortOptions c) [short] \<noteq> None"

definition known_long :: "cstr option \<Rightarrow> command \<Rightarrow> bool" where
  "known_long long c \<longleftrightarrow> (case long of None \<Rightarrow> False | Some l \<Rightarrow> table_map (longOptions c) l \<noteq> None)"

lemma define_law:
  assumes ok: "command_ok c" and small: "length (heap c) < 2 ^ 26 - 1"
    and a: "shortOption a = short" "longOption a = long"
  obtains c' where "defineOption short long (length (heap c)) (c\<lparr>heap := heap c @ [a]\<rparr>) =
      Some (\<not> known short c \<and> \<not> known_long long c, c')"
    "command_ok c'" "heap c' = heap c @ [a]" "help_argument c' = help_argument c"
    "table_map (shortOptions c') =
       (if short = 0 then table_map (shortOptions c) else (table_map (shortOptions c))([short] \<mapsto> Some (length (heap c))))"
    "table_map (longOptions c') =
       (if known short c then table_map (longOptions c)
        else case long of None \<Rightarrow> table_map (longOptions c)
           | Some l \<Rightarrow> (table_map (longOptions c))(l \<mapsto> Some (length (heap c))))"
    "finalMin c' = finalMin c" "finalMax c' = finalMax c"
proof -
  let ?h = "heap c @ [a]" and ?n = "length (heap c)"
  have s: "option_table short_name (heap c) (shortOptions c)" and l: "option_table longOption (heap c) (longOptions c)"
    and v: "vec_ok (allArguments c)" "mset (vlist (allArguments c)) = mset [0..<?n]"
    using ok by (simp_all add: command_ok_def)
  have "length (vlist (allArguments c)) = ?n" using v(2) by (metis length_upt mset_eq_length diff_zero)
  then have "elementCount (allArguments c) < 2 ^ 30" using length_vlist [OF v(1)] small v(1)
    by (simp add: vec_ok_def)
  then obtain args where args: "vec_push_back 0 ?n (allArguments c) = Some args" "vec_ok args"
      "vlist args = vlist (allArguments c) @ [?n]"
    using push_back_law [OF v(1)] by blast
  have cards: "card (dom (table_map (shortOptions c))) < length ?h" "card (dom (table_map (longOptions c))) < length ?h"
      "length ?h < 2 ^ 26"
    using s l small by (simp_all add: option_table_def)
  obtain d where d: "(if short \<noteq> 0 then dict_put [short] (Some ?n) (shortOptions c) else Some (True, shortOptions c)) =
      Some (\<not> known short c, d)" "option_table short_name ?h d"
      "table_map d = (if short = 0 then table_map (shortOptions c) else (table_map (shortOptions c))([short] \<mapsto> Some ?n))"
  proof (cases "short = 0")
    case True
    then show thesis using that option_table_append [OF s] by (simp add: known_def)
  next
    case False
    obtain d where "dict_put [short] (Some ?n) (shortOptions c) = Some (table_map (shortOptions c) [short] = None, d)"
        "option_table short_name ?h d" "table_map d = (table_map (shortOptions c))([short] \<mapsto> Some ?n)"
      by (rule option_table_put [OF option_table_append [OF s, of a], of ?n "[short]"])
         (use a(1) False cards in \<open>auto simp: nth_append\<close>)
    then show thesis using that False by (simp add: known_def)
  qed
  obtain e where e: "(case long of None \<Rightarrow> Some (True, longOptions c) | Some l \<Rightarrow> dict_put l (Some ?n) (longOptions c)) =
      Some (\<not> known_long long c, e)" "option_table longOption ?h e"
      "table_map e = (case long of None \<Rightarrow> table_map (longOptions c)
         | Some l \<Rightarrow> (table_map (longOptions c))(l \<mapsto> Some ?n))"
  proof (cases long)
    case None
    then show thesis using that option_table_append [OF l] by (simp add: known_long_def)
  next
    case (Some k)
    obtain e where "dict_put k (Some ?n) (longOptions c) = Some (table_map (longOptions c) k = None, e)"
        "option_table longOption ?h e" "table_map e = (table_map (longOptions c))(k \<mapsto> Some ?n)"
      by (rule option_table_put [OF option_table_append [OF l, of a], of ?n k])
         (use a(2) Some cards in \<open>auto simp: nth_append\<close>)
    then show thesis using that Some by (simp add: known_long_def)
  qed
  let ?c1 = "c\<lparr>heap := ?h, allArguments := args, shortOptions := d\<rparr>"
  have count: "mset (vlist args) = mset [0..<length ?h]" using args(3) v(2) by simp
  have helparg: "\<forall>n. help_argument c = Some n \<longrightarrow> n < length ?h" using ok by (auto simp: command_ok_def)
  show thesis
  proof (cases "known short c")
    case True
    have "defineOption short long ?n (c\<lparr>heap := ?h\<rparr>) = Some (False, ?c1)"
      using args(1) d(1) True by (auto simp: defineOption_def known_def)
    moreover have "command_ok ?c1"
      using d(2) option_table_append [OF l] args(2) count helparg by (simp add: command_ok_def)
    ultimately show thesis using that [of ?c1] d(3) True by simp
  next
    case False
    have "defineOption short long ?n (c\<lparr>heap := ?h\<rparr>) = Some (\<not> known_long long c, ?c1\<lparr>longOptions := e\<rparr>)"
      using args(1) d(1) False e(1) by (auto simp: defineOption_def split: option.splits if_splits)
    moreover have "command_ok (?c1\<lparr>longOptions := e\<rparr>)"
      using d(2) e(2) args(2) count helparg by (simp add: command_ok_def)
    ultimately show thesis using that [of "?c1\<lparr>longOptions := e\<rparr>"] d(3) e(3) False by simp
  qed
qed

lemma string_law:
  assumes "command_ok c" "length (heap c) < 2 ^ 26 - 1"
  obtains c' where "stringArgument short long hlp c =
      Some (if known short c \<or> known_long long c then None else Some (length (heap c)), c')"
    "command_ok c'" "heap c' = heap c @ [Argument AC_STRING short long hlp]"
    "table_map (shortOptions c') =
       (if short = 0 then table_map (shortOptions c) else (table_map (shortOptions c))([short] \<mapsto> Some (length (heap c))))"
  by (rule define_law [OF assms, of "Argument AC_STRING short long hlp" short long])
     (simp_all add: stringArgument_def new_argument_def Argument_def)

lemma boolean_law:
  assumes "command_ok c" "length (heap c) < 2 ^ 26 - 1"
  obtains c' where "booleanArgument short long hlp c =
      Some (if known short c \<or> known_long long c then None else Some (length (heap c)), c')"
    "command_ok c'" "heap c' = heap c @ [Argument AC_BOOLEAN short long hlp]" "help_argument c' = help_argument c"
    "table_map (shortOptions c') =
       (if short = 0 then table_map (shortOptions c) else (table_map (shortOptions c))([short] \<mapsto> Some (length (heap c))))"
    "table_map (longOptions c') =
       (if known short c then table_map (longOptions c)
        else case long of None \<Rightarrow> table_map (longOptions c)
           | Some l \<Rightarrow> (table_map (longOptions c))(l \<mapsto> Some (length (heap c))))"
    "finalMin c' = finalMin c" "finalMax c' = finalMax c"
  by (rule define_law [OF assms, of "Argument AC_BOOLEAN short long hlp" short long])
     (simp_all add: booleanArgument_def new_argument_def Argument_def)

lemma help_law:
  assumes "command_ok c" "length (heap c) < 2 ^ 26 - 1" "help_argument c = None"
  obtains c' where "helpArgument short long hlp c = Some (\<not> known short c \<and> \<not> known_long long c, c')"
    "command_ok c'" "heap c' = heap c @ [Argument AC_HELP short long hlp]"
    "help_argument c' = (if known short c \<or> known_long long c then None else Some (length (heap c)))"
    "table_map (longOptions c') =
       (if known short c then table_map (longOptions c)
        else case long of None \<Rightarrow> table_map (longOptions c)
           | Some l \<Rightarrow> (table_map (longOptions c))(l \<mapsto> Some (length (heap c))))"
    "finalMin c' = finalMin c" "finalMax c' = finalMax c"
proof (rule define_law [OF assms(1,2), of "Argument AC_HELP short long hlp" short long])
  fix c' :: command
  let ?dup = "known short c \<or> known_long long c"
  let ?c = "if ?dup then c' else c'\<lparr>help_argument := Some (length (heap c))\<rparr>"
  assume run: "defineOption short long (length (heap c)) (c\<lparr>heap := heap c @ [Argument AC_HELP short long hlp]\<rparr>) =
      Some (\<not> known short c \<and> \<not> known_long long c, c')"
    and ok: "command_ok c'" "heap c' = heap c @ [Argument AC_HELP short long hlp]" "help_argument c' = help_argument c"
    and rest: "table_map (longOptions c') =
       (if known short c then table_map (longOptions c)
        else case long of None \<Rightarrow> table_map (longOptions c)
           | Some l \<Rightarrow> (table_map (longOptions c))(l \<mapsto> Some (length (heap c))))"
      "finalMin c' = finalMin c" "finalMax c' = finalMax c"
  have "helpArgument short long hlp c = Some (\<not> known short c \<and> \<not> known_long long c, ?c)"
    using run assms(3) by (auto simp: helpArgument_def new_argument_def)
  moreover have "command_ok ?c" using ok by (auto simp: command_ok_def simp del: mset_upt)
  moreover have "longOptions ?c = longOptions c'" "finalMin ?c = finalMin c'" "finalMax ?c = finalMax c'" by simp_all
  ultimately show thesis using that [of ?c] ok assms(3) rest by simp
qed (simp_all add: Argument_def)

text \<open>The invariant of a command: each of its two tables is a dictionary whose entries point to an
  argument that carries the entry's key as its name, and the list of all arguments holds each exactly
  once. The constructor establishes it and each of the three ways to define an option keeps it; the
  new argument comes last. An option is accepted when neither of its names was in use.\<close>

theorem defining_options:
  "(\<exists>c. Command = Some c \<and> command_ok c \<and> heap c = []) \<and>
   (command_ok c \<and> length (heap c) < 2 ^ 26 - 1 \<longrightarrow>
     (\<exists>r c'. stringArgument short long hlp c = Some (r, c') \<and> command_ok c' \<and>
        heap c' = heap c @ [Argument AC_STRING short long hlp] \<and>
        (r \<noteq> None \<longleftrightarrow> \<not> known short c \<and> \<not> known_long long c)) \<and>
     (\<exists>r c'. booleanArgument short long hlp c = Some (r, c') \<and> command_ok c' \<and>
        heap c' = heap c @ [Argument AC_BOOLEAN short long hlp] \<and>
        (r \<noteq> None \<longleftrightarrow> \<not> known short c \<and> \<not> known_long long c)) \<and>
     (help_argument c = None \<longrightarrow>
       (\<exists>r c'. helpArgument short long hlp c = Some (r, c') \<and> command_ok c' \<and>
          heap c' = heap c @ [Argument AC_HELP short long hlp] \<and>
          (r \<longleftrightarrow> \<not> known short c \<and> \<not> known_long long c))))"
proof (intro conjI impI; (elim conjE)?)
  show "\<exists>c. Command = Some c \<and> command_ok c \<and> heap c = []" using Command_ok by blast
  assume ok: "command_ok c" "length (heap c) < 2 ^ 26 - 1"
  show "\<exists>r c'. stringArgument short long hlp c = Some (r, c') \<and> command_ok c' \<and>
      heap c' = heap c @ [Argument AC_STRING short long hlp] \<and> (r \<noteq> None \<longleftrightarrow> \<not> known short c \<and> \<not> known_long long c)"
    by (rule string_law [OF ok, of short long hlp]) auto
  show "\<exists>r c'. booleanArgument short long hlp c = Some (r, c') \<and> command_ok c' \<and>
      heap c' = heap c @ [Argument AC_BOOLEAN short long hlp] \<and> (r \<noteq> None \<longleftrightarrow> \<not> known short c \<and> \<not> known_long long c)"
    by (rule boolean_law [OF ok, of short long hlp]) auto
  assume "help_argument c = None"
  from help_law [OF ok this, of short long hlp]
  show "\<exists>r c'. helpArgument short long hlp c = Some (r, c') \<and> command_ok c' \<and>
      heap c' = heap c @ [Argument AC_HELP short long hlp] \<and> (r \<longleftrightarrow> \<not> known short c \<and> \<not> known_long long c)"
    by metis
qed

lemma defining_options_witness:
  "\<exists>c c'. Command = Some c \<and> stringArgument 111 (Some (ascii ''out'')) [] c = Some (Some 0, c') \<and> command_ok c'"
proof -
  obtain c where c: "Command = Some c" "command_ok c" "heap c = []" "table_map (shortOptions c) = Map.empty"
      "table_map (longOptions c) = Map.empty"
    using Command_ok by blast
  then have "\<not> known 111 c" "\<not> known_long (Some (ascii ''out'')) c" by (simp_all add: known_def known_long_def)
  then obtain c' where "stringArgument 111 (Some (ascii ''out'')) [] c = Some (Some 0, c')"
    using string_law [OF c(2), of 111 "Some (ascii ''out'')" "[]"] c(3) by auto
  moreover have "\<exists>r c'. stringArgument 111 (Some (ascii ''out'')) [] c = Some (r, c') \<and> command_ok c'"
    using defining_options [of c 111 "Some (ascii ''out'')" "[]"] c(2,3) by auto
  ultimately have "stringArgument 111 (Some (ascii ''out'')) [] c = Some (Some 0, c')" "command_ok c'" by auto
  then show ?thesis using c(1) by blast
qed

text \<open>A duplicate is refused only after it has taken the place of the option it clashes with:
  \<open>stringArgument\<close> returns null, yet the letter now leads to the refused argument, and the argument that
  was defined first can no longer be set by it.\<close>

theorem refused_option_takes_over:
  assumes "command_ok c" "length (heap c) < 2 ^ 26 - 1" "known short c"
  shows "\<exists>c'. stringArgument short long hlp c = Some (None, c') \<and>
    dict_get None [short] (shortOptions c') = Some (Some (length (heap c)))"
proof (rule string_law [OF assms(1,2), of short long hlp])
  fix c' :: command
  assume c': "stringArgument short long hlp c =
      Some (if known short c \<or> known_long long c then None else Some (length (heap c)), c')" "command_ok c'"
    "table_map (shortOptions c') =
       (if short = 0 then table_map (shortOptions c) else (table_map (shortOptions c))([short] \<mapsto> Some (length (heap c))))"
  have "option_table short_name (heap c') (shortOptions c')" using c'(2) by (simp add: command_ok_def)
  from option_table_get [OF this, of "[short]"] show ?thesis
    using c'(1,3) assms(3) by (auto simp: known_def)
qed

lemma refused_option_takes_over_witness:
  "\<exists>c1 c2. stringArgument 111 None [] c1 = Some (None, c2) \<and>
    dict_get None [111] (shortOptions c2) = Some (Some 1)"
proof -
  obtain c where c: "command_ok c" "heap c = []" "table_map (shortOptions c) = Map.empty"
      "table_map (longOptions c) = Map.empty"
    using Command_ok by blast
  then obtain c1 where c1: "command_ok c1" "heap c1 = [Argument AC_STRING 111 None []]"
      "table_map (shortOptions c1) = [[111] \<mapsto> Some 0]"
    using string_law [OF c(1), of 111 None "[]"] by auto
  then show "\<exists>c1 c2. stringArgument 111 None [] c1 = Some (None, c2) \<and>
      dict_get None [111] (shortOptions c2) = Some (Some 1)"
    using refused_option_takes_over [of c1 111 None "[]"] by (auto simp: known_def)
qed

lemma help_sorts_arguments_witness:
  "\<exists>c out c'. heap c = [Argument AC_HELP 98 None [], Argument AC_HELP 97 None []] \<and>
    cmd_help None c = Some (out, c') \<and> mset (vlist (allArguments c')) = {#0, 1#}"
proof -
  obtain c0 where c0: "Command = Some c0" by (metis Command_ok)
  define c where "c = c0\<lparr>heap := [Argument AC_HELP 98 None [], Argument AC_HELP 97 None []],
      allArguments := vec_transfer [0, 1]\<rparr>"
  have plain: "texts_plain c"
    using c0 by (auto simp: c_def Command_def texts_plain_def Argument_def transfer_ok split: bind_splits)
  moreover have h: "heap c = [Argument AC_HELP 98 None [], Argument AC_HELP 97 None []]"
    and v: "vec_ok (allArguments c)" "vlist (allArguments c) = [0, 1]"
    by (simp_all add: c_def transfer_ok)
  ultimately obtain out c' where "cmd_help None c = Some (out, c')" "mset (vlist (allArguments c')) = {#0, 1#}"
    using help_sorts_arguments [of c None] by auto
  then show ?thesis using h by blast
qed

subsection \<open>Parsing\<close>

lemma setValue_simps [simp]:
  "shortOption (setValue v a) = shortOption a" "longOption (setValue v a) = longOption a"
  "argumentClass (setValue v a) = argumentClass a" "setValue v (setValue w a) = setValue v a"
  by (simp_all add: setValue_def split: ArgumentClass.splits)

lemma set_argument_simps [simp]:
  "shortOptions (set_argument n v c) = shortOptions c" "longOptions (set_argument n v c) = longOptions c"
  "finalMin (set_argument n v c) = finalMin c" "finalMax (set_argument n v c) = finalMax c"
  "help_argument (set_argument n v c) = help_argument c" "finalArgv (set_argument n v c) = finalArgv c"
  "heap (set_argument n v c) = (heap c)[n := setValue v (heap c ! n)]"
  by (simp_all add: set_argument_def)

lemma option_table_set:
  assumes t: "option_table name h d" and same: "\<And>a. name (setValue v a) = name a"
  shows "option_table name (h[n := setValue v (h ! n)]) d"
proof -
  let ?h = "h[n := setValue v (h ! n)]"
  have name: "name (?h ! i) = name (h ! i)" if "i < length h" for i
    using that same by (cases "i = n") auto
  have "\<exists>i<length ?h. b = Some i \<and> name (?h ! i) = Some k" if kb: "table_map d k = Some b" for k b
  proof -
    obtain i where "i < length h" "b = Some i" "name (h ! i) = Some k"
      using t kb unfolding option_table_def by blast
    then show ?thesis using name by (intro exI [of _ i]) simp
  qed
  then show ?thesis using t by (simp add: option_table_def)
qed

lemma set_argument_ok: "command_ok c \<Longrightarrow> command_ok (set_argument n v c)"
  using option_table_set [of short_name "heap c" "shortOptions c" v n]
    option_table_set [of longOption "heap c" "longOptions c" v n]
  by (simp add: command_ok_def set_argument_def)

text \<open>The word \<open>--k=v\<close>, the argument a long name points to, and the heap after a list of assignments:
  the last value given to an argument stays.\<close>

definition option_word :: "cstr \<times> cstr \<Rightarrow> cstr" where
  "option_word kv = [45, 45] @ fst kv @ 61 # snd kv"

definition named :: "command \<Rightarrow> cstr \<Rightarrow> nat" where
  "named c k = the (the (table_map (longOptions c) k))"

definition assigned :: "(nat \<times> cstr) list \<Rightarrow> argument list \<Rightarrow> argument list \<Rightarrow> bool" where
  "assigned nvs h h' \<longleftrightarrow> length h' = length h \<and>
     (\<forall>n<length h. h' ! n = (case map_of (rev nvs) n of None \<Rightarrow> h ! n | Some v \<Rightarrow> setValue v (h ! n)))"

lemma assigned_Nil: "assigned [] h h"
  by (simp add: assigned_def)

lemma assigned_Cons:
  assumes "assigned nvs (h[n := setValue v (h ! n)]) h'"
  shows "assigned ((n, v) # nvs) h h'"
  using assms by (auto simp: assigned_def map_add_def nth_list_update split: option.splits)

lemma named_ok: "command_ok c \<Longrightarrow> table_map (longOptions c) k \<noteq> None \<Longrightarrow>
    table_map (longOptions c) k = Some (Some (named c k)) \<and> named c k < length (heap c)"
  unfolding command_ok_def option_table_def named_def by fastforce

lemma long_option_law:
  assumes "command_ok c" "61 \<notin> set k" "table_map (longOptions c) k \<noteq> None"
  shows "long_option (k @ 61 # v) c = Some (Inr (set_argument (named c k) v c))"
proof -
  have "option_table longOption (heap c) (longOptions c)" using assms(1) by (simp add: command_ok_def)
  from option_table_get [OF this, of k] named_ok [OF assms(1,3)]
  have "dict_get None k (longOptions c) = Some (Some (named c k))" by simp
  moreover have "takeWhile (\<lambda>b. b \<noteq> 61) (k @ 61 # v) = k"
    using assms(2) by (subst takeWhile_append2) auto
  ultimately show ?thesis by (simp add: long_option_def Let_def)
qed

lemma bare_option_law:
  assumes "command_ok c" "61 \<notin> set k" "table_map (longOptions c) k \<noteq> None"
  shows "long_option k c = Some (Inr (set_argument (named c k) [] c))"
proof -
  have "option_table longOption (heap c) (longOptions c)" using assms(1) by (simp add: command_ok_def)
  from option_table_get [OF this, of k] named_ok [OF assms(1,3)]
  have "dict_get None k (longOptions c) = Some (Some (named c k))" by simp
  moreover have key: "takeWhile (\<lambda>b. b \<noteq> 61) k = k" using assms(2) by auto
  ultimately show ?thesis unfolding long_option_def Let_def key by simp
qed

text \<open>The loop over known long options, whatever follows them.\<close>

lemma parse_words:
  "command_ok c \<Longrightarrow> \<forall>(k, v)\<in>set kvs. 61 \<notin> set k \<and> table_map (longOptions c) k \<noteq> None \<Longrightarrow>
   \<exists>c'. parse_loop (pre @ map option_word kvs @ post) (length pre) c =
       parse_loop (pre @ map option_word kvs @ post) (length pre + length kvs) c' \<and>
     command_ok c' \<and> (longOptions c', finalMin c', finalMax c', finalArgv c', help_argument c') =
       (longOptions c, finalMin c, finalMax c, finalArgv c, help_argument c) \<and>
     assigned (map (\<lambda>(k, v). (named c k, v)) kvs) (heap c) (heap c')"
proof (induction kvs arbitrary: pre c)
  case Nil
  then show ?case by (auto simp: assigned_Nil)
next
  case (Cons kv kvs)
  obtain k v where kv: "kv = (k, v)" by fastforce
  let ?c = "set_argument (named c k) v c"
  have known: "61 \<notin> set k" "table_map (longOptions c) k \<noteq> None" using Cons.prems(2) kv by auto
  have step: "parse_loop (pre @ map option_word (kv # kvs) @ post) (length pre) c =
      parse_loop ((pre @ [option_word kv]) @ map option_word kvs @ post) (length (pre @ [option_word kv])) ?c"
    using long_option_law [OF Cons.prems(1) known, of v]
    by (subst parse_loop.simps) (simp add: option_word_def kv)
  have nm: "named ?c = named c" by (simp add: named_def fun_eq_iff)
  have rest: "\<forall>(k, v)\<in>set kvs. 61 \<notin> set k \<and> table_map (longOptions ?c) k \<noteq> None"
    using Cons.prems(2) by simp
  obtain c' where c': "parse_loop ((pre @ [option_word kv]) @ map option_word kvs @ post)
        (length (pre @ [option_word kv])) ?c = parse_loop ((pre @ [option_word kv]) @ map option_word kvs @ post)
        (length (pre @ [option_word kv]) + length kvs) c'"
      "command_ok c'" "(longOptions c', finalMin c', finalMax c', finalArgv c', help_argument c') =
       (longOptions ?c, finalMin ?c, finalMax ?c, finalArgv ?c, help_argument ?c)"
      "assigned (map (\<lambda>(k, v). (named c k, v)) kvs) (heap ?c) (heap c')"
    using Cons.IH [OF set_argument_ok [OF Cons.prems(1)] rest, of "pre @ [option_word kv]"]
    unfolding nm by (elim exE conjE) (rule that)
  then show ?case
    using step assigned_Cons [of _ "heap c" "named c k" v "heap c'"] by (auto simp: kv)
qed

lemma parse_stops:
  "finals = [] \<or> hd finals = [] \<or> hd (hd finals) \<noteq> 45 \<Longrightarrow>
    parse_loop (pre @ finals) (length pre) c = Some (Inr (length pre, c))"
  by (subst parse_loop.simps) (auto simp: neq_Nil_conv split: list.splits)

text \<open>\<open>parse\<close> on a vector of long options \<open>--k=v\<close> with known names, followed by final arguments: each
  option's argument gets the value given to it last and every other argument keeps its value, the
  final arguments are exactly the rest of the vector, and the result says whether their number is
  within the bounds.\<close>

theorem parse_long_options:
  assumes "command_ok c" "\<forall>(k, v)\<in>set kvs. 61 \<notin> set k \<and> table_map (longOptions c) k \<noteq> None"
    and "finals = [] \<or> hd finals = [] \<or> hd (hd finals) \<noteq> 45" "help_argument c = None"
  shows "\<exists>c'. parse console (cmd # map option_word kvs @ finals) c =
      Some (Returned (finalMin c \<le> int (length finals) \<and> int (length finals) \<le> finalMax c), [], c') \<and>
    command_ok c' \<and> finalArgv c' = finals \<and> finalArgc c' = int (length finals) \<and>
    assigned (map (\<lambda>(k, v). (named c k, v)) kvs) (heap c) (heap c')"
proof -
  let ?c = "c\<lparr>cmd_command := cmd\<rparr>"
  have "command_ok ?c" using assms(1) by (simp add: command_ok_def)
  moreover have nm: "named ?c = named c" by (simp add: named_def fun_eq_iff)
  ultimately obtain c' where c': "parse_loop (cmd # map option_word kvs @ finals) 1 ?c =
        parse_loop (cmd # map option_word kvs @ finals) (1 + length kvs) c'"
      "command_ok c'" "finalMin c' = finalMin c" "finalMax c' = finalMax c" "help_argument c' = None"
      "assigned (map (\<lambda>(k, v). (named c k, v)) kvs) (heap c) (heap c')"
    using parse_words [of ?c kvs "[cmd]" finals] assms(2,4) by auto
  moreover have "parse_loop (cmd # map option_word kvs @ finals) (1 + length kvs) c' = Some (Inr (1 + length kvs, c'))"
    using parse_stops [OF assms(3), of "cmd # map option_word kvs" c'] by simp
  ultimately have "parse console (cmd # map option_word kvs @ finals) c =
      Some (Returned (finalMin c \<le> int (length finals) \<and> int (length finals) \<le> finalMax c), [],
        c'\<lparr>finalArgv := finals, finalArgc := int (length finals)\<rparr>)"
    by (simp add: parse_def Let_def)
  moreover have "command_ok (c'\<lparr>finalArgv := finals, finalArgc := int (length finals)\<rparr>)"
    using c'(2) by (simp add: command_ok_def)
  ultimately show ?thesis using c'(6) by (intro exI [of _ "c'\<lparr>finalArgv := finals, finalArgc := int (length finals)\<rparr>"]) simp
qed

text \<open>A command with one string option, \<open>-o\<close> or \<open>--out\<close>.\<close>

lemma one_option:
  obtains c where "command_ok c" "heap c = [Argument AC_STRING 111 (Some [111, 117, 116]) []]"
    "table_map (longOptions c) = [[111, 117, 116] \<mapsto> Some 0]" "table_map (shortOptions c) = [[111] \<mapsto> Some 0]"
    "finalMin c = 0" "finalMax c = 0" "help_argument c = None"
proof -
  obtain c where c: "command_ok c" "heap c = []" "help_argument c = None" "finalMin c = 0" "finalMax c = 0"
      "table_map (shortOptions c) = Map.empty" "table_map (longOptions c) = Map.empty"
    using Command_ok by blast
  then have new: "\<not> known 111 c" "\<not> known_long (Some [111, 117, 116]) c" "length (heap c) < 2 ^ 26 - 1"
    by (simp_all add: known_def known_long_def)
  show thesis
  proof (rule define_law [OF c(1) new(3), of "Argument AC_STRING 111 (Some [111, 117, 116]) []" 111 "Some [111, 117, 116]"])
    fix c' :: command
    assume "command_ok c'" "heap c' = heap c @ [Argument AC_STRING 111 (Some [111, 117, 116]) []]"
      "help_argument c' = help_argument c" "finalMin c' = finalMin c" "finalMax c' = finalMax c"
      "table_map (shortOptions c') = (if 111 = (0 :: byte) then table_map (shortOptions c)
         else (table_map (shortOptions c))([111] \<mapsto> Some (length (heap c))))"
      "table_map (longOptions c') = (if known 111 c then table_map (longOptions c)
         else case Some [111, 117, 116] of None \<Rightarrow> table_map (longOptions c)
            | Some l \<Rightarrow> (table_map (longOptions c))(l \<mapsto> Some (length (heap c))))"
    then show thesis using that [of c'] c new by simp
  qed (simp_all add: Argument_def)
qed

lemma parse_long_options_witness:
  "\<exists>c c'. parse None [[112], [45, 45, 111, 117, 116, 61, 120]] c = Some (Returned True, [], c') \<and>
    arg_val (heap c' ! 0) = String_Value [120]"
proof -
  obtain c where c: "command_ok c" "heap c = [Argument AC_STRING 111 (Some [111, 117, 116]) []]"
    "table_map (longOptions c) = [[111, 117, 116] \<mapsto> Some 0]" "finalMin c = 0" "finalMax c = 0"
    "help_argument c = None"
    by (rule one_option)
  then obtain c' where "parse None [[112], [45, 45, 111, 117, 116, 61, 120]] c = Some (Returned True, [], c')"
      "assigned [(0, [120])] (heap c) (heap c')"
    using parse_long_options [of c "[([111, 117, 116], [120])]" "[]" None "[112]"]
    by (auto simp: option_word_def named_def)
  then have "arg_val (heap c' ! 0) = String_Value [120]"
    by (simp add: assigned_def c(2) setValue_def Argument_def)
  then show ?thesis using \<open>parse None _ c = _\<close> by blast
qed

text \<open>an unknown long option ends \<open>parse\<close> with \<open>false\<close> and its name in the message, wherever it stands
  among known ones; the options before it have been set and the final arguments of the command have
  not been touched.\<close>

theorem parse_unknown_option:
  assumes "command_ok c" "\<forall>(k, v)\<in>set kvs. 61 \<notin> set k \<and> table_map (longOptions c) k \<noteq> None"
    and "61 \<notin> set k" "table_map (longOptions c) k = None"
  shows "\<exists>c'. parse console (cmd # map option_word kvs @ option_word (k, v) # rest) c =
      Some (Returned False, unknown k, c') \<and> finalArgv c' = finalArgv c \<and>
    assigned (map (\<lambda>(k, v). (named c k, v)) kvs) (heap c) (heap c')"
proof -
  let ?c = "c\<lparr>cmd_command := cmd\<rparr>" and ?argv = "cmd # map option_word kvs @ option_word (k, v) # rest"
  have "command_ok ?c" using assms(1) by (simp add: command_ok_def)
  moreover have nm: "named ?c = named c" by (simp add: named_def fun_eq_iff)
  ultimately obtain c' where c': "parse_loop ?argv 1 ?c = parse_loop ?argv (1 + length kvs) c'"
      "command_ok c'" "longOptions c' = longOptions c" "finalArgv c' = finalArgv c"
      "assigned (map (\<lambda>(k, v). (named c k, v)) kvs) (heap c) (heap c')"
    using parse_words [of ?c kvs "[cmd]" "option_word (k, v) # rest"] assms(2) by auto
  have "option_table longOption (heap c') (longOptions c')" using c'(2) by (simp add: command_ok_def)
  from option_table_get [OF this, of k] have "dict_get None k (longOptions c') = Some None"
    using assms(4) c'(3) by simp
  moreover have "takeWhile (\<lambda>b. b \<noteq> 61) (k @ 61 # v) = k" using assms(3) by (subst takeWhile_append2) auto
  ultimately have "long_option (k @ 61 # v) c' = Some (Inl (unknown k, c'))"
    by (simp add: long_option_def Let_def)
  then have "parse_loop ?argv (1 + length kvs) c' = Some (Inl (unknown k, c'))"
    by (subst parse_loop.simps) (simp add: option_word_def nth_append)
  then show ?thesis using c' by (intro exI [of _ c']) (simp add: parse_def)
qed

lemma parse_unknown_option_witness:
  "\<exists>c c'. parse None [[112], [45, 45, 122, 61]] c = Some (Returned False, unknown [122], c')"
proof -
  obtain c where c: "command_ok c" "table_map (longOptions c) = [[111, 117, 116] \<mapsto> Some 0]"
    by (rule one_option)
  then show ?thesis using parse_unknown_option [of c "[]" "[122]" None "[112]" "[]" "[]"]
    by (auto simp: option_word_def)
qed

subsection \<open>Letters behind one dash\<close>

definition lettered :: "command \<Rightarrow> byte \<Rightarrow> nat" where
  "lettered c a = the (the (table_map (shortOptions c) [a]))"

lemma letter_get:
  assumes "command_ok c" "table_map (shortOptions c) [a] \<noteq> None"
  shows "dict_get None [a] (shortOptions c) = Some (Some (lettered c a))" "lettered c a < length (heap c)"
proof -
  have t: "option_table short_name (heap c) (shortOptions c)" using assms(1) by (simp add: command_ok_def)
  obtain b where b: "table_map (shortOptions c) [a] = Some b" using assms(2) by blast
  then obtain n where "n < length (heap c)" "b = Some n" using t unfolding option_table_def by blast
  then show "dict_get None [a] (shortOptions c) = Some (Some (lettered c a))" "lettered c a < length (heap c)"
    using option_table_get [OF t, of "[a]"] b by (simp_all add: lettered_def)
qed

lemma flags_law:
  "command_ok c \<Longrightarrow> \<forall>a\<in>set fs. table_map (shortOptions c) [a] \<noteq> None \<and>
     argumentClass (heap c ! lettered c a) \<noteq> AC_STRING \<Longrightarrow>
   \<exists>c'. short_options argv i (fs @ w) c = short_options argv i w c' \<and> command_ok c' \<and>
     shortOptions c' = shortOptions c \<and> map argumentClass (heap c') = map argumentClass (heap c) \<and>
     assigned (map (\<lambda>a. (lettered c a, [])) fs) (heap c) (heap c')"
proof (induction fs arbitrary: c)
  case Nil
  then show ?case by (auto simp: assigned_Nil)
next
  case (Cons a fs)
  let ?c = "set_argument (lettered c a) [] c"
  have a: "table_map (shortOptions c) [a] \<noteq> None" "argumentClass (heap c ! lettered c a) \<noteq> AC_STRING"
    using Cons.prems(2) by auto
  have lt: "lettered ?c = lettered c" by (simp add: lettered_def fun_eq_iff)
  have cls: "map argumentClass (heap ?c) = map argumentClass (heap c)"
    using letter_get(2) [OF Cons.prems(1) a(1)] by (simp add: map_update) (metis list_update_id nth_map)
  then have same: "argumentClass (heap ?c ! n) = argumentClass (heap c ! n)" if "n < length (heap c)" for n
    using that by (metis length_map nth_map)
  have rest: "\<forall>b\<in>set fs. table_map (shortOptions ?c) [b] \<noteq> None \<and>
      argumentClass (heap ?c ! lettered ?c b) \<noteq> AC_STRING"
    using Cons.prems same letter_get(2) [OF Cons.prems(1)] unfolding lt by simp
  obtain c' where c': "short_options argv i (fs @ w) ?c = short_options argv i w c'" "command_ok c'"
     "shortOptions c' = shortOptions ?c" "map argumentClass (heap c') = map argumentClass (heap ?c)"
     "assigned (map (\<lambda>a. (lettered c a, [])) fs) (heap ?c) (heap c')"
    using Cons.IH [OF set_argument_ok [OF Cons.prems(1)] rest] unfolding lt by (elim exE conjE) (rule that)
  have "short_options argv i ((a # fs) @ w) c = short_options argv i w c'"
    using c'(1) letter_get(1) [OF Cons.prems(1) a(1)] a(2) by simp
  then show ?case
    using c'(2-5) cls assigned_Cons [of _ "heap c" "lettered c a" "[]" "heap c'"] by (intro exI [of _ c']) simp
qed

lemma assigned_append:
  assumes "assigned as h h1" "assigned bs h1 h2"
  shows "assigned (as @ bs) h h2"
  using assms by (auto simp: assigned_def map_add_def split: option.splits)

text \<open>letters behind one dash: any number of flags may stand in front of one option that takes a text;
  each flag is set, and the text is what follows in the same word, or else the whole next word, which
  is then skipped, or else empty at the end of the vector.\<close>

theorem short_cluster:
  assumes "command_ok c" "\<forall>a\<in>set fs. table_map (shortOptions c) [a] \<noteq> None \<and>
      argumentClass (heap c ! lettered c a) \<noteq> AC_STRING"
    and "table_map (shortOptions c) [s] \<noteq> None" "argumentClass (heap c ! lettered c s) = AC_STRING"
    and "i < length argv"
  shows "\<exists>c'. short_options argv i (fs @ s # rest) c =
      Some (Inr (if rest = [] \<and> i + 1 < length argv then i + 1 else i, c')) \<and> command_ok c' \<and>
    assigned (map (\<lambda>a. (lettered c a, [])) fs @
      [(lettered c s, if rest \<noteq> [] then rest else if i + 1 < length argv then argv ! (i + 1) else [])])
      (heap c) (heap c')"
proof -
  let ?v = "if rest \<noteq> [] then rest else if i + 1 < length argv then argv ! (i + 1) else []"
  obtain c1 where c1: "short_options argv i (fs @ s # rest) c = short_options argv i (s # rest) c1" "command_ok c1"
      "shortOptions c1 = shortOptions c" "map argumentClass (heap c1) = map argumentClass (heap c)"
      "assigned (map (\<lambda>a. (lettered c a, [])) fs) (heap c) (heap c1)"
    using flags_law [OF assms(1,2)] by blast
  have lt: "lettered c1 s = lettered c s" using c1(3) by (simp add: lettered_def)
  have bound: "lettered c s < length (heap c)" by (rule letter_get(2) [OF assms(1,3)])
  have "argumentClass (heap c1 ! lettered c s) = AC_STRING"
    using c1(4) assms(4) bound by (metis length_map nth_map)
  then have "short_options argv i (s # rest) c1 =
      Some (Inr (if rest = [] \<and> i + 1 < length argv then i + 1 else i, set_argument (lettered c s) ?v c1))"
    using letter_get(1) [OF c1(2)] c1(3) assms(3,5) lt by (auto simp: less_diff_conv)
  moreover have "assigned [(lettered c s, ?v)] (heap c1) (heap (set_argument (lettered c s) ?v c1))"
    by (rule assigned_Cons) (simp add: assigned_Nil)
  ultimately show ?thesis
    using c1(1) set_argument_ok [OF c1(2)] assigned_append [OF c1(5)] by auto
qed

lemma short_cluster_witness:
  "\<exists>c c'. short_options [[112], [45, 111], [120]] 1 [111] c = Some (Inr (2, c')) \<and>
    arg_val (heap c' ! 0) = String_Value [120]"
proof -
  obtain c where c: "command_ok c" "heap c = [Argument AC_STRING 111 (Some [111, 117, 116]) []]"
    "table_map (shortOptions c) = [[111] \<mapsto> Some 0]"
    by (rule one_option)
  then have "\<exists>c'. short_options [[112], [45, 111], [120]] 1 ([] @ 111 # []) c = Some (Inr (2, c')) \<and>
      assigned [(0, [120])] (heap c) (heap c')"
    using short_cluster [of c "[]" 111 1 "[[112], [45, 111], [120]]" "[]"]
    by (simp add: lettered_def Argument_def numeral_2_eq_2) blast
  then obtain c' where "short_options [[112], [45, 111], [120]] 1 [111] c = Some (Inr (2, c'))"
      "assigned [(0, [120])] (heap c) (heap c')"
    by (metis append_Nil)
  moreover have "arg_val (heap c' ! 0) = String_Value [120]"
    using \<open>assigned _ _ _\<close> by (simp add: assigned_def c(2) setValue_def Argument_def)
  ultimately show ?thesis by blast
qed

end
