(* ===== verification/Parse_Laws.thy ===== *)
theory Parse_Laws
  imports Option_Laws
begin

section \<open>What \<open>parse\<close> makes of an argument vector\<close>

text \<open>
  A grammar of argument vectors: the uses of options, one or two words each, and the ways in which a vector
  ends. Every vector has this form, and \<open>parse\<close> (command_line.cc) sets exactly what the uses say.
\<close>

subsection \<open>Uses of options\<close>

text \<open>The words \<open>--k=v\<close>, \<open>--k\<close>, \<open>-\<close> and \<open>-abc\<close>, and an option with a text behind letters, which is in the same word
  or is the next word.\<close>

datatype option_use =
    Long cstr cstr
  | Bare cstr
  | Dash
  | Letters "byte list"
  | Attached "byte list" byte cstr
  | Separate "byte list" byte cstr

fun use_words :: "option_use \<Rightarrow> cstr list" where
  "use_words (Long k v) = [45 # 45 # k @ 61 # v]"
| "use_words (Bare k) = [45 # 45 # k]"
| "use_words Dash = [[45]]"
| "use_words (Letters fs) = [45 # fs]"
| "use_words (Attached fs s v) = [45 # fs @ s # v]"
| "use_words (Separate fs s v) = [45 # fs @ [s], v]"

text \<open>A letter of a flag, a letter of an option with a text.\<close>

definition flag :: "command \<Rightarrow> byte \<Rightarrow> bool" where
  "flag c a \<longleftrightarrow> table_map (shortOptions c) [a] \<noteq> None \<and> argumentClass (heap c ! lettered c a) \<noteq> AC_STRING"

definition takes_text :: "command \<Rightarrow> byte \<Rightarrow> bool" where
  "takes_text c a \<longleftrightarrow> table_map (shortOptions c) [a] \<noteq> None \<and> argumentClass (heap c ! lettered c a) = AC_STRING"

definition long_known :: "command \<Rightarrow> cstr \<Rightarrow> bool" where
  "long_known c k \<longleftrightarrow> 61 \<notin> set k \<and> table_map (longOptions c) k \<noteq> None"

fun use_ok :: "command \<Rightarrow> option_use \<Rightarrow> bool" where
  "use_ok c (Long k v) \<longleftrightarrow> long_known c k"
| "use_ok c (Bare k) \<longleftrightarrow> long_known c k \<and> k \<noteq> []"
| "use_ok c Dash \<longleftrightarrow> True"
| "use_ok c (Letters fs) \<longleftrightarrow> fs \<noteq> [] \<and> hd fs \<noteq> 45 \<and> list_all (flag c) fs"
| "use_ok c (Attached fs s v) \<longleftrightarrow> hd (fs @ [s]) \<noteq> 45 \<and> list_all (flag c) fs \<and> takes_text c s \<and> v \<noteq> []"
| "use_ok c (Separate fs s v) \<longleftrightarrow> hd (fs @ [s]) \<noteq> 45 \<and> list_all (flag c) fs \<and> takes_text c s"

abbreviation flag_sets :: "command \<Rightarrow> byte list \<Rightarrow> (nat \<times> cstr) list" where
  "flag_sets c fs \<equiv> map (\<lambda>a. (lettered c a, [])) fs"

fun use_sets :: "command \<Rightarrow> option_use \<Rightarrow> (nat \<times> cstr) list" where
  "use_sets c (Long k v) = [(named c k, v)]"
| "use_sets c (Bare k) = [(named c k, [])]"
| "use_sets c Dash = []"
| "use_sets c (Letters fs) = flag_sets c fs"
| "use_sets c (Attached fs s v) = flag_sets c fs @ [(lettered c s, v)]"
| "use_sets c (Separate fs s v) = flag_sets c fs @ [(lettered c s, v)]"

subsection \<open>Ends of a vector\<close>

text \<open>The final arguments (a leading \<open>--\<close> is one of them), an option whose text is missing, an unknown long
  option, with or without a value, or an unknown letter, and what follows them.\<close>

datatype vector_end =
    Finals "cstr list"
  | Trailing "byte list" byte
  | Unknown_Long cstr "cstr option" "cstr list"
  | Unknown_Letter "byte list" byte cstr "cstr list"

fun end_words :: "vector_end \<Rightarrow> cstr list" where
  "end_words (Finals ws) = ws"
| "end_words (Trailing fs s) = [45 # fs @ [s]]"
| "end_words (Unknown_Long k v ws) = (45 # 45 # k @ (case v of None \<Rightarrow> [] | Some v \<Rightarrow> 61 # v)) # ws"
| "end_words (Unknown_Letter fs a w ws) = (45 # fs @ a # w) # ws"

fun end_ok :: "command \<Rightarrow> vector_end \<Rightarrow> bool" where
  "end_ok c (Finals ws) \<longleftrightarrow> ws = [] \<or> hd ws = [] \<or> hd (hd ws) \<noteq> 45 \<or> hd ws = [45, 45]"
| "end_ok c (Trailing fs s) \<longleftrightarrow> hd (fs @ [s]) \<noteq> 45 \<and> list_all (flag c) fs \<and> takes_text c s"
| "end_ok c (Unknown_Long k v ws) \<longleftrightarrow> 61 \<notin> set k \<and> table_map (longOptions c) k = None \<and> (k \<noteq> [] \<or> v \<noteq> None)"
| "end_ok c (Unknown_Letter fs a w ws) \<longleftrightarrow>
     hd (fs @ [a]) \<noteq> 45 \<and> list_all (flag c) fs \<and> table_map (shortOptions c) [a] = None"

fun end_sets :: "command \<Rightarrow> vector_end \<Rightarrow> (nat \<times> cstr) list" where
  "end_sets c (Finals ws) = []"
| "end_sets c (Trailing fs s) = flag_sets c fs @ [(lettered c s, [])]"
| "end_sets c (Unknown_Long k v ws) = []"
| "end_sets c (Unknown_Letter fs a w ws) = flag_sets c fs"

text \<open>What the loop over the vector comes to, from the words before the end: the message of an unknown option, or the
  number of words that are not final arguments.\<close>

fun end_result :: "nat \<Rightarrow> vector_end \<Rightarrow> byte list + nat" where
  "end_result n (Finals ws) = Inr n"
| "end_result n (Trailing fs s) = Inr (Suc n)"
| "end_result n (Unknown_Long k v ws) = Inl (unknown k)"
| "end_result n (Unknown_Letter fs a w ws) = Inl (unknown [a])"

definition vector_form :: "command \<Rightarrow> cstr list \<Rightarrow> option_use list \<Rightarrow> vector_end \<Rightarrow> bool" where
  "vector_form c ws us e \<longleftrightarrow> ws = concat (map use_words us) @ end_words e \<and> list_all (use_ok c) us \<and> end_ok c e"

lemma vector_form_Cons: "vector_form c ws us e \<Longrightarrow> use_ok c u \<Longrightarrow> vector_form c (use_words u @ ws) (u # us) e"
  by (simp add: vector_form_def)

lemma vector_form_end: "end_ok c e \<Longrightarrow> vector_form c (end_words e) [] e"
  by (simp add: vector_form_def)

subsection \<open>Every vector has the form\<close>

lemma long_word:
  assumes "l \<noteq> []"
  shows "(\<exists>u. use_words u = [45 # 45 # l] \<and> use_ok c u) \<or> (\<exists>k v. end_words (Unknown_Long k v ws) = (45 # 45 # l) # ws \<and>
     end_ok c (Unknown_Long k v ws))"
proof -
  define k where "k = takeWhile (\<lambda>b. b \<noteq> 61) l"
  have no: "61 \<notin> set k" using set_takeWhileD unfolding k_def by fastforce
  have "l = k \<or> (\<exists>v. l = k @ 61 # v)" unfolding k_def
    by (induction l) auto
  then obtain v where l: "l = k @ (case v of None \<Rightarrow> [] | Some v \<Rightarrow> 61 # v)"
    by (metis append_Nil2 option.simps(4,5))
  then have some: "k \<noteq> [] \<or> v \<noteq> None" using assms by (auto split: option.splits)
  show ?thesis
  proof (cases "table_map (longOptions c) k = None")
    case True
    then show ?thesis using l no some by (intro disjI2 exI [of _ k] exI [of _ v]) simp
  next
    case False
    then have known: "long_known c k" using no by (simp add: long_known_def)
    show ?thesis
    proof (cases v)
      case None
      then show ?thesis using known l assms by (intro disjI1 exI [of _ "Bare k"]) simp
    next
      case (Some v)
      then show ?thesis using known l by (intro disjI1 exI [of _ "Long k v"]) simp
    qed
  qed
qed

lemma every_vector:
  "\<exists>us e. vector_form c ws us e"
proof (induction "length ws" arbitrary: ws rule: less_induct)
  case less
  have more: "\<exists>us e. vector_form c (use_words u @ vs) us e" if "use_ok c u" "length vs < length ws" for u vs
    using less [of vs] that vector_form_Cons by blast
  have last: "\<exists>us e. vector_form c (end_words e) us e" if "end_ok c e" for e
    using vector_form_end that by blast
  show ?case
  proof (cases "end_ok c (Finals ws)")
    case True
    then show ?thesis using vector_form_end [of c "Finals ws"] by auto
  next
    case False
    then obtain l vs where ws: "ws = (45 # l) # vs" "l \<noteq> [45]"
      by (cases ws; cases "hd ws") auto
    consider "l = []" | m where "l = 45 # m" "m \<noteq> []" | "l \<noteq> []" "hd l \<noteq> 45"
      using ws(2) by (cases l) auto
    then show ?thesis
    proof cases
      case 1
      then show ?thesis using more [of Dash vs] ws by simp
    next
      case (2 m)
      from long_word [OF 2(2), of c vs] show ?thesis
      proof (elim disjE exE conjE)
        fix u
        assume "use_words u = [45 # 45 # m]" "use_ok c u"
        then show ?thesis using more [of u vs] ws 2 by simp
      next
        fix k v
        assume "end_words (Unknown_Long k v vs) = (45 # 45 # m) # vs" "end_ok c (Unknown_Long k v vs)"
        then show ?thesis using vector_form_end [of c "Unknown_Long k v vs"] ws 2 by (metis)
      qed
    next
      case 3
      define fs where "fs = takeWhile (flag c) l"
      have flags: "list_all (flag c) fs" using set_takeWhileD unfolding fs_def list_all_iff by metis
      have l: "l = fs @ dropWhile (flag c) l" by (simp add: fs_def)
      show ?thesis
      proof (cases "dropWhile (flag c) l")
        case Nil
        then have "l = fs" using l by (metis append_Nil2)
        then show ?thesis using more [of "Letters fs" vs] flags 3 ws by simp
      next
        case (Cons a w)
        have l: "l = fs @ a # w" using l Cons by simp
        then have first: "hd (fs @ [a]) \<noteq> 45" using 3 by (cases fs) auto
        have "\<not> flag c a" using hd_dropWhile [of "flag c" l] Cons by simp
        then consider "table_map (shortOptions c) [a] = None" | "takes_text c a"
          by (auto simp: flag_def takes_text_def)
        then show ?thesis
        proof cases
          case 1
          then show ?thesis using vector_form_end [of c "Unknown_Letter fs a w vs"] l flags first ws by auto
        next
          case 2
          show ?thesis
          proof (cases w)
            case (Cons x y)
            then show ?thesis using more [of "Attached fs a w" vs] 2 l flags first ws by simp
          next
            case Nil
            show ?thesis
            proof (cases vs)
              case Nil
              then show ?thesis using vector_form_end [of c "Trailing fs a"] \<open>w = []\<close> 2 l flags first ws by auto
            next
              case (Cons v vs')
              then show ?thesis using more [of "Separate fs a v" vs'] \<open>w = []\<close> 2 l flags first ws by simp
            qed
          qed
        qed
      qed
    qed
  qed
qed

subsection \<open>The assignments\<close>

definition assign :: "(nat \<times> cstr) list \<Rightarrow> command \<Rightarrow> command" where
  "assign nvs c = fold (\<lambda>(n, v). set_argument n v) nvs c"

lemma assign_simps [simp]:
  "assign [] c = c" "assign ((n, v) # nvs) c = assign nvs (set_argument n v c)"
  "assign (as @ bs) c = assign bs (assign as c)"
  by (simp_all add: assign_def)

lemma kept_class: "argumentClass (h[n := setValue v (h ! n)] ! m) = argumentClass (h ! m)"
  by (cases "n < length h"; cases "n = m") (simp_all add: list_update_beyond)

lemma set_argument_same [simp]:
  "lettered (set_argument n v c) = lettered c" "named (set_argument n v c) = named c"
  "flag (set_argument n v c) = flag c" "takes_text (set_argument n v c) = takes_text c"
  "long_known (set_argument n v c) = long_known c"
  by (auto simp: fun_eq_iff lettered_def named_def flag_def takes_text_def long_known_def kept_class)

lemma assign_same [simp]:
  "lettered (assign nvs c) = lettered c" "named (assign nvs c) = named c"
  "flag (assign nvs c) = flag c" "takes_text (assign nvs c) = takes_text c"
  "long_known (assign nvs c) = long_known c" "shortOptions (assign nvs c) = shortOptions c"
  "longOptions (assign nvs c) = longOptions c"
  by (induction nvs arbitrary: c) auto

lemma use_same [simp]: "use_ok (assign nvs c) u = use_ok c u" "use_sets (assign nvs c) u = use_sets c u"
  by (cases u; simp)+

lemma end_same [simp]: "end_ok (assign nvs c) e = end_ok c e" "end_sets (assign nvs c) e = end_sets c e"
  by (cases e; simp)+

lemma assign_ok: "command_ok c \<Longrightarrow> command_ok (assign nvs c)"
  by (induction nvs arbitrary: c) (auto simp: set_argument_ok)

lemma assign_heap: "assigned nvs (heap c) (heap (assign nvs c)) \<and> assign nvs c = c\<lparr>heap := heap (assign nvs c)\<rparr>"
proof (induction nvs arbitrary: c)
  case Nil
  then show ?case by (simp add: assigned_Nil)
next
  case (Cons nv nvs)
  obtain n v where nv: "nv = (n, v)" by fastforce
  let ?c = "set_argument n v c"
  have h: "assigned nvs (heap ?c) (heap (assign nvs ?c))" and r: "assign nvs ?c = ?c\<lparr>heap := heap (assign nvs ?c)\<rparr>"
    using Cons.IH [of ?c] by auto
  have "?c\<lparr>heap := heap (assign nvs ?c)\<rparr> = c\<lparr>heap := heap (assign nvs ?c)\<rparr>" by (simp add: set_argument_def)
  then have "assign nvs ?c = c\<lparr>heap := heap (assign nvs ?c)\<rparr>" using r by simp
  moreover have "assigned ((n, v) # nvs) (heap c) (heap (assign nvs ?c))" using h by (intro assigned_Cons) simp
  ultimately show ?case by (simp only: nv assign_simps simp_thms)
qed

subsection \<open>The loop\<close>

lemma flags_assign:
  "command_ok c \<Longrightarrow> list_all (flag c) fs \<Longrightarrow>
   short_options argv i (fs @ w) c = short_options argv i w (assign (flag_sets c fs) c)"
proof (induction fs arbitrary: c)
  case (Cons a fs)
  then have a: "table_map (shortOptions c) [a] \<noteq> None" "argumentClass (heap c ! lettered c a) \<noteq> AC_STRING"
    by (auto simp: flag_def)
  have "short_options argv i ((a # fs) @ w) c = short_options argv i (fs @ w) (set_argument (lettered c a) [] c)"
    using letter_get(1) [OF Cons.prems(1) a(1)] a(2) by simp
  then show ?case
    using Cons.IH [OF set_argument_ok [OF Cons.prems(1), of "lettered c a" "[]"]] Cons.prems(2) by simp
qed simp

lemma text_assign:
  assumes "command_ok c" "list_all (flag c) fs" "takes_text c s"
  shows "short_options argv i (fs @ s # w) c =
    (if w \<noteq> [] then Some (Inr (i, assign (flag_sets c fs @ [(lettered c s, w)]) c))
     else if i < length argv - 1 then Some (Inr (i + 1, assign (flag_sets c fs @ [(lettered c s, argv ! (i + 1))]) c))
     else Some (Inr (i, assign (flag_sets c fs @ [(lettered c s, [])]) c)))"
proof -
  let ?c = "assign (flag_sets c fs) c"
  have s: "table_map (shortOptions ?c) [s] \<noteq> None" "argumentClass (heap ?c ! lettered ?c s) = AC_STRING"
    using assms(3) fun_cong [OF assign_same(4) [of "flag_sets c fs" c], of s] unfolding takes_text_def by simp_all
  show ?thesis
    unfolding flags_assign [OF assms(1,2)]
    using letter_get(1) [OF assign_ok [OF assms(1)] s(1)] s(2) by simp
qed

lemma unknown_letter:
  assumes "command_ok c" "list_all (flag c) fs" "table_map (shortOptions c) [a] = None"
  shows "short_options argv i (fs @ a # w) c = Some (Inl (unknown [a], assign (flag_sets c fs) c))"
proof -
  let ?c = "assign (flag_sets c fs) c"
  have "option_table short_name (heap ?c) (shortOptions ?c)"
    using assign_ok [OF assms(1)] by (simp add: command_ok_def)
  from option_table_get [OF this, of "[a]"] show ?thesis
    unfolding flags_assign [OF assms(1,2)] using assms(3) by simp
qed

lemma unknown_name:
  assumes "command_ok c" "61 \<notin> set k" "table_map (longOptions c) k = None"
  shows "long_option (k @ (case v of None \<Rightarrow> [] | Some v \<Rightarrow> 61 # v)) c = Some (Inl (unknown k, c))"
proof -
  have "option_table longOption (heap c) (longOptions c)" using assms(1) by (simp add: command_ok_def)
  from option_table_get [OF this, of k] have "dict_get None k (longOptions c) = Some None" using assms(3) by simp
  moreover have "takeWhile (\<lambda>b. b \<noteq> 61) (k @ (case v of None \<Rightarrow> [] | Some v \<Rightarrow> 61 # v)) = k"
    using assms(2) by (subst takeWhile_append2) (auto split: option.splits)
  ultimately show ?thesis by (simp add: long_option_def Let_def)
qed

lemma letters_step:
  assumes "argv ! i = 45 # l" "i < length argv" "l \<noteq> []" "hd l \<noteq> 45"
  shows "parse_loop argv i c = (case short_options argv i l c of None \<Rightarrow> None
    | Some (Inl e) \<Rightarrow> Some (Inl e) | Some (Inr (j, c)) \<Rightarrow> parse_loop argv (j + 1) c)"
  using assms by (subst parse_loop.simps) (auto split: list.splits)

lemma use_step:
  assumes c: "command_ok c" and u: "use_ok c u"
  shows "parse_loop (pre @ use_words u @ post) (length pre) c =
    parse_loop (pre @ use_words u @ post) (length (pre @ use_words u)) (assign (use_sets c u) c)"
proof (cases u)
  case (Long k v)
  then show ?thesis using long_option_law [OF c, of k v] u
    by (subst parse_loop.simps) (simp add: long_known_def)
next
  case (Bare k)
  then show ?thesis using bare_option_law [OF c, of k] u
    by (subst parse_loop.simps) (simp add: long_known_def)
next
  case Dash
  then show ?thesis by (subst parse_loop.simps) simp
next
  case (Letters fs)
  then show ?thesis using u flags_assign [OF c, of fs "pre @ use_words u @ post" "length pre" "[]"]
    by (subst letters_step [where l = fs]) simp_all
next
  case (Attached fs s v)
  then show ?thesis using u text_assign [OF c, of fs s "pre @ use_words u @ post" "length pre" v]
    by (subst letters_step [where l = "fs @ s # v"]) (auto simp: hd_append split: if_splits)
next
  case (Separate fs s v)
  then show ?thesis using u text_assign [OF c, of fs s "pre @ use_words u @ post" "length pre" "[]"]
    by (subst letters_step [where l = "fs @ [s]"]) (simp_all add: hd_append nth_append)
qed

lemma uses_steps:
  "command_ok c \<Longrightarrow> list_all (use_ok c) us \<Longrightarrow>
   parse_loop (pre @ concat (map use_words us) @ post) (length pre) c =
   parse_loop (pre @ concat (map use_words us) @ post) (length (pre @ concat (map use_words us)))
     (assign (concat (map (use_sets c) us)) c)"
proof (induction us arbitrary: pre c)
  case (Cons u us)
  have same: "use_ok (assign (use_sets c u) c) = use_ok c" "use_sets (assign (use_sets c u) c) = use_sets c"
    by (simp_all add: fun_eq_iff)
  show ?case
    using use_step [of c u pre "concat (map use_words us) @ post"]
      Cons.IH [of "assign (use_sets c u) c" "pre @ use_words u"] Cons.prems assign_ok by (simp add: same)
qed simp

lemma end_step:
  assumes c: "command_ok c" and e: "end_ok c e"
  shows "parse_loop (pre @ end_words e) (length pre) c =
    Some (case end_result (length pre) e of Inl m \<Rightarrow> Inl (m, assign (end_sets c e) c)
      | Inr n \<Rightarrow> Inr (n, assign (end_sets c e) c))"
proof (cases e)
  case (Finals ws)
  then show ?thesis using e
    by (subst parse_loop.simps) (auto simp: neq_Nil_conv split: list.splits)
next
  case (Trailing fs s)
  have stop: "parse_loop (pre @ [45 # fs @ [s]]) (Suc (length pre)) d = Some (Inr (Suc (length pre), d))" for d
    by (subst parse_loop.simps) simp
  show ?thesis using Trailing e text_assign [OF c, of fs s "pre @ [45 # fs @ [s]]" "length pre" "[]"] stop
    by (subst letters_step [where l = "fs @ [s]"]) (simp_all add: hd_append)
next
  case (Unknown_Long k v ws)
  then show ?thesis using unknown_name [OF c, of k v] e
    by (subst parse_loop.simps) (auto split: option.splits)
next
  case (Unknown_Letter fs a w ws)
  then show ?thesis using e unknown_letter [OF c, of fs a "pre @ end_words e" "length pre" w]
    by (subst letters_step [where l = "fs @ a # w"]) (auto simp: hd_append split: if_splits)
qed

subsection \<open>The whole vector\<close>

lemma vector_loop:
  assumes "command_ok c" "vector_form c ws us e"
  shows "parse_loop (cmd # ws) 1 c =
    (let c' = assign (concat (map (use_sets c) us) @ end_sets c e) c in
     Some (case end_result (1 + length (concat (map use_words us))) e of Inl m \<Rightarrow> Inl (m, c') | Inr n \<Rightarrow> Inr (n, c')))"
proof -
  let ?ws = "concat (map use_words us)" and ?c = "assign (concat (map (use_sets c) us)) c"
  have ws: "cmd # ws = [cmd] @ ?ws @ end_words e" using assms(2) by (simp add: vector_form_def)
  have "parse_loop (cmd # ws) 1 c = parse_loop (([cmd] @ ?ws) @ end_words e) (length ([cmd] @ ?ws)) ?c"
    using uses_steps [OF assms(1), of us "[cmd]" "end_words e"] assms(2) by (simp add: ws vector_form_def)
  also have "\<dots> = Some (case end_result (length ([cmd] @ ?ws)) e of Inl m \<Rightarrow> Inl (m, assign (end_sets ?c e) ?c)
      | Inr n \<Rightarrow> Inr (n, assign (end_sets ?c e) ?c))"
    by (rule end_step) (use assms assign_ok in \<open>simp_all add: vector_form_def\<close>)
  finally show ?thesis unfolding end_same by (simp add: Let_def)
qed

definition final_words :: "vector_end \<Rightarrow> cstr list" where
  "final_words e = (case e of Finals ws \<Rightarrow> ws | _ \<Rightarrow> [])"

lemma rest_of_vector:
  "end_result (1 + length ws) e = Inr n \<Longrightarrow> drop n (cmd # ws @ end_words e) = final_words e \<and>
   int (length (cmd # ws @ end_words e)) - int n = int (length (final_words e)) \<and> end_result 0 e \<in> range Inr"
  by (cases e) (auto simp: final_words_def)

lemma end_message: "end_result n e = Inl m \<Longrightarrow> end_result 0 e = Inl m"
  by (cases e) auto

lemma renamed_same:
  "use_ok (c\<lparr>cmd_command := cmd\<rparr>) = use_ok c" "use_sets (c\<lparr>cmd_command := cmd\<rparr>) = use_sets c"
  "end_ok (c\<lparr>cmd_command := cmd\<rparr>) = end_ok c" "end_sets (c\<lparr>cmd_command := cmd\<rparr>) = end_sets c"
proof -
  have same: "lettered (c\<lparr>cmd_command := cmd\<rparr>) = lettered c" "named (c\<lparr>cmd_command := cmd\<rparr>) = named c"
    by (simp_all add: lettered_def named_def fun_eq_iff)
  have "flag (c\<lparr>cmd_command := cmd\<rparr>) = flag c" "takes_text (c\<lparr>cmd_command := cmd\<rparr>) = takes_text c"
    "long_known (c\<lparr>cmd_command := cmd\<rparr>) = long_known c"
    by (simp_all add: flag_def takes_text_def long_known_def same fun_eq_iff)
  note same = same this
  show "use_ok (c\<lparr>cmd_command := cmd\<rparr>) = use_ok c"
  proof
    show "use_ok (c\<lparr>cmd_command := cmd\<rparr>) u = use_ok c u" for u by (cases u) (simp_all add: same)
  qed
  show "use_sets (c\<lparr>cmd_command := cmd\<rparr>) = use_sets c"
  proof
    show "use_sets (c\<lparr>cmd_command := cmd\<rparr>) u = use_sets c u" for u by (cases u) (simp_all add: same)
  qed
  show "end_ok (c\<lparr>cmd_command := cmd\<rparr>) = end_ok c"
  proof
    show "end_ok (c\<lparr>cmd_command := cmd\<rparr>) e = end_ok c e" for e by (cases e) (simp_all add: same)
  qed
  show "end_sets (c\<lparr>cmd_command := cmd\<rparr>) = end_sets c"
  proof
    show "end_sets (c\<lparr>cmd_command := cmd\<rparr>) e = end_sets c e" for e by (cases e) (simp_all add: same)
  qed
qed

text \<open>How \<open>parse\<close> ends, from the heap that the assignments leave.\<close>

definition parse_end :: "int option \<Rightarrow> cstr \<Rightarrow> vector_end \<Rightarrow> argument list \<Rightarrow> command \<Rightarrow>
    (parsed \<times> byte list \<times> command) option" where
  "parse_end console cmd e h c =
     (let c1 = c\<lparr>cmd_command := cmd, heap := h\<rparr>;
          c2 = c1\<lparr>finalArgv := final_words e, finalArgc := int (length (final_words e))\<rparr> in
      case end_result 0 e of
        Inl message \<Rightarrow> Some (Returned False, message, c1)
      | Inr _ \<Rightarrow>
          if \<exists>n. help_argument c = Some n \<and> arg_val (h ! n) = Bool_Value True
          then map_option (Pair Exited) (cmd_help console c2)
          else Some (Returned (finalMin c \<le> int (length (final_words e)) \<and> int (length (final_words e)) \<le> finalMax c), [], c2))"

lemma help_exits: "Option.bind r (\<lambda>(out, c). Some (Exited, out, c)) = map_option (Pair Exited) r"
  by (cases r) auto

lemma parse_form:
  assumes "command_ok c" "vector_form c ws us e"
  shows "\<exists>h. assigned (concat (map (use_sets c) us) @ end_sets c e) (heap c) h \<and>
    parse console (cmd # ws) c = parse_end console cmd e h c"
proof -
  let ?c = "c\<lparr>cmd_command := cmd\<rparr>" and ?as = "concat (map (use_sets c) us) @ end_sets c e"
  let ?n = "1 + length (concat (map use_words us))"
  define h where "h = heap (assign ?as ?c)"
  let ?c1 = "c\<lparr>cmd_command := cmd, heap := h\<rparr>"
  have as: "assigned ?as (heap c) h" and c1: "assign ?as ?c = ?c1"
    using assign_heap [of ?as ?c] by (simp_all add: h_def)
  have "command_ok ?c" "vector_form ?c ws us e"
    using assms by (simp_all add: command_ok_def vector_form_def renamed_same)
  from vector_loop [OF this, of cmd]
  have loop: "parse_loop (cmd # ws) 1 ?c = Some (case end_result ?n e of Inl m \<Rightarrow> Inl (m, ?c1) | Inr n \<Rightarrow> Inr (n, ?c1))"
    unfolding Let_def renamed_same c1 .
  have "parse console (cmd # ws) c = parse_end console cmd e h c"
  proof (cases "end_result ?n e")
    case (Inl m)
    then show ?thesis using loop end_message [OF Inl] by (simp add: parse_def parse_end_def Let_def)
  next
    case (Inr n)
    have ws: "cmd # ws = cmd # concat (map use_words us) @ end_words e" using assms(2) by (simp add: vector_form_def)
    note r = rest_of_vector [OF Inr, of cmd, folded ws]
    obtain k where "end_result 0 e = Inr k" using r by blast
    then show ?thesis using loop Inr r
      by (auto simp: parse_def parse_end_def Let_def help_exits split: option.splits)
  qed
then show ?thesis using as by blast
qed

text \<open>C38: \<open>parse\<close> on any vector: it consists of uses of options and an end, and \<open>parse\<close> makes the assignments that they
  stand for and no others, from left to right, so that the last value of an argument stays. At an unknown option it
  stops with its message and returns false, with the final arguments of the command untouched. Otherwise the final
  arguments are the rest of the vector, a leading \<open>--\<close> included; when the help argument has been set the
  help is printed and the process ends, and else the result says whether the number of final
  arguments is within the bounds.\<close>

theorem parse_vector:
  assumes "command_ok c"
  shows "(\<exists>us e. vector_form c ws us e) \<and>
    (\<forall>us e. vector_form c ws us e \<longrightarrow>
      (\<exists>h. assigned (concat (map (use_sets c) us) @ end_sets c e) (heap c) h \<and>
        parse console (cmd # ws) c = parse_end console cmd e h c))"
  using every_vector parse_form [OF assms] by blast

lemma parse_vector_witness:
  "\<exists>c c'. parse None [[112], [45, 45, 111, 117, 116, 61, 120], [45], [45, 111], [121], [45, 45], [122]] c =
      Some (Returned False, [], c') \<and>
    arg_val (heap c' ! 0) = String_Value [121] \<and> finalArgv c' = [[45, 45], [122]]"
proof -
  let ?ws = "[[45, 45, 111, 117, 116, 61, 120], [45], [45, 111], [121], [45, 45], [122]]"
  obtain c where c: "command_ok c" "heap c = [Argument AC_STRING 111 (Some [111, 117, 116]) []]"
    "table_map (longOptions c) = [[111, 117, 116] \<mapsto> Some 0]" "table_map (shortOptions c) = [[111] \<mapsto> Some 0]"
    "finalMin c = 0" "finalMax c = 0" "help_argument c = None"
    by (rule one_option)
  have form: "vector_form c ?ws [Long [111, 117, 116] [120], Dash, Separate [] 111 [121]] (Finals [[45, 45], [122]])"
    using c by (simp add: vector_form_def long_known_def takes_text_def lettered_def Argument_def)
  obtain h where "assigned [(0, [120]), (0, [121])] (heap c) h"
      "parse None ([112] # ?ws) c = parse_end None [112] (Finals [[45, 45], [122]]) h c"
    using parse_vector [OF c(1), THEN conjunct2, rule_format, OF form, of None "[112]"] c by (auto simp: named_def lettered_def)
  then have "parse None ([112] # ?ws) c = Some (Returned False, [],
        c\<lparr>cmd_command := [112], heap := h, finalArgv := [[45, 45], [122]], finalArgc := 2\<rparr>)" "arg_val (h ! 0) = String_Value [121]"
    using c by (auto simp: parse_end_def final_words_def Let_def assigned_def setValue_def Argument_def)
  then show ?thesis
    by (intro exI [of _ c] exI [of _ "c\<lparr>cmd_command := [112], heap := h, finalArgv := [[45, 45], [122]], finalArgc := 2\<rparr>"]) simp
qed

end
