(* ===== verification/Main_Program.thy ===== *)
theory Main_Program
  imports Option_Laws Section_Laws
begin

section \<open>The runtime's main program\<close>

text \<open>
  Parasol/main.cc: the options of the runtime, and \<open>main\<close>, which parses the command line, loads the
  file it names and runs it. The output is what has been printed, or \<open>None\<close> when some of it is not modelled (the
  trace of a run, the report of one that fails, what \<open>Pxi::read\<close> says of a file that it cannot read; of the readers
  only the one of native images reports something and still delivers a section, which is not told apart). What a section does when it is run (a virtual function) and the
  registered readers are arguments; at the end they are those of byte-code sections.
\<close>

definition string_of :: "cstr \<Rightarrow> string" where
  "string_of s = List.map (\<lambda>b. char_of (unat b)) s"

record parasol_command =
  pc_command :: command
  verboseArgument :: "nat option"
  traceArgument :: "nat option"

definition RUNTIME_VERSION :: cstr where
  "RUNTIME_VERSION = ascii ''1.0.0''"

definition COPYRIGHT_STRING :: cstr where
  "COPYRIGHT_STRING = ascii ''2011 Robert Jervis''"

definition parasol_description :: cstr where
  "parasol_description =
     ascii ''The given filename is run as a pxi image or if --test is supplied as a unit test script. '' @
     ascii ''Any command-line arguments appearing after are passed '' @
     ascii ''to any main function in that file.'' @ [10] @
     ascii ''Parasol Runtime Version '' @ RUNTIME_VERSION @ [13] @
     ascii ''Copyright (c) '' @ COPYRIGHT_STRING"

definition ParasolCommand :: "parasol_command option" where
  "ParasolCommand = do {
     c \<leftarrow> Command;
     let c = finalArguments 0 (2 ^ 31 - 1) (ascii ''<filename> [arguments ...]'') c;
     let c = description parasol_description c;
     (v, c) \<leftarrow> booleanArgument 118 None (ascii ''Enables verbose output.'') c;
     (t, c) \<leftarrow> booleanArgument 0 (Some (ascii ''trace''))
       (ascii ''Trace execution of each instruction (byte code targets only).'') c;
     (_, c) \<leftarrow> helpArgument 63 (Some (ascii ''help'')) (ascii ''Displays this help.'') c;
     Some \<lparr>pc_command = c, verboseArgument = v, traceArgument = t\<rparr> }"

text \<open>\<open>help()\<close> ends the process with status 1, and so does \<open>parse\<close> when help is asked for.\<close>

definition parseCommandLine :: "int option \<Rightarrow> cstr list \<Rightarrow> parasol_command \<Rightarrow>
    (parsed \<times> byte list \<times> parasol_command) option" where
  "parseCommandLine console argv pc = do {
     (r, out, c) \<leftarrow> parse console argv (pc_command pc);
     (case r of
        parsed.Exited \<Rightarrow> Some (parsed.Exited, out, pc\<lparr>pc_command := c\<rparr>)
      | parsed.Returned ok \<Rightarrow>
          if \<not> ok \<or> finalArgc c = 0 then do {
            (out', c) \<leftarrow> cmd_help console c;
            Some (parsed.Exited, out @ out', pc\<lparr>pc_command := c\<rparr>) }
          else Some (parsed.Returned True, out, pc\<lparr>pc_command := c\<rparr>)) }"

datatype main_result = Exit int32 | Main_faulted | Main_native | Main_fuel

definition load_failed :: "cstr \<Rightarrow> byte list" where
  "load_failed f = ascii ''Failed to load '' @ f @ [10]"

definition run_failed :: "cstr \<Rightarrow> byte list" where
  "run_failed f = ascii ''Unable to run pxi '' @ f @ [10]"

definition runCommand :: "(string list \<Rightarrow> bool \<Rightarrow> 'sec \<Rightarrow> 'st \<Rightarrow> section_result) \<Rightarrow> ('sec, 'st) ReaderMap \<Rightarrow>
    (string \<rightharpoonup> byte list) \<Rightarrow> parasol_command \<Rightarrow> 'st \<Rightarrow> (main_result \<times> byte list option) option" where
  "runCommand run_section readerMap files pc z =
     (case finalArgv (pc_command pc) of
        [] \<Rightarrow> None
      | f # args \<Rightarrow> do {
          (pxi, z) \<leftarrow> Pxi_load readerMap files (string_of f) z;
          (case pxi of
             None \<Rightarrow> Some (Exit 1, if files (string_of f) = None then Some (load_failed f) else None)
           | Some sec \<Rightarrow> do {
               t \<leftarrow> traceArgument pc;
               tr \<leftarrow> (case arg_val (command.heap (pc_command pc) ! t) of Bool_Value b \<Rightarrow> Some b | String_Value s \<Rightarrow> None);
               Some (case run_section (List.map string_of (f # args)) tr sec z of
                 section_result.Returned True v out \<Rightarrow> (Exit v, out)
               | section_result.Returned False v out \<Rightarrow> (Exit 1, map_option (\<lambda>out. out @ run_failed f) out)
               | Section_exited v \<Rightarrow> (Exit v, None)
               | Section_faulted \<Rightarrow> (Main_faulted, None)
               | Section_native \<Rightarrow> (Main_native, None)
               | Section_fuel \<Rightarrow> (Main_fuel, None)) }) })"

definition parasol_main :: "(string list \<Rightarrow> bool \<Rightarrow> 'sec \<Rightarrow> 'st \<Rightarrow> section_result) \<Rightarrow> ('sec, 'st) ReaderMap \<Rightarrow>
    (string \<rightharpoonup> byte list) \<Rightarrow> int option \<Rightarrow> cstr list \<Rightarrow> 'st \<Rightarrow> (main_result \<times> byte list option) option" where
  "parasol_main run_section readerMap files console argv z = do {
     pc \<leftarrow> ParasolCommand;
     (r, out, pc) \<leftarrow> parseCommandLine console argv pc;
     (case r of
        parsed.Exited \<Rightarrow> Some (Exit 1, Some out)
      | parsed.Returned _ \<Rightarrow> do {
          (e, out') \<leftarrow> runCommand run_section readerMap files pc z;
          Some (e, map_option (\<lambda>out'. out @ out') out') }) }"

subsection \<open>The options of the runtime\<close>

lemma defineOption_texts:
  assumes "defineOption short long n c = Some (r, c')"
  shows "finalArgumentsHelpText c' = finalArgumentsHelpText c \<and> cmd_description c' = cmd_description c"
  using assms by (auto simp: defineOption_def Let_def split: option.splits if_splits bind_splits)

lemma booleanArgument_texts:
  assumes "booleanArgument short long hlp c = Some (r, c')"
  shows "finalArgumentsHelpText c' = finalArgumentsHelpText c \<and> cmd_description c' = cmd_description c"
  using assms by (auto simp: booleanArgument_def new_argument_def dest!: defineOption_texts split: bind_splits)

lemma helpArgument_texts:
  assumes "helpArgument short long hlp c = Some (r, c')"
  shows "finalArgumentsHelpText c' = finalArgumentsHelpText c \<and> cmd_description c' = cmd_description c"
  using assms by (auto simp: helpArgument_def new_argument_def dest!: defineOption_texts split: bind_splits if_splits)

lemma plain_texts:
  "plain (ascii ''Enables verbose output.'')"
  "plain (ascii ''Trace execution of each instruction (byte code targets only).'')"
  "plain (ascii ''Displays this help.'')"
  "plain (ascii ''<filename> [arguments ...]'')"
  "plain parasol_description"
  by (simp_all add: parasol_description_def RUNTIME_VERSION_def COPYRIGHT_STRING_def ascii_def isspace_def)

lemma parasol_options:
  obtains pc where "ParasolCommand = Some pc" "command_ok (pc_command pc)" "traceArgument pc = Some 1"
    "help_argument (pc_command pc) = Some 2" "finalMin (pc_command pc) = 0" "finalMax (pc_command pc) = 2 ^ 31 - 1"
    "map argumentClass (command.heap (pc_command pc)) = [AC_BOOLEAN, AC_BOOLEAN, AC_HELP]"
    "map arg_val (command.heap (pc_command pc)) = replicate 3 (Bool_Value False)"
    "table_map (longOptions (pc_command pc)) = [ascii ''trace'' \<mapsto> Some 1, ascii ''help'' \<mapsto> Some 2]"
    "texts_plain (pc_command pc)"
proof -
  obtain c where c: "Command = Some c" "command_ok c" "command.heap c = []" "help_argument c = None"
      "table_map (shortOptions c) = Map.empty" "table_map (longOptions c) = Map.empty"
    using Command_ok by blast
  define c0 where "c0 = description parasol_description
     (finalArguments 0 (2 ^ 31 - 1) (ascii ''<filename> [arguments ...]'') c)"
  have c0: "command_ok c0" "command.heap c0 = []" "help_argument c0 = None" "finalMin c0 = 0" "finalMax c0 = 2 ^ 31 - 1"
      "table_map (shortOptions c0) = Map.empty" "table_map (longOptions c0) = Map.empty"
    using c by (simp_all add: c0_def description_def finalArguments_def command_ok_def)
  obtain c1 where c1: "booleanArgument 118 None (ascii ''Enables verbose output.'') c0 = Some (Some 0, c1)"
      "command_ok c1" "command.heap c1 = [Argument AC_BOOLEAN 118 None (ascii ''Enables verbose output.'')]"
      "help_argument c1 = None" "finalMin c1 = 0" "finalMax c1 = 2 ^ 31 - 1"
      "table_map (shortOptions c1) = [[118] \<mapsto> Some 0]" "table_map (longOptions c1) = Map.empty"
    using boolean_law [OF c0(1), of 118 None "ascii ''Enables verbose output.''"] c0
    by (auto simp: known_def known_long_def)
  let ?t = "ascii ''Trace execution of each instruction (byte code targets only).''"
  obtain c2 where c2: "booleanArgument 0 (Some (ascii ''trace'')) ?t c1 = Some (Some 1, c2)"
      "command_ok c2" "command.heap c2 = command.heap c1 @ [Argument AC_BOOLEAN 0 (Some (ascii ''trace'')) ?t]"
      "help_argument c2 = None" "finalMin c2 = 0" "finalMax c2 = 2 ^ 31 - 1"
      "table_map (shortOptions c2) = [[118] \<mapsto> Some 0]" "table_map (longOptions c2) = [ascii ''trace'' \<mapsto> Some 1]"
    using boolean_law [OF c1(2), of 0 "Some (ascii ''trace'')" ?t] c1
    by (auto simp: known_def known_long_def)
  let ?h = "ascii ''Displays this help.''"
  have new: "\<not> known 63 c2" "\<not> known_long (Some (ascii ''help'')) c2" "length (command.heap c2) = Suc 1"
      "length (command.heap c2) < 2 ^ 26 - 1"
    using c1 c2 by (simp_all add: known_def known_long_def ascii_def)
  obtain c3 where c3: "helpArgument 63 (Some (ascii ''help'')) ?h c2 = Some (True, c3)" "command_ok c3"
      "command.heap c3 = command.heap c2 @ [Argument AC_HELP 63 (Some (ascii ''help'')) ?h]" "help_argument c3 = Some 2"
      "finalMin c3 = 0" "finalMax c3 = 2 ^ 31 - 1"
      "table_map (longOptions c3) = [ascii ''trace'' \<mapsto> Some 1, ascii ''help'' \<mapsto> Some 2]"
    by (rule help_law [OF c2(2) new(4) c2(4), of 63 "Some (ascii ''help'')" ?h]) (use new c2 in \<open>simp_all add: numeral_2_eq_2\<close>)
  have pc: "ParasolCommand = Some \<lparr>pc_command = c3, verboseArgument = Some 0, traceArgument = Some 1\<rparr>"
    using c1(1) c2(1) c3(1) unfolding ParasolCommand_def c(1) c0_def by simp
  have "texts_plain c3"
  proof -
    have "finalArgumentsHelpText c3 = finalArgumentsHelpText c0" "cmd_description c3 = cmd_description c0"
      using booleanArgument_texts [OF c1(1)] booleanArgument_texts [OF c2(1)] helpArgument_texts [OF c3(1)] by simp_all
    moreover have "length (command.heap c3) = 3" "\<forall>a\<in>set (command.heap c3). plain (helpText a)"
      using c1(3) c2(3) c3(3) plain_texts by (auto simp: Argument_def)
    moreover have "set (vlist (allArguments c3)) = {0..<length (command.heap c3)}"
      using c3(2) unfolding command_ok_def by (metis mset_eq_setD set_upt)
    ultimately show ?thesis using plain_texts
      by (auto simp: texts_plain_def c0_def description_def finalArguments_def)
  qed
  then show thesis
    by - (rule that [OF pc]; use c1(3) c2(3) c3 in \<open>simp add: Argument_def numeral_3_eq_3\<close>)
qed

text \<open>The vector of a run: the name of the program, perhaps \<open>--trace\<close>, the file and its arguments.\<close>

definition run_words :: "cstr \<Rightarrow> bool \<Rightarrow> cstr \<Rightarrow> cstr list \<Rightarrow> cstr list" where
  "run_words cmd tr f args = cmd # (if tr then [ascii ''--trace''] else []) @ f # args"

lemma run_words_parsed:
  assumes f: "f \<noteq> []" "hd f \<noteq> 45" and n: "length args < 2 ^ 31 - 1"
  obtains pc pc' where "ParasolCommand = Some pc" "parseCommandLine console (run_words cmd tr f args) pc = Some (parsed.Returned True, [], pc')"
    "finalArgv (pc_command pc') = f # args" "traceArgument pc' = Some 1"
    "arg_val (command.heap (pc_command pc') ! 1) = Bool_Value tr"
proof -
  let ?trace = "ascii ''trace''" and ?argv = "run_words cmd tr f args"
  obtain pc where pc: "ParasolCommand = Some pc" and c: "command_ok (pc_command pc)" "traceArgument pc = Some 1"
    "help_argument (pc_command pc) = Some 2" "finalMin (pc_command pc) = 0" "finalMax (pc_command pc) = 2 ^ 31 - 1"
    "map argumentClass (command.heap (pc_command pc)) = [AC_BOOLEAN, AC_BOOLEAN, AC_HELP]"
    "map arg_val (command.heap (pc_command pc)) = replicate 3 (Bool_Value False)"
    "table_map (longOptions (pc_command pc)) = [?trace \<mapsto> Some 1, ascii ''help'' \<mapsto> Some 2]"
    by (rule parasol_options)
  define c0 where "c0 = pc_command pc\<lparr>cmd_command := cmd\<rparr>"
  obtain a b d where h: "command.heap c0 = [a, b, d]" "argumentClass b = AC_BOOLEAN"
      "arg_val b = Bool_Value False" "arg_val d = Bool_Value False"
    using c(6,7) by (auto simp: c0_def map_eq_Cons_conv numeral_3_eq_3)
  have long: "table_map (longOptions c0) ?trace = Some (Some 1)" using c(8) by (simp add: c0_def ascii_def)
  define c1 where "c1 = (if tr then set_argument 1 [] c0 else c0)"
  have "parse_loop ?argv 1 c0 = parse_loop ?argv (if tr then 2 else 1) c1"
  proof (cases tr)
    case True
    have ok: "command_ok c0" using c(1) by (simp add: c0_def command_ok_def)
    have "long_option ?trace c0 = Some (Inr (set_argument 1 [] c0))"
      using bare_option_law [OF ok, of ?trace] long by (simp add: named_def ascii_def)
    then show ?thesis using True
      by (subst parse_loop.simps) (simp add: run_words_def c1_def ascii_def numeral_2_eq_2)
  next
    case False
    then show ?thesis by (simp add: c1_def)
  qed
  moreover have "parse_loop ?argv (if tr then 2 else 1) c1 = Some (Inr (if tr then 2 else 1, c1))"
    using parse_stops [of "f # args" "cmd # (if tr then [ascii ''--trace''] else [])" c1] f
    by (auto simp: run_words_def numeral_2_eq_2 split: if_splits)
  ultimately have loop: "parse_loop ?argv 1 c0 = Some (Inr (if tr then 2 else 1, c1))" by simp
  let ?c = "c1\<lparr>finalArgv := f # args, finalArgc := int (length args) + 1\<rparr>"
  have rest: "drop (if tr then 2 else 1) ?argv = f # args"
      "int (length ?argv) - int (if tr then 2 else 1) = int (length args) + 1"
    by (simp_all add: run_words_def numeral_2_eq_2)
  have c1: "help_argument c1 = Some 2" "finalMin c1 = 0" "finalMax c1 = 2 ^ 31 - 1"
      "arg_val (command.heap c1 ! 2) = Bool_Value False" "arg_val (command.heap c1 ! 1) = Bool_Value tr"
    using c(3-5) h
    by (auto simp: c1_def c0_def setValue_def str_equal_def ascii_def numeral_2_eq_2)
  have "hd ?argv = cmd" by (simp add: run_words_def)
  then have "parse console ?argv (pc_command pc) = Some (parsed.Returned True, [], ?c)"
    unfolding parse_def using loop rest c1 n by (simp add: c0_def Let_def del: drop_Suc_Cons)
  then have "parseCommandLine console ?argv pc = Some (parsed.Returned True, [], pc\<lparr>pc_command := ?c\<rparr>)"
    by (simp add: parseCommandLine_def)
  then show thesis by (rule that [OF pc]) (use c(2) c1 in simp_all)
qed

subsection \<open>From the command line to the exit status\<close>

abbreviation section_reader :: "os \<Rightarrow> (byte_code_section, process) ReaderMap" where
  "section_reader os \<equiv> [(ST_BYTE_CODES, Some (byteCodeSectionReader (allocator.truncate os)))]"

lemma main_run:
  assumes "f \<noteq> []" "hd f \<noteq> 45" "length args < 2 ^ 31 - 1"
    and "Pxi_load readers files (string_of f) z = Some (Some sec, z')"
    and "run_section (map string_of (f # args)) tr sec z' = section_result.Returned True v out"
  shows "parasol_main run_section readers files console (run_words cmd tr f args) z = Some (Exit v, out)"
proof -
  obtain pc pc' where pc: "ParasolCommand = Some pc"
      "parseCommandLine console (run_words cmd tr f args) pc = Some (parsed.Returned True, [], pc')"
      "finalArgv (pc_command pc') = f # args" "traceArgument pc' = Some 1"
      "arg_val (command.heap (pc_command pc') ! 1) = Bool_Value tr"
    using run_words_parsed [OF assms(1-3)] by blast
  moreover have "map_option ((@) []) out = out" by (cases out) simp_all
  ultimately show ?thesis using assms(4,5) by (simp add: parasol_main_def runCommand_def pc(1) [THEN eq_reflection])
qed

lemma main_load_failed:
  assumes "f \<noteq> []" "hd f \<noteq> 45" "length args < 2 ^ 31 - 1"
    and "Pxi_load readers files (string_of f) z = Some (None, z')" "files (string_of f) = None"
  shows "parasol_main run_section readers files console (run_words cmd tr f args) z = Some (Exit 1, Some (load_failed f))"
proof -
  obtain pc pc' where pc: "ParasolCommand = Some pc"
      "parseCommandLine console (run_words cmd tr f args) pc = Some (parsed.Returned True, [], pc')"
      "finalArgv (pc_command pc') = f # args"
    using run_words_parsed [OF assms(1-3)] by blast
  then show ?thesis using assms(4,5) by (simp add: parasol_main_def runCommand_def pc(1) [THEN eq_reflection])
qed

lemma help_starts:
  assumes "cmd_help console c = Some (out, c')" "0 < elementCount (allArguments c)"
  shows "\<exists>out'. out = ascii ''Use is: '' @ cmd_command c @ ascii '' [options]'' @ out'"
  using assms by (auto simp: cmd_help_def split: bind_splits prod.splits)

lemma main_prints_help:
  "\<exists>out. parasol_main run_section readers files console [cmd] z =
    Some (Exit 1, Some (ascii ''Use is: '' @ cmd @ ascii '' [options]'' @ out))"
proof -
  obtain pc where pc: "ParasolCommand = Some pc" and c: "command_ok (pc_command pc)"
    "help_argument (pc_command pc) = Some 2" "finalMin (pc_command pc) = 0" "finalMax (pc_command pc) = 2 ^ 31 - 1"
    "map arg_val (command.heap (pc_command pc)) = replicate 3 (Bool_Value False)" "texts_plain (pc_command pc)"
    by (rule parasol_options)
  have three: "length (command.heap (pc_command pc)) = 3" using arg_cong [OF c(5), of length] by simp
  define c0 where "c0 = pc_command pc\<lparr>cmd_command := cmd, finalArgv := [], finalArgc := 0\<rparr>"
  have "arg_val (command.heap (pc_command pc) ! 2) = Bool_Value False"
    using arg_cong [OF c(5), of "\<lambda>vs. vs ! 2"] arg_cong [OF c(5), of length] by simp
  then have parsed: "parse console [cmd] (pc_command pc) = Some (parsed.Returned True, [], c0)"
    using parse_stops [of "[]" "[cmd]" "pc_command pc\<lparr>cmd_command := cmd\<rparr>"] c(2-4)
    by (simp add: parse_def c0_def Let_def)
  have "vec_ok (allArguments c0)" "texts_plain c0"
    using c(1,6) by (simp_all add: c0_def command_ok_def texts_plain_def)
  then obtain out c1 where h: "cmd_help console c0 = Some (out, c1)" using help_runs by blast
  have "0 < elementCount (allArguments c0)"
  proof -
    have "size (mset (vlist (allArguments c0))) = 3" using c(1) three by (simp add: c0_def command_ok_def)
    then have "length (vlist (allArguments c0)) = 3" by simp
    then show ?thesis using c(1) by (auto simp: c0_def command_ok_def vlist_def vec_ok_def)
  qed
  moreover have "cmd_command c0 = cmd" by (simp add: c0_def)
  ultimately obtain out' where "out = ascii ''Use is: '' @ cmd @ ascii '' [options]'' @ out'" using help_starts [OF h] by auto
  moreover have "cmd_help console c0 = Some (out, c1)" by (rule h)
  moreover from this have "parseCommandLine console [cmd] pc = Some (parsed.Exited, out, pc\<lparr>pc_command := c1\<rparr>)"
    using parsed by (simp add: parseCommandLine_def c0_def)
  ultimately show ?thesis by (simp add: parasol_main_def pc [THEN eq_reflection])
qed

text \<open>C4: the runtime as a whole: on \<open>cmd [--trace] file args...\<close>, where the file holds one section of
  byte codes whose entry object is a function of constants and arithmetic, \<open>main\<close> returns the value of
  the integer specification as the exit status, with or without tracing; without it nothing is printed,
  and the text of a trace is not modelled (\<open>None\<close>). When the file does not exist \<open>main\<close> prints exactly
  that loading it failed and returns 1, and without a file name it prints a help text that starts with
  the use of the command, and returns 1.\<close>

theorem main_runs_program:
  assumes "f \<noteq> []" "hd f \<noteq> 45" "length args < 2 ^ 31 - 1" "valid_malloc (allocator.truncate os)"
    and "os_malloc os (p_mem pr) (p_heap pr) (length img) = p" "p \<noteq> 0"
    and "\<And>sec pr'. loaded p entry offs img rels pr sec pr' \<Longrightarrow> os_malloc os (p_mem pr') (p_heap pr') STACK_SIZE \<noteq> 0"
    and "offs \<noteq> []" "length offs \<le> 2 ^ 28" "length rels \<le> 2 ^ 26" "0 < length img" "length img < 2 ^ 31"
    and "\<forall>r\<in>set rels. relocation_ok offs (length img) r" "sorted_wrt (separate offs) rels"
    and "holds_program entry (concat (map encode is) @ return_code) offs img rels"
    and "simple_run is [] = Some [r]" "length is \<le> 200000"
  shows "parasol_main (\<lambda>argv tr. section_run os (length is + Suc n) argv tr junk_trace junk_fp) (section_reader os)
      [string_of f \<mapsto> pxi_bytes (section_bytes entry offs img rels)] console (run_words cmd tr f args) pr =
      Some (Exit (word_of_int r), if tr then None else Some []) \<and>
    parasol_main (\<lambda>argv tr. section_run os (length is + Suc n) argv tr junk_trace junk_fp) (section_reader os)
      Map.empty console (run_words cmd tr f args) pr = Some (Exit 1, Some (load_failed f)) \<and>
    (\<exists>out. parasol_main (\<lambda>argv tr. section_run os (length is + Suc n) argv tr junk_trace junk_fp) (section_reader os)
      files console [cmd] pr = Some (Exit 1, Some (ascii ''Use is: '' @ cmd @ ascii '' [options]'' @ out)))"
proof (intro conjI)
  obtain sec pr' where load: "Pxi_load (section_reader os)
      [string_of f \<mapsto> pxi_bytes (section_bytes entry offs img rels)] (string_of f) pr = Some (Some sec, pr')"
    and l: "loaded p entry offs img rels pr sec pr'"
    and run: "os_malloc os (p_mem pr') (p_heap pr') STACK_SIZE \<noteq> 0 \<longrightarrow>
      section_run os (length is + Suc n) (map string_of (f # args)) tr junk_trace junk_fp sec pr' =
      section_result.Returned True (word_of_int r) (if tr then None else Some [])"
    using file_runs [OF assms(4-6,8-17), where name = "string_of f" and args = "map string_of (f # args)"] by blast
  show "parasol_main (\<lambda>argv tr. section_run os (length is + Suc n) argv tr junk_trace junk_fp) (section_reader os)
      [string_of f \<mapsto> pxi_bytes (section_bytes entry offs img rels)] console (run_words cmd tr f args) pr =
      Some (Exit (word_of_int r), if tr then None else Some [])"
    using main_run [OF assms(1-3) load, where tr = tr
        and run_section = "\<lambda>argv tr. section_run os (length is + Suc n) argv tr junk_trace junk_fp"]
      run [rule_format, OF assms(7) [OF l]] by blast
  show "parasol_main (\<lambda>argv tr. section_run os (length is + Suc n) argv tr junk_trace junk_fp) (section_reader os)
      Map.empty console (run_words cmd tr f args) pr = Some (Exit 1, Some (load_failed f))"
    by (rule main_load_failed [OF assms(1-3), where z' = pr]) (simp_all add: Pxi_load_def Pxi_read_def)
qed (rule main_prints_help)

lemma main_runs_program_witness:
  "parasol_main (\<lambda>argv tr. section_run two_blocks 4 argv tr False 0) (section_reader two_blocks)
     [''p'' \<mapsto> pxi_bytes (section_bytes 0 [0] (concat (map encode [Push 20, Push (- 6), Alu B_DIV]) @ return_code) [])]
     None [ascii ''parasolrt'', ascii ''p'', ascii ''x''] \<lparr>p_mem = Map.empty, p_heap = Map.empty\<rparr> =
     Some (Exit (- 3), Some [])"
proof -
  let ?is = "[Push 20, Push (- 6), Alu B_DIV]"
  let ?img = "concat (map encode ?is) @ return_code" and ?pr = "\<lparr>p_mem = Map.empty, p_heap = Map.empty\<rparr>"
  have len: "length ?img = 24" by (simp add: return_code_def)
  have spec: "simple_run ?is [] = Some [- 3]"
    by (simp add: alu_step_def alu1_def alu2_def traps_def signed_divide_int_def)
  have prog: "holds_program 0 ?img [0] ?img []"
    by (simp add: holds_program_def unrelocated_def Let_def)
  have first: "os_malloc two_blocks Map.empty Map.empty 24 = 0x80000"
    by (simp add: two_blocks_malloc demo_malloc_def list_all_iff)
  have "parasol_main (\<lambda>argv tr. section_run two_blocks (length ?is + Suc 0) argv tr False 0) (section_reader two_blocks)
      [string_of [112] \<mapsto> pxi_bytes (section_bytes 0 [0] ?img [])] None
      (run_words (ascii ''parasolrt'') False [112] [ascii ''x'']) ?pr = Some (Exit (word_of_int (- 3)), if False then None else Some []) \<and>
    parasol_main (\<lambda>argv tr. section_run two_blocks (length ?is + Suc 0) argv tr False 0) (section_reader two_blocks)
      Map.empty None (run_words (ascii ''parasolrt'') False [112] [ascii ''x'']) ?pr = Some (Exit 1, Some (load_failed [112])) \<and>
    (\<exists>out. parasol_main (\<lambda>argv tr. section_run two_blocks (length ?is + Suc 0) argv tr False 0) (section_reader two_blocks)
      Map.empty None [ascii ''parasolrt''] ?pr = Some (Exit 1, Some (ascii ''Use is: '' @ ascii ''parasolrt'' @ ascii '' [options]'' @ out)))"
  proof (rule main_runs_program [OF _ _ _ two_blocks_valid, where p = "0x80000" and offs = "[0]" and rels = "[]"])
    fix sec pr'
    assume "loaded 0x80000 0 [0] ?img [] ?pr sec pr'"
    then show "os_malloc two_blocks (p_mem pr') (p_heap pr') STACK_SIZE \<noteq> 0" by (rule two_blocks_stack) (use len in simp)
  qed (use first len prog spec in \<open>simp_all del: concat.simps\<close>)
  then have "parasol_main (\<lambda>argv tr. section_run two_blocks (length ?is + Suc 0) argv tr False 0) (section_reader two_blocks)
      [string_of [112] \<mapsto> pxi_bytes (section_bytes 0 [0] ?img [])] None
      (run_words (ascii ''parasolrt'') False [112] [ascii ''x'']) ?pr = Some (Exit (word_of_int (- 3)), if False then None else Some [])"
    by (rule conjunct1)
  moreover have "string_of [112] = ''p''" "length ?is + Suc 0 = 4" "(word_of_int (- 3) :: int32) = - 3"
      "run_words (ascii ''parasolrt'') False [112] [ascii ''x''] =
       [ascii ''parasolrt'', ascii ''p'', ascii ''x'']"
    by (simp_all add: string_of_def run_words_def ascii_def char_of_def bit_0)
  ultimately show ?thesis by (simp only: if_False)
qed

end
