(* ===== verification/Thread_Pool.thy ===== *)
theory Thread_Pool
  imports Prelude "HOL-Library.Multiset"
begin

section \<open>Thread pools\<close>

text \<open>
  \<open>class ThreadPool\<close> (common/process.h, process.cc). The state is the data of the object and, for each
  thread inside one of its methods, the place it has reached. A block that holds \<open>_lock\<close> is one step,
  a wait or release of a semaphore is one step, and steps of different threads come in any order.
  Linked lists of handlers are lists. Thread creation, the critical section and the semaphores are
  those of Windows: a wait takes one from a positive count. Counts stay below \<open>MAX_COUNT\<close>, and worker
  threads begin after the constructor has returned.
\<close>

subsection \<open>The object\<close>

datatype 'h action = Run 'h | Stop

text \<open>A worker in \<open>loop\<close>: before \<open>dequeue\<close>, waiting on the queue, woken but without the lock, running an
  action, out of the loop, ended by \<open>ExitThread\<close>.\<close>

datatype 'h worker = Top | Waiting | Woken | Busy "'h action" | Left | Ended

text \<open>A thread in \<open>runOne\<close>; the flag tells whether it gave an event to interrupt it.\<close>

datatype 'h caller =
    C_Waiting bool
  | C_Woken bool
  | C_Took "'h action option"
  | C_Running "'h action"
  | C_Returned
  | C_Ended

text \<open>The destructor: not called, about to enqueue the \<open>i\<close>th stop handler, to release the queue, to wait for
  the worker, done.\<close>

datatype ending = Not_ended | Enqueue_stop nat | Release_stop nat | Await_stop nat | Destroyed

record 'h pool =
  actions :: "'h action list"
  actionQueue :: nat
  idleThreads :: int
  waitingThreads :: int
  shutdownSemaphore :: "nat option"
  threads :: "'h worker list"
  callers :: "'h caller list"
  posting :: nat
  ending :: ending

definition ThreadPool :: "nat \<Rightarrow> 'h pool" where
  "ThreadPool threadCount =
     \<lparr>actions = [], actionQueue = 0, idleThreads = 0, waitingThreads = 0, shutdownSemaphore = None,
      threads = replicate threadCount Top, callers = [], posting = 0, ending = Not_ended\<rparr>"

subsection \<open>The blocks that hold the lock\<close>

text \<open>\<open>enqueue\<close> up to the release of the queue; \<open>None\<close> when it returns false.\<close>

definition enqueue :: "'h action \<Rightarrow> bool \<Rightarrow> 'h pool \<Rightarrow> 'h pool option" where
  "enqueue h duringShutdown p =
     (if shutdownSemaphore p \<noteq> None \<and> \<not> duringShutdown then None
      else Some (p\<lparr>actions := actions p @ [h]\<rparr>))"

definition release :: "'h pool \<Rightarrow> 'h pool" where
  "release p = p\<lparr>actionQueue := actionQueue p + 1\<rparr>"

text \<open>\<open>dequeue\<close> up to the call of \<open>takeOne\<close>: whether the idle event is fired.\<close>

definition dequeue :: "'h pool \<Rightarrow> bool \<times> 'h pool" where
  "dequeue p =
     (let p = p\<lparr>idleThreads := idleThreads p + 1\<rparr>
      in (idleThreads p = int (length (threads p)) \<and> actions p = [], p))"

text \<open>\<open>takeOne\<close> after the wait.\<close>

definition takeOne :: "bool \<Rightarrow> 'h pool \<Rightarrow> 'h action option \<times> 'h pool" where
  "takeOne interrupted p =
     (let p = p\<lparr>idleThreads := idleThreads p - 1\<rparr> in
      if interrupted then (None, p)
      else (case actions p of [] \<Rightarrow> (None, p) | h # hs \<Rightarrow> (Some h, p\<lparr>actions := hs\<rparr>)))"

definition flushActions :: "'h pool \<Rightarrow> 'h pool" where
  "flushActions p = p\<lparr>actions := []\<rparr>"

definition busy :: "'h pool \<Rightarrow> bool" where
  "busy p = (if idleThreads p \<noteq> int (length (threads p)) then True else actions p \<noteq> [])"

text \<open>The first and the last locked block of \<open>runOne\<close>; \<open>None\<close> when it returns false.\<close>

definition runOne_begin :: "'h pool \<Rightarrow> 'h pool option" where
  "runOne_begin p =
     (let p = p\<lparr>waitingThreads := waitingThreads p + 1\<rparr> in
      if idleThreads p + waitingThreads p = int (length (threads p)) \<and> actions p = [] then None else Some p)"

definition runOne_end :: "'h pool \<Rightarrow> 'h pool" where
  "runOne_end p = p\<lparr>waitingThreads := waitingThreads p - 1, idleThreads := idleThreads p + 1\<rparr>"

text \<open>\<open>stop\<close>, before it ends the thread.\<close>

definition stop :: "'h pool \<Rightarrow> 'h pool option" where
  "stop p = (case shutdownSemaphore p of None \<Rightarrow> None | Some n \<Rightarrow> Some (p\<lparr>shutdownSemaphore := Some (n + 1)\<rparr>))"

text \<open>The locked block of the destructor.\<close>

definition shut_down :: "'h pool \<Rightarrow> 'h pool" where
  "shut_down p = flushActions (p\<lparr>shutdownSemaphore := Some 0, ending := Enqueue_stop 0\<rparr>)"

subsection \<open>Steps\<close>

text \<open>What a step does that can be seen from outside.\<close>

datatype 'h event =
    Accepted "'h action"
  | Refused 'h
  | Flushed "'h action list"
  | Taken "'h action"
  | Missed
  | Ran 'h
  | Idle
  | Quiet

definition set_worker :: "nat \<Rightarrow> 'h worker \<Rightarrow> 'h pool \<Rightarrow> 'h pool" where
  "set_worker i w p = p\<lparr>threads := (threads p)[i := w]\<rparr>"

definition set_caller :: "nat \<Rightarrow> 'h caller \<Rightarrow> 'h pool \<Rightarrow> 'h pool" where
  "set_caller j c p = p\<lparr>callers := (callers p)[j := c]\<rparr>"

text \<open>The steps of the workers, of threads in \<open>run\<close> that have still to release the queue, and of the rest.\<close>

inductive work_step :: "'h pool \<Rightarrow> 'h event \<Rightarrow> 'h pool \<Rightarrow> bool" where
  post: "0 < posting p \<Longrightarrow> work_step p Quiet (release (p\<lparr>posting := posting p - 1\<rparr>))"
| idle: "i < length (threads p) \<Longrightarrow> threads p ! i = Top \<Longrightarrow> dequeue p = (fired, p') \<Longrightarrow>
    work_step p (if fired then Idle else Quiet) (set_worker i Waiting p')"
| wake: "i < length (threads p) \<Longrightarrow> threads p ! i = Waiting \<Longrightarrow> 0 < actionQueue p \<Longrightarrow>
    work_step p Quiet (set_worker i Woken (p\<lparr>actionQueue := actionQueue p - 1\<rparr>))"
| take: "i < length (threads p) \<Longrightarrow> threads p ! i = Woken \<Longrightarrow> takeOne False p = (Some h, p') \<Longrightarrow>
    work_step p (Taken h) (set_worker i (Busy h) p')"
| leave: "i < length (threads p) \<Longrightarrow> threads p ! i = Woken \<Longrightarrow> takeOne False p = (None, p') \<Longrightarrow>
    work_step p Missed (set_worker i Left p')"
| ran: "i < length (threads p) \<Longrightarrow> threads p ! i = Busy (Run h) \<Longrightarrow> work_step p (Ran h) (set_worker i Top p)"
| stopped: "i < length (threads p) \<Longrightarrow> threads p ! i = Busy Stop \<Longrightarrow> stop p = Some p' \<Longrightarrow>
    work_step p Quiet (set_worker i Ended p')"

inductive pool_step :: "'h pool \<Rightarrow> 'h event \<Rightarrow> 'h pool \<Rightarrow> bool" where
  work: "work_step p e p' \<Longrightarrow> pool_step p e p'"
| submit: "enqueue (Run h) False p = Some p' \<Longrightarrow>
    pool_step p (Accepted (Run h)) (p'\<lparr>posting := posting p + 1\<rparr>)"
| refuse: "enqueue (Run h) False p = None \<Longrightarrow> pool_step p (Refused h) p"
| flush: "pool_step p (Flushed (actions p)) (flushActions p)"
| enter: "runOne_begin p = Some p' \<Longrightarrow> pool_step p Quiet (p'\<lparr>callers := callers p @ [C_Waiting interruptible]\<rparr>)"
| turn_away: "runOne_begin p = None \<Longrightarrow> pool_step p Quiet p"
| caller_wake: "j < length (callers p) \<Longrightarrow> callers p ! j = C_Waiting b \<Longrightarrow> 0 < actionQueue p \<Longrightarrow>
    pool_step p Quiet (set_caller j (C_Woken False) (p\<lparr>actionQueue := actionQueue p - 1\<rparr>))"
| interrupt: "j < length (callers p) \<Longrightarrow> callers p ! j = C_Waiting True \<Longrightarrow>
    pool_step p Quiet (set_caller j (C_Woken True) p)"
| caller_take: "j < length (callers p) \<Longrightarrow> callers p ! j = C_Woken b \<Longrightarrow> takeOne b p = (Some h, p') \<Longrightarrow>
    pool_step p (Taken h) (set_caller j (C_Took (Some h)) p')"
| caller_miss: "j < length (callers p) \<Longrightarrow> callers p ! j = C_Woken b \<Longrightarrow> takeOne b p = (None, p') \<Longrightarrow>
    pool_step p (if b then Quiet else Missed) (set_caller j (C_Took None) p')"
| caller_end: "j < length (callers p) \<Longrightarrow> callers p ! j = C_Took r \<Longrightarrow>
    pool_step p Quiet (set_caller j (case r of None \<Rightarrow> C_Returned | Some h \<Rightarrow> C_Running h) (runOne_end p))"
| caller_ran: "j < length (callers p) \<Longrightarrow> callers p ! j = C_Running (Run h) \<Longrightarrow>
    pool_step p (Ran h) (set_caller j C_Returned p)"
| caller_stopped: "j < length (callers p) \<Longrightarrow> callers p ! j = C_Running Stop \<Longrightarrow> stop p = Some p' \<Longrightarrow>
    pool_step p Quiet (set_caller j C_Ended p')"
| destroy: "ending p = Not_ended \<Longrightarrow> pool_step p (Flushed (actions p)) (shut_down p)"
| stop_enqueue: "ending p = Enqueue_stop i \<Longrightarrow> i < length (threads p) \<Longrightarrow> enqueue Stop True p = Some p' \<Longrightarrow>
    pool_step p (Accepted Stop) (p'\<lparr>ending := Release_stop i\<rparr>)"
| stop_release: "ending p = Release_stop i \<Longrightarrow> pool_step p Quiet (release p\<lparr>ending := Await_stop i\<rparr>)"
| stop_await: "ending p = Await_stop i \<Longrightarrow> shutdownSemaphore p = Some (Suc n) \<Longrightarrow>
    pool_step p Quiet (p\<lparr>shutdownSemaphore := Some n, ending := Enqueue_stop (i + 1)\<rparr>)"
| destroyed: "ending p = Enqueue_stop (length (threads p)) \<Longrightarrow> pool_step p Quiet (p\<lparr>ending := Destroyed\<rparr>)"

text \<open>The three overloads of \<open>run\<close>: a handler holds a function, or an object with a method and perhaps an argument;
  \<open>pool_handler_run\<close> is what it calls. When the pool refuses it, it is deleted and \<open>run\<close> answers false.\<close>

datatype ('o, 'f, 'm) pool_handler =
    Pool_Function 'f
  | Pool_Object 'o 'f
  | Pool_Object1 'o 'f 'm

fun pool_handler_run :: "('o, 'f, 'm) pool_handler \<Rightarrow> 'f \<times> 'o option \<times> 'm list" where
  "pool_handler_run (Pool_Function func) = (func, None, [])"
| "pool_handler_run (Pool_Object object func) = (func, Some object, [])"
| "pool_handler_run (Pool_Object1 object func m) = (func, Some object, [m])"

definition submit_handler :: "'h \<Rightarrow> 'h pool \<Rightarrow> bool \<times> 'h pool" where
  "submit_handler h p = (case enqueue (Run h) False p of None \<Rightarrow> (False, p) | Some p \<Rightarrow> (True, release p))"

definition run_function :: "'f \<Rightarrow> ('o, 'f, 'm) pool_handler pool \<Rightarrow> bool \<times> ('o, 'f, 'm) pool_handler pool" where
  "run_function func p = submit_handler (Pool_Function func) p"

definition run_method :: "'o \<Rightarrow> 'f \<Rightarrow> ('o, 'f, 'm) pool_handler pool \<Rightarrow> bool \<times> ('o, 'f, 'm) pool_handler pool" where
  "run_method object func p = submit_handler (Pool_Object object func) p"

definition run_method1 :: "'o \<Rightarrow> 'f \<Rightarrow> 'm \<Rightarrow> ('o, 'f, 'm) pool_handler pool \<Rightarrow> bool \<times> ('o, 'f, 'm) pool_handler pool" where
  "run_method1 object func m p = submit_handler (Pool_Object1 object func m) p"

text \<open>A call of \<open>run\<close> without interruption is one step that refuses, or two: accepting and releasing.\<close>

lemma submit_steps:
  assumes "submit_handler h p = (ok, p')"
  shows "if ok then \<exists>q. pool_step p (Accepted (Run h)) q \<and> pool_step q Quiet p'
    else p' = p \<and> pool_step p (Refused h) p"
proof (cases "enqueue (Run h) False p")
  case None
  then show ?thesis using assms by (simp add: submit_handler_def pool_step.refuse)
next
  case (Some q)
  then have p': "ok" "p' = release q" "posting q = posting p"
    using assms by (auto simp: submit_handler_def enqueue_def split: if_splits)
  have "work_step (q\<lparr>posting := posting p + 1\<rparr>) Quiet (release ((q\<lparr>posting := posting p + 1\<rparr>)\<lparr>posting := posting p\<rparr>))"
    using work_step.post [of "q\<lparr>posting := posting p + 1\<rparr>"] by simp
  moreover have "q\<lparr>posting := posting p\<rparr> = q" using p'(3) by simp
  ultimately show ?thesis using p'(1,2) pool_step.submit [OF Some] pool_step.work by fastforce
qed

text \<open>The states a pool can reach, with what has been seen of it.\<close>

inductive pool_run :: "nat \<Rightarrow> 'h event list \<Rightarrow> 'h pool \<Rightarrow> bool" where
  start: "pool_run n [] (ThreadPool n)"
| step: "pool_run n tr p \<Longrightarrow> pool_step p e p' \<Longrightarrow> pool_run n (tr @ [e]) p'"

inductive_cases work_stepE: "work_step p e p'"

text \<open>Reading a trace: the actions accepted, in order; those that left the queue, in order; the number
  of flushed ones, of wake-ups that found nothing; the handlers that ran.\<close>

fun accepted_of :: "'h event \<Rightarrow> 'h action list" where
  "accepted_of (Accepted h) = [h]"
| "accepted_of _ = []"

fun removed_of :: "'h event \<Rightarrow> 'h action list" where
  "removed_of (Taken h) = [h]"
| "removed_of (Flushed hs) = hs"
| "removed_of _ = []"

fun flushed_of :: "'h event \<Rightarrow> 'h action list" where
  "flushed_of (Flushed hs) = hs"
| "flushed_of _ = []"

fun ran_of :: "'h event \<Rightarrow> 'h list" where
  "ran_of (Ran h) = [h]"
| "ran_of _ = []"

definition seen :: "('h event \<Rightarrow> 'x list) \<Rightarrow> 'h event list \<Rightarrow> 'x list" where
  "seen f tr = concat (map f tr)"

definition missed :: "'h event list \<Rightarrow> nat" where
  "missed tr = length (filter (\<lambda>e. e = Missed) tr)"

lemma seen_simps [simp]: "seen f [] = []" "seen f (tr @ [e]) = seen f tr @ f e"
  by (simp_all add: seen_def)

lemma missed_simps [simp]: "missed [] = 0" "missed (tr @ [e]) = missed tr + (if e = Missed then 1 else 0)"
  by (simp_all add: missed_def)

end
