(* ===== verification/Pool_Laws.thy ===== *)
theory Pool_Laws
  imports Thread_Pool
begin

section \<open>Properties of thread pools\<close>

text \<open>
  Invariants of every interleaving of a pool's threads, what they say about the order and the fate of
  actions, that a pool left alone drains its queue, and a shutdown that never ends.
\<close>

subsection \<open>Counting threads by their place\<close>

definition many :: "('x \<Rightarrow> bool) \<Rightarrow> 'x list \<Rightarrow> int" where
  "many P xs = int (length (filter P xs))"

lemma many_simps [simp]:
  "many P [] = 0" "many P (xs @ ys) = many P xs + many P ys" "many P (x # xs) = of_bool (P x) + many P xs"
  by (simp_all add: many_def)

lemma many_replicate [simp]: "many P (replicate n x) = (if P x then int n else 0)"
  by (induction n) auto

lemma many_update: "i < length xs \<Longrightarrow> many P (xs[i := y]) = many P xs - of_bool (P (xs ! i)) + of_bool (P y)"
  by (induction xs arbitrary: i) (auto split: nat.splits)

lemma many_nonneg [simp]: "0 \<le> many P xs"
  by (simp add: many_def)

lemma many_pos: "i < length xs \<Longrightarrow> P (xs ! i) \<Longrightarrow> 0 < many P xs"
  by (auto simp: many_def filter_empty_conv)

lemma many_zero: "many P xs = 0 \<longleftrightarrow> (\<forall>x\<in>set xs. \<not> P x)"
  by (auto simp: many_def filter_empty_conv)

lemma many_all: "many P xs = int (length xs) \<longleftrightarrow> (\<forall>x\<in>set xs. P x)"
proof -
  have "\<exists>x\<in>set xs. \<not> P x \<Longrightarrow> length (filter P xs) < length xs" by (auto intro: length_filter_less)
  then show ?thesis unfolding many_def by (metis filter_True less_irrefl of_nat_eq_iff)
qed

fun resting :: "'h worker \<Rightarrow> bool" where
  "resting Waiting = True"
| "resting Woken = True"
| "resting _ = False"

fun took :: "'h caller \<Rightarrow> bool" where
  "took (C_Took _) = True"
| "took _ = False"

fun in_runOne :: "'h caller \<Rightarrow> bool" where
  "in_runOne (C_Waiting _) = True"
| "in_runOne (C_Woken _) = True"
| "in_runOne (C_Took _) = True"
| "in_runOne _ = False"

fun releasing :: "ending \<Rightarrow> int" where
  "releasing (Release_stop _) = 1"
| "releasing _ = 0"

subsection \<open>Invariants\<close>

lemmas pool_defs = enqueue_def release_def dequeue_def takeOne_def flushActions_def runOne_begin_def runOne_end_def
  stop_def shut_down_def set_worker_def set_caller_def Let_def

lemma work_idle:
  assumes "work_step p e p'" "idleThreads p = many resting (threads p) - many took (callers p)"
  shows "idleThreads p' = many resting (threads p') - many took (callers p') \<and> length (threads p') = length (threads p) \<and>
    callers p' = callers p \<and> waitingThreads p' = waitingThreads p \<and> ending p' = ending p"
  using assms by (cases rule: work_step.cases) (auto simp: pool_defs many_update split: list.splits option.splits)

lemma pool_idle:
  "pool_run n tr p \<Longrightarrow> idleThreads p = many resting (threads p) - many took (callers p) \<and> length (threads p) = n"
proof (induction rule: pool_run.induct)
  case (start n)
  then show ?case by (simp add: ThreadPool_def)
next
  case (step n tr p e p')
  from step.hyps(2) step.IH show ?case
    by (cases rule: pool_step.cases)
       (auto simp: pool_defs many_update split: list.splits option.splits if_splits dest!: work_idle)
qed

lemma pool_waiting: "pool_run n tr p \<Longrightarrow> waitingThreads p = many in_runOne (callers p)"
proof (induction rule: pool_run.induct)
  case (start n)
  then show ?case by (simp add: ThreadPool_def)
next
  case (step n tr p e p')
  have w: "waitingThreads p' = waitingThreads p \<and> callers p' = callers p" if "work_step p e p'"
    using that by (cases rule: work_step.cases) (auto simp: pool_defs split: list.splits option.splits)
  from step.hyps(2) step.IH show ?case
    by (cases rule: pool_step.cases) (auto simp: pool_defs many_update w split: list.splits option.splits if_splits)
qed

lemma work_order:
  assumes "work_step p e p'"
  shows "accepted_of e = [] \<and> flushed_of e = [] \<and> removed_of e @ actions p' = actions p"
  using assms by (cases rule: work_step.cases) (auto simp: pool_defs split: list.splits option.splits)

lemma pool_order: "pool_run n tr p \<Longrightarrow> seen accepted_of tr = seen removed_of tr @ actions p"
proof (induction rule: pool_run.induct)
  case (start n)
  then show ?case by (simp add: ThreadPool_def)
next
  case (step n tr p e p')
  from step.hyps(2) step.IH show ?case
    by (cases rule: pool_step.cases) (auto simp: pool_defs split: list.splits option.splits if_splits dest!: work_order)
qed

text \<open>Every unit of the queue's semaphore, waiting to be posted or taken by a thread on its way to the lock,
  stands for an action in the queue, or for one that was flushed.\<close>

definition units :: "'h pool \<Rightarrow> int" where
  "units p = int (actionQueue p) + int (posting p) + releasing (ending p) + many (\<lambda>w. w = Woken) (threads p) +
     many (\<lambda>c. c = C_Woken False) (callers p)"

lemma work_units:
  assumes "work_step p e p'"
  shows "units p' - int (length (actions p')) = units p - int (length (actions p)) - of_bool (e = Missed)"
  using assms by (cases rule: work_step.cases) (auto simp: pool_defs units_def many_update split: list.splits option.splits)

lemma pool_units: "pool_run n tr p \<Longrightarrow> units p + int (missed tr) = int (length (actions p)) + int (length (seen flushed_of tr))"
proof (induction rule: pool_run.induct)
  case (start n)
  then show ?case by (simp add: ThreadPool_def units_def)
next
  case (step n tr p e p')
  show ?case
  proof (cases "work_step p e p'")
    case True
    then show ?thesis using work_units [OF True] work_order [OF True] step.IH by auto
  next
    case False
    from step.hyps(2) step.IH False show ?thesis
      by (cases rule: pool_step.cases) (auto simp: pool_defs units_def many_update split: list.splits option.splits if_splits)
  qed
qed

text \<open>What is in the hands of a thread.\<close>

abbreviation times :: "'x \<Rightarrow> 'x list \<Rightarrow> int" where
  "times x xs \<equiv> many ((=) x) xs"

definition in_hand :: "'h \<Rightarrow> 'h pool \<Rightarrow> int" where
  "in_hand h p = times (Busy (Run h)) (threads p) +
     many (\<lambda>c. c = C_Took (Some (Run h)) \<or> c = C_Running (Run h)) (callers p)"

lemma times_many: "many (\<lambda>y. y = x) xs = times x xs"
  by (rule arg_cong [where f = "\<lambda>P. many P xs"]) auto

lemma work_fate:
  assumes "work_step p e p'"
  shows "times (Run h) (actions p') + in_hand h p' + times h (ran_of e) = times (Run h) (actions p) + in_hand h p"
  using assms
  by (cases rule: work_step.cases) (auto simp: pool_defs in_hand_def many_update split: list.splits option.splits)

lemma pool_fate:
  "pool_run n tr p \<Longrightarrow> times (Run h) (seen accepted_of tr) =
     times h (seen ran_of tr) + times (Run h) (seen flushed_of tr) + times (Run h) (actions p) + in_hand h p"
proof (induction rule: pool_run.induct)
  case (start n)
  then show ?case by (simp add: ThreadPool_def in_hand_def)
next
  case (step n tr p e p')
  show ?case
  proof (cases "work_step p e p'")
    case True
    then show ?thesis using work_fate [OF True, of h] work_order [OF True] step.IH by simp
  next
    case False
    from step.hyps(2) step.IH False show ?thesis
      by (cases rule: pool_step.cases)
         (auto simp: pool_defs in_hand_def many_update split: list.splits option.splits if_splits)
  qed
qed

text \<open>Without a flush no wake-up comes to nothing.\<close>

lemma work_missed: "work_step p e p' \<Longrightarrow> e = Missed \<Longrightarrow> actions p = [] \<and> 0 < many (\<lambda>w. w = Woken) (threads p)"
  by (cases rule: work_step.cases) (auto simp: pool_defs intro: many_pos split: list.splits option.splits if_splits)

lemma step_missed:
  assumes "pool_step p Missed p'"
  shows "actions p = [] \<and> 0 < units p"
proof -
  have nn: "0 \<le> releasing (ending p)" by (cases "ending p") auto
  from assms show ?thesis
  proof (cases rule: pool_step.cases)
    case work
    from work_missed [OF this refl] show ?thesis using nn
      unfolding units_def by (intro conjI add_pos_nonneg add_nonneg_pos) simp_all
  next
    case (caller_miss j b p'')
    then have "0 < many (\<lambda>c. c = C_Woken False) (callers p)"
      by (intro many_pos [of j]) (auto split: if_splits)
    then show ?thesis using caller_miss nn
      unfolding units_def by (auto simp: pool_defs split: list.splits if_splits intro!: add_nonneg_pos)
  qed
qed

lemma no_miss: "pool_run n tr p \<Longrightarrow> seen flushed_of tr = [] \<Longrightarrow> missed tr = 0"
proof (induction rule: pool_run.induct)
  case (start n)
  then show ?case by simp
next
  case (step n tr p e p')
  have "seen flushed_of tr = []" "missed tr = 0" using step.prems step.IH by simp_all
  then have "units p = int (length (actions p))" using pool_units [OF step.hyps(1)] by simp
  then have "e \<noteq> Missed" using step_missed [of p p'] step.hyps(2) by auto
  then show ?case using \<open>missed tr = 0\<close> by simp
qed

lemma work_left: "work_step p e p' \<Longrightarrow> e \<noteq> Missed \<Longrightarrow> Left \<in> set (threads p') \<Longrightarrow> Left \<in> set (threads p)"
  by (cases rule: work_step.cases)
     (auto simp: pool_defs split: list.splits option.splits if_splits dest: set_update_subset_insert [THEN subsetD])

lemma pool_left: "pool_run n tr p \<Longrightarrow> missed tr = 0 \<Longrightarrow> Left \<notin> set (threads p)"
proof (induction rule: pool_run.induct)
  case (start n)
  then show ?case by (simp add: ThreadPool_def)
next
  case (step n tr p e p')
  then have old: "e \<noteq> Missed" "Left \<notin> set (threads p)" by (simp_all split: if_splits)
  show ?case
  proof (cases "work_step p e p'")
    case True
    then show ?thesis using work_left old by blast
  next
    case False
    from step.hyps(2) old(2) False show ?thesis
      by (cases rule: pool_step.cases) (auto simp: pool_defs split: list.splits option.splits if_splits)
  qed
qed

text \<open>Stop handlers exist only once the destructor runs.\<close>

definition no_stop :: "'h pool \<Rightarrow> bool" where
  "no_stop p \<longleftrightarrow> ending p = Not_ended \<and> Stop \<notin> set (actions p) \<and> Busy Stop \<notin> set (threads p) \<and> Ended \<notin> set (threads p)"

lemma work_open: "work_step p e p' \<Longrightarrow> shutdownSemaphore p' = None \<longleftrightarrow> shutdownSemaphore p = None"
  by (cases rule: work_step.cases) (auto simp: pool_defs split: list.splits option.splits)

lemma work_callers: "work_step p e p' \<Longrightarrow> callers p' = callers p"
  by (cases rule: work_step.cases) (auto simp: pool_defs split: list.splits option.splits)

lemma work_no_stop: "work_step p e p' \<Longrightarrow> no_stop p \<Longrightarrow> no_stop p'"
  by (cases rule: work_step.cases)
     (auto simp: pool_defs no_stop_def split: list.splits option.splits
       dest: set_update_subset_insert [THEN subsetD] nth_mem)

lemma pool_no_stop: "pool_run n tr p \<Longrightarrow> shutdownSemaphore p = None \<Longrightarrow> no_stop p"
proof (induction rule: pool_run.induct)
  case (start n)
  then show ?case by (simp add: ThreadPool_def no_stop_def)
next
  case (step n tr p e p')
  have open_before: "shutdownSemaphore p = None"
    using step.hyps(2) step.prems
    by (cases rule: pool_step.cases) (auto simp: pool_defs work_open split: list.splits option.splits if_splits)
  then have old: "no_stop p" by (rule step.IH)
  show ?case
  proof (cases "work_step p e p'")
    case True
    then show ?thesis using work_no_stop old by blast
  next
    case False
    from step.hyps(2) step.prems open_before old False show ?thesis
      by (cases rule: pool_step.cases) (auto simp: pool_defs no_stop_def split: list.splits option.splits if_splits)
  qed
qed

subsection \<open>Draining\<close>

inductive work_steps :: "'h pool \<Rightarrow> 'h event list \<Rightarrow> 'h pool \<Rightarrow> bool" where
  none: "work_steps p [] p"
| more: "work_step p e p' \<Longrightarrow> work_steps p' es p'' \<Longrightarrow> work_steps p (e # es) p''"

lemma pool_run_work: "work_steps p es p' \<Longrightarrow> pool_run n tr p \<Longrightarrow> pool_run n (tr @ es) p'"
proof (induction arbitrary: tr rule: work_steps.induct)
  case (none p)
  then show ?case by simp
next
  case (more p e p' es p'')
  from more.IH [OF pool_run.step [OF more.prems pool_step.work [OF more.hyps(1)]]] show ?case by simp
qed

fun is_busy :: "'h worker \<Rightarrow> bool" where
  "is_busy (Busy _) = True"
| "is_busy _ = False"

definition pending :: "'h pool \<Rightarrow> int" where
  "pending p = 6 * int (length (actions p)) + 3 * int (posting p) + 2 * int (actionQueue p) +
     many (\<lambda>w. w = Top) (threads p) + many (\<lambda>w. w = Woken) (threads p) + 6 * many is_busy (threads p)"

lemma work_decreases: "work_step p e p' \<Longrightarrow> pending p' < pending p"
  by (cases rule: work_step.cases) (auto simp: pool_defs pending_def many_update split: list.splits option.splits)

lemma work_steps_bounded: "work_steps p es p' \<Longrightarrow> int (length es) + pending p' \<le> pending p"
  by (induction rule: work_steps.induct) (auto dest: work_decreases)

lemma pending_nonneg: "0 \<le> pending p"
  by (simp add: pending_def)

lemma work_exhausts: "\<exists>es p'. work_steps p es p' \<and> (\<nexists>e p''. work_step p' e p'')"
proof (induction "nat (pending p)" arbitrary: p rule: less_induct)
  case less
  show ?case
  proof (cases "\<exists>e p'. work_step p e p'")
    case True
    then obtain e p' where step: "work_step p e p'" by blast
    then have "nat (pending p') < nat (pending p)" using work_decreases pending_nonneg [of p'] by fastforce
    then obtain es p'' where "work_steps p' es p''" "\<nexists>e p3. work_step p'' e p3" using less by blast
    then show ?thesis using work_steps.more [OF step] by blast
  next
    case False
    then show ?thesis using work_steps.none [of p] by blast
  qed
qed

lemma work_enabled:
  assumes "i < length (threads p)" "threads p ! i = w" "w \<noteq> Waiting \<or> 0 < actionQueue p" "w \<noteq> Left" "w \<noteq> Ended" "w \<noteq> Busy Stop"
  shows "\<exists>e p'. work_step p e p'"
proof (cases w)
  case Top
  obtain fired p' where "dequeue p = (fired, p')" by fastforce
  from work_step.idle [OF assms(1) assms(2) [unfolded Top] this] show ?thesis by blast
next
  case Waiting
  then have "0 < actionQueue p" using assms(3) by simp
  from work_step.wake [OF assms(1) assms(2) [unfolded Waiting] this] show ?thesis by blast
next
  case Woken
  obtain r p' where r: "takeOne False p = (r, p')" by fastforce
  show ?thesis
  proof (cases r)
    case None
    from work_step.leave [OF assms(1) assms(2) [unfolded Woken] r [unfolded None]] show ?thesis by blast
  next
    case (Some h)
    from work_step.take [OF assms(1) assms(2) [unfolded Woken] r [unfolded Some]] show ?thesis by blast
  qed
next
  case (Busy a)
  then obtain h where "a = Run h" using assms(6) by (cases a) auto
  from work_step.ran [OF assms(1) assms(2) [unfolded Busy this]] show ?thesis by blast
qed (use assms in auto)

lemma exhausted:
  assumes run: "pool_run n tr p" and "0 < n" "seen flushed_of tr = []" "shutdownSemaphore p = None" "callers p = []"
    and stuck: "\<nexists>e p'. work_step p e p'"
  shows "actions p = [] \<and> (\<forall>w\<in>set (threads p). w = Waiting) \<and> \<not> busy p \<and> (\<forall>h. in_hand h p = 0)"
proof -
  have stop: "no_stop p" by (rule pool_no_stop [OF run assms(4)])
  have miss: "missed tr = 0" by (rule no_miss [OF run assms(3)])
  have len: "length (threads p) = n" and idle: "idleThreads p = many resting (threads p)"
    using pool_idle [OF run] assms(5) by simp_all
  have w: "w = Waiting \<and> actionQueue p = 0" if mem: "w \<in> set (threads p)" for w
  proof -
    obtain i where i: "i < length (threads p)" "threads p ! i = w" using mem by (metis in_set_conv_nth)
    have "w \<noteq> Left" "w \<noteq> Ended" "w \<noteq> Busy Stop"
      using mem stop pool_left [OF run miss] by (auto simp: no_stop_def)
    then have "w = Waiting \<and> \<not> 0 < actionQueue p" using work_enabled [OF i] stuck by metis
    then show ?thesis by simp
  qed
  then have waiting: "\<forall>w\<in>set (threads p). w = Waiting" by blast
  have "threads p \<noteq> []" using len assms(2) by auto
  then have "actionQueue p = 0" using w by (cases "threads p") auto
  moreover have "posting p = 0" using work_step.post [of p] stuck by blast
  moreover have "many (\<lambda>w. w = Woken) (threads p) = 0" using waiting by (auto simp: many_zero)
  moreover have "releasing (ending p) = 0" using stop by (simp add: no_stop_def)
  ultimately have "units p = 0" using assms(5) by (simp add: units_def)
  then have "actions p = []" using pool_units [OF run] miss assms(3) by simp
  moreover have "idleThreads p = int (length (threads p))" using waiting idle by (auto simp: many_all)
  moreover have "in_hand h p = 0" for h using waiting assms(5) by (auto simp: in_hand_def many_zero)
  ultimately show ?thesis using waiting by (simp add: busy_def)
qed

subsection \<open>The properties\<close>

text \<open>C15: a pool's queue is first in, first out under every interleaving of callers, workers, \<open>runOne\<close> and
  the destructor: what has left the queue followed by what is in it is what was accepted, in order; and
  each accepted handler is accounted for exactly once: it has run, was flushed, is in the queue or in
  the hands of one thread.\<close>

theorem pool_actions:
  assumes "pool_run n tr p"
  shows "seen accepted_of tr = seen removed_of tr @ actions p \<and>
    times (Run h) (seen accepted_of tr) =
      times h (seen ran_of tr) + times (Run h) (seen flushed_of tr) + times (Run h) (actions p) + in_hand h p"
  using pool_order [OF assms] pool_fate [OF assms] by blast

text \<open>A pool with one worker, as an instance.\<close>

definition solo :: "'h action list \<Rightarrow> nat \<Rightarrow> int \<Rightarrow> nat option \<Rightarrow> 'h worker \<Rightarrow> nat \<Rightarrow> ending \<Rightarrow> 'h pool" where
  "solo as q idle sd w post e =
     \<lparr>actions = as, actionQueue = q, idleThreads = idle, waitingThreads = 0, shutdownSemaphore = sd,
      threads = [w], callers = [], posting = post, ending = e\<rparr>"

lemma solo_idle: "pool_step (solo [] q 0 sd Top po e) Idle (solo [] q 1 sd Waiting po e)"
  using pool_step.work [OF work_step.idle [of 0 "solo [] q 0 sd Top po e" True "solo [] q 1 sd Top po e"]]
  by (simp add: pool_defs solo_def)

lemma solo_submit: "pool_step (solo as q idle None w po e) (Accepted (Run h)) (solo (as @ [Run h]) q idle None w (Suc po) e)"
  using pool_step.submit [of h "solo as q idle None w po e" "solo (as @ [Run h]) q idle None w po e"]
  by (simp add: pool_defs solo_def)

lemma solo_post: "pool_step (solo as q idle sd w (Suc po) e) Quiet (solo as (Suc q) idle sd w po e)"
  using pool_step.work [OF work_step.post [of "solo as q idle sd w (Suc po) e"]] by (simp add: pool_defs solo_def)

lemma solo_wake: "pool_step (solo as (Suc q) idle sd Waiting po e) Quiet (solo as q idle sd Woken po e)"
  using pool_step.work [OF work_step.wake [of 0 "solo as (Suc q) idle sd Waiting po e"]] by (simp add: pool_defs solo_def)

lemma solo_take: "pool_step (solo (h # as) q 1 sd Woken po e) (Taken h) (solo as q 0 sd (Busy h) po e)"
  using pool_step.work [OF work_step.take [of 0 "solo (h # as) q 1 sd Woken po e" h "solo as q 0 sd Woken po e"]]
  by (simp add: pool_defs solo_def)

lemma solo_miss: "pool_step (solo [] q 1 sd Woken po e) Missed (solo [] q 0 sd Left po e)"
  using pool_step.work [OF work_step.leave [of 0 "solo [] q 1 sd Woken po e" "solo [] q 0 sd Woken po e"]]
  by (simp add: pool_defs solo_def)

lemma solo_ran: "pool_step (solo as q idle sd (Busy (Run h)) po e) (Ran h) (solo as q idle sd Top po e)"
  using pool_step.work [OF work_step.ran [of 0 "solo as q idle sd (Busy (Run h)) po e" h]] by (simp add: pool_defs solo_def)

lemma solo_destroy: "pool_step (solo as q idle sd w po Not_ended) (Flushed as) (solo [] q idle (Some 0) w po (Enqueue_stop 0))"
  using pool_step.destroy [of "solo as q idle sd w po Not_ended"] by (simp add: pool_defs solo_def)

lemma solo_stop: "pool_step (solo as q idle sd w po (Enqueue_stop 0)) (Accepted Stop) (solo (as @ [Stop]) q idle sd w po (Release_stop 0))"
  using pool_step.stop_enqueue [of "solo as q idle sd w po (Enqueue_stop 0)" 0 "solo (as @ [Stop]) q idle sd w po (Enqueue_stop 0)"]
  by (simp add: pool_defs solo_def)

lemma solo_release: "pool_step (solo as q idle sd w po (Release_stop 0)) Quiet (solo as (Suc q) idle sd w po (Await_stop 0))"
  using pool_step.stop_release [of "solo as q idle sd w po (Release_stop 0)" 0] by (simp add: pool_defs solo_def)

lemma solo_start: "pool_run 1 [] (solo [] 0 0 None Top 0 Not_ended)"
  using pool_run.start [of 1] by (simp add: ThreadPool_def solo_def)

text \<open>Two actions are accepted and the worker takes the first.\<close>

lemma solo_working:
  "pool_run 1 [Idle, Accepted (Run a), Accepted (Run b), Quiet, Quiet, Quiet, Taken (Run a)]
     (solo [Run b] 1 0 None (Busy (Run a)) 0 Not_ended)"
proof -
  note 1 = pool_run.step [OF solo_start solo_idle]
  note 2 = pool_run.step [OF pool_run.step [OF 1 solo_submit [of _ _ _ _ _ _ a]] solo_submit [of _ _ _ _ _ _ b], unfolded append.simps]
  note 3 = pool_run.step [OF pool_run.step [OF 2 solo_post] solo_post]
  from pool_run.step [OF pool_run.step [OF 3 solo_wake] solo_take] show ?thesis by simp
qed

lemma pool_actions_witness:
  "pool_run 1 [Idle, Accepted (Run (7 :: nat)), Accepted (Run (8 :: nat)), Quiet, Quiet, Quiet, Taken (Run (7 :: nat))]
     (solo [Run (8 :: nat)] 1 0 None (Busy (Run (7 :: nat))) 0 Not_ended) \<and>
   [Run (7 :: nat), Run (8 :: nat)] = [Run (7 :: nat)] @ actions (solo [Run (8 :: nat)] 1 0 None (Busy (Run (7 :: nat))) 0 Not_ended)"
  using solo_working [of "7 :: nat" 8] pool_actions [OF solo_working [of "7 :: nat" 8]] by (simp add: seen_def)

text \<open>When \<open>busy\<close> answers false and no thread is between the two last blocks of \<open>runOne\<close>, the pool is idle
  indeed: the queue is empty, every worker waits for work, and every accepted handler has run or was
  flushed, up to those that callers of \<open>runOne\<close> are running.\<close>

theorem not_busy_idle:
  assumes "pool_run n tr p" "\<not> busy p" "\<forall>c\<in>set (callers p). \<not> took c"
  shows "actions p = [] \<and> (\<forall>w\<in>set (threads p). w = Waiting \<or> w = Woken) \<and>
    times (Run h) (seen accepted_of tr) =
      times h (seen ran_of tr) + times (Run h) (seen flushed_of tr) + times (C_Running (Run h)) (callers p)"
proof -
  have empty: "actions p = []" and idle: "idleThreads p = int (length (threads p))"
    using assms(2) by (simp_all add: busy_def split: if_splits)
  have "many took (callers p) = 0" using assms(3) by (simp add: many_zero)
  then have rest: "\<forall>w\<in>set (threads p). resting w"
    using pool_idle [OF assms(1)] idle by (simp add: many_all [symmetric])
  then have waiting: "\<forall>w\<in>set (threads p). w = Waiting \<or> w = Woken"
    by (metis resting.simps(3-6) worker.exhaust)
  then have "times (Busy (Run h)) (threads p) = 0" by (auto simp: many_zero)
  moreover have "many (\<lambda>c. c = C_Took (Some (Run h)) \<or> c = C_Running (Run h)) (callers p) =
      times (C_Running (Run h)) (callers p)"
    unfolding many_def using assms(3) by (intro arg_cong [where f = "\<lambda>xs. int (length xs)"] filter_cong) auto
  ultimately show ?thesis using pool_fate [OF assms(1), of h] empty waiting by (simp add: in_hand_def)
qed

lemma not_busy_idle_witness:
  "pool_run 1 [Idle] (solo [] 0 1 None Waiting 0 Not_ended :: nat pool) \<and>
   \<not> busy (solo [] 0 1 None Waiting 0 Not_ended :: nat pool) \<and>
   times (Run (7 :: nat)) (seen accepted_of [Idle]) = 0"
proof -
  have run: "pool_run 1 [Idle] (solo [] 0 1 None Waiting 0 Not_ended :: nat pool)"
    using pool_run.step [OF solo_start solo_idle] by simp
  moreover have "\<not> busy (solo [] 0 1 None Waiting 0 Not_ended :: nat pool)" by (simp add: busy_def solo_def)
  ultimately show ?thesis using not_busy_idle [OF run, of 7] by (simp add: solo_def seen_def)
qed

text \<open>C16: a pool left alone drains: from any state that was reached without a flush, before the destructor
  and with no thread in \<open>runOne\<close>, the steps of the workers and pending posts can go on for no more than
  \<open>pending\<close> steps, whatever their order, and where they cannot go on every worker waits for work,
  \<open>busy\<close> answers false and every accepted handler has run exactly as often as it was accepted.\<close>

theorem pool_drains:
  assumes "pool_run n tr p" "0 < n" "seen flushed_of tr = []" "shutdownSemaphore p = None" "callers p = []"
  shows "(\<exists>es p'. work_steps p es p' \<and> (\<nexists>e p''. work_step p' e p'')) \<and>
    (\<forall>es p'. work_steps p es p' \<longrightarrow> int (length es) \<le> pending p \<and>
       ((\<nexists>e p''. work_step p' e p'') \<longrightarrow>
         (\<forall>w\<in>set (threads p'). w = Waiting) \<and> \<not> busy p' \<and>
         times h (seen ran_of (tr @ es)) = times (Run h) (seen accepted_of (tr @ es))))"
proof (intro conjI allI impI)
  show "\<exists>es p'. work_steps p es p' \<and> (\<nexists>e p''. work_step p' e p'')" by (rule work_exhausts)
  fix es p'
  assume steps: "work_steps p es p'"
  then show "int (length es) \<le> pending p" using work_steps_bounded [OF steps] pending_nonneg [of p'] by simp
  assume stuck: "\<nexists>e p''. work_step p' e p''"
  have run: "pool_run n (tr @ es) p'" by (rule pool_run_work [OF steps assms(1)])
  have "callers p' = callers p \<and> (shutdownSemaphore p' = None \<longleftrightarrow> shutdownSemaphore p = None) \<and> seen flushed_of es = []"
    using steps by (induction rule: work_steps.induct) (use work_open work_callers work_order in \<open>fastforce simp: seen_def\<close>)+
  then have "callers p' = []" "shutdownSemaphore p' = None" "seen flushed_of (tr @ es) = []"
    using assms by (simp_all add: seen_def)
  from exhausted [OF run assms(2) this(3,2,1) stuck]
  have "actions p' = []" "\<forall>w\<in>set (threads p'). w = Waiting" "\<not> busy p'" "in_hand h p' = 0" by blast+
  then show "\<forall>w\<in>set (threads p'). w = Waiting" "\<not> busy p'"
    "times h (seen ran_of (tr @ es)) = times (Run h) (seen accepted_of (tr @ es))"
    using pool_fate [OF run, of h] \<open>seen flushed_of (tr @ es) = []\<close> by simp_all
qed

lemma pool_drains_witness:
  "\<exists>es p'. work_steps (solo [Run (8 :: nat)] 1 0 None (Busy (Run (7 :: nat))) 0 Not_ended) es p' \<and> \<not> busy p' \<and>
     times 8 (seen ran_of ([Idle, Accepted (Run (7 :: nat)), Accepted (Run (8 :: nat)), Quiet, Quiet, Quiet, Taken (Run (7 :: nat))] @ es)) =
     times (Run (8 :: nat)) (seen accepted_of ([Idle, Accepted (Run (7 :: nat)), Accepted (Run (8 :: nat)), Quiet, Quiet, Quiet, Taken (Run (7 :: nat))] @ es))"
proof -
  let ?p = "solo [Run (8 :: nat)] 1 0 None (Busy (Run (7 :: nat))) 0 Not_ended"
    and ?tr = "[Idle, Accepted (Run (7 :: nat)), Accepted (Run (8 :: nat)), Quiet, Quiet, Quiet, Taken (Run (7 :: nat))]"
  have "seen flushed_of ?tr = []" "shutdownSemaphore ?p = None" "callers ?p = []" by (simp_all add: solo_def seen_def)
  from pool_drains [OF solo_working [of "7 :: nat" 8] zero_less_one this, of 8] show ?thesis by blast
qed

text \<open>The shutdown of a pool with work in its queue can wait for ever: flushing the queue leaves the
  semaphore as it is, so a worker is woken, finds no action, and leaves its loop; the stop handler
  meant for it is never taken.\<close>

theorem shutdown_hangs:
  "\<exists>tr p. pool_run 1 tr p \<and> ending p = Await_stop 0 \<and> shutdownSemaphore p = Some 0 \<and> callers p = [] \<and>
     threads p = [Left] \<and> actions p = [Stop] \<and> (\<nexists>e p'. work_step p e p')"
proof -
  note 1 = pool_run.step [OF pool_run.step [OF solo_working [of a b] solo_destroy] solo_ran]
  note 2 = pool_run.step [OF pool_run.step [OF 1 solo_idle] solo_wake [of _ 0, unfolded One_nat_def [symmetric]]]
  note 3 = pool_run.step [OF pool_run.step [OF pool_run.step [OF 2 solo_miss] solo_stop] solo_release]
  let ?p = "solo [Stop] (Suc 0) 0 (Some 0) Left 0 (Await_stop 0)"
  have "\<nexists>e p'. work_step ?p e p'" by (auto simp: solo_def elim!: work_stepE)
  then show ?thesis using 3 by (intro exI conjI) (assumption, simp_all add: solo_def)
qed

end
