(* ===== verification/Events.thy ===== *)
theory Events
  imports Prelude
begin

section \<open>Events and their handlers\<close>

text \<open>
  common/event.h. An event keeps a linked list of handlers; a handler may be removed while it is being
  called, and is then deleted by the loop that calls it. Handlers live on a heap of their own: an
  address, never 0 and never given out twice, maps to a handler until that is deleted. Reading a
  deleted handler gives \<open>None\<close>. What the called functions do is a parameter: they may change the event
  and the state of the program, or never return (\<open>None\<close>).
\<close>

subsection \<open>What a handler calls\<close>

text \<open>The handler classes of \<open>Event\<close>: a function or a method of an object, with the values bound to it. The
  arguments of an event come before the bound ones.\<close>

datatype ('fn, 'o, 'v) Handler =
    ObjectHandler 'o 'fn
  | ObjectHandler1 'o 'fn 'v
  | ObjectHandler2 'o 'fn 'v 'v
  | ObjectHandler3 'o 'fn 'v 'v 'v
  | FunctionHandler 'fn
  | FunctionHandler2 'fn 'v 'v

fun handler_call :: "('fn, 'o, 'v) Handler \<Rightarrow> 'v list \<Rightarrow> 'fn \<times> 'o option \<times> 'v list" where
  "handler_call (ObjectHandler object func) args = (func, Some object, args)"
| "handler_call (ObjectHandler1 object func m) args = (func, Some object, args @ [m])"
| "handler_call (ObjectHandler2 object func m n) args = (func, Some object, args @ [m, n])"
| "handler_call (ObjectHandler3 object func m n k) args = (func, Some object, args @ [m, n, k])"
| "handler_call (FunctionHandler func) args = (func, None, args)"
| "handler_call (FunctionHandler2 func m n) args = (func, None, args @ [m, n])"

subsection \<open>The list of handlers\<close>

record 'h handler =
  h_handler :: 'h
  h_next :: nat
  h_busy :: bool
  h_removed :: bool

record 'h event_list =
  handlers :: nat
  h_heap :: "nat \<rightharpoonup> 'h handler"
  h_new :: nat

definition BaseEvent :: "'h event_list" where
  "BaseEvent = \<lparr>handlers = 0, h_heap = Map.empty, h_new = 1\<rparr>"

definition has_listeners :: "'h event_list \<Rightarrow> bool" where
  "has_listeners ev \<longleftrightarrow> handlers ev \<noteq> 0"

text \<open>\<open>append\<close>, and with it the \<open>addHandler\<close> methods, which only make the handler.\<close>

definition addHandler :: "'h \<Rightarrow> 'h event_list \<Rightarrow> nat \<times> 'h event_list" where
  "addHandler f ev =
     (let h = h_new ev
      in (h, ev\<lparr>handlers := h,
             h_heap := (h_heap ev)(h \<mapsto> \<lparr>h_handler = f, h_next = handlers ev, h_busy = False, h_removed = False\<rparr>),
             h_new := h + 1\<rparr>))"

text \<open>The walk to the handler before \<open>h\<close>, which is unlinked; \<open>Some None\<close> when there is none. The heap changes
  at one place.\<close>

partial_function (option) unlink :: "(nat \<rightharpoonup> 'h handler) \<Rightarrow> nat \<Rightarrow> nat \<Rightarrow> (nat \<rightharpoonup> 'h handler) option option" where
  "unlink hp hh h = do {
     x \<leftarrow> hp hh;
     if h_next x = 0 then Some None
     else if h_next x = h then do {
       y \<leftarrow> hp h;
       Some (Some (hp(hh \<mapsto> x\<lparr>h_next := h_next y\<rparr>))) }
     else unlink hp (h_next x) h }"

text \<open>The end of \<open>removeHandler\<close>: delete the handler, or leave that to the loop that is calling it.\<close>

definition drop_handler :: "nat \<Rightarrow> 'h event_list \<Rightarrow> 'h event_list option" where
  "drop_handler h ev = do {
     y \<leftarrow> h_heap ev h;
     Some (if \<not> h_busy y then ev\<lparr>h_heap := (h_heap ev)(h := None)\<rparr>
           else ev\<lparr>h_heap := (h_heap ev)(h \<mapsto> y\<lparr>h_removed := True\<rparr>)\<rparr>) }"

definition removeHandler :: "nat \<Rightarrow> 'h event_list \<Rightarrow> 'h event_list option" where
  "removeHandler h ev =
     (if h = 0 then Some ev
      else if handlers ev = 0 then Some ev
      else if h = handlers ev then do {
        x \<leftarrow> h_heap ev h;
        drop_handler h (ev\<lparr>handlers := h_next x\<rparr>) }
      else do {
        r \<leftarrow> unlink (h_heap ev) (handlers ev) h;
        (case r of None \<Rightarrow> Some ev | Some hp \<Rightarrow> drop_handler h (ev\<lparr>h_heap := hp\<rparr>)) })"

text \<open>\<open>removeHandlers\<close>, and the destructor.\<close>

partial_function (option) removeHandlers :: "'h event_list \<Rightarrow> 'h event_list option" where
  "removeHandlers ev =
     (if handlers ev \<noteq> 0 then do { ev \<leftarrow> removeHandler (handlers ev) ev; removeHandlers ev } else Some ev)"

subsection \<open>Firing\<close>

definition set_busy :: "nat \<Rightarrow> bool \<Rightarrow> 'h event_list \<Rightarrow> 'h event_list option" where
  "set_busy h b ev = do { x \<leftarrow> h_heap ev h; Some (ev\<lparr>h_heap := (h_heap ev)(h \<mapsto> x\<lparr>h_busy := b\<rparr>)\<rparr>) }"

partial_function (option) fire_from :: "('h \<Rightarrow> 'h event_list \<Rightarrow> 's \<Rightarrow> ('h event_list \<times> 's) option) \<Rightarrow>
    nat \<Rightarrow> 'h event_list \<Rightarrow> 's \<Rightarrow> ('h event_list \<times> 's) option" where
  "fire_from call h ev s =
     (if h = 0 then Some (ev, s)
      else do {
        x \<leftarrow> h_heap ev h;
        ev \<leftarrow> set_busy h True ev;
        (ev, s) \<leftarrow> call (h_handler x) ev s;
        ev \<leftarrow> set_busy h False ev;
        y \<leftarrow> h_heap ev h;
        fire_from call (h_next y) (if h_removed y then ev\<lparr>h_heap := (h_heap ev)(h := None)\<rparr> else ev) s })"

definition fire :: "('h \<Rightarrow> 'h event_list \<Rightarrow> 's \<Rightarrow> ('h event_list \<times> 's) option) \<Rightarrow> 'h event_list \<Rightarrow> 's \<Rightarrow>
    ('h event_list \<times> 's) option" where
  "fire call ev s = fire_from call (handlers ev) ev s"

text \<open>The classes differ in the arguments of \<open>fire\<close>, which their handlers pass on before the values bound to
  them; \<open>invoke\<close> calls a function, with its object and arguments.\<close>

definition Event1_call :: "'v \<Rightarrow> ('fn, 'o, 'v) Handler \<Rightarrow> 'fn \<times> 'o option \<times> 'v list" where
  "Event1_call a h = handler_call h [a]"

definition Event2_call :: "'v \<Rightarrow> 'v \<Rightarrow> ('fn, 'o, 'v) Handler \<Rightarrow> 'fn \<times> 'o option \<times> 'v list" where
  "Event2_call a b h = handler_call h [a, b]"

definition Event3_call :: "'v \<Rightarrow> 'v \<Rightarrow> 'v \<Rightarrow> ('fn, 'o, 'v) Handler \<Rightarrow> 'fn \<times> 'o option \<times> 'v list" where
  "Event3_call a b c h = handler_call h [a, b, c]"

definition Event4_call :: "'v \<Rightarrow> 'v \<Rightarrow> 'v \<Rightarrow> 'v \<Rightarrow> ('fn, 'o, 'v) Handler \<Rightarrow> 'fn \<times> 'o option \<times> 'v list" where
  "Event4_call a b c d h = handler_call h [a, b, c, d]"

type_synonym ('fn, 'o, 'v, 's) invoke =
  "'fn \<times> 'o option \<times> 'v list \<Rightarrow> ('fn, 'o, 'v) Handler event_list \<Rightarrow> 's \<Rightarrow>
     (('fn, 'o, 'v) Handler event_list \<times> 's) option"

definition Event_fire :: "('fn, 'o, 'v, 's) invoke \<Rightarrow> ('fn, 'o, 'v) Handler event_list \<Rightarrow> 's \<Rightarrow>
    (('fn, 'o, 'v) Handler event_list \<times> 's) option" where
  "Event_fire invoke ev s = fire (\<lambda>h. invoke (handler_call h [])) ev s"

definition Event1_fire :: "('fn, 'o, 'v, 's) invoke \<Rightarrow> 'v \<Rightarrow> ('fn, 'o, 'v) Handler event_list \<Rightarrow> 's \<Rightarrow>
    (('fn, 'o, 'v) Handler event_list \<times> 's) option" where
  "Event1_fire invoke a ev s = fire (\<lambda>h. invoke (Event1_call a h)) ev s"

definition Event2_fire :: "('fn, 'o, 'v, 's) invoke \<Rightarrow> 'v \<Rightarrow> 'v \<Rightarrow> ('fn, 'o, 'v) Handler event_list \<Rightarrow> 's \<Rightarrow>
    (('fn, 'o, 'v) Handler event_list \<times> 's) option" where
  "Event2_fire invoke a b ev s = fire (\<lambda>h. invoke (Event2_call a b h)) ev s"

definition Event3_fire :: "('fn, 'o, 'v, 's) invoke \<Rightarrow> 'v \<Rightarrow> 'v \<Rightarrow> 'v \<Rightarrow> ('fn, 'o, 'v) Handler event_list \<Rightarrow> 's \<Rightarrow>
    (('fn, 'o, 'v) Handler event_list \<times> 's) option" where
  "Event3_fire invoke a b c ev s = fire (\<lambda>h. invoke (Event3_call a b c h)) ev s"

definition Event4_fire :: "('fn, 'o, 'v, 's) invoke \<Rightarrow> 'v \<Rightarrow> 'v \<Rightarrow> 'v \<Rightarrow> 'v \<Rightarrow> ('fn, 'o, 'v) Handler event_list \<Rightarrow> 's \<Rightarrow>
    (('fn, 'o, 'v) Handler event_list \<times> 's) option" where
  "Event4_fire invoke a b c d ev s = fire (\<lambda>h. invoke (Event4_call a b c d h)) ev s"

subsection \<open>Well-formed lists\<close>

fun chain :: "(nat \<rightharpoonup> 'h handler) \<Rightarrow> nat \<Rightarrow> nat list \<Rightarrow> bool" where
  "chain hp h [] \<longleftrightarrow> h = 0"
| "chain hp h (x # xs) \<longleftrightarrow> h = x \<and> x \<noteq> 0 \<and> (\<exists>y. hp x = Some y \<and> \<not> h_removed y \<and> chain hp (h_next y) xs)"

definition listed :: "'h event_list \<Rightarrow> nat list \<Rightarrow> bool" where
  "listed ev hs \<longleftrightarrow> chain (h_heap ev) (handlers ev) hs \<and> distinct hs \<and> (\<forall>x\<in>dom (h_heap ev). x < h_new ev) \<and> 0 < h_new ev"

definition handler_at :: "'h event_list \<Rightarrow> nat \<Rightarrow> 'h" where
  "handler_at ev h = h_handler (the (h_heap ev h))"

text \<open>Two heaps with the same handlers, up to the links.\<close>

definition same_but_links :: "(nat \<rightharpoonup> 'h handler) \<Rightarrow> (nat \<rightharpoonup> 'h handler) \<Rightarrow> bool" where
  "same_but_links hp hp' \<longleftrightarrow> (\<forall>k. map_option (h_next_update (\<lambda>_. 0)) (hp' k) = map_option (h_next_update (\<lambda>_. 0)) (hp k))"

lemma chain_in_dom: "chain hp h hs \<Longrightarrow> x \<in> set hs \<Longrightarrow> x \<noteq> 0 \<and> (\<exists>y. hp x = Some y \<and> \<not> h_removed y)"
  by (induction hs arbitrary: h) auto

lemma chain_other: "k \<notin> set hs \<Longrightarrow> chain (hp(k := v)) h hs = chain hp h hs"
  by (induction hs arbitrary: h) auto

lemma chain_head: "chain hp h hs \<Longrightarrow> h = (case hs of [] \<Rightarrow> 0 | x # _ \<Rightarrow> x)"
  by (cases hs) auto

lemma chain_busy:
  assumes "hp k = Some x"
  shows "chain (hp(k \<mapsto> x\<lparr>h_busy := b\<rparr>)) h hs = chain hp h hs"
  using assms by (induction hs arbitrary: h) auto

end
