(* ===== verification/Event_Laws.thy ===== *)
theory Event_Laws
  imports Events
begin

section \<open>Properties of events\<close>

text \<open>
  A list of handlers as its abstraction, a list of addresses: what adding and removing do to it, that
  firing calls every handler once although handlers remove themselves, and where it goes wrong.
\<close>

subsection \<open>Removing\<close>

abbreviation linkless :: "'h handler option \<Rightarrow> 'h handler option" where
  "linkless y \<equiv> map_option (h_next_update (\<lambda>_. 0)) y"

lemma linkless_eq: "linkless y' = linkless y \<Longrightarrow> y = None \<longleftrightarrow> y' = None"
  by (cases y; cases y') auto

lemma linkless_Some:
  "linkless y' = linkless (Some x) \<Longrightarrow>
    \<exists>x'. y' = Some x' \<and> h_handler x' = h_handler x \<and> h_busy x' = h_busy x \<and> h_removed x' = h_removed x"
  using arg_cong [where f = "map_option h_handler", of "linkless y'"]
    arg_cong [where f = "map_option h_busy", of "linkless y'"]
    arg_cong [where f = "map_option h_removed", of "linkless y'"]
  by (fastforce simp: option.map_comp comp_def)

lemma chain_suffix: "chain hp h (pre @ ks) \<Longrightarrow> chain hp (case ks of [] \<Rightarrow> 0 | z # _ \<Rightarrow> z) ks"
  by (induction pre arbitrary: h) (auto split: list.splits)

lemma unlink_law:
  "chain hp hh (q # xs) \<Longrightarrow> h \<in> set xs \<Longrightarrow> distinct (q # xs) \<Longrightarrow>
    \<exists>hp'. unlink hp hh h = Some (Some hp') \<and> chain hp' hh (q # remove1 h xs) \<and> hp' h = hp h \<and>
      (\<forall>k. linkless (hp' k) = linkless (hp k)) \<and> (\<forall>k. k \<notin> set (q # xs) \<longrightarrow> hp' k = hp k)"
proof (induction xs arbitrary: q hh)
  case Nil
  then show ?case by simp
next
  case (Cons y ys)
  obtain x z where x: "hp q = Some x" "\<not> h_removed x" "h_next x = y" "hh = q" "q \<noteq> 0"
    and z: "hp y = Some z" "\<not> h_removed z" "y \<noteq> 0" "chain hp (h_next z) ys" and ne: "q \<noteq> y" "q \<notin> set ys"
    using Cons.prems by auto
  show ?case
  proof (cases "y = h")
    case True
    let ?hp = "hp(q \<mapsto> x\<lparr>h_next := h_next z\<rparr>)"
    have "unlink hp hh h = Some (Some ?hp)" using x z True by (subst unlink.simps) simp
    moreover have "chain ?hp hh (q # remove1 h (y # ys))" using True x z ne by (simp add: chain_other)
    moreover have "?hp h = hp h" using True ne by simp
    moreover have "\<forall>k. linkless (?hp k) = linkless (hp k)" using x(1) by simp
    moreover have "\<forall>k. k \<notin> set (q # y # ys) \<longrightarrow> ?hp k = hp k" by simp
    ultimately show ?thesis by blast
  next
    case False
    then have "h \<in> set ys" using Cons.prems(2) by simp
    then obtain hp' where hp': "unlink hp y h = Some (Some hp')" "chain hp' y (y # remove1 h ys)" "hp' h = hp h"
        "\<forall>k. linkless (hp' k) = linkless (hp k)" "\<forall>k. k \<notin> set (y # ys) \<longrightarrow> hp' k = hp k"
      using Cons.IH [of y y] Cons.prems by auto
    have "unlink hp hh h = unlink hp y h" using x z False by (subst unlink.simps) simp
    moreover have "hp' q = Some x" using hp'(5) ne x(1) by simp
    moreover have "chain hp' hh (q # remove1 h (y # ys))" using calculation x hp'(2) False by simp
    moreover have "\<forall>k. k \<notin> set (q # y # ys) \<longrightarrow> hp' k = hp k" using hp'(5) by simp
    ultimately show ?thesis using hp'(1,3,4) by metis
  qed
qed

lemma unlink_none: "chain hp hh (q # xs) \<Longrightarrow> h \<notin> set xs \<Longrightarrow> h \<noteq> 0 \<Longrightarrow> unlink hp hh h = Some None"
  by (induction xs arbitrary: q hh) (subst unlink.simps; auto)+

lemma unlist_law:
  assumes l: "listed ev hs" and h: "h \<in> set hs" "h_heap ev h = Some y"
  obtains ev' where "removeHandler h ev = Some ev'" "listed ev' (remove1 h hs)"
    "\<And>k. k \<noteq> h \<Longrightarrow> linkless (h_heap ev' k) = linkless (h_heap ev k)"
    "h_heap ev' h = (if h_busy y then Some (y\<lparr>h_removed := True\<rparr>) else None)"
proof -
  obtain q xs where hs: "hs = q # xs" using h(1) by (cases hs) auto
  have c: "chain (h_heap ev) (handlers ev) (q # xs)" and d: "distinct (q # xs)"
    and fresh: "\<forall>x\<in>dom (h_heap ev). x < h_new ev" "0 < h_new ev"
    using l hs by (simp_all add: listed_def)
  have nz: "h \<noteq> 0" "handlers ev \<noteq> 0" "handlers ev = q" using chain_in_dom [OF c] c h(1) hs by auto
  obtain hp hd where hp: "removeHandler h ev = drop_handler h (ev\<lparr>h_heap := hp, handlers := hd\<rparr>)"
      "chain hp hd (remove1 h hs)" "hp h = Some y" "\<forall>k. linkless (hp k) = linkless (h_heap ev k)"
  proof (cases "h = q")
    case True
    have "removeHandler h ev = drop_handler h (ev\<lparr>h_heap := h_heap ev, handlers := h_next y\<rparr>)"
      using nz True h(2) by (simp add: removeHandler_def)
    moreover have "chain (h_heap ev) (h_next y) (remove1 h hs)" using c hs True h(2) by auto
    ultimately show thesis using that h(2) by blast
  next
    case False
    then obtain hp where "unlink (h_heap ev) (handlers ev) h = Some (Some hp)" "chain hp (handlers ev) (q # remove1 h xs)"
        "hp h = h_heap ev h" "\<forall>k. linkless (hp k) = linkless (h_heap ev k)"
      using unlink_law [OF c _ d, of h] h(1) hs by auto
    then have "removeHandler h ev = drop_handler h (ev\<lparr>h_heap := hp, handlers := handlers ev\<rparr>)"
        "chain hp (handlers ev) (remove1 h hs)" "hp h = Some y"
      using nz(1,2) False h(2) hs nz(3) [symmetric] by (simp_all add: removeHandler_def)
    then show thesis using that \<open>\<forall>k. linkless (hp k) = _\<close> by blast
  qed
  define ev' where "ev' = ev\<lparr>h_heap := hp(h := if h_busy y then Some (y\<lparr>h_removed := True\<rparr>) else None), handlers := hd\<rparr>"
  have "removeHandler h ev = Some ev'" using hp(1,3) by (simp add: drop_handler_def ev'_def)
  have "h \<notin> set (remove1 h hs)" using d hs by auto
  then have c': "chain (h_heap ev') (handlers ev') (remove1 h hs)" using hp(2) by (simp add: ev'_def chain_other)
  have "dom (h_heap ev') \<subseteq> dom (h_heap ev)"
  proof
    fix k
    assume "k \<in> dom (h_heap ev')"
    then have "k = h \<or> hp k \<noteq> None" by (auto simp: ev'_def split: if_splits)
    then show "k \<in> dom (h_heap ev)" using h(2) linkless_eq [OF hp(4) [rule_format, of k]] by auto
  qed
  then have "\<forall>x\<in>dom (h_heap ev'). x < h_new ev" using fresh(1) by blast
  moreover have "h_new ev' = h_new ev" by (simp add: ev'_def)
  moreover have "distinct (remove1 h hs)" using d hs by simp
  ultimately have "listed ev' (remove1 h hs)" using fresh(2) c' by (simp add: listed_def)
  moreover have "linkless (h_heap ev' k) = linkless (h_heap ev k)" if "k \<noteq> h" for k
    using that hp(4) by (simp add: ev'_def)
  ultimately show thesis using that \<open>removeHandler h ev = Some ev'\<close> by (simp add: ev'_def)
qed

lemma remove_absent: "listed ev hs \<Longrightarrow> h \<notin> set hs \<Longrightarrow> removeHandler h ev = Some ev"
  by (cases hs) (auto simp: listed_def removeHandler_def unlink_none simp del: chain.simps(2) dest: chain_head)

lemma remove_all_law: "listed ev hs \<Longrightarrow> \<exists>ev'. removeHandlers ev = Some ev' \<and> listed ev' []"
proof (induction hs arbitrary: ev)
  case Nil
  then show ?case by (subst removeHandlers.simps) (simp add: listed_def)
next
  case (Cons h hs)
  then obtain y where y: "h_heap ev h = Some y" "h \<noteq> 0" "handlers ev = h" by (auto simp: listed_def)
  obtain ev1 where ev1: "removeHandler h ev = Some ev1" "listed ev1 (remove1 h (h # hs))"
    using unlist_law [OF Cons.prems _ y(1)] by auto
  then show ?case using Cons.IH [of ev1] y by (subst removeHandlers.simps) simp
qed

lemma add_law:
  assumes "listed ev hs"
  obtains h ev' where "addHandler f ev = (h, ev')" "listed ev' (h # hs)" "h \<notin> set hs" "h_heap ev h = None"
    "h_heap ev' = (h_heap ev)(h \<mapsto> \<lparr>h_handler = f, h_next = handlers ev, h_busy = False, h_removed = False\<rparr>)"
proof -
  let ?h = "h_new ev"
  have new: "h_heap ev ?h = None" using assms by (force simp: listed_def dom_def)
  have "?h \<notin> set hs" using assms new chain_in_dom unfolding listed_def by fastforce
  then show thesis using that assms new by (auto simp: addHandler_def listed_def chain_other Let_def less_Suc_eq)
qed

subsection \<open>Firing\<close>

text \<open>Handlers that do what they do to the program's state, and some of which then remove themselves.\<close>

definition once_call :: "('h \<Rightarrow> bool) \<Rightarrow> ('h \<Rightarrow> nat) \<Rightarrow> ('h \<Rightarrow> 's \<Rightarrow> 's) \<Rightarrow> 'h \<Rightarrow> 'h event_list \<Rightarrow> 's \<Rightarrow>
    ('h event_list \<times> 's) option" where
  "once_call once self act f ev s =
     (if once f then do { ev \<leftarrow> removeHandler (self f) ev; Some (ev, act f s) } else Some (ev, act f s))"

lemma set_busy_law:
  assumes "listed ev hs" "h_heap ev k = Some x"
  shows "set_busy k b ev = Some (ev\<lparr>h_heap := (h_heap ev)(k \<mapsto> x\<lparr>h_busy := b\<rparr>)\<rparr>) \<and>
    listed (ev\<lparr>h_heap := (h_heap ev)(k \<mapsto> x\<lparr>h_busy := b\<rparr>)\<rparr>) hs"
  using assms by (auto simp: set_busy_def listed_def chain_busy)

lemma fire_from_law:
  assumes "listed ev (pre @ ks)" "h = (case ks of [] \<Rightarrow> 0 | k # _ \<Rightarrow> k)"
    and "\<forall>k\<in>set ks. once (handler_at ev k) \<longrightarrow> self (handler_at ev k) = k"
  shows "\<exists>ev'. fire_from (once_call once self act) h ev s =
      Some (ev', fold (\<lambda>k. act (handler_at ev k)) ks s) \<and>
    listed ev' (pre @ filter (\<lambda>k. \<not> once (handler_at ev k)) ks) \<and>
    dom (h_heap ev') = dom (h_heap ev) - {k\<in>set ks. once (handler_at ev k)} \<and>
    (\<forall>k\<in>dom (h_heap ev'). handler_at ev' k = handler_at ev k)"
  using assms
proof (induction ks arbitrary: pre h ev s)
  case Nil
  then show ?case by (subst fire_from.simps) simp
next
  case (Cons k ks)
  let ?f = "handler_at ev k"
  have c: "chain (h_heap ev) (handlers ev) (pre @ k # ks)" and d: "distinct (pre @ k # ks)"
    using Cons.prems(1) by (simp_all add: listed_def)
  obtain x where x: "h_heap ev k = Some x" "\<not> h_removed x" "k \<noteq> 0" using chain_in_dom [OF c, of k] by auto
  have f: "h_handler x = ?f" using x(1) by (simp add: handler_at_def)
  have nx: "h_next x = (case ks of [] \<Rightarrow> 0 | k # _ \<Rightarrow> k)"
    using chain_suffix [OF c] x by (auto dest: chain_head)
  define ev1 where "ev1 = ev\<lparr>h_heap := (h_heap ev)(k \<mapsto> x\<lparr>h_busy := True\<rparr>)\<rparr>"
  have b1: "set_busy k True ev = Some ev1" and l1: "listed ev1 (pre @ k # ks)"
    using set_busy_law [OF Cons.prems(1) x(1), of True] by (simp_all add: ev1_def)
  have x1: "h_heap ev1 k = Some (x\<lparr>h_busy := True\<rparr>)" by (simp add: ev1_def)
  obtain ev2 where ev2: "once_call once self act ?f ev1 s = Some (ev2, act ?f s)"
      "listed ev2 (pre @ (if once ?f then [] else [k]) @ ks)"
      "h_heap ev2 k = Some (x\<lparr>h_busy := True, h_removed := once ?f\<rparr>)"
      "\<And>j. j \<noteq> k \<Longrightarrow> linkless (h_heap ev2 j) = linkless (h_heap ev1 j)"
  proof (cases "once ?f")
    case True
    then have self: "self ?f = k" using Cons.prems(3) by simp
    obtain ev2 where "removeHandler k ev1 = Some ev2" "listed ev2 (remove1 k (pre @ k # ks))"
        "\<And>j. j \<noteq> k \<Longrightarrow> linkless (h_heap ev2 j) = linkless (h_heap ev1 j)"
        "h_heap ev2 k = Some (x\<lparr>h_busy := True, h_removed := True\<rparr>)"
      using unlist_law [OF l1 _ x1] by auto
    moreover have "remove1 k (pre @ k # ks) = pre @ ks" using d by (simp add: remove1_append)
    ultimately show thesis using that True self by (simp add: once_call_def)
  next
    case False
    then show thesis using that [of ev1] l1 x1 x(2) by (simp add: once_call_def)
  qed
  define ev3 where "ev3 = ev2\<lparr>h_heap := (h_heap ev2)(k \<mapsto> x\<lparr>h_removed := once ?f, h_busy := False\<rparr>)\<rparr>"
  have b3: "set_busy k False ev2 = Some ev3" and l3: "listed ev3 (pre @ (if once ?f then [] else [k]) @ ks)"
    using set_busy_law [OF ev2(2,3), of False] by (simp_all add: ev3_def)
  define ev4 where "ev4 = (if once ?f then ev3\<lparr>h_heap := (h_heap ev3)(k := None)\<rparr> else ev3)"
  have l4: "listed ev4 (pre @ (if once ?f then [] else [k]) @ ks)"
    using l3 d by (auto simp: ev4_def listed_def chain_other)
  have run: "fire_from (once_call once self act) h ev s =
      fire_from (once_call once self act) (h_next x) ev4 (act ?f s)"
    using Cons.prems(2) x b1 ev2(1) b3 f by (subst fire_from.simps) (simp add: ev3_def ev4_def)
  have keep: "linkless (h_heap ev4 j) = linkless (h_heap ev j)" if "j \<noteq> k" for j
    using that ev2(4) [OF that] by (simp add: ev4_def ev3_def ev1_def)
  have at: "handler_at ev4 j = handler_at ev j" if j: "j \<in> dom (h_heap ev4)" for j
  proof (cases "j = k")
    case True
    then show ?thesis using j f by (auto simp: ev4_def ev3_def handler_at_def split: if_splits)
  next
    case False
    obtain y where "h_heap ev j = Some y" using j linkless_eq [OF keep [OF False]] by auto
    then show ?thesis using linkless_Some [of "h_heap ev4 j" y] keep [OF False] by (auto simp: handler_at_def)
  qed
  have in4: "j \<in> dom (h_heap ev4)" if "j \<in> set ks" for j
    using chain_in_dom [of "h_heap ev4" "handlers ev4" _ j] l4 that by (fastforce simp: listed_def)
  then have at_ks: "\<forall>j\<in>set ks. handler_at ev4 j = handler_at ev j" using at by blast
  obtain ev' where ev': "fire_from (once_call once self act) (h_next x) ev4 (act ?f s) =
        Some (ev', fold (\<lambda>k. act (handler_at ev4 k)) ks (act ?f s))"
      "listed ev' ((pre @ (if once ?f then [] else [k])) @ filter (\<lambda>k. \<not> once (handler_at ev4 k)) ks)"
      "dom (h_heap ev') = dom (h_heap ev4) - {k\<in>set ks. once (handler_at ev4 k)}"
      "\<forall>k\<in>dom (h_heap ev'). handler_at ev' k = handler_at ev4 k"
    using Cons.IH [of ev4 "pre @ (if once ?f then [] else [k])" "h_next x" "act ?f s"] l4 nx Cons.prems(3) at_ks by auto
  have dom4: "dom (h_heap ev4) = dom (h_heap ev) - (if once ?f then {k} else {})"
  proof -
    have "j \<in> dom (h_heap ev4) \<longleftrightarrow> j \<in> dom (h_heap ev)" if "j \<noteq> k" for j
      using linkless_eq [OF keep [OF that]] by auto
    moreover have "k \<in> dom (h_heap ev4) \<longleftrightarrow> \<not> once ?f" by (simp add: ev4_def ev3_def)
    moreover have "k \<in> dom (h_heap ev)" using x(1) by (rule domI)
    ultimately have "j \<in> dom (h_heap ev4) \<longleftrightarrow> j \<in> dom (h_heap ev) - (if once ?f then {k} else {})" for j
      by (cases "j = k") (simp_all del: domIff)
    then show ?thesis by blast
  qed
  have fold_eq: "fold (\<lambda>k. act (handler_at ev4 k)) ks (act ?f s) = fold (\<lambda>k. act (handler_at ev k)) (k # ks) s"
    using at_ks by (auto intro!: fold_cong)
  have filter_eq: "(pre @ (if once ?f then [] else [k])) @ filter (\<lambda>k. \<not> once (handler_at ev4 k)) ks =
      pre @ filter (\<lambda>k. \<not> once (handler_at ev k)) (k # ks)"
    using at_ks by (auto intro: filter_cong)
  have "dom (h_heap ev') = dom (h_heap ev) - {j\<in>set (k # ks). once (handler_at ev j)}"
    unfolding ev'(3) dom4 using at_ks by auto
  moreover have "\<forall>j\<in>dom (h_heap ev'). handler_at ev' j = handler_at ev j" using ev'(3,4) at by auto
  ultimately show ?case using run ev'(1,2) fold_eq filter_eq by (intro exI [of _ ev']) simp
qed

text \<open>The operations of an event on its list of handlers: the constructor gives the empty list, \<open>addHandler\<close>
  puts a new handler in front, \<open>removeHandler\<close> takes out the one it is given, wherever it stands, and
  does nothing when that is not in the list, and \<open>removeHandlers\<close> empties the list; they always return
  and keep the list well formed.\<close>

theorem event_list_operations:
  assumes "listed ev hs"
  shows "listed (BaseEvent :: 'h event_list) [] \<and>
    (\<exists>h ev'. addHandler f ev = (h, ev') \<and> listed ev' (h # hs) \<and> h \<notin> set hs \<and> handler_at ev' h = f) \<and>
    (\<exists>ev'. removeHandler h ev = Some ev' \<and> listed ev' (remove1 h hs) \<and> (h \<notin> set hs \<longrightarrow> ev' = ev)) \<and>
    (\<exists>ev'. removeHandlers ev = Some ev' \<and> listed ev' [])"
proof (intro conjI)
  show "listed (BaseEvent :: 'h event_list) []" by (simp add: listed_def BaseEvent_def)
  show "\<exists>h ev'. addHandler f ev = (h, ev') \<and> listed ev' (h # hs) \<and> h \<notin> set hs \<and> handler_at ev' h = f"
    by (rule add_law [OF assms, of f]) (auto simp: handler_at_def)
  show "\<exists>ev'. removeHandler h ev = Some ev' \<and> listed ev' (remove1 h hs) \<and> (h \<notin> set hs \<longrightarrow> ev' = ev)"
  proof (cases "h \<in> set hs")
    case True
    then obtain y where "h_heap ev h = Some y" using assms chain_in_dom unfolding listed_def by blast
    from unlist_law [OF assms True this] show ?thesis using True by metis
  next
    case False
    then show ?thesis using remove_absent [OF assms False] assms by (simp add: remove1_idem)
  qed
  show "\<exists>ev'. removeHandlers ev = Some ev' \<and> listed ev' []" by (rule remove_all_law [OF assms])
qed

lemma event_list_operations_witness:
  "listed (snd (addHandler (7 :: nat) BaseEvent)) [1] \<and>
   (\<exists>ev'. removeHandler 1 (snd (addHandler (7 :: nat) BaseEvent)) = Some ev' \<and> listed ev' [])"
proof -
  have l: "listed (snd (addHandler (7 :: nat) BaseEvent)) [1]"
    by (simp add: addHandler_def BaseEvent_def listed_def Let_def)
  then show ?thesis using event_list_operations [OF l, of 0 1] by auto
qed

text \<open>C18: firing calls each handler of the list exactly once, the one added last first, although any of them
  may remove itself while it is called: no deleted handler is read, those that removed themselves are
  gone from the list and deleted, the others stay as they were.\<close>

theorem fire_calls_each_once:
  assumes "listed ev hs" "\<forall>k\<in>set hs. once (handler_at ev k) \<longrightarrow> self (handler_at ev k) = k"
  shows "\<exists>ev'. fire (once_call once self act) ev s = Some (ev', fold (\<lambda>k. act (handler_at ev k)) hs s) \<and>
    listed ev' (filter (\<lambda>k. \<not> once (handler_at ev k)) hs) \<and>
    dom (h_heap ev') = dom (h_heap ev) - {k\<in>set hs. once (handler_at ev k)} \<and>
    (\<forall>k\<in>dom (h_heap ev'). handler_at ev' k = handler_at ev k)"
proof -
  have "handlers ev = (case hs of [] \<Rightarrow> 0 | k # _ \<Rightarrow> k)" using assms(1) chain_head by (auto simp: listed_def)
  then show ?thesis using fire_from_law [of ev "[]" hs "handlers ev" once self act s] assms by (simp add: fire_def)
qed

definition two_handlers :: "nat event_list" where
  "two_handlers = snd (addHandler 2 (snd (addHandler 1 BaseEvent)))"

lemma two_handlers_listed: "listed two_handlers [2, 1]" "handler_at two_handlers 2 = 2" "handler_at two_handlers 1 = 1"
  by (simp_all add: two_handlers_def addHandler_def BaseEvent_def listed_def Let_def handler_at_def numeral_2_eq_2)

lemma fire_calls_each_once_witness:
  "\<exists>ev'. fire (once_call (\<lambda>f. f = 2) id (\<lambda>f s. s @ [f])) two_handlers [] = Some (ev', [2, 1 :: nat]) \<and> listed ev' [1]"
  using fire_calls_each_once [OF two_handlers_listed(1), of "\<lambda>f. f = 2" id "\<lambda>f s. s @ [f]" "[]"] two_handlers_listed(2,3)
  by auto

text \<open>A handler that removes all handlers while it is called leaves the loop with a link to a deleted one:
  firing reads freed memory.\<close>

theorem remove_all_while_firing:
  "fire (\<lambda>f ev s. do { ev \<leftarrow> removeHandlers ev; Some (ev, s) }) two_handlers () = None"
proof -
  let ?x = "\<lparr>h_handler = 2 :: nat, h_next = 1, h_busy = True, h_removed = False\<rparr>"
    and ?y = "\<lparr>h_handler = 1, h_next = 0, h_busy = False, h_removed = False\<rparr>"
  have ev: "two_handlers = \<lparr>handlers = 2, h_heap = [1 \<mapsto> ?y, 2 \<mapsto> ?x\<lparr>h_busy := False\<rparr>], h_new = 3\<rparr>"
    by (simp add: two_handlers_def addHandler_def BaseEvent_def Let_def numeral_2_eq_2)
  have "removeHandlers \<lparr>handlers = 2, h_heap = [1 \<mapsto> ?y, 2 \<mapsto> ?x], h_new = 3\<rparr> =
      Some \<lparr>handlers = 0, h_heap = [2 \<mapsto> ?x\<lparr>h_removed := True\<rparr>], h_new = 3\<rparr>"
    by (subst removeHandlers.simps, simp add: removeHandler_def drop_handler_def)
       (subst removeHandlers.simps, simp add: removeHandler_def drop_handler_def,
        subst removeHandlers.simps, simp add: fun_upd_twist)
  then show ?thesis unfolding fire_def ev
    by (subst fire_from.simps, simp add: set_busy_def fun_upd_twist) (subst fire_from.simps, simp)
qed

end
