(* ===== verification/Buffers.thy ===== *)
theory Buffers
  imports Strings
begin

section \<open>Strings: the buffer\<close>

text \<open>
  common/string.h and string.cc: the allocation behind a string, its growth and its terminator. Bytes
  that \<open>malloc\<close> returned and nothing has written are \<open>None\<close>. Reads and writes outside an allocation,
  and of a null pointer, are faults: \<open>None\<close> as the result. Arguments are other objects than the string
  they are applied to. A length is an \<open>int\<close>; the length field of 4 bytes comes before the data.
\<close>

record allocation =
  a_length :: int
  a_data :: "byte option list"

type_synonym buffer = "allocation option"

definition buf_size :: "buffer \<Rightarrow> int" where
  "buf_size c = (case c of None \<Rightarrow> 0 | Some a \<Rightarrow> a_length a)"

definition str_reserved_size :: "int \<Rightarrow> nat option" where
  "str_reserved_size len = reserved_loop (len + 4 + 1) 0x10"

text \<open>\<open>memcpy\<close> into the data, and from it.\<close>

definition put :: "int \<Rightarrow> byte option list \<Rightarrow> byte option list \<Rightarrow> byte option list option" where
  "put i bs ds =
     (if 0 \<le> i \<and> nat i + length bs \<le> length ds then Some (take (nat i) ds @ bs @ drop (nat i + length bs) ds) else None)"

definition get :: "int \<Rightarrow> byte option list \<Rightarrow> byte option list option" where
  "get n ds = (if 0 \<le> n \<and> nat n \<le> length ds then Some (take (nat n) ds) else None)"

definition buf_put :: "int \<Rightarrow> byte option list \<Rightarrow> buffer \<Rightarrow> buffer option" where
  "buf_put i bs c = do { a \<leftarrow> c; ds \<leftarrow> put i bs (a_data a); Some (Some (a\<lparr>a_data := ds\<rparr>)) }"

definition c_data :: "buffer \<Rightarrow> byte option list" where
  "c_data c = (case c of None \<Rightarrow> [Some 0] | Some a \<Rightarrow> a_data a)"

definition buf_resize :: "int \<Rightarrow> buffer \<Rightarrow> buffer option" where
  "buf_resize len c =
     (case c of
        Some a \<Rightarrow>
          if len \<le> a_length a then Some (if len = 0 then None else Some (a\<lparr>a_length := len\<rparr>))
          else do {
            old_size \<leftarrow> str_reserved_size (a_length a);
            new_size \<leftarrow> str_reserved_size len;
            if old_size = new_size then Some (Some (a\<lparr>a_length := len\<rparr>))
            else do {
              old \<leftarrow> get (a_length a + 1) (a_data a);
              ds \<leftarrow> put 0 old (replicate (new_size - 4) None);
              ds \<leftarrow> put len [Some 0] ds;
              Some (Some \<lparr>a_length = len, a_data = ds\<rparr>) } }
      | None \<Rightarrow>
          if len = 0 then Some None
          else do {
            new_size \<leftarrow> str_reserved_size len;
            ds \<leftarrow> put len [Some 0] (replicate (new_size - 4) None);
            Some (Some \<lparr>a_length = len, a_data = ds\<rparr>) })"

subsection \<open>Constructors\<close>

text \<open>From a C string, another string, a number of characters, and a vector of them.\<close>

definition buf_of_cstr :: "cstr \<Rightarrow> buffer option" where
  "buf_of_cstr s =
     (if s = [] then Some None
      else do { c \<leftarrow> buf_resize (int (length s)) None; buf_put 0 (map Some s @ [Some 0]) c })"

definition buf_copy :: "buffer \<Rightarrow> buffer option" where
  "buf_copy value =
     (if buf_size value = 0 then Some None
      else do {
        c \<leftarrow> buf_resize (buf_size value) None;
        bs \<leftarrow> get (buf_size value + 1) (c_data value);
        buf_put 0 bs c })"

definition buf_of_chars :: "byte list \<Rightarrow> buffer option" where
  "buf_of_chars s =
     (if s = [] then Some None
      else do {
        c \<leftarrow> buf_resize (int (length s)) None;
        c \<leftarrow> buf_put 0 (map Some s) c;
        buf_put (int (length s)) [Some 0] c })"

subsection \<open>Appending\<close>

definition buf_append :: "buffer \<Rightarrow> buffer \<Rightarrow> buffer option" where
  "buf_append s c =
     (if buf_size s = 0 then Some c
      else do {
        let old_size = buf_size c;
        c \<leftarrow> buf_resize (old_size + buf_size s) c;
        bs \<leftarrow> get (buf_size s + 1) (c_data s);
        buf_put old_size bs c })"

definition buf_append_cstr :: "cstr \<Rightarrow> buffer \<Rightarrow> buffer option" where
  "buf_append_cstr s c = do {
     let old_size = buf_size c;
     c \<leftarrow> buf_resize (old_size + int (length s)) c;
     buf_put old_size (map Some s @ [Some 0]) c }"

definition buf_append_chars :: "byte list \<Rightarrow> buffer \<Rightarrow> buffer option" where
  "buf_append_chars s c = do {
     let old_size = buf_size c;
     c \<leftarrow> buf_resize (old_size + int (length s)) c;
     c \<leftarrow> buf_put old_size (map Some s) c;
     buf_put (old_size + int (length s)) [Some 0] c }"

definition buf_push_back :: "byte \<Rightarrow> buffer \<Rightarrow> buffer option" where
  "buf_push_back b c = do {
     c \<leftarrow> buf_resize (buf_size c + 1) c;
     c \<leftarrow> buf_put (buf_size c - 1) [Some b] c;
     buf_put (buf_size c) [Some 0] c }"

definition buf_plus :: "buffer \<Rightarrow> buffer \<Rightarrow> buffer option" where
  "buf_plus c s2 = do {
     result \<leftarrow> buf_resize (buf_size c + buf_size s2) None;
     result \<leftarrow>
       (if buf_size c \<noteq> 0 then do { bs \<leftarrow> get (buf_size c) (c_data c); buf_put 0 bs result } else Some result);
     (if buf_size s2 \<noteq> 0 then do { bs \<leftarrow> get (buf_size s2 + 1) (c_data s2); buf_put (buf_size c) bs result }
      else Some result) }"

definition buf_plus_assign :: "buffer \<Rightarrow> buffer \<Rightarrow> buffer option" where
  "buf_plus_assign s2 c = do {
     c \<leftarrow> buf_resize (buf_size c + buf_size s2) c;
     if buf_size s2 \<noteq> 0 then do { bs \<leftarrow> get (buf_size s2 + 1) (c_data s2); buf_put (buf_size c) bs c }
     else Some c }"

text \<open>\<open>buffer_\<close> makes room for characters that the caller writes; an index reads a byte, and of no allocation
  the static \<open>dummy\<close>, whatever the index.\<close>

definition buf_buffer :: "int \<Rightarrow> buffer \<Rightarrow> buffer option" where
  "buf_buffer len c = buf_resize len c"

definition buf_index :: "byte \<Rightarrow> int \<Rightarrow> buffer \<Rightarrow> byte option" where
  "buf_index dummy i c =
     (case c of
        None \<Rightarrow> Some dummy
      | Some a \<Rightarrow> if 0 \<le> i \<and> nat i < length (a_data a) then a_data a ! nat i else None)"

definition buf_assign :: "buffer \<Rightarrow> buffer \<Rightarrow> buffer option" where
  "buf_assign s c = buf_copy s"

subsection \<open>What a buffer holds\<close>

text \<open>A buffer holds a string when its bytes are written and the allocation is as large as \<open>resize\<close> takes it
  to be; it is terminated when a NUL follows.\<close>

definition buf_holds :: "buffer \<Rightarrow> cstr \<Rightarrow> bool" where
  "buf_holds c s \<longleftrightarrow>
     (case c of
        None \<Rightarrow> s = []
      | Some a \<Rightarrow> s \<noteq> [] \<and> a_length a = int (length s) \<and> length s < length (a_data a) \<and>
          take (length s) (a_data a) = map Some s \<and>
          (\<exists>n. str_reserved_size (int (length s)) = Some n \<and> n \<le> length (a_data a) + 4))"

definition terminated :: "buffer \<Rightarrow> bool" where
  "terminated c \<longleftrightarrow> (case c of None \<Rightarrow> True | Some a \<Rightarrow> a_data a ! nat (a_length a) = Some 0)"

abbreviation small :: "int \<Rightarrow> bool" where
  "small n \<equiv> n \<le> 2 ^ 30 - 5"

lemma str_reserved_law:
  assumes "0 \<le> len" "small len"
  obtains n where "str_reserved_size len = Some n" "nat len + 5 \<le> n"
proof -
  have "len + 5 \<le> 2 ^ 30" using assms(2) by simp
  from reserved_size_law [OF this] obtain n where "reserved_size (len + 5) = Some n" "len + 5 \<le> int n" by blast
  then show thesis using that assms(1) by (auto simp: reserved_size_def str_reserved_size_def add.assoc)
qed

lemma buf_size_holds: "buf_holds c s \<Longrightarrow> buf_size c = int (length s)"
  by (auto simp: buf_holds_def buf_size_def split: option.splits)

text \<open>What \<open>resize\<close> leaves: the old bytes stay, the length is new.\<close>

definition buf_room :: "buffer \<Rightarrow> cstr \<Rightarrow> nat \<Rightarrow> bool" where
  "buf_room c s n \<longleftrightarrow>
     (case c of
        None \<Rightarrow> n = 0
      | Some a \<Rightarrow> 0 < n \<and> a_length a = int n \<and> n < length (a_data a) \<and> length s \<le> n \<and>
          take (length s) (a_data a) = map Some s \<and> (length s < n \<or> a_data a ! n = Some 0) \<and>
          (\<exists>m. str_reserved_size (int n) = Some m \<and> m \<le> length (a_data a) + 4))"

lemma put_append:
  "length xs = i \<Longrightarrow> length bs = n \<Longrightarrow> i + n \<le> length ds \<Longrightarrow> take i ds = xs \<Longrightarrow>
    put (int i) bs ds = Some (xs @ bs @ drop (i + n) ds)"
  by (auto simp: put_def)

lemma resize_room:
  assumes c: "buf_holds c s" "terminated c" and n: "length s \<le> n" "small (int n)"
  obtains c' where "buf_resize (int n) c = Some c'" "buf_room c' s n"
proof (cases c)
  case None
  obtain k where k: "str_reserved_size (int n) = Some k" "n + 5 \<le> k" using str_reserved_law [of "int n"] n(2) by auto
  show thesis
  proof (cases "n = 0")
    case True
    then show thesis using that None by (simp add: buf_resize_def buf_room_def)
  next
    case False
    have "put (int n) [Some 0] (replicate (k - 4) None) =
        Some (replicate n None @ [Some 0] @ drop (n + 1) (replicate (k - 4) None))"
      using k(2) by (intro put_append) simp_all
    then show thesis using that None c(1) False k
      by (auto simp: buf_resize_def buf_room_def buf_holds_def nth_append)
  qed
next
  case (Some a)
  obtain m where a: "s \<noteq> []" "a_length a = int (length s)" "length s < length (a_data a)"
      "take (length s) (a_data a) = map Some s" "str_reserved_size (int (length s)) = Some m" "m \<le> length (a_data a) + 4"
    using c(1) Some by (auto simp: buf_holds_def)
  have nul: "a_data a ! length s = Some 0" using c(2) a(2) Some by (simp add: terminated_def)
  show thesis
  proof (cases "n = length s")
    case True
    then show thesis using that [of c] Some a nul by (simp add: buf_resize_def buf_room_def)
  next
    case False
    then have more: "length s < n" using n(1) by simp
    obtain k where k: "str_reserved_size (int n) = Some k" "n + 5 \<le> k" using str_reserved_law [of "int n"] n(2) by auto
    show thesis
    proof (cases "m = k")
      case True
      then show thesis using that [of "Some (a\<lparr>a_length := int n\<rparr>)"] Some a k more by (simp add: buf_resize_def buf_room_def)
    next
      case False
      let ?old = "take (length s + 1) (a_data a)" and ?rest = "replicate (k - 4 - (length s + 1)) None"
      have old: "get (int (length s) + 1) (a_data a) = Some ?old" "length ?old = length s + 1"
        using a(3) by (auto simp: get_def nat_add_distrib)
      have "put 0 ?old (replicate (k - 4) None) = Some (?old @ ?rest)"
        using old(2) more k(2) put_append [of "[]" 0 ?old "length s + 1" "replicate (k - 4) None"] by simp
      moreover define ds where "ds = take n (?old @ ?rest) @ [Some 0] @ drop (n + 1) (?old @ ?rest)"
      moreover have "put (int n) [Some 0] (?old @ ?rest) = Some ds"
        using old(2) more k(2) unfolding ds_def by (intro put_append) auto
      ultimately have "buf_resize (int n) c = Some (Some \<lparr>a_length = int n, a_data = ds\<rparr>)"
        using Some a(2,5) k(1) more False old(1) by (simp add: buf_resize_def)
      moreover have "length ds = k - 4" using old(2) more k(2) by (simp add: ds_def)
      moreover have "take (length s) ds = map Some s" using a(3,4) more k(2) by (simp add: ds_def min_def)
      ultimately show thesis using that k more by (auto simp: buf_room_def)
    qed
  qed
qed

text \<open>Writing at the end of the old bytes.\<close>

lemma buffer_done:
  assumes "a_length b = int (length u)" "a_data b = map Some u @ Some 0 # rest" "u \<noteq> []"
    and "\<exists>m. str_reserved_size (int (length u)) = Some m \<and> m \<le> length (a_data b) + 4"
  shows "buf_holds (Some b) u \<and> terminated (Some b)"
  using assms by (simp add: buf_holds_def terminated_def nth_append)

lemma room_put:
  assumes r: "buf_room c s n" and n: "n = length s + length t" "t \<noteq> []"
  obtains c' where "buf_put (int (length s)) (map Some t @ [Some 0]) c = Some c'" "buf_holds c' (s @ t)" "terminated c'"
proof -
  obtain a where a: "c = Some a" "a_length a = int n" "n < length (a_data a)" "take (length s) (a_data a) = map Some s"
      "\<exists>m. str_reserved_size (int n) = Some m \<and> m \<le> length (a_data a) + 4"
    using r n by (auto simp: buf_room_def split: option.splits)
  let ?ds = "map Some s @ (map Some t @ [Some 0]) @ drop (n + 1) (a_data a)"
  have "put (int (length s)) (map Some t @ [Some 0]) (a_data a) = Some ?ds"
    using put_append [of "map Some s" "length s" "map Some t @ [Some 0]" "length t + 1" "a_data a"] a(3,4) n(1)
    by (simp add: add.assoc)
  then have "buf_put (int (length s)) (map Some t @ [Some 0]) c = Some (Some (a\<lparr>a_data := ?ds\<rparr>))"
    using a(1) by (simp add: buf_put_def)
  moreover have "length ?ds = length (a_data a)" using a(3) n(1) by simp
  then have "buf_holds (Some (a\<lparr>a_data := ?ds\<rparr>)) (s @ t) \<and> terminated (Some (a\<lparr>a_data := ?ds\<rparr>))"
    using a(2,5) n by (intro buffer_done) (simp_all add: add.commute)
  ultimately show thesis using that by blast
qed

lemma room_put_chars:
  assumes r: "buf_room c s n" and n: "n = length s + length t" "t \<noteq> []"
  obtains c1 c' where "buf_put (int (length s)) (map Some t) c = Some c1"
    "buf_put (int (length s) + int (length t)) [Some 0] c1 = Some c'" "buf_size c1 = int n"
    "buf_holds c' (s @ t)" "terminated c'"
proof -
  obtain a where a: "c = Some a" "a_length a = int n" "n < length (a_data a)" "take (length s) (a_data a) = map Some s"
      "\<exists>m. str_reserved_size (int n) = Some m \<and> m \<le> length (a_data a) + 4"
    using r n by (auto simp: buf_room_def split: option.splits)
  let ?d1 = "map Some s @ map Some t @ drop n (a_data a)"
  have "put (int (length s)) (map Some t) (a_data a) = Some ?d1"
    using put_append [of "map Some s" "length s" "map Some t" "length t" "a_data a"] a(3,4) n(1) by simp
  moreover have "put (int (length s) + int (length t)) [Some 0] ?d1 =
      Some ((map Some s @ map Some t) @ [Some 0] @ drop (n + 1) ?d1)"
    using put_append [of "map Some s @ map Some t" n "[Some 0]" 1 ?d1] a(3) n(1) by simp
  moreover define d2 where "d2 = (map Some s @ map Some t) @ [Some 0] @ drop (n + 1) ?d1"
  ultimately have "buf_put (int (length s)) (map Some t) c = Some (Some (a\<lparr>a_data := ?d1\<rparr>))"
      "buf_put (int (length s) + int (length t)) [Some 0] (Some (a\<lparr>a_data := ?d1\<rparr>)) = Some (Some (a\<lparr>a_data := d2\<rparr>))"
    using a(1) by (simp_all add: buf_put_def)
  moreover have "length d2 = length (a_data a)" using a(3) n(1) by (simp add: d2_def)
  then have "buf_holds (Some (a\<lparr>a_data := d2\<rparr>)) (s @ t) \<and> terminated (Some (a\<lparr>a_data := d2\<rparr>))"
    using a(2,5) n by (intro buffer_done) (simp_all add: d2_def add.commute)
  moreover have "buf_size (Some (a\<lparr>a_data := ?d1\<rparr>)) = int n" using a(2) by (simp add: buf_size_def)
  ultimately show thesis using that by blast
qed

lemma get_holds:
  assumes "buf_holds c s" "terminated c"
  shows "get (int (length s) + 1) (c_data c) = Some (map Some s @ [Some 0])"
    and "get (int (length s)) (c_data c) = Some (map Some s)"
proof -
  have "take (length s) (c_data c) = map Some s \<and> length s < length (c_data c) \<and> c_data c ! length s = Some 0"
    using assms by (auto simp: buf_holds_def terminated_def c_data_def split: option.splits)
  then show "get (int (length s) + 1) (c_data c) = Some (map Some s @ [Some 0])"
    and "get (int (length s)) (c_data c) = Some (map Some s)"
    by (auto simp: get_def nat_add_distrib take_Suc_conv_app_nth)
qed

subsection \<open>Every operation on buffers is one on strings\<close>

definition buf_ok :: "buffer \<Rightarrow> cstr \<Rightarrow> bool" where
  "buf_ok c s \<longleftrightarrow> buf_holds c s \<and> terminated c"

lemma buf_ok_None [simp]: "buf_ok None s \<longleftrightarrow> s = []"
  by (simp add: buf_ok_def buf_holds_def terminated_def)

lemma buf_ok_size: "buf_ok c s \<Longrightarrow> buf_size c = int (length s)"
  by (simp add: buf_ok_def buf_size_holds)

lemma buf_ok_get:
  "buf_ok c s \<Longrightarrow> get (int (length s) + 1) (c_data c) = Some (map Some s @ [Some 0])"
  "buf_ok c s \<Longrightarrow> get (int (length s)) (c_data c) = Some (map Some s)"
  by (simp_all add: buf_ok_def get_holds)

text \<open>Growing a buffer and writing behind its bytes, in one go or the terminator last.\<close>

lemma grow_put:
  assumes "buf_ok c s" "t \<noteq> []" "small (int (length s + length t))"
  obtains c1 c' where "buf_resize (int (length s) + int (length t)) c = Some c1"
    "buf_put (int (length s)) (map Some t @ [Some 0]) c1 = Some c'" "buf_ok c' (s @ t)"
proof -
  obtain c1 where c1: "buf_resize (int (length s + length t)) c = Some c1" "buf_room c1 s (length s + length t)"
    using assms resize_room [of c s "length s + length t"] by (auto simp: buf_ok_def)
  from room_put [OF c1(2) refl assms(2)] show thesis using that c1(1) by (auto simp: buf_ok_def)
qed

lemma grow_put_chars:
  assumes "buf_ok c s" "t \<noteq> []" "small (int (length s + length t))"
  obtains c1 c2 c' where "buf_resize (int (length s) + int (length t)) c = Some c1"
    "buf_put (int (length s)) (map Some t) c1 = Some c2" "buf_size c1 = int (length s + length t)" 
    "buf_size c2 = int (length s + length t)"
    "buf_put (int (length s) + int (length t)) [Some 0] c2 = Some c'" "buf_ok c' (s @ t)"
proof -
  obtain c1 where c1: "buf_resize (int (length s + length t)) c = Some c1" "buf_room c1 s (length s + length t)"
    using assms resize_room [of c s "length s + length t"] by (auto simp: buf_ok_def)
  moreover have "buf_size c1 = int (length s + length t)"
    using c1(2) assms(2) by (auto simp: buf_room_def buf_size_def split: option.splits)
  moreover obtain c2 c' where "buf_put (int (length s)) (map Some t) c1 = Some c2"
    "buf_put (int (length s) + int (length t)) [Some 0] c2 = Some c'" "buf_size c2 = int (length s + length t)"
    "buf_holds c' (s @ t)" "terminated c'"
    using room_put_chars [OF c1(2) refl assms(2)] by blast
  ultimately show thesis using that by (simp add: buf_ok_def)
qed

lemma new_buffer:
  assumes "0 < n" "small (int n)"
  obtains rest where "buf_resize (int n) None = Some (Some \<lparr>a_length = int n, a_data = replicate n None @ Some 0 # rest\<rparr>)"
    "\<exists>m. str_reserved_size (int n) = Some m \<and> m \<le> n + 1 + length rest + 4"
proof -
  obtain k where k: "str_reserved_size (int n) = Some k" "n + 5 \<le> k" using str_reserved_law [of "int n"] assms by auto
  have "put (int n) [Some 0] (replicate (k - 4) None) = Some (replicate n None @ [Some 0] @ drop (n + 1) (replicate (k - 4) None))"
    using k(2) by (intro put_append) simp_all
  then show thesis using that [of "replicate (k - 5 - n) None"] k assms by (simp add: buf_resize_def)
qed

lemma copy_law:
  assumes "buf_ok c s" "small (int (length s))"
  shows "\<exists>c'. buf_copy c = Some c' \<and> buf_ok c' s"
proof (cases "s = []")
  case True
  then show ?thesis using assms by (simp add: buf_copy_def buf_ok_size)
next
  case False
  obtain c1 c' where "buf_resize (int (length ([] :: cstr)) + int (length s)) None = Some c1"
      "buf_put (int (length ([] :: cstr))) (map Some s @ [Some 0]) c1 = Some c'" "buf_ok c' ([] @ s)"
    by (rule grow_put [of None "[]" s]) (use False assms(2) in simp_all)
  then show ?thesis using False assms by (simp add: buf_copy_def buf_ok_size buf_ok_get)
qed

lemma plus_law:
  assumes "buf_ok c s" "buf_ok d t" "small (int (length s + length t))"
  shows "\<exists>c'. buf_plus c d = Some c' \<and> buf_ok c' (s @ t)"
proof (cases "s @ t = []")
  case True
  then show ?thesis using assms by (simp add: buf_plus_def buf_ok_size buf_resize_def)
next
  case False
  let ?n = "length s + length t"
  obtain rest where r: "buf_resize (int ?n) None = Some (Some \<lparr>a_length = int ?n, a_data = replicate ?n None @ Some 0 # rest\<rparr>)"
      "\<exists>m. str_reserved_size (int ?n) = Some m \<and> m \<le> ?n + 1 + length rest + 4"
    by (rule new_buffer [of ?n]) (use False assms(3) in auto)
  have 1: "put 0 (map Some s) (replicate ?n None @ Some 0 # rest) = Some (map Some s @ replicate (length t) None @ Some 0 # rest)"
    using put_append [of "[]" 0 "map Some s" "length s" "replicate ?n None @ Some 0 # rest"] by simp
  have 2: "put (int (length s)) (map Some t @ [Some 0]) (map Some s @ replicate (length t) None @ Some 0 # rest) =
      Some (map Some (s @ t) @ Some 0 # rest)"
    using put_append [of "map Some s" "length s" "map Some t @ [Some 0]" "length t + 1"
        "map Some s @ replicate (length t) None @ Some 0 # rest"] by simp
  let ?c = "Some \<lparr>a_length = int ?n, a_data = map Some (s @ t) @ Some 0 # rest\<rparr>"
  have "buf_plus c d = Some ?c"
    using r(1) 1 2 assms(1,2) by (cases "s = []"; cases "t = []") (simp_all add: buf_plus_def buf_ok_size buf_ok_get buf_put_def)
  moreover have "buf_holds ?c (s @ t) \<and> terminated ?c" using r(2) False by (intro buffer_done) simp_all
  ultimately show ?thesis by (auto simp: buf_ok_def)
qed

lemma append_law:
  assumes "buf_ok c s" "buf_ok d t" "small (int (length s + length t))"
  shows "\<exists>c'. buf_append d c = Some c' \<and> buf_ok c' (s @ t)"
proof (cases "t = []")
  case True
  then show ?thesis using assms by (simp add: buf_append_def buf_ok_size)
next
  case False
  then show ?thesis using grow_put [OF assms(1) False assms(3)] assms
    by (force simp: buf_append_def buf_ok_size buf_ok_get)
qed



text \<open>\<open>operator +=\<close> writes behind the new end instead of the old one: the bytes between are left as they were,
  or unwritten.\<close>

theorem plus_assign_misplaces:
  "\<exists>a b c. buf_of_cstr [97] = Some a \<and> buf_of_cstr [98] = Some b \<and> buf_plus_assign b a = Some c \<and>
     get (buf_size c) (c_data c) = Some [Some 97, Some 0]"
proof -
  have r: "str_reserved_size 1 = Some 16" "str_reserved_size 2 = Some 16"
    unfolding str_reserved_size_def by (subst reserved_loop.simps, simp)+
  show ?thesis
    by (simp add: buf_of_cstr_def buf_resize_def r buf_put_def put_def buf_plus_assign_def buf_size_def c_data_def get_def
        numeral_2_eq_2 numeral_3_eq_3)
qed

text \<open>Appending the empty C string to an empty string writes through a null pointer.\<close>

theorem append_nothing_faults: "buf_append_cstr [] None = None" "buf_append_chars [] None = None"
  by (simp_all add: buf_append_cstr_def buf_append_chars_def buf_size_def buf_resize_def buf_put_def)

text \<open>\<open>resize\<close> to a smaller length keeps the old terminator only: \<open>c_str\<close> then shows the bytes cut off.\<close>

theorem shrinking_unterminated:
  "\<exists>a c. buf_of_cstr [97, 1] = Some a \<and> buf_resize 1 a = Some c \<and> buf_holds a [97, 1] \<and> \<not> terminated c"
proof -
  have r: "str_reserved_size 2 = Some 16"
    unfolding str_reserved_size_def by (subst reserved_loop.simps, simp)
  show ?thesis
    by (simp add: buf_of_cstr_def buf_resize_def r buf_put_def put_def buf_holds_def terminated_def numeral_2_eq_2)
qed

text \<open>Indices up to the size read the characters and the terminator.\<close>

lemma index_reads:
  assumes "buf_ok c s" "s \<noteq> []" "i \<le> length s"
  shows "buf_index dummy (int i) c = Some ((s @ [0]) ! i)"
proof -
  obtain a where a: "c = Some a" "take (length s) (a_data a) = map Some s" "length s < length (a_data a)"
      "a_length a = int (length s)" "a_data a ! length s = Some 0"
    using assms(1,2) by (auto simp: buf_ok_def buf_holds_def terminated_def split: option.splits)
  have "a_data a ! i = Some (s ! i)" if "i < length s"
    using that a(2) nth_take [of i "length s" "a_data a"] by simp
  then show ?thesis using a assms(3) by (auto simp: buf_index_def nth_append)
qed

end
