(* ===== verification/Paths.thy ===== *)
theory Paths
  imports Strings
begin

section \<open>Paths and files\<close>

text \<open>
  common/file_system.h and file_system.cc: taking paths apart and putting them together, and the
  operations that combine calls of Windows. Windows itself is a parameter: a record of the calls that
  the code uses, over a state of its own. \<open>None\<close> is a fault, or a recursion that does not end.
\<close>

subsection \<open>Paths\<close>

definition separator :: "byte \<Rightarrow> bool" where
  "separator c \<longleftrightarrow> c = 92 \<or> c = 47"

fun last_separator :: "nat \<Rightarrow> cstr \<Rightarrow> nat option" where
  "last_separator 0 s = None"
| "last_separator (Suc x) s = (if separator (s ! x) then Some x else last_separator x s)"

definition directory :: "cstr \<Rightarrow> cstr option" where
  "directory filename =
     (case last_separator (length filename) filename of
        Some x \<Rightarrow> if x = 0 then Some [47] else str_substr 0 (int x) filename
      | None \<Rightarrow> Some [46])"

definition basename :: "cstr \<Rightarrow> cstr option" where
  "basename filename =
     (case last_separator (length filename) filename of
        Some x \<Rightarrow> str_substr (int x + 1) (- 1) filename
      | None \<Rightarrow> Some filename)"

fun extension_from :: "nat \<Rightarrow> cstr \<Rightarrow> cstr" where
  "extension_from 0 s = []"
| "extension_from (Suc x) s =
     (if separator (s ! x) then [] else if s ! x = 46 then drop x s else extension_from x s)"

definition extension :: "cstr \<Rightarrow> cstr" where
  "extension filename = extension_from (length filename) filename"

definition constructPath :: "cstr \<Rightarrow> cstr \<Rightarrow> cstr \<Rightarrow> cstr option" where
  "constructPath dir baseName ext = do {
     let base =
       (if dir \<noteq> [] then
          (if last dir = 58 \<or> last dir = 92 \<or> last dir = 47 then dir @ baseName else dir @ [47] @ baseName)
        else baseName);
     if ext \<noteq> [] then do {
       b \<leftarrow> basename base;
       let i = str_rfind 46 (- 1) b;
       let base = (if i \<noteq> - 1 then take (nat (int (length base) - (int (length b) - i))) base else base);
       let base = (if hd ext \<noteq> 46 then base @ [46] else base);
       Some (base @ ext) }
     else Some base }"

definition isRelativePath :: "cstr \<Rightarrow> bool" where
  "isRelativePath filename \<longleftrightarrow>
     \<not> (length filename = 0 \<or> hd filename = 92 \<or> hd filename = 47 \<or> str_find 58 0 filename \<noteq> - 1)"

definition pathRelativeTo :: "cstr \<Rightarrow> cstr \<Rightarrow> cstr option" where
  "pathRelativeTo filename baseFilename =
     (if isRelativePath filename then do { d \<leftarrow> directory baseFilename; Some (d @ [92] @ filename) }
      else Some filename)"

text \<open>\<open>GetFullPathName\<close> of Windows, for a buffer of \<open>n\<close> bytes: the full path of a name (\<open>full\<close>; none when it
  fails) with its terminator when there is room, and its length; otherwise the room it needs, terminator included.\<close>

definition GetFullPathName :: "(cstr \<Rightarrow> cstr) \<Rightarrow> cstr \<Rightarrow> nat \<Rightarrow> nat \<times> cstr" where
  "GetFullPathName full filename n =
     (let p = full filename in
      if p = [] then (0, []) else if length p < n then (length p, p @ [0]) else (length p + 1, []))"

definition absolutePath :: "(cstr \<Rightarrow> cstr) \<Rightarrow> cstr \<Rightarrow> cstr" where
  "absolutePath full filename =
     (let (len, buffer) = GetFullPathName full filename 256 in
      if len = 0 then []
      else if 256 \<le> len then
        let (_, output) = GetFullPathName full filename (len + 1) in take len output
      else str_tolower (take len buffer))"

text \<open>The loop over the two absolute paths.\<close>

function compact_loop :: "cstr \<Rightarrow> cstr \<Rightarrow> nat \<Rightarrow> nat \<Rightarrow> int \<Rightarrow> int \<Rightarrow> cstr option" where
  "compact_loop a1 a2 span i firstSlash lastSlash =
     (if i < span then
        if a1 ! i \<noteq> a2 ! i then
          if firstSlash = lastSlash then Some a1
          else do {
            let slashCount = length (filter (\<lambda>c. c = 92) (drop (i + 1) a2));
            rest \<leftarrow> str_substr (lastSlash + 1) (- 1) a1;
            Some (concat (replicate slashCount [46, 46, 47]) @ rest) }
        else if a1 ! i = 92 then compact_loop a1 a2 span (i + 1) (if firstSlash < 0 then int i else firstSlash) (int i)
        else compact_loop a1 a2 span (i + 1) firstSlash lastSlash
      else Some a1)"
  by pat_completeness auto
termination
  by (relation "measure (\<lambda>(a1, a2, span, i, f, l). span - i)") auto

declare compact_loop.simps [simp del]

definition makeCompactPath :: "(cstr \<Rightarrow> cstr) \<Rightarrow> cstr \<Rightarrow> cstr \<Rightarrow> cstr option" where
  "makeCompactPath full filename baseFilename =
     (if isRelativePath filename then Some filename
      else
        (let a1 = absolutePath full filename; a2 = absolutePath full baseFilename;
             span = (if length a1 < length a2 then length a1 else length a2)
         in compact_loop a1 a2 span 0 (- 1) (- 1)))"

subsection \<open>Files\<close>

text \<open>The calls: attributes, of which bit 0 is read-only and bit 4 a directory, or none when there is no such
  file; creating a directory, deleting and moving a file, with the success of the call.\<close>

record 'w windows =
  GetFileAttributes :: "cstr \<Rightarrow> 'w \<Rightarrow> int32 option"
  CreateDirectory :: "cstr \<Rightarrow> 'w \<Rightarrow> bool \<times> 'w"
  DeleteFile :: "cstr \<Rightarrow> 'w \<Rightarrow> bool \<times> 'w"
  MoveFileEx :: "cstr \<Rightarrow> cstr \<Rightarrow> 'w \<Rightarrow> bool \<times> 'w"

definition file_exists :: "'w windows \<Rightarrow> cstr \<Rightarrow> 'w \<Rightarrow> bool" where
  "file_exists os fn w \<longleftrightarrow> GetFileAttributes os fn w \<noteq> None"

definition writable :: "'w windows \<Rightarrow> cstr \<Rightarrow> 'w \<Rightarrow> bool" where
  "writable os fn w = (case GetFileAttributes os fn w of None \<Rightarrow> False | Some r \<Rightarrow> \<not> bit r 0)"

definition isDirectory :: "'w windows \<Rightarrow> cstr \<Rightarrow> 'w \<Rightarrow> bool" where
  "isDirectory os fn w = (case GetFileAttributes os fn w of None \<Rightarrow> False | Some r \<Rightarrow> bit r 4)"

definition erase :: "'w windows \<Rightarrow> cstr \<Rightarrow> 'w \<Rightarrow> bool \<times> 'w" where
  "erase os fn w = DeleteFile os fn w"

definition rename_file :: "'w windows \<Rightarrow> cstr \<Rightarrow> cstr \<Rightarrow> 'w \<Rightarrow> bool \<times> 'w" where
  "rename_file os f1 f2 w = MoveFileEx os f1 f2 w"

definition createBackupFile :: "'w windows \<Rightarrow> cstr \<Rightarrow> 'w \<Rightarrow> bool \<times> 'w" where
  "createBackupFile os filename w =
     (if \<not> file_exists os filename w then (True, w)
      else
        let bakFile = filename @ [46, 98, 97, 107];
            (ok, w) = (if file_exists os bakFile w then erase os bakFile w else (True, w))
        in if \<not> ok then (False, w)
           else (case rename_file os filename bakFile w of (ok, w) \<Rightarrow> if \<not> ok then (False, w) else (True, w)))"

partial_function (option) ensure :: "'w windows \<Rightarrow> cstr \<Rightarrow> 'w \<Rightarrow> (bool \<times> 'w) option" where
  "ensure os dir w =
     (if isDirectory os dir w then Some (True, w)
      else if file_exists os dir w then Some (False, w)
      else do {
        d \<leftarrow> directory dir;
        (ok, w) \<leftarrow> ensure os d w;
        if \<not> ok then Some (False, w) else Some (CreateDirectory os dir w) })"

subsection \<open>Time stamps\<close>

text \<open>\<open>TimeStamp::touch\<close>: the clock in seconds, the static \<open>lastTouched\<close>, the stamp.\<close>

definition touch :: "int \<Rightarrow> int \<Rightarrow> int \<Rightarrow> int \<times> int" where
  "touch clock lastTouched t =
     (let now = clock * 10000000;
          now = (if now \<le> lastTouched then lastTouched + 1 else now);
          lastTouched = now
      in (lastTouched, if t < now then now else t))"

end
