(* ===== verification/Path_Laws.thy ===== *)
theory Path_Laws
  imports Paths
begin

section \<open>Properties of paths\<close>

text \<open>
  Taking a path apart and putting it together, relative paths and what they resolve to, and creating
  a directory with its parents.
\<close>

subsection \<open>Directory, base name and extension\<close>

lemma last_separator_Some:
  "last_separator n s = Some x \<Longrightarrow> x < n \<and> separator (s ! x) \<and> (\<forall>y. x < y \<and> y < n \<longrightarrow> \<not> separator (s ! y))"
  by (induction n) (auto split: if_splits simp: less_Suc_eq)

lemma last_separator_None: "last_separator n s = None \<Longrightarrow> \<forall>y<n. \<not> separator (s ! y)"
  by (induction n) (auto split: if_splits simp: less_Suc_eq)

lemma last_separator_append:
  "separator c \<Longrightarrow> \<forall>c\<in>set b. \<not> separator c \<Longrightarrow> last_separator (length (p @ c # b)) (p @ c # b) = Some (length p)"
proof -
  assume c: "separator c" and b: "\<forall>c\<in>set b. \<not> separator c"
  have "k \<le> length b \<Longrightarrow> last_separator (length p + 1 + k) (p @ c # b) = Some (length p)" for k
    using c b by (induction k) (auto simp: nth_append)
  from this [of "length b"] show ?thesis by simp
qed

lemma last_separator_none: "\<forall>c\<in>set b. \<not> separator c \<Longrightarrow> last_separator (length b) b = None"
proof -
  assume b: "\<forall>c\<in>set b. \<not> separator c"
  have "k \<le> length b \<Longrightarrow> last_separator k b = None" for k
    using b by (induction k) auto
  from this [of "length b"] show ?thesis by simp
qed

text \<open>Every path has no separator, or splits at its last one.\<close>

lemma path_cases:
  obtains "\<forall>c\<in>set f. \<not> separator c"
  | p c b where "f = p @ c # b" "separator c" "\<forall>c\<in>set b. \<not> separator c"
proof (cases "\<exists>c\<in>set f. separator c")
  case True
  from split_list_last_prop [OF True] show thesis using that(2) by metis
next
  case False
  then show thesis using that(1) by blast
qed

lemma substr_rest: "n \<le> length s \<Longrightarrow> str_substr (int n) (- 1) s = Some (drop n s)"
  by (auto simp: str_substr_def Let_def)

lemma substr_front: "0 < n \<Longrightarrow> n \<le> length s \<Longrightarrow> str_substr 0 (int n) s = Some (take n s)"
  by (auto simp: str_substr_def Let_def)

lemma directory_split:
  "separator c \<Longrightarrow> \<forall>c\<in>set b. \<not> separator c \<Longrightarrow> directory (p @ c # b) = Some (if p = [] then [47] else p)"
  using last_separator_append [of c b p] substr_front [of "length p" "p @ c # b"] by (simp add: directory_def)

lemma basename_split: "separator c \<Longrightarrow> \<forall>c\<in>set b. \<not> separator c \<Longrightarrow> basename (p @ c # b) = Some b"
  using last_separator_append [of c b p] substr_rest [of "length p + 1" "p @ c # b"] by (simp add: basename_def add.commute)

lemma directory_none: "\<forall>c\<in>set f. \<not> separator c \<Longrightarrow> directory f = Some [46]"
  by (simp add: directory_def last_separator_none)

lemma basename_none: "\<forall>c\<in>set f. \<not> separator c \<Longrightarrow> basename f = Some f"
  by (simp add: basename_def last_separator_none)

text \<open>The extension: from the last dot of the base name.\<close>

lemma extension_law:
  assumes "\<forall>c\<in>set e. \<not> separator c \<and> c \<noteq> 46" "f = p @ x # e" "x = 46 \<or> separator x"
  shows "extension f = (if x = 46 then 46 # e else [])"
proof -
  have "k \<le> length e \<Longrightarrow> extension_from (length p + 1 + k) f = (if x = 46 then 46 # e else [])" for k
    using assms by (induction k) (auto simp: nth_append separator_def)
  from this [of "length e"] show ?thesis using assms(2) by (simp add: extension_def)
qed

lemma extension_none: "\<forall>c\<in>set f. \<not> separator c \<and> c \<noteq> 46 \<Longrightarrow> extension f = []"
proof -
  assume f: "\<forall>c\<in>set f. \<not> separator c \<and> c \<noteq> 46"
  have "k \<le> length f \<Longrightarrow> extension_from k f = []" for k using f by (induction k) auto
  from this [of "length f"] show ?thesis by (simp add: extension_def)
qed

lemma extension_basename:
  assumes b: "\<forall>c\<in>set b. \<not> separator c" and f: "f = b \<or> (\<exists>p c. f = p @ c # b \<and> separator c)"
  shows "if 46 \<in> set b then \<exists>stem e. b = stem @ 46 # e \<and> 46 \<notin> set e \<and> extension f = 46 # e else extension f = []"
proof (cases "46 \<in> set b")
  case True
  then obtain stem e where e: "b = stem @ 46 # e" "46 \<notin> set e" using split_list_last by metis
  obtain q where "f = q @ b" using f by auto
  then have "f = (q @ stem) @ 46 # e" using e by simp
  from extension_law [OF _ this] e b have "extension f = 46 # e" by auto
  then show ?thesis using True e by auto
next
  case False
  show ?thesis
  proof (cases "f = b")
    case True
    then show ?thesis using extension_none [of f] b False by (auto dest: bspec)
  next
    case False
    then obtain p c where "f = p @ c # b" and "separator c" using f by blast
    moreover have "\<forall>c\<in>set b. \<not> separator c \<and> c \<noteq> 46" using b \<open>46 \<notin> set b\<close> by auto
    moreover have "c \<noteq> 46" using \<open>separator c\<close> by (auto simp: separator_def)
    ultimately have "extension f = []" using extension_law [of b f p c] by simp
    then show ?thesis using \<open>46 \<notin> set b\<close> by simp
  qed
qed

text \<open>\<open>directory\<close> and \<open>basename\<close> take a path apart at its last separator and nothing is lost: the path is the
  directory, the separator and the base name; without a separator the directory is \<open>.\<close> and the base name
  the path. The extension is the end of the base name from its last dot, or empty if it has none.\<close>

theorem path_taken_apart:
  "\<exists>d b. directory f = Some d \<and> basename f = Some b \<and> (\<forall>c\<in>set b. \<not> separator c) \<and>
     ((\<exists>c\<in>set f. separator c) \<longrightarrow> (\<exists>p c. separator c \<and> f = p @ c # b \<and> d = (if p = [] then [47] else p))) \<and>
     ((\<forall>c\<in>set f. \<not> separator c) \<longrightarrow> b = f \<and> d = [46]) \<and>
     (46 \<in> set b \<longrightarrow> (\<exists>stem e. b = stem @ 46 # e \<and> 46 \<notin> set e \<and> extension f = 46 # e)) \<and>
     (46 \<notin> set b \<longrightarrow> extension f = [])"
proof (rule path_cases [of f])
  assume f: "\<forall>c\<in>set f. \<not> separator c"
  show ?thesis using directory_none [OF f] basename_none [OF f] extension_basename [OF f, of f] f
    by (intro exI [of _ "[46]"] exI [of _ f]) (auto split: if_splits)
next
  fix p c b
  assume f: "f = p @ c # b" and c: "separator c" and b: "\<forall>c\<in>set b. \<not> separator c"
  have e: "if 46 \<in> set b then \<exists>stem e. b = stem @ 46 # e \<and> 46 \<notin> set e \<and> extension f = 46 # e else extension f = []"
    using extension_basename [OF b, of f] f c by blast
  have sep: "\<exists>c\<in>set f. separator c" using f c by auto
  let ?d = "if p = [] then [47] else p"
  have "46 \<in> set b \<longrightarrow> (\<exists>stem e. b = stem @ 46 # e \<and> 46 \<notin> set e \<and> extension f = 46 # e)" using e by presburger
  moreover have "46 \<notin> set b \<longrightarrow> extension f = []" using e by presburger
  moreover have "directory f = Some ?d" "basename f = Some b"
    unfolding f using directory_split [OF c b] basename_split [OF c b] by blast+
  ultimately show ?thesis using f c b sep by blast
qed

lemma path_taken_apart_witness:
  "directory [97, 47, 98, 46, 99] = Some [97] \<and> basename [97, 47, 98, 46, 99] = Some [98, 46, 99] \<and>
   extension [97, 47, 98, 46, 99] = [46, 99]"
proof -
  have "directory ([97] @ 47 # [98, 46, 99]) = Some (if [97] = ([] :: cstr) then [47] else [97])"
    by (rule directory_split) (auto simp: separator_def)
  moreover have "basename ([97] @ 47 # [98, 46, 99]) = Some [98, 46, 99]"
    by (rule basename_split) (auto simp: separator_def)
  moreover have "\<exists>stem e. [98, 46, 99 :: byte] = stem @ 46 # e \<and> 46 \<notin> set e \<and> extension [97, 47, 98, 46, 99] = 46 # e"
    using path_taken_apart [of "[97, 47, 98, 46, 99]"] calculation by auto
  then have "extension [97, 47, 98, 46, 99] = [46, 99]"
    by (auto simp: append_eq_Cons_conv Cons_eq_append_conv)
  ultimately show ?thesis by simp
qed

subsection \<open>Putting a path together\<close>

lemma rfind_last: "c \<notin> set e \<Longrightarrow> rfind_char c (length (s @ c # e)) (s @ c # e) = int (length s)"
proof -
  assume e: "c \<notin> set e"
  have "k \<le> length e \<Longrightarrow> rfind_char c (length s + 1 + k) (s @ c # e) = int (length s)" for k
    using e by (induction k) (auto simp: nth_append in_set_conv_nth)
  from this [of "length e"] show ?thesis by simp
qed

lemma rfind_none: "c \<notin> set s \<Longrightarrow> rfind_char c (length s) s = - 1"
proof -
  assume s: "c \<notin> set s"
  have "k \<le> length s \<Longrightarrow> rfind_char c k s = - 1" for k using s by (induction k) (auto simp: in_set_conv_nth)
  from this [of "length s"] show ?thesis by simp
qed

text \<open>\<open>stem_of b s\<close>: the base name \<open>b\<close> without its extension is \<open>s\<close>.\<close>

definition stem_of :: "cstr \<Rightarrow> cstr \<Rightarrow> bool" where
  "stem_of b s \<longleftrightarrow> (b = s \<and> 46 \<notin> set s) \<or> (\<exists>x. b = s @ 46 # x \<and> 46 \<notin> set x)"

lemma join_directory:
  "dir \<noteq> [] \<Longrightarrow> last dir \<notin> {58, 92, 47} \<Longrightarrow> ext \<noteq> [] \<Longrightarrow> \<forall>c\<in>set b. \<not> separator c \<Longrightarrow> stem_of b s \<Longrightarrow>
   constructPath dir b ext = Some (dir @ 47 # s @ (if hd ext = 46 then ext else 46 # ext))"
proof -
  assume d: "dir \<noteq> []" "last dir \<notin> {58, 92, 47}" and e: "ext \<noteq> []" and b: "\<forall>c\<in>set b. \<not> separator c" and st: "stem_of b s"
  have bn: "basename (dir @ 47 # b) = Some b" by (rule basename_split) (use b in \<open>auto simp: separator_def\<close>)
  have "(b = s \<and> 46 \<notin> set s) \<or> (\<exists>x. b = s @ 46 # x \<and> 46 \<notin> set x)" using st by (simp add: stem_of_def)
  then show ?thesis
  proof
    assume "b = s \<and> 46 \<notin> set s"
    then show ?thesis using d e bn by (simp add: constructPath_def str_rfind_def rfind_none)
  next
    assume "\<exists>x. b = s @ 46 # x \<and> 46 \<notin> set x"
    then obtain x where x: "b = s @ 46 # x" "46 \<notin> set x" by blast
    have "str_rfind 46 (- 1) b = int (length s)"
      by (simp only: x(1) str_rfind_def simp_thms if_True nat_int rfind_last [OF x(2)])
    moreover have "nat (int (length (dir @ 47 # b)) - (int (length b) - int (length s))) = length dir + 1 + length s"
      using x by simp
    moreover have "take (length dir + 1 + length s) (dir @ 47 # b) = dir @ 47 # s" using x by simp
    ultimately show ?thesis using d e bn by (simp add: constructPath_def Let_def)
  qed
qed

text \<open>A path put together from a directory, a base name and an extension is taken apart into the same
  directory, the base name with its own extension replaced, and the extension, with a dot before it if
  it came without one.\<close>

theorem construct_path_parts:
  assumes "dir \<noteq> []" "last dir \<notin> {58, 92, 47}" "\<forall>c\<in>set b. \<not> separator c" "stem_of b s"
    and "e \<noteq> []" "\<forall>c\<in>set e. \<not> separator c \<and> c \<noteq> 46" "ext = e \<or> ext = 46 # e"
  shows "\<exists>f. constructPath dir b ext = Some f \<and> directory f = Some dir \<and> basename f = Some (s @ 46 # e) \<and>
    extension f = 46 # e"
proof -
  have h: "(if hd ext = 46 then ext else 46 # ext) = 46 # e" using assms(5-7) by (cases e) auto
  have "ext \<noteq> []" using assms(5,7) by auto
  then have f: "constructPath dir b ext = Some (dir @ 47 # s @ 46 # e)"
    using join_directory [OF assms(1,2) _ assms(3,4)] h by simp
  have "\<forall>c\<in>set (s @ 46 # e). \<not> separator c" using assms(3,4,6) by (auto simp: stem_of_def separator_def)
  then show ?thesis
    using f directory_split [of 47 "s @ 46 # e" dir] basename_split [of 47 "s @ 46 # e" dir] assms(1,6)
      extension_law [of e "dir @ 47 # s @ 46 # e" "dir @ 47 # s" 46]
    by (simp add: separator_def)
qed

lemma construct_path_parts_witness:
  "\<exists>f. constructPath [100] [98, 46, 99] [112] = Some f \<and> directory f = Some [100] \<and>
     basename f = Some ([98] @ 46 # [112]) \<and> extension f = 46 # [112]"
  by (rule construct_path_parts) (auto simp: separator_def stem_of_def)

subsection \<open>Compact paths\<close>

text \<open>The state of the loop at \<open>k\<close>: the first and the last backslash before \<open>k\<close>.\<close>

definition slashes :: "nat \<Rightarrow> cstr \<Rightarrow> int \<Rightarrow> int \<Rightarrow> bool" where
  "slashes k s f l \<longleftrightarrow>
     (92 \<notin> set (take k s) \<and> f = - 1 \<and> l = - 1) \<or>
     (\<exists>a b. f = int a \<and> l = int b \<and> a \<le> b \<and> b < k \<and> s ! a = 92 \<and> s ! b = 92 \<and>
        (\<forall>j<a. s ! j \<noteq> 92) \<and> (\<forall>j. b < j \<and> j < k \<longrightarrow> s ! j \<noteq> 92))"

lemma slashes_step:
  assumes "slashes k s f l" "k < length s"
  shows "if s ! k = 92 then slashes (k + 1) s (if f < 0 then int k else f) (int k) else slashes (k + 1) s f l"
proof (cases "s ! k = 92")
  case True
  from assms(1) show ?thesis unfolding slashes_def [of k]
  proof
    assume h: "92 \<notin> set (take k s) \<and> f = - 1 \<and> l = - 1"
    then have "\<forall>j<k. s ! j \<noteq> 92" using assms(2)
      by (metis nth_mem nth_take length_take min_less_iff_conj less_trans)
    then show ?thesis using True h by (auto simp: slashes_def)
  next
    assume "\<exists>a b. f = int a \<and> l = int b \<and> a \<le> b \<and> b < k \<and> s ! a = 92 \<and> s ! b = 92 \<and>
        (\<forall>j<a. s ! j \<noteq> 92) \<and> (\<forall>j. b < j \<and> j < k \<longrightarrow> s ! j \<noteq> 92)"
    then obtain a where "f = int a" "a < k" "s ! a = 92" "\<forall>j<a. s ! j \<noteq> 92" by fastforce
    then have "slashes (k + 1) s f (int k)" unfolding slashes_def using True
      by (intro disjI2 exI [of _ a] exI [of _ k]) auto
    then show ?thesis using True \<open>f = int a\<close> by simp
  qed
next
  case False
  then show ?thesis using assms by (auto simp: slashes_def take_Suc_conv_app_nth less_Suc_eq)
qed

lemma compact_loop_common:
  assumes "take n a1 = take n a2" "n \<le> length a1" "n \<le> length a2" "n \<le> span"
  shows "i \<le> n \<Longrightarrow> slashes i a1 f l \<Longrightarrow>
    \<exists>f' l'. slashes n a1 f' l' \<and> compact_loop a1 a2 span i f l = compact_loop a1 a2 span n f' l'"
proof (induction "n - i" arbitrary: i f l)
  case 0
  then show ?case by (intro exI [of _ f] exI [of _ l]) simp
next
  case (Suc d)
  then have i: "i < n" by simp
  then have same: "a1 ! i = a2 ! i" using assms(1) by (metis nth_take)
  have "i < length a1" "i < span" using i assms by auto
  note st = slashes_step [OF Suc.prems(2) this(1)]
  have d: "d = n - (i + 1)" "i + 1 \<le> n" using Suc.hyps(2) i by auto
  have step: "compact_loop a1 a2 span i f l = (if a1 ! i = 92
      then compact_loop a1 a2 span (i + 1) (if f < 0 then int i else f) (int i)
      else compact_loop a1 a2 span (i + 1) f l)"
    using \<open>i < span\<close> same by (subst compact_loop.simps) simp
  show ?case
  proof (cases "a1 ! i = 92")
    case True
    then show ?thesis using Suc.hyps(1) [OF d, of "if f < 0 then int i else f" "int i"] st step by simp
  next
    case False
    then show ?thesis using Suc.hyps(1) [OF d, of f l] st step by simp
  qed
qed

text \<open>The last backslash of a prefix that has two.\<close>

lemma slashes_two:
  assumes "slashes (length (D @ 92 # t)) (D @ 92 # t @ r) f l" "92 \<in> set D" "92 \<notin> set t"
  shows "f \<noteq> l \<and> l = int (length D)"
proof -
  let ?s = "D @ 92 # t @ r" and ?k = "length (D @ 92 # t)"
  have "92 \<in> set (take ?k ?s)" by simp
  then obtain a b where ab: "f = int a" "l = int b" "b < ?k" "?s ! b = 92" "\<forall>j<a. ?s ! j \<noteq> 92" "\<forall>j. b < j \<and> j < ?k \<longrightarrow> ?s ! j \<noteq> 92"
    using assms(1) unfolding slashes_def by blast
  obtain j where j: "j < length D" "D ! j = 92" using assms(2) by (auto simp: in_set_conv_nth)
  then have "?s ! j = 92" by (simp add: nth_append)
  then have a: "a \<le> j" using ab(5) by (meson not_le)
  have "?s ! length D = 92" by simp
  then have "length D \<le> b" using ab(6) by (metis add_Suc_right length_append length_Cons less_add_Suc1 linorder_not_le)
  moreover have "\<not> length D < b"
  proof
    assume h: "length D < b"
    then obtain m where m: "b = length D + Suc m" by (metis less_iff_Suc_add add_Suc_right)
    then have "m < length t" using ab(3) by simp
    then have "?s ! b = t ! m" using m by (simp add: nth_append)
    then show False using ab(4) assms(3) \<open>m < length t\<close> by (metis nth_mem)
  qed
  ultimately show ?thesis using ab(1,2) a j(1) by auto
qed

lemma compact_loop_mismatch:
  assumes "a1 = D @ 92 # t @ x # r1" "a2 = D @ 92 # t @ y # r2" "x \<noteq> y" "92 \<in> set D" "92 \<notin> set t"
    and "span = (if length a1 < length a2 then length a1 else length a2)"
  shows "compact_loop a1 a2 span 0 (- 1) (- 1) =
    Some (concat (replicate (length (filter (\<lambda>c. c = 92) r2)) [46, 46, 47]) @ t @ x # r1)"
proof -
  let ?n = "length (D @ 92 # t)"
  have p: "take ?n a1 = take ?n a2" "?n \<le> length a1" "?n \<le> length a2" "?n < span" using assms by auto
  have "slashes 0 a1 (- 1) (- 1)" by (simp add: slashes_def)
  then obtain f l where fl: "slashes ?n a1 f l" "compact_loop a1 a2 span 0 (- 1) (- 1) = compact_loop a1 a2 span ?n f l"
    using compact_loop_common [OF p(1-3), of span 0 "- 1" "- 1"] p(4) by auto
  have "slashes ?n (D @ 92 # t @ x # r1) f l" using fl(1) assms(1) by simp
  from slashes_two [OF this assms(4,5)] have l: "f \<noteq> l" "l = int (length D)" by auto
  have "a1 ! ?n = x" "a2 ! ?n = y" unfolding assms(1,2) by (simp_all add: nth_append)
  moreover have "drop (?n + 1) a2 = r2" unfolding assms(2) by simp
  moreover have "str_substr (l + 1) (- 1) a1 = Some (t @ x # r1)"
    using substr_rest [of "length D + 1" a1] l(2) assms(1) by (simp add: add.commute)
  ultimately have "compact_loop a1 a2 span ?n f l =
      Some (concat (replicate (length (filter (\<lambda>c. c = 92) r2)) [46, 46, 47]) @ t @ x # r1)"
    using p(4) assms(3) l(1) by (subst compact_loop.simps) (simp add: Let_def)
  then show ?thesis using fl(2) by simp
qed

text \<open>The directory \<open>n\<close> levels up.\<close>

fun up :: "nat \<Rightarrow> cstr \<Rightarrow> cstr option" where
  "up 0 s = Some s"
| "up (Suc n) s = do { d \<leftarrow> directory s; up n d }"

lemma up_slashes:
  assumes "D \<noteq> []"
  shows "47 \<notin> set u \<Longrightarrow> up (length (filter (\<lambda>c. c = 92) u) + 1) (D @ 92 # u) = Some D"
proof (induction "length u" arbitrary: u rule: less_induct)
  case less
  show ?case
  proof (cases "92 \<in> set u")
    case False
    then have "\<forall>c\<in>set u. \<not> separator c" "filter (\<lambda>c. c = 92) u = []"
      using less.prems by (auto simp: separator_def filter_empty_conv)
    then show ?thesis using directory_split [of 92 u D] assms by (simp add: separator_def)
  next
    case True
    then obtain v w where u: "u = v @ 92 # w" "92 \<notin> set w" using split_list_last by metis
    then have w: "\<forall>c\<in>set w. \<not> separator c" "filter (\<lambda>c. c = 92) w = []"
      using less.prems by (auto simp: separator_def filter_empty_conv)
    have "directory ((D @ 92 # v) @ 92 # w) = Some (D @ 92 # v)"
      using directory_split [of 92 w "D @ 92 # v"] w by (simp add: separator_def)
    moreover have "up (length (filter (\<lambda>c. c = 92) v) + 1) (D @ 92 # v) = Some D"
      using less.hyps [of v] less.prems u by simp
    ultimately show ?thesis using u w by simp
  qed
qed

text \<open>A path that fits into the buffer is given in lower case. One that does not is left as it is, and the length
  that Windows asks for counts the terminator: it becomes a character of the string.\<close>

lemma absolutePath_short: "length (full f) < 256 \<Longrightarrow> absolutePath full f = str_tolower (full f)"
  by (simp add: absolutePath_def GetFullPathName_def Let_def str_tolower_def)

lemma absolutePath_long: "256 \<le> length (full f) \<Longrightarrow> absolutePath full f = full f @ [0]"
  by (auto simp: absolutePath_def GetFullPathName_def Let_def)

text \<open>C21: \<open>makeCompactPath\<close> of a file name that is not relative: when the two absolute paths share a prefix with at least two backslashes and the first
  difference is not a backslash of the base path, which has no slashes, the result goes up with \<open>../\<close> as often as the base
  path's directory is below the last common directory, and then names the rest: from the directory of
  the base path it leads back to the same absolute path.\<close>

theorem compact_path_resolves:
  assumes "\<not> isRelativePath f" "absolutePath full f = D @ 92 # t @ x # r1"
    and "absolutePath full base = D @ 92 # t @ y # r2"
    and "x \<noteq> y" "y \<noteq> 92" "92 \<in> set D" "92 \<notin> set t" "47 \<notin> set (absolutePath full base)"
  shows "\<exists>n rest. makeCompactPath full f base = Some (concat (replicate n [46, 46, 47]) @ rest) \<and>
    up (n + 1) (absolutePath full base) = Some D \<and> absolutePath full f = D @ 92 # rest"
proof -
  let ?n = "length (filter (\<lambda>c. c = 92) r2)"
  have "makeCompactPath full f base = Some (concat (replicate ?n [46, 46, 47]) @ t @ x # r1)"
    using compact_loop_mismatch [OF assms(2-4) assms(6,7)] assms(1) by (simp add: makeCompactPath_def Let_def)
  moreover have "up (?n + 1) (absolutePath full base) = Some D"
  proof -
    have "length (filter (\<lambda>c. c = 92) (t @ y # r2)) = ?n" using assms(5,7) by (auto simp: filter_empty_conv)
    moreover have "D \<noteq> []" "47 \<notin> set (t @ y # r2)" using assms by auto
    ultimately show ?thesis using up_slashes [of D "t @ y # r2"] assms(3) by metis
  qed
  ultimately show ?thesis using assms(2) by blast
qed

lemma compact_path_resolves_witness:
  "\<exists>n rest. makeCompactPath (\<lambda>p. p) [99, 58, 92, 97, 92, 98, 99] [99, 58, 92, 97, 92, 100, 92, 101] =
       Some (concat (replicate n [46, 46, 47]) @ rest) \<and>
     up (n + 1) [99, 58, 92, 97, 92, 100, 92, 101] = Some [99, 58, 92, 97] \<and>
     [99, 58, 92, 97, 92, 98, 99 :: byte] = [99, 58, 92, 97] @ 92 # rest"
  using compact_path_resolves [where full = "\<lambda>p. p" and f = "[99, 58, 92, 97, 92, 98, 99]" and
      base = "[99, 58, 92, 97, 92, 100, 92, 101]" and D = "[99, 58, 92, 97]" and t = "[]" and x = 98 and y = 100 and
      ?r1.0 = "[99]" and ?r2.0 = "[92, 101]"]
  by (simp add: isRelativePath_def str_find_def absolutePath_short str_tolower_def to_lower_def)

text \<open>When the first difference is a backslash of the base path, that backslash is not counted: the path
  \<open>c:\a\bc\<close> relative to \<open>c:\a\b\d\<close> becomes \<open>bc\<close>, which in the directory \<open>c:\a\b\<close> is another file.\<close>

lemma compact_path_misses_backslash:
  "makeCompactPath (\<lambda>p. p) [99, 58, 92, 97, 92, 98, 99] [99, 58, 92, 97, 92, 98, 92, 100] = Some [98, 99] \<and>
   directory [99, 58, 92, 97, 92, 98, 92, 100] = Some [99, 58, 92, 97, 92, 98]"
proof
  have "\<not> isRelativePath [99, 58, 92, 97, 92, 98, 99]" by (simp add: isRelativePath_def str_find_def)
  then show "makeCompactPath (\<lambda>p. p) [99, 58, 92, 97, 92, 98, 99] [99, 58, 92, 97, 92, 98, 92, 100] = Some [98, 99]"
    using compact_loop_mismatch [of "[99, 58, 92, 97, 92, 98, 99]" "[99, 58, 92, 97]" "[98]" 99 "[]"
      "[99, 58, 92, 97, 92, 98, 92, 100]" 92 "[100]"]
    by (simp add: makeCompactPath_def absolutePath_short str_tolower_def to_lower_def)
  show "directory [99, 58, 92, 97, 92, 98, 92, 100] = Some [99, 58, 92, 97, 92, 98]"
    using directory_split [of 92 "[100]" "[99, 58, 92, 97, 92, 98]"] by (simp add: separator_def)
qed

subsection \<open>Creating a directory with its parents\<close>

text \<open>What the recursion relies on: \<open>.\<close> and \<open>/\<close> are always directories, and a directory is one right after it
  was created. Nothing is said of other names, which may be further names of the same file.\<close>

definition directory_calls :: "'w windows \<Rightarrow> bool" where
  "directory_calls os \<longleftrightarrow>
     (\<forall>w. isDirectory os [46] w \<and> isDirectory os [47] w) \<and>
     (\<forall>d w w'. CreateDirectory os d w = (True, w') \<longrightarrow> isDirectory os d w')"

text \<open>Creating directories from the outermost, up to the first call that fails, and a list of directories in which
  each is the parent of the next.\<close>

fun create_all :: "'w windows \<Rightarrow> cstr list \<Rightarrow> 'w \<Rightarrow> bool \<times> 'w" where
  "create_all os [] w = (True, w)"
| "create_all os (d # ds) w =
     (case CreateDirectory os d w of (ok, w1) \<Rightarrow> if ok then create_all os ds w1 else (False, w1))"

fun nested :: "cstr \<Rightarrow> cstr list \<Rightarrow> bool" where
  "nested b [] \<longleftrightarrow> True"
| "nested b (d # ds) \<longleftrightarrow> directory d = Some b \<and> nested d ds"

lemma create_all_snoc:
  "create_all os (ds @ [d]) w =
     (case create_all os ds w of (ok, w1) \<Rightarrow> if ok then CreateDirectory os d w1 else (False, w1))"
  by (induction ds arbitrary: w) (auto split: prod.splits)

lemma nested_snoc: "nested b (ds @ [d]) \<longleftrightarrow> nested b ds \<and> directory d = Some (last (b # ds))"
  by (induction ds arbitrary: b) auto

lemma directory_shorter:
  "\<exists>d. directory s = Some d \<and> (d = [46] \<or> d = [47] \<or> length d < length s)"
proof (rule path_cases [of s])
  assume "\<forall>c\<in>set s. \<not> separator c"
  then show ?thesis using directory_none by blast
next
  fix p c b
  assume "s = p @ c # b" "separator c" "\<forall>c\<in>set b. \<not> separator c"
  then show ?thesis using directory_split [of c b p] by auto
qed

lemma create_all_creates:
  "directory_calls os \<Longrightarrow> create_all os ds w = (True, w') \<Longrightarrow> ds \<noteq> [] \<Longrightarrow> isDirectory os (last ds) w'"
proof (induction ds arbitrary: w)
  case (Cons d ds)
  then show ?case by (cases "ds = []") (auto simp: directory_calls_def split: prod.splits if_splits)
qed simp

lemma ensure_existing:
  "file_exists os dir w \<Longrightarrow> ensure os dir w = Some (isDirectory os dir w, w)"
  by (subst ensure.simps) simp

lemma ensure_parent:
  "\<not> file_exists os dir w \<Longrightarrow> directory dir = Some d \<Longrightarrow> ensure os d w = Some (ok, w1) \<Longrightarrow>
   ensure os dir w = Some (if ok then CreateDirectory os dir w1 else (False, w1))"
  by (subst ensure.simps) (auto simp: isDirectory_def file_exists_def)

lemma ensure_chain:
  assumes calls: "directory_calls os"
  shows "\<exists>b ds. last (b # ds) = dir \<and> nested b ds \<and> file_exists os b w \<and> (\<forall>d\<in>set ds. \<not> file_exists os d w) \<and>
     ensure os dir w = Some (if isDirectory os b w then create_all os ds w else (False, w))"
proof (induction "length dir" arbitrary: dir rule: less_induct)
  case less
  show ?case
  proof (cases "file_exists os dir w")
    case True
    then show ?thesis using ensure_existing [OF True] by (intro exI [of _ dir] exI [of _ "[]"]) auto
  next
    case False
    obtain p where p: "directory dir = Some p" "p = [46] \<or> p = [47] \<or> length p < length dir"
      using directory_shorter by blast
    have "\<exists>b ds. last (b # ds) = p \<and> nested b ds \<and> file_exists os b w \<and> (\<forall>d\<in>set ds. \<not> file_exists os d w) \<and>
       ensure os p w = Some (if isDirectory os b w then create_all os ds w else (False, w))"
    proof (cases "length p < length dir")
      case False
      then have "isDirectory os p w" using p(2) calls by (auto simp: directory_calls_def)
      then have e: "file_exists os p w" by (auto simp: isDirectory_def file_exists_def split: option.splits)
      show ?thesis using ensure_existing [OF e] e by (intro exI [of _ p] exI [of _ "[]"]) auto
    qed (rule less.hyps)
    then obtain b ds where b: "last (b # ds) = p" "nested b ds" "file_exists os b w" "\<forall>d\<in>set ds. \<not> file_exists os d w"
        "ensure os p w = Some (if isDirectory os b w then create_all os ds w else (False, w))" by blast
    have "ensure os dir w = Some (if isDirectory os b w then create_all os (ds @ [dir]) w else (False, w))"
      using b(5) ensure_parent [OF False p(1)] by (auto simp: create_all_snoc split: prod.splits)
    moreover have "nested b (ds @ [dir])" using b(1,2) p(1) by (simp add: nested_snoc)
    ultimately show ?thesis using b(3,4) False
      by (intro exI [of _ b] exI [of _ "ds @ [dir]"]) simp
  qed
qed

text \<open>C24: \<open>ensure\<close> always returns, and creates exactly what is missing: there is a first directory \<open>b\<close> on the way up
  that exists, all names \<open>ds\<close> between it and \<open>dir\<close> are missing, each the parent of the next, and \<open>ensure\<close> creates
  them from the outermost, stopping at the first failure. When \<open>b\<close> exists but is no directory it fails
  without a change. When it reports success the directory exists.\<close>

theorem ensure_creates:
  assumes "directory_calls os"
  shows "\<exists>b ds. last (b # ds) = dir \<and> nested b ds \<and> file_exists os b w \<and> (\<forall>d\<in>set ds. \<not> file_exists os d w) \<and>
     ensure os dir w = Some (if isDirectory os b w then create_all os ds w else (False, w)) \<and>
     (\<forall>w'. ensure os dir w = Some (True, w') \<longrightarrow> isDirectory os dir w')"
proof -
  obtain b ds where b: "last (b # ds) = dir" "nested b ds" "file_exists os b w" "\<forall>d\<in>set ds. \<not> file_exists os d w"
      "ensure os dir w = Some (if isDirectory os b w then create_all os ds w else (False, w))"
    using ensure_chain [OF assms] by blast
  have "isDirectory os dir w'" if "ensure os dir w = Some (True, w')" for w'
    using that b(1,5) create_all_creates [OF assms, of ds w w'] by (cases "ds = []") (auto split: if_splits)
  then show ?thesis using b by blast
qed

text \<open>A system that keeps the list of its directories.\<close>

definition tiny_windows :: "cstr list windows" where
  "tiny_windows = \<lparr> GetFileAttributes = (\<lambda>f w. if f = [46] \<or> f = [47] \<or> f \<in> set w then Some 16 else None),
     CreateDirectory = (\<lambda>f w. (True, f # w)), DeleteFile = (\<lambda>f w. (False, w)), MoveFileEx = (\<lambda>f g w. (False, w)) \<rparr>"

lemma ensure_creates_witness:
  "\<exists>b ds. last (b # ds) = [97, 47, 98] \<and> nested b ds \<and> file_exists tiny_windows b [] \<and>
     (\<forall>d\<in>set ds. \<not> file_exists tiny_windows d []) \<and>
     ensure tiny_windows [97, 47, 98] [] =
       Some (if isDirectory tiny_windows b [] then create_all tiny_windows ds [] else (False, [])) \<and>
     (\<forall>w'. ensure tiny_windows [97, 47, 98] [] = Some (True, w') \<longrightarrow> isDirectory tiny_windows [97, 47, 98] w')"
proof (rule ensure_creates)
  have "bit (16 :: int32) 4" by (simp add: bit_iff_odd)
  then show "directory_calls tiny_windows"
    by (auto simp: directory_calls_def isDirectory_def file_exists_def tiny_windows_def)
qed

end
