(* ===== verification/Native_Code.thy ===== *)
theory Native_Code
  imports Sections
begin

section \<open>Native sections and the exceptions of native code\<close>

text \<open>
  x86_pxi.h, x86_pxi.cc, executionContext.cc and the native parts of runtime.cc: loading an image of
  machine code, preparing and calling it, unwinding its stack to an exception handler, and the report
  of an uncaught exception. What the machine code does is a parameter, and so are the addresses of the
  built-in functions and the answer of \<open>VirtualProtect\<close>. \<open>None\<close> is a fault.
\<close>

subsection \<open>Loading\<close>

record X86_64SectionHeader =
  x_entryPoint :: int32
  x_builtInOffset :: int32
  x_builtInCount :: int32
  x_vtablesOffset :: int32
  x_vtableData :: int32
  x_typeDataOffset :: int32
  x_typeDataLength :: int32
  x_stringsOffset :: int32
  x_stringsLength :: int32
  x_relocationOffset :: int32
  x_relocationCount :: int32
  x_builtInsText :: int32
  x_exceptionsOffset :: int32
  x_exceptionsCount :: int32

definition read_x86_header :: "byte list \<Rightarrow> X86_64SectionHeader" where
  "read_x86_header bs =
     \<lparr>x_entryPoint = int_field 0 bs, x_builtInOffset = int_field 4 bs, x_builtInCount = int_field 8 bs,
      x_vtablesOffset = int_field 12 bs, x_vtableData = int_field 16 bs, x_typeDataOffset = int_field 20 bs,
      x_typeDataLength = int_field 24 bs, x_stringsOffset = int_field 28 bs, x_stringsLength = int_field 32 bs,
      x_relocationOffset = int_field 36 bs, x_relocationCount = int_field 40 bs, x_builtInsText = int_field 44 bs,
      x_exceptionsOffset = int_field 48 bs, x_exceptionsCount = int_field 52 bs\<rparr>"

record x86_section =
  x_header :: X86_64SectionHeader
  x_image :: WORD
  x_imageLength :: WORD

text \<open>\<open>new X86_64Section\<close>: members that the constructor does not reach keep what the memory held, which is the
  argument \<open>junk\<close> (the bytes of the header) with \<open>junk_image\<close> and \<open>junk_length\<close>.\<close>

definition X86_64Section :: "allocator \<Rightarrow> byte list \<Rightarrow> WORD \<Rightarrow> WORD \<Rightarrow> stream \<Rightarrow> WORD \<Rightarrow> process \<Rightarrow> (x86_section \<times> process) option" where
  "X86_64Section os junk junk_image junk_length pxiFile len pr =
     (let (hs, pxiFile) = fread 56 pxiFile;
          section = \<lparr>x_header = read_x86_header (hs @ drop (length hs) junk), x_image = junk_image, x_imageLength = junk_length\<rparr>
      in if length hs \<noteq> 56 then Some (section, pr)
      else
        let imageLength = len - 56;
            (p, pr) = process_malloc os (unat imageLength) pr;
            section = section\<lparr>x_imageLength := imageLength, x_image := p\<rparr>
        in if p \<noteq> 0 then do {
             let (bs, pxiFile) = fread (unat imageLength) pxiFile;
             m \<leftarrow> store_bytes (p_mem pr) p bs;
             Some (section, pr\<lparr>p_mem := m\<rparr>) }
           else Some (section, pr))"

text \<open>\<open>x86_64reader\<close>; an invalid section is deleted, which frees a null pointer.\<close>

definition x86_64reader :: "allocator \<Rightarrow> byte list \<Rightarrow> WORD \<Rightarrow> WORD \<Rightarrow> (x86_section, process) reader" where
  "x86_64reader os junk junk_image junk_length pxiFile len pr = do {
     (section, pr) \<leftarrow> X86_64Section os junk junk_image junk_length pxiFile len pr;
     Some (if x_image section \<noteq> 0 then Some section else None, pr) }"

subsection \<open>Preparing the image\<close>

text \<open>The table of built-in functions: indices become addresses. An index above 50 crashes on purpose.\<close>

fun bind_builtins :: "(int32 \<Rightarrow> WORD option) \<Rightarrow> nat \<Rightarrow> WORD \<Rightarrow> memory \<Rightarrow> memory option" where
  "bind_builtins address_of 0 a m = Some m"
| "bind_builtins address_of (Suc n) a m = do {
     i \<leftarrow> load64 m a;
     if 50 < i then None
     else do {
       f \<leftarrow> address_of (to_int i);
       m \<leftarrow> store64 m a f;
       bind_builtins address_of n (a + 8) m } }"

fun place_vtables :: "WORD \<Rightarrow> nat \<Rightarrow> WORD \<Rightarrow> memory \<Rightarrow> memory option" where
  "place_vtables img 0 a m = Some m"
| "place_vtables img (Suc n) a m = do {
     v \<leftarrow> load64 m a;
     m \<leftarrow> store64 m a (v + img);
     place_vtables img n (a + 8) m }"

text \<open>The part of \<open>run\<close> before the code is called; relocations are not implemented and crash on purpose, and
  so does a refusal of \<open>VirtualProtect\<close>.\<close>

definition prepare_image :: "(int32 \<Rightarrow> WORD option) \<Rightarrow> bool \<Rightarrow> x86_section \<Rightarrow> memory \<Rightarrow> memory option" where
  "prepare_image address_of protected section m =
     (let header = x_header section; img = x_image section in do {
        m \<leftarrow> bind_builtins address_of (nat (sint (x_builtInCount header))) (img + of_int32 (x_builtInOffset header)) m;
        if 0 < sint (x_relocationCount header) then None
        else if \<not> protected then None
        else place_vtables img (nat (sint (x_vtableData header))) (img + of_int32 (x_vtablesOffset header)) m })"

subsection \<open>Exceptions\<close>

record exception_context =
  xc_exceptionAddress :: WORD
  xc_stackPointer :: WORD
  xc_framePointer :: WORD
  xc_stackBase :: WORD
  xc_memoryAddress :: "WORD option"
  xc_exceptionType :: "int32 option"
  xc_exceptionFlags :: "int32 option"
  xc_stackSize :: int

text \<open>The order of a location and the table entry at an address: the entry and the location of the next one.\<close>

definition comparatorCurrentIp :: "memory \<Rightarrow> int32 \<Rightarrow> WORD \<Rightarrow> int option" where
  "comparatorCurrentIp m location ee = do {
     l0 \<leftarrow> load32 m ee;
     if sint location < sint l0 then Some (- 1)
     else do { l1 \<leftarrow> load32 m (ee + 8); Some (if sint location < sint l1 then 0 else 1) } }"

definition comparatorReturnAddress :: "memory \<Rightarrow> int32 \<Rightarrow> WORD \<Rightarrow> int option" where
  "comparatorReturnAddress m location ee = do {
     l0 \<leftarrow> load32 m ee;
     if sint location < sint l0 then Some (- 1)
     else do { l1 \<leftarrow> load32 m (ee + 8); Some (if sint location \<le> sint l1 then 0 else 1) } }"

text \<open>\<open>bsearch\<close> of the C library, which halves the range.\<close>

function bsearch :: "(nat \<Rightarrow> int option) \<Rightarrow> nat \<Rightarrow> nat \<Rightarrow> nat option option" where
  "bsearch cmp lo hi =
     (if lo < hi then do {
        let i = (lo + hi) div 2;
        c \<leftarrow> cmp i;
        if c < 0 then bsearch cmp lo i
        else if 0 < c then bsearch cmp (i + 1) hi
        else Some (Some i) }
      else Some None)"
  by pat_completeness auto
termination
  by (relation "measure (\<lambda>(cmp, lo, hi). hi - lo)") auto

declare bsearch.simps [simp del]

text \<open>How \<open>throwException\<close> ends: every way but the first leads to \<open>exit(1)\<close>, and so does a handler that returns.\<close>

datatype thrown =
    To_handler WORD WORD
  | No_table
  | No_handler int32
  | Out_of_range WORD WORD WORD

text \<open>The loop over the frames. The first frame is searched with the current instruction, the others with the
  byte before the return address.\<close>

partial_function (option) unwind :: "memory \<Rightarrow> WORD \<Rightarrow> WORD \<Rightarrow> WORD \<Rightarrow> nat \<Rightarrow> WORD \<Rightarrow>
    (memory \<Rightarrow> int32 \<Rightarrow> WORD \<Rightarrow> int option) \<Rightarrow> WORD \<Rightarrow> WORD \<Rightarrow> WORD \<Rightarrow> thrown option" where
  "unwind m lowCode highCode ee n limit comparator low i rbp = do {
     let location = to_int (i - lowCode);
     found \<leftarrow> (if lowCode \<le> i \<and> i < highCode
               then bsearch (\<lambda>k. comparator m location (ee + 8 * of_nat k)) 0 n else Some None);
     case found of
       Some k \<Rightarrow> do {
         h \<leftarrow> load32 m (ee + 8 * of_nat k + 4);
         Some (if h \<noteq> 0 then To_handler (lowCode + of_int32 h) rbp else No_handler location) }
     | None \<Rightarrow>
         if rbp < low \<or> limit \<le> rbp then Some (Out_of_range rbp low i)
         else do {
           r \<leftarrow> load64 m (rbp + 8);
           f \<leftarrow> load64 m rbp;
           unwind m lowCode highCode ee n limit comparatorReturnAddress (rbp + 8) (r - 1) f } }"

definition exception_of :: "stack_state \<Rightarrow> vm \<Rightarrow> exception_context" where
  "exception_of state s =
     \<lparr>xc_exceptionAddress = fr_code (ss_frame state), xc_stackPointer = ss_sp state,
      xc_framePointer = fr_fp (ss_frame state), xc_stackBase = ss_sp state,
      xc_memoryAddress = ss_memoryAddress state, xc_exceptionType = ss_exceptionType state,
      xc_exceptionFlags = ss_exceptionFlags state, xc_stackSize = int (length (stackSnapshot s))\<rparr>"

text \<open>\<open>ec\<close> is the address of the new exception context, which lies outside the modelled memory. The record is
  only made, and the context only refers to it, when there is a handler to call.\<close>

definition throwException :: "X86_64SectionHeader \<Rightarrow> WORD \<Rightarrow> WORD \<Rightarrow> stack_state \<Rightarrow> vm \<Rightarrow>
    (thrown \<times> (WORD \<rightharpoonup> exception_context) \<times> vm) option" where
  "throwException header img ec state s =
     (let ee = img + of_int32 (x_exceptionsOffset header) in
      if x_exceptionsCount header = 0 then Some (No_table, Map.empty, s)
      else do {
        r \<leftarrow> unwind (mem s) img (img + of_int32 (x_builtInOffset header)) ee
               (unat (of_int32 (x_exceptionsCount header))) (ss_stackTop state) comparatorCurrentIp
               (ss_sp state) (fr_code (ss_frame state)) (fr_fp (ss_frame state));
        Some (case r of
          To_handler h rbp \<Rightarrow> (r, [ec \<mapsto> exception_of state s], s\<lparr>exceptionContext := ec\<rparr>)
        | _ \<Rightarrow> (r, Map.empty, s)) })"

text \<open>\<open>windowsExceptionHandler\<close>: the registers and the exception record come from Windows.\<close>

definition EXCEPTION_ACCESS_VIOLATION :: int32 where "EXCEPTION_ACCESS_VIOLATION = 0xC0000005"
definition EXCEPTION_IN_PAGE_ERROR :: int32 where "EXCEPTION_IN_PAGE_ERROR = 0xC0000006"

record exception_pointers =
  ep_Rbp :: WORD
  ep_Rip :: WORD
  ep_Rsp :: WORD
  ep_ExceptionCode :: int32
  ep_Information :: "WORD \<times> WORD"

definition pseudo_state :: "WORD \<Rightarrow> exception_pointers \<Rightarrow> stack_state \<Rightarrow> stack_state" where
  "pseudo_state junk_stack x saved =
     (let memory_error = ep_ExceptionCode x \<in> {EXCEPTION_ACCESS_VIOLATION, EXCEPTION_IN_PAGE_ERROR} in
      \<lparr>ss_sp = ep_Rsp x, ss_stack = junk_stack, ss_stackTop = ss_stackTop saved,
       ss_frame = \<lparr>fr_fp = ep_Rbp x, fr_code = ep_Rip x, fr_ip = - 1\<rparr>, ss_target = NATIVE_64_TARGET,
       ss_exceptionType = Some (ep_ExceptionCode x),
       ss_exceptionFlags = (if memory_error then Some (to_int (fst (ep_Information x))) else None),
       ss_memoryAddress = (if memory_error then Some (snd (ep_Information x)) else None)\<rparr>)"

text \<open>The snapshot is taken with the machine stack in place of the stack of the context, which is restored
  before the exception is thrown. A failed assertion of native code (\<open>builtInAssert\<close>) goes the same way
  with exception type 0.\<close>

definition throw_pseudo :: "X86_64SectionHeader \<Rightarrow> WORD \<Rightarrow> WORD \<Rightarrow> (stack_state \<Rightarrow> stack_state) \<Rightarrow> vm \<Rightarrow>
    (thrown \<times> (WORD \<rightharpoonup> exception_context) \<times> vm) option" where
  "throw_pseudo header img ec make_pseudo s =
     (let (saved, s) = unloadFrame s;
          pseudo = make_pseudo saved
      in do {
        s \<leftarrow> snapshot (ss_stackTop pseudo) (reloadFrame pseudo s);
        let s = reloadFrame saved s;
        throwException header img ec pseudo s })"

definition windowsExceptionHandler :: "X86_64SectionHeader \<Rightarrow> WORD \<Rightarrow> WORD \<Rightarrow> WORD \<Rightarrow> exception_pointers \<Rightarrow> vm \<Rightarrow>
    (thrown \<times> (WORD \<rightharpoonup> exception_context) \<times> vm) option" where
  "windowsExceptionHandler header img ec junk_stack x s = throw_pseudo header img ec (pseudo_state junk_stack x) s"

text \<open>\<open>&context\<close>, the address of a local variable, is the argument \<open>local_address\<close>: the saved frame pointer and
  the return address are at fixed slots above it.\<close>

definition assert_native :: "X86_64SectionHeader \<Rightarrow> WORD \<Rightarrow> WORD \<Rightarrow> WORD \<Rightarrow> WORD \<Rightarrow> vm \<Rightarrow>
    (thrown \<times> (WORD \<rightharpoonup> exception_context) \<times> vm) option" where
  "assert_native header img ec junk_stack local_address s = do {
     f \<leftarrow> load64 (mem s) (local_address + 8 * 15);
     r \<leftarrow> load64 (mem s) (local_address + 8 * 18);
     throw_pseudo header img ec
       (\<lambda>saved. \<lparr>ss_sp = local_address + 8 * 19, ss_stack = junk_stack, ss_stackTop = ss_stackTop saved,
          ss_frame = \<lparr>fr_fp = f, fr_code = r, fr_ip = - 1\<rparr>, ss_target = NATIVE_64_TARGET,
          ss_exceptionType = Some 0, ss_exceptionFlags = None, ss_memoryAddress = None\<rparr>) s }"

subsection \<open>Running\<close>

text \<open>The constructor for native code, which has room for two slots, and \<open>enter\<close>. The frame pointer and the
  trace flag of the new context are not set.\<close>

definition NativeContext :: "allocator \<Rightarrow> memory \<Rightarrow> (WORD \<rightharpoonup> nat) \<Rightarrow> bool \<Rightarrow> WORD \<Rightarrow> vm" where
  "NativeContext os m h tr junk_fp =
     (let p = os_malloc os m h 16; top = p + 16 in
      \<lparr>mem = (if p = 0 then m else add_block m p 16 (os_junk os)),
       heap = (if p = 0 then h else h(p \<mapsto> 16)),
       target = -1, objects = [], stack = p, stackTop = top,
       active = \<lparr>fr_fp = junk_fp, fr_code = 0, fr_ip = 0\<rparr>, sp = top, exceptionContext = 0,
       lastIp = 0, stackSnapshot = [], vm_args = [], vm_trace = tr, vm_out = Some []\<rparr>)"

definition enter :: "vm \<Rightarrow> vm" where
  "enter s = s\<lparr>target := NATIVE_64_TARGET\<rparr>"

text \<open>The machine code: from its entry point and its argument to what it returns, the context it leaves and
  the exception objects it made. A code that ends the process has no result.\<close>

type_synonym machine_code = "WORD \<Rightarrow> WORD \<Rightarrow> vm \<Rightarrow> (int32 \<times> vm \<times> (WORD \<rightharpoonup> exception_context)) option"

definition runNative :: "machine_code \<Rightarrow> WORD \<Rightarrow> WORD \<Rightarrow> vm \<Rightarrow> (int32 \<times> vm \<times> (WORD \<rightharpoonup> exception_context)) option" where
  "runNative native local_address start s =
     native start (sp s) (s\<lparr>target := NATIVE_64_TARGET, stackTop := local_address\<rparr>)"

definition evalNative :: "os \<Rightarrow> machine_code \<Rightarrow> bool \<Rightarrow> WORD \<Rightarrow> WORD \<Rightarrow> X86_64SectionHeader \<Rightarrow> WORD \<Rightarrow> string list \<Rightarrow> vm \<Rightarrow>
    (int32 \<times> vm \<times> (WORD \<rightharpoonup> exception_context)) option" where
  "evalNative os native junk_trace junk_fp local_address header img argv outer =
     (let context = NativeContext (allocator.truncate os) (mem outer) (heap outer) junk_trace junk_fp in do {
        context \<leftarrow> push_args (os_args_array os) argv context;
        (r, context, exceptions) \<leftarrow> runNative native local_address (img + of_int32 (x_entryPoint header)) context;
        let (ec, context) = set_exceptionContext 0 context;
        let outer = transferSnapshot context (snd (set_exceptionContext ec outer));
        context \<leftarrow> c_free (stack context) context;
        Some (r, outer\<lparr>mem := mem context, heap := heap context\<rparr>, exceptions) })"

subsection \<open>The report of an uncaught exception\<close>

text \<open>\<open>slot\<close>: a word of the copy of the stack, by its machine address.\<close>

definition copied_slot :: "exception_context \<Rightarrow> byte list \<Rightarrow> WORD \<Rightarrow> WORD option" where
  "copied_slot xc stackCopy a =
     (let k = unat (a - xc_stackBase xc) in
      if k + 8 \<le> length stackCopy then Some (from_bytes (take 8 (drop k stackCopy))) else None)"

text \<open>The frames, as code addresses relative to the image.\<close>

partial_function (option) stack_trace :: "exception_context \<Rightarrow> byte list \<Rightarrow> WORD \<Rightarrow> WORD \<Rightarrow> WORD \<Rightarrow> int32 list option" where
  "stack_trace xc stackCopy img f i =
     (if xc_stackPointer xc \<le> f \<and> f < xc_stackPointer xc + word_of_int (xc_stackSize xc) then do {
        nextFp \<leftarrow> copied_slot xc stackCopy f;
        r \<leftarrow> copied_slot xc stackCopy (f + 8);
        rest \<leftarrow> stack_trace xc stackCopy img nextFp r;
        Some (to_int (i - img) # rest) }
      else Some [])"

datatype native_result =
    Native_returned int32
  | Native_raised int32 exception_context "int32 list"

definition native_section_run :: "os \<Rightarrow> machine_code \<Rightarrow> (int32 \<Rightarrow> WORD option) \<Rightarrow> bool \<Rightarrow> string list \<Rightarrow> bool \<Rightarrow> bool \<Rightarrow> WORD \<Rightarrow>
    WORD \<Rightarrow> x86_section \<Rightarrow> process \<Rightarrow> native_result option" where
  "native_section_run os native address_of protected args tr junk_trace junk_fp local_address section pr =
     (let img = x_image section;
          s = enter (NativeContext (allocator.truncate os) (p_mem pr) (p_heap pr) junk_trace junk_fp)
      in do {
        m \<leftarrow> prepare_image address_of protected section (mem s);
        let s = s\<lparr>mem := m, vm_trace := tr\<rparr>;
        (r, s, exceptions) \<leftarrow>
          evalNative os native junk_trace junk_fp local_address (x_header section) img (drop 1 args) s;
        let (raised, s) = set_exceptionContext 0 (s\<lparr>vm_trace := False\<rparr>);
        if raised = 0 then Some (Native_returned r)
        else do {
          xc \<leftarrow> exceptions raised;
          stackCopy \<leftarrow> (if xc_stackSize xc \<le> int (length (stackSnapshot s))
                        then Some (take (nat (xc_stackSize xc)) (stackSnapshot s)) else None);
          frames \<leftarrow> stack_trace xc stackCopy img (xc_framePointer xc) (xc_exceptionAddress xc);
          Some (Native_raised r xc frames) } })"

end
