(* ===== verification/Native_Laws.thy ===== *)
theory Native_Laws
  imports Native_Code Demo Stack_Laws
begin

section \<open>Properties of native sections and of unwinding\<close>

text \<open>
  An exception of native code is described by the regions of the exception table and the frames on the
  machine stack: the first frame whose code address lies in a region gets the exception. The search of
  the table, the walk over the frames and its end are shown to follow that description. The image is
  prepared as its tables say and is otherwise left alone.
\<close>

subsection \<open>The exception table\<close>

text \<open>\<open>locs\<close> are the locations of the entries and the mark behind the table, \<open>hs\<close> the handlers.\<close>

definition exception_table :: "memory \<Rightarrow> WORD \<Rightarrow> int32 list \<Rightarrow> int32 list \<Rightarrow> bool" where
  "exception_table m ee locs hs \<longleftrightarrow>
     length locs = length hs + 1 \<and>
     (\<forall>k<length locs. load32 m (ee + 8 * of_nat k) = Some (locs ! k)) \<and>
     (\<forall>k<length hs. load32 m (ee + 8 * of_nat k + 4) = Some (hs ! k)) \<and>
     (\<forall>k<length hs. sint (locs ! k) < sint (locs ! (k + 1)))"

definition region :: "int32 list \<Rightarrow> int32 \<Rightarrow> nat \<Rightarrow> bool" where
  "region locs l k \<longleftrightarrow> sint (locs ! k) \<le> sint l \<and> sint l < sint (locs ! (k + 1))"

lemma locations_ascend:
  assumes "exception_table m ee locs hs" "k < length locs"
  shows "j < k \<Longrightarrow> sint (locs ! j) < sint (locs ! k)"
  using assms(2)
proof (induction k)
  case (Suc k)
  have "sint (locs ! k) < sint (locs ! Suc k)" using assms(1) Suc.prems by (auto simp: exception_table_def)
  then show ?case using Suc by (cases "j = k") auto
qed simp

lemma current_order:
  assumes "exception_table m ee locs hs" "k < length hs"
  shows "comparatorCurrentIp m l (ee + 8 * of_nat k) =
    Some (if sint l < sint (locs ! k) then - 1 else if sint l < sint (locs ! (k + 1)) then 0 else 1)"
proof -
  have "load32 m (ee + 8 * of_nat k) = Some (locs ! k)" "load32 m (ee + 8 * of_nat (k + 1)) = Some (locs ! (k + 1))"
    using assms by (simp_all add: exception_table_def del: of_nat_Suc)
  then show ?thesis by (simp add: comparatorCurrentIp_def algebra_simps)
qed

lemma return_order:
  assumes "exception_table m ee locs hs" "k < length hs"
  shows "comparatorReturnAddress m l (ee + 8 * of_nat k) =
    Some (if sint l < sint (locs ! k) then - 1 else if sint l \<le> sint (locs ! (k + 1)) then 0 else 1)"
proof -
  have "load32 m (ee + 8 * of_nat k) = Some (locs ! k)" "load32 m (ee + 8 * of_nat (k + 1)) = Some (locs ! (k + 1))"
    using assms by (simp_all add: exception_table_def del: of_nat_Suc)
  then show ?thesis by (simp add: comparatorReturnAddress_def algebra_simps)
qed

text \<open>The search of the library, on a table that the order divides.\<close>

lemma bsearch_hit:
  "lo \<le> k \<Longrightarrow> k < hi \<Longrightarrow> \<forall>i. lo \<le> i \<and> i < hi \<longrightarrow> cmp i = Some (if i < k then 1 else if i = k then 0 else - 1 :: int) \<Longrightarrow>
   bsearch cmp lo hi = Some (Some k)"
proof (induction cmp lo hi rule: bsearch.induct)
  case (1 cmp lo hi)
  let ?i = "(lo + hi) div 2"
  have i: "lo \<le> ?i" "?i < hi" using 1(3,4) by auto
  then have c: "cmp ?i = Some (if ?i < k then 1 else if ?i = k then 0 else - 1)" using 1(5) by blast
  show ?case
    using 1(1) [of ?i, OF _ refl c] 1(2) [of ?i, OF _ refl c] 1(3-5) c i
    by (subst bsearch.simps) (simp add: Let_def)
qed

lemma bsearch_miss:
  "\<forall>i. lo \<le> i \<and> i < hi \<longrightarrow> cmp i = Some (if i < k then 1 else - 1 :: int) \<Longrightarrow> bsearch cmp lo hi = Some None"
proof (induction cmp lo hi rule: bsearch.induct)
  case (1 cmp lo hi)
  let ?i = "(lo + hi) div 2"
  show ?case
  proof (cases "lo < hi")
    case True
    then have i: "lo \<le> ?i" "?i < hi" by auto
    then have c: "cmp ?i = Some (if ?i < k then 1 else - 1)" using 1(3) by blast
    show ?thesis
      using 1(1) [OF True refl c] 1(2) [OF True refl c] 1(3) c i True
      by (subst bsearch.simps) (simp add: Let_def)
  next
    case False
    then show ?thesis by (subst bsearch.simps) simp
  qed
qed

lemma bsearch_total:
  "\<forall>i. lo \<le> i \<and> i < hi \<longrightarrow> cmp i \<noteq> None \<Longrightarrow> \<exists>r. bsearch cmp lo hi = Some r \<and> (\<forall>k. r = Some k \<longrightarrow> k < hi)"
proof (induction cmp lo hi rule: bsearch.induct)
  case (1 cmp lo hi)
  let ?i = "(lo + hi) div 2"
  show ?case
  proof (cases "lo < hi")
    case True
    then have i: "lo \<le> ?i" "?i < hi" by auto
    then obtain c where c: "cmp ?i = Some c" using 1(3) by blast
    consider "c < 0" | "0 < c" | "c = 0" by linarith
    then show ?thesis
    proof cases
      case 1
      then have "bsearch cmp lo hi = bsearch cmp lo ?i" using True c by (subst bsearch.simps) (simp add: Let_def)
      moreover have "\<forall>j. lo \<le> j \<and> j < ?i \<longrightarrow> cmp j \<noteq> None" using "1.prems" i by auto
      ultimately show ?thesis using "1.IH"(1) [OF True refl c 1] i by fastforce
    next
      case 2
      then have "bsearch cmp lo hi = bsearch cmp (?i + 1) hi" using True c by (subst bsearch.simps) (simp add: Let_def)
      moreover have "\<forall>j. ?i + 1 \<le> j \<and> j < hi \<longrightarrow> cmp j \<noteq> None" using "1.prems" i by auto
      ultimately show ?thesis using "1.IH"(2) [OF True refl c _ 2] 2 by simp
    next
      case 3
      then have "bsearch cmp lo hi = Some (Some ?i)" using True c by (subst bsearch.simps) (simp add: Let_def)
      then show ?thesis using i by simp
    qed
  next
    case False
    then show ?thesis by (subst bsearch.simps) simp
  qed
qed

definition find_region :: "int32 list \<Rightarrow> int32 \<Rightarrow> nat option" where
  "find_region locs l = find (region locs l) [0..<length locs - 1]"

text \<open>A comparator orders a location and the entries of a table when it answers 0 in the region only.\<close>

definition orders :: "(int32 \<Rightarrow> WORD \<Rightarrow> int option) \<Rightarrow> WORD \<Rightarrow> int32 list \<Rightarrow> int32 \<Rightarrow> bool" where
  "orders cmp ee locs l \<longleftrightarrow> (\<forall>k. k + 1 < length locs \<longrightarrow>
     cmp l (ee + 8 * of_nat k) =
       Some (if sint l < sint (locs ! k) then - 1 else if sint l < sint (locs ! (k + 1)) then 0 else 1))"

lemma current_orders: "exception_table m ee locs hs \<Longrightarrow> orders (comparatorCurrentIp m) ee locs l"
  using current_order [of m ee locs hs] by (auto simp: orders_def exception_table_def)

lemma return_orders:
  "exception_table m ee locs hs \<Longrightarrow> l \<notin> set (tl locs) \<Longrightarrow> orders (comparatorReturnAddress m) ee locs l"
  unfolding orders_def
proof (intro allI impI)
  fix k
  assume t: "exception_table m ee locs hs" and l: "l \<notin> set (tl locs)" and k: "k + 1 < length locs"
  have "tl locs ! k \<in> set (tl locs)" using k by (intro nth_mem) simp
  then have "l \<noteq> locs ! (k + 1)" using l k by (auto simp: nth_tl)
  then have "sint l \<noteq> sint (locs ! (k + 1))" by (simp add: sint_inject)
  then have "sint l \<le> sint (locs ! (k + 1)) \<longleftrightarrow> sint l < sint (locs ! (k + 1))" by auto
  moreover have "k < length hs" using t k by (simp add: exception_table_def)
  ultimately show "comparatorReturnAddress m l (ee + 8 * of_nat k) =
      Some (if sint l < sint (locs ! k) then - 1 else if sint l < sint (locs ! (k + 1)) then 0 else 1)"
    using return_order [OF t] by simp
qed

lemma region_unique:
  assumes t: "exception_table m ee locs hs" and "region locs l j" "region locs l k" "j < length hs" "k < length hs"
  shows "j = k"
proof (rule ccontr)
  have len: "length locs = length hs + 1" using t by (simp add: exception_table_def)
  have mono: "i < i' \<Longrightarrow> i' < length locs \<Longrightarrow> sint (locs ! i) < sint (locs ! i')" for i i'
    using locations_ascend [OF t, of i' i] by simp
  assume "j \<noteq> k"
  then consider "j < k" | "k < j" by linarith
  then show False
  proof cases
    case 1
    then have "sint (locs ! (j + 1)) \<le> sint (locs ! k)" using mono [of "j + 1" k] assms len by (cases "j + 1 = k") auto
    then show False using assms(2,3) by (auto simp: region_def)
  next
    case 2
    then have "sint (locs ! (k + 1)) \<le> sint (locs ! j)" using mono [of "k + 1" j] assms len by (cases "k + 1 = j") auto
    then show False using assms(2,3) by (auto simp: region_def)
  qed
qed

text \<open>Outside all regions a location is below the table or behind it.\<close>

lemma outside_table:
  assumes t: "exception_table m ee locs hs" and out: "\<forall>k<length hs. \<not> region locs l k"
  shows "(\<forall>k<length hs. sint l < sint (locs ! k)) \<or> (\<forall>k<length hs. sint (locs ! (k + 1)) \<le> sint l)"
proof (cases "hs \<noteq> [] \<and> sint (locs ! 0) \<le> sint l")
  case True
  have "k \<le> length hs \<Longrightarrow> sint (locs ! k) \<le> sint l" for k
    using True out by (induction k) (auto simp: region_def not_less)
  then show ?thesis by auto
next
  case False
  have "sint l < sint (locs ! k)" if k: "k < length hs" for k
  proof -
    have "k < length locs" using t k by (simp add: exception_table_def)
    then have "sint (locs ! 0) \<le> sint (locs ! k)" using locations_ascend [OF t, of k 0] by (cases k) auto
    then show ?thesis using False k by auto
  qed
  then show ?thesis by blast
qed

lemma find_region_Some:
  assumes "exception_table m ee locs hs" "find_region locs l = Some k"
  shows "k < length hs \<and> region locs l k"
  using assms by (auto simp: find_region_def exception_table_def find_Some_iff)

lemma find_region_None:
  assumes "exception_table m ee locs hs" "find_region locs l = None"
  shows "\<forall>k<length hs. \<not> region locs l k"
  using assms by (auto simp: find_region_def exception_table_def find_None_iff)

lemma table_search:
  assumes t: "exception_table m ee locs hs" and o: "orders cmp ee locs l"
  shows "bsearch (\<lambda>k. cmp l (ee + 8 * of_nat k)) 0 (length hs) = Some (find_region locs l)"
proof -
  have len: "length locs = length hs + 1" using t by (simp add: exception_table_def)
  have c: "cmp l (ee + 8 * of_nat k) =
      Some (if sint l < sint (locs ! k) then - 1 else if sint l < sint (locs ! (k + 1)) then 0 else 1)"
    if "k < length hs" for k using o that len by (simp add: orders_def)
  show ?thesis
  proof (cases "find_region locs l")
    case (Some k)
    note k = find_region_Some [OF t Some]
    have "cmp l (ee + 8 * of_nat i) = Some (if i < k then 1 else if i = k then 0 else - 1)" if i: "i < length hs" for i
    proof -
      have mono: "a \<le> b \<Longrightarrow> b < length locs \<Longrightarrow> sint (locs ! a) \<le> sint (locs ! b)" for a b
        using locations_ascend [OF t, of b a] by (cases "a = b") auto
      consider "i < k" | "i = k" | "k < i" by linarith
      then show ?thesis
        using c [OF i] k mono [of "i + 1" k] mono [of "k + 1" i] mono [of i k] i len by cases (auto simp: region_def)
    qed
    then show ?thesis using bsearch_hit [of 0 k "length hs"] k Some by simp
  next
    case None
    consider "\<forall>k<length hs. sint l < sint (locs ! k)" | "\<forall>k<length hs. sint (locs ! (k + 1)) \<le> sint l"
      using outside_table [OF t find_region_None [OF t None]] by blast
    then show ?thesis
    proof cases
      case 1
      then show ?thesis using bsearch_miss [of 0 "length hs" _ 0] c None by simp
    next
      case 2
      have "cmp l (ee + 8 * of_nat i) = Some 1" if i: "i < length hs" for i
      proof -
        have "sint (locs ! i) < sint (locs ! (i + 1))" using t i by (simp add: exception_table_def)
        then show ?thesis using c [OF i] 2 i by auto
      qed
      then show ?thesis using bsearch_miss [of 0 "length hs" _ "length hs"] None by simp
    qed
  qed
qed

subsection \<open>Frames\<close>

text \<open>The frames above \<open>low\<close>, up to the first frame pointer that leaves the stack: the code address and the
  frame pointer of each. A frame saves the frame pointer of its caller and the return address.\<close>

fun linked :: "memory \<Rightarrow> WORD \<Rightarrow> WORD \<Rightarrow> WORD \<Rightarrow> (WORD \<times> WORD) list \<Rightarrow> bool" where
  "linked m limit low f [] \<longleftrightarrow> f < low \<or> limit \<le> f"
| "linked m limit low f ((i, g) # fs) \<longleftrightarrow>
     low \<le> f \<and> f < limit \<and> load64 m (f + 8) = Some (i + 1) \<and> load64 m f = Some g \<and> linked m limit (f + 8) g fs"

text \<open>What unwinding comes to, read off the table and the frames.\<close>

fun unwound :: "WORD \<Rightarrow> WORD \<Rightarrow> int32 list \<Rightarrow> int32 list \<Rightarrow> WORD \<Rightarrow> WORD \<Rightarrow> WORD \<Rightarrow> (WORD \<times> WORD) list \<Rightarrow> thrown" where
  "unwound img highCode locs hs low i f fs =
     (case (if img \<le> i \<and> i < highCode then find_region locs (to_int (i - img)) else None) of
        Some k \<Rightarrow> if hs ! k \<noteq> 0 then To_handler (img + of_int32 (hs ! k)) f else No_handler (to_int (i - img))
      | None \<Rightarrow> (case fs of
          [] \<Rightarrow> Out_of_range f low i
        | (j, g) # rest \<Rightarrow> unwound img highCode locs hs (f + 8) j g rest))"

declare unwound.simps [simp del]

lemma unwind_law:
  assumes t: "exception_table m ee locs hs"
  shows "linked m limit low f fs \<Longrightarrow> orders (cmp m) ee locs (to_int (i - img)) \<Longrightarrow>
    \<forall>(j, g)\<in>set fs. to_int (j - img) \<notin> set (tl locs) \<Longrightarrow>
    unwind m img highCode ee (length hs) limit cmp low i f = Some (unwound img highCode locs hs low i f fs)"
proof (induction fs arbitrary: low f i cmp)
  case Nil
  have handler: "find_region locs l = Some k \<Longrightarrow> load32 m (ee + 8 * of_nat k + 4) = Some (hs ! k)" for l k
    using t find_region_Some [OF t] by (auto simp: exception_table_def)
  show ?case
    using Nil table_search [OF t Nil.prems(2)] handler
    by (subst unwind.simps) (auto simp: unwound.simps [of _ _ _ _ _ _ _ "[]"] Let_def split: option.splits)
next
  case (Cons a fs)
  obtain j g where a: "a = (j, g)" by fastforce
  have handler: "find_region locs l = Some k \<Longrightarrow> load32 m (ee + 8 * of_nat k + 4) = Some (hs ! k)" for l k
    using t find_region_Some [OF t] by (auto simp: exception_table_def)
  have "unwind m img highCode ee (length hs) limit comparatorReturnAddress (f + 8) j g =
      Some (unwound img highCode locs hs (f + 8) j g fs)"
    using Cons.prems a return_orders [OF t] by (intro Cons.IH) auto
  then show ?case
    using Cons.prems table_search [OF t Cons.prems(2)] handler a
    by (subst unwind.simps) (auto simp: unwound.simps [of _ _ _ _ _ _ _ "(j, g) # fs"] Let_def split: option.splits)
qed

text \<open>Every stack has its chain of frames: frame pointers ascend, so it ends.\<close>

lemma chain_exists:
  assumes "\<forall>a. low0 \<le> a \<and> a < limit \<longrightarrow> mapped m a 16" "unat limit + 8 \<le> 2 ^ 64"
  shows "low0 \<le> low \<Longrightarrow> \<exists>fs. linked m limit low f fs"
proof (induction "unat limit - unat low" arbitrary: low f rule: less_induct)
  case less
  show ?case
  proof (cases "f < low \<or> limit \<le> f")
    case True
    then show ?thesis by (intro exI [of _ "[]"]) simp
  next
    case False
    then have f: "low \<le> f" "f < limit" by auto
    then have "unat f + 8 < 2 ^ 64" using assms(2) by (simp add: word_less_nat_alt)
    then have u: "unat (f + 8) = unat f + 8" using unat_add_lem [of f 8] by simp
    then have next_low: "low0 \<le> f + 8" "unat limit - unat (f + 8) < unat limit - unat low"
      using f less.prems by (auto simp: word_le_nat_alt word_less_nat_alt)
    have "mapped m f 16" using assms(1) f less.prems by (meson order_trans)
    then have m: "mapped m f 8" "mapped m (f + 8) 8"
      using mapped_mono [of m f 16 8] by (auto simp: mapped_def add.assoc dest: spec [where x = "8 + _"])
    obtain g where g: "load64 m f = Some g" using load64_defined [OF m(1)] by blast
    obtain r where r: "load64 m (f + 8) = Some r" using load64_defined [OF m(2)] by blast
    obtain fs where "linked m limit (f + 8) g fs" using less.hyps [OF next_low(2,1)] by blast
    then show ?thesis using f g r by (intro exI [of _ "(r - 1, g) # fs"]) simp
  qed
qed

text \<open>The walk over a chain ends for any comparator that reads the table.\<close>

lemma unwind_total:
  assumes t: "exception_table m ee locs hs"
  shows "linked m limit low f fs \<Longrightarrow> cmp \<in> {comparatorCurrentIp, comparatorReturnAddress} \<Longrightarrow>
    \<exists>r. unwind m img highCode ee (length hs) limit cmp low i f = Some r"
proof (induction fs arbitrary: low f i cmp)
  case Nil
  have "\<forall>k. 0 \<le> k \<and> k < length hs \<longrightarrow> cmp m l (ee + 8 * of_nat k) \<noteq> None" for l
    using current_order [OF t] return_order [OF t] Nil.prems(2) by auto
  from bsearch_total [OF this] obtain r where
    "bsearch (\<lambda>k. cmp m (to_int (i - img)) (ee + 8 * of_nat k)) 0 (length hs) = Some r" "\<forall>k. r = Some k \<longrightarrow> k < length hs"
    by blast
  then show ?case using Nil.prems(1) t
    by (subst unwind.simps) (auto simp: Let_def exception_table_def split: option.splits)
next
  case (Cons a fs)
  obtain j g where a: "a = (j, g)" by fastforce
  have "\<forall>k. 0 \<le> k \<and> k < length hs \<longrightarrow> cmp m l (ee + 8 * of_nat k) \<noteq> None" for l
    using current_order [OF t] return_order [OF t] Cons.prems(2) by auto
  from bsearch_total [OF this] obtain r where
    "bsearch (\<lambda>k. cmp m (to_int (i - img)) (ee + 8 * of_nat k)) 0 (length hs) = Some r" "\<forall>k. r = Some k \<longrightarrow> k < length hs"
    by blast
  moreover obtain r' where "unwind m img highCode ee (length hs) limit comparatorReturnAddress (f + 8) j g = Some r'"
    using Cons.IH [of "f + 8" g comparatorReturnAddress j] Cons.prems(1) a by auto
  ultimately show ?case using Cons.prems(1) t a
    by (subst unwind.simps) (auto simp: Let_def exception_table_def split: option.splits)
qed

text \<open>C12: An exception of native code goes to the first frame that the table covers: whatever the machine stack and
  the table hold, the Windows exception handler unwinds as the description \<open>unwound\<close> says, starting from the
  registers of the exception. Its snapshot is the stack from the stack pointer to its top. When a handler is
  found the context refers to a new record of the exception, with the registers and the size of the
  snapshot, otherwise there is none; nothing else of the context changes. No return
  address minus one may be a mark of the table: it lies inside a call instruction and marks are at the
  first byte of one.\<close>

theorem exception_dispatched:
  assumes t: "exception_table (mem s) (img + of_int32 (x_exceptionsOffset header)) locs hs"
    and n: "length hs = unat (of_int32 (x_exceptionsCount header))" "hs \<noteq> []"
    and fs: "linked (mem s) (stackTop s) (ep_Rsp x) (ep_Rbp x) fs"
    and marks: "\<forall>(j, g)\<in>set fs. to_int (j - img) \<notin> set (tl locs)"
    and snap: "0 \<le> sint (to_int (stackTop s - ep_Rsp x))"
      "load_bytes (mem s) (ep_Rsp x) (nat (sint (to_int (stackTop s - ep_Rsp x)))) = Some bs"
    and r: "unwound img (img + of_int32 (x_builtInOffset header)) locs hs (ep_Rsp x) (ep_Rip x) (ep_Rbp x) fs = r"
  shows "\<exists>xc. windowsExceptionHandler header img ec junk x s =
      Some (case r of
        To_handler h rbp \<Rightarrow> (r, [ec \<mapsto> xc], s\<lparr>stackSnapshot := bs, exceptionContext := ec\<rparr>)
      | _ \<Rightarrow> (r, Map.empty, s\<lparr>stackSnapshot := bs\<rparr>)) \<and>
    xc_exceptionAddress xc = ep_Rip x \<and> xc_framePointer xc = ep_Rbp x \<and> xc_stackPointer xc = ep_Rsp x \<and>
    xc_exceptionType xc = Some (ep_ExceptionCode x) \<and> xc_stackSize xc = int (length bs)"
proof -
  have count: "x_exceptionsCount header \<noteq> 0" using n by auto
  have "unwind (mem s) img (img + of_int32 (x_builtInOffset header)) (img + of_int32 (x_exceptionsOffset header))
      (length hs) (stackTop s) comparatorCurrentIp (ep_Rsp x) (ep_Rip x) (ep_Rbp x) =
    Some (unwound img (img + of_int32 (x_builtInOffset header)) locs hs (ep_Rsp x) (ep_Rip x) (ep_Rbp x) fs)"
    by (rule unwind_law [where cmp = comparatorCurrentIp, OF t fs current_orders [OF t] marks])
  then show ?thesis
    using count snap n(1) r
    by (intro exI [of _ "exception_of (pseudo_state junk x (fst (unloadFrame s))) (s\<lparr>stackSnapshot := bs\<rparr>)"], cases r)
      (simp_all add: windowsExceptionHandler_def throw_pseudo_def unloadFrame_def pseudo_state_def Let_def snapshot_def
        reloadFrame_def throwException_def exception_of_def)
qed

text \<open>C13: The search for a handler ends: with a table in memory and a mapped stack \<open>throwException\<close> comes to one of its
  ends, whatever the frames hold, cycles and wild frame pointers included.\<close>

theorem unwinding_ends:
  assumes "exception_table (mem s) (img + of_int32 (x_exceptionsOffset header)) locs hs"
    and "length hs = unat (of_int32 (x_exceptionsCount header))"
    and "\<forall>a. ss_sp state \<le> a \<and> a < ss_stackTop state \<longrightarrow> mapped (mem s) a 16" "unat (ss_stackTop state) + 8 \<le> 2 ^ 64"
  shows "\<exists>r xc s'. throwException header img ec state s = Some (r, xc, s')"
proof -
  obtain fs where "linked (mem s) (ss_stackTop state) (ss_sp state) (fr_fp (ss_frame state)) fs"
    using chain_exists [OF assms(3,4)] by blast
  from unwind_total [OF assms(1) this, of comparatorCurrentIp img "img + of_int32 (x_builtInOffset header)"
      "fr_code (ss_frame state)"] obtain r where
    "unwind (mem s) img (img + of_int32 (x_builtInOffset header)) (img + of_int32 (x_exceptionsOffset header))
      (length hs) (ss_stackTop state) comparatorCurrentIp (ss_sp state) (fr_code (ss_frame state))
      (fr_fp (ss_frame state)) = Some r" by blast
  then show ?thesis using assms(2) by (cases r) (simp_all add: throwException_def Let_def)
qed

subsection \<open>An exception on a small stack\<close>

text \<open>A table of one region, 0 to 16, with its handler at 64; the function that fails was called from the region.\<close>

definition demo_header :: X86_64SectionHeader where
  "demo_header = (read_x86_header (replicate 56 0))\<lparr>x_builtInOffset := 256, x_exceptionsCount := 1\<rparr>"

definition demo_native :: vm where
  "demo_native = demo [0, 0, 0, 0, 64, 0, 0, 0, 16, 0, 0, 0] [0x40080, 0x20006]"

definition demo_exception :: exception_pointers where
  "demo_exception = \<lparr>ep_Rbp = 0x40070, ep_Rip = 0x20050, ep_Rsp = 0x40070, ep_ExceptionCode = 0, ep_Information = (0, 0)\<rparr>"

lemma demo_header_fields:
  "x_exceptionsCount demo_header = 1" "x_exceptionsOffset demo_header = 0" "x_builtInOffset demo_header = 256"
  by (simp_all add: demo_header_def read_x86_header_def int_field_def numeral_eq_Suc)

lemma demo_native_fields: "stackTop demo_native = 0x40080" "sp demo_native = 0x40070"
  by (simp_all add: demo_native_def demo_fields)

lemma demo_table: "exception_table (mem demo_native) 0x20000 [0, 16] [64]"
proof -
  let ?cs = "[0, 0, 0, 0, 64, 0, 0, 0, 16, 0, 0, 0] :: byte list"
  have "load32 (mem demo_native) 0x20000 = Some 0" "load32 (mem demo_native) 0x20004 = Some 64"
    "load32 (mem demo_native) 0x20008 = Some 16"
    using demo_int [of 0 ?cs] demo_int [of 4 ?cs] demo_int [of 8 ?cs] by (simp_all add: demo_native_def)
  then show ?thesis by (simp add: exception_table_def less_Suc_eq)
qed

lemma demo_frames: "linked (mem demo_native) 0x40080 0x40070 0x40070 [(0x20005, 0x40080)]"
proof -
  note d = demo_ok [of "[0x40080, 0x20006]" "[0, 0, 0, 0, 64, 0, 0, 0, 16, 0, 0, 0]", folded demo_native_def]
  have "depth demo_native = 2" using d(2) length_stk [of demo_native] by simp
  then have "load64 (mem demo_native) (0x40070 + 8 * of_nat 0) = Some 0x40080"
    "load64 (mem demo_native) (0x40070 + 8 * of_nat 1) = Some 0x20006"
    using load_slot [of demo_native 0] load_slot [of demo_native 1] d by (simp_all add: demo_native_fields)
  then show ?thesis by simp
qed

lemma demo_stack_mapped: "mapped (mem demo_native) 0x40000 128"
  using demo_ok(1) [of "[0x40080, 0x20006]" "[0, 0, 0, 0, 64, 0, 0, 0, 16, 0, 0, 0]"]
  by (simp add: stack_ok_def demo_native_def demo_fields)

lemma exception_dispatched_witness:
  "\<exists>xc s'. windowsExceptionHandler demo_header 0x20000 0x90000 0 demo_exception demo_native =
     Some (To_handler 0x20040 0x40080, [0x90000 \<mapsto> xc], s') \<and> exceptionContext s' = 0x90000 \<and> xc_stackSize xc = 16"
proof -
  have "mapped (mem demo_native) 0x40070 16" by (rule mapped_sub [OF demo_stack_mapped]) simp
  then obtain bs where bs: "load_bytes (mem demo_native) 0x40070 16 = Some bs" using load_bytes_defined by blast
  have sizes: "nat (sint (to_int (0x40080 - 0x40070))) = 16" "length bs = 16" using load_bytes_length [OF bs] by simp_all
  have "find_region [0, 16] 0x50 = None" "find_region [0, 16] 5 = Some 0"
    by (simp_all add: find_region_def region_def)
  then have "unwound 0x20000 0x20100 [0, 16] [64] 0x40070 0x20050 0x40070 [(0x20005, 0x40080)] = To_handler 0x20040 0x40080"
    by (simp add: unwound.simps)
  then show ?thesis
    using exception_dispatched [where s = demo_native and img = "0x20000" and header = demo_header and locs = "[0, 16]" and
        hs = "[64]" and x = demo_exception and fs = "[(0x20005, 0x40080)]" and bs = bs and junk = 0 and ec = "0x90000" and r = "To_handler 0x20040 0x40080"]
      demo_table demo_frames bs sizes
    by (auto simp: demo_header_fields demo_native_fields demo_exception_def)
qed

lemma unwinding_ends_witness:
  "\<exists>r xc s'. throwException demo_header 0x20000 0x90000
     ((pseudo_state 0 demo_exception (fst (unloadFrame demo_native)))\<lparr>ss_sp := 0x40000, ss_stackTop := 0x40071\<rparr>) demo_native = Some (r, xc, s')"
proof (rule unwinding_ends [where locs = "[0, 16]" and hs = "[64]"])
  have "mapped (mem demo_native) a 16" if "0x40000 \<le> a" "a < 0x40071" for a
  proof (rule mapped_sub [OF demo_stack_mapped])
    have "unat a < 0x40071" "0x40000 \<le> unat a" using that by (simp_all add: word_less_nat_alt word_le_nat_alt)
    then show "unat (a - 0x40000) + 16 \<le> 128" using that by (simp add: unat_sub)
  qed
  then show "\<forall>a. ss_sp ((pseudo_state 0 demo_exception (fst (unloadFrame demo_native)))\<lparr>ss_sp := 0x40000, ss_stackTop := 0x40071\<rparr>) \<le> a \<and>
      a < ss_stackTop ((pseudo_state 0 demo_exception (fst (unloadFrame demo_native)))\<lparr>ss_sp := 0x40000, ss_stackTop := 0x40071\<rparr>) \<longrightarrow>
      mapped (mem demo_native) a 16" by simp
qed (use demo_table in \<open>simp_all add: demo_header_fields\<close>)

subsection \<open>Preparing the image\<close>

text \<open>Storing a word leaves the words behind it and everything else alone.\<close>

lemma unat_above: "unat (x - (a + 8)) = (if unat (x - a) < 8 then unat (x - a) + (2 ^ 64 - 8) else unat (x - a) - 8)"
  for x a :: WORD
proof -
  have e: "x - (a + 8) = (x - a) - 8" by simp
  show ?thesis
  proof (cases "unat (x - a) < 8")
    case True
    then have "unat ((x - a) - 8) = 2 ^ 64 + unat (x - a) - 8"
      using unat_sub_if_size [of "x - a" 8] by (simp add: word_size)
    then show ?thesis unfolding e using True by simp
  next
    case False
    then have "(8 :: WORD) \<le> x - a" by (simp add: word_le_nat_alt)
    then have "unat ((x - a) - 8) = unat (x - a) - 8" by (simp add: unat_sub)
    then show ?thesis unfolding e using False by simp
  qed
qed

lemma load_words_other:
  "(\<And>x. unat (x - a) < 8 * n \<Longrightarrow> m' x = m x) \<Longrightarrow> 8 * n \<le> 2 ^ 64 \<Longrightarrow> load_words m' a n = load_words m a n"
proof (induction n arbitrary: a)
  case (Suc n)
  have "load_bytes m' a 8 = load_bytes m a 8"
  proof -
    have "m' (a + of_nat i) = m (a + of_nat i)" if "i < 8" for i
      using Suc.prems(1) [of "a + of_nat i"] unat_offset [of i] that by simp
    then have "load_bytes m' a 8 = Some cs \<longleftrightarrow> load_bytes m a 8 = Some cs" for cs by (auto simp: load_bytes_iff)
    then show ?thesis by (metis option.exhaust)
  qed
  then have "load64 m' a = load64 m a" by (simp add: load64_def)
  moreover have "load_words m' (a + 8) n = load_words m (a + 8) n"
  proof (rule Suc.IH)
    fix x
    assume x: "unat (x - (a + 8)) < 8 * n"
    then have "unat (x - a) < 8 * Suc n" using unat_above [of x a] Suc.prems(2) by (auto split: if_splits)
    then show "m' x = m x" by (rule Suc.prems(1))
  qed (use Suc.prems(2) in simp)
  ultimately show ?case by simp
qed simp

lemma load_words_length: "load_words m a n = Some ws \<Longrightarrow> length ws = n"
  by (induction n arbitrary: a ws) (auto split: bind_splits)

text \<open>A loop that replaces every word of a table by a function of it.\<close>

definition replaces :: "(nat \<Rightarrow> WORD \<Rightarrow> memory \<Rightarrow> memory option) \<Rightarrow> (WORD \<Rightarrow> WORD option) \<Rightarrow> bool" where
  "replaces loop g \<longleftrightarrow>
     (\<forall>a m. loop 0 a m = Some m) \<and>
     (\<forall>n a m w v m'. load64 m a = Some w \<longrightarrow> g w = Some v \<longrightarrow> store64 m a v = Some m' \<longrightarrow> loop (Suc n) a m = loop n (a + 8) m')"

lemma replaces_law:
  assumes "replaces loop g"
  shows "load_words m a n = Some ws \<Longrightarrow> \<forall>w\<in>set ws. g w \<noteq> None \<Longrightarrow> 8 * n \<le> 2 ^ 64 \<Longrightarrow>
    \<exists>m'. loop n a m = Some m' \<and> load_words m' a n = Some (map (\<lambda>w. the (g w)) ws) \<and>
      (\<forall>x. 8 * n \<le> unat (x - a) \<longrightarrow> m' x = m x)"
proof (induction n arbitrary: a m ws)
  case 0
  then show ?case using assms by (auto simp: replaces_def)
next
  case (Suc n)
  obtain w ws' where w: "load64 m a = Some w" "load_words m (a + 8) n = Some ws'" "ws = w # ws'"
    using Suc.prems(1) by (auto split: bind_splits)
  obtain v where v: "g w = Some v" using Suc.prems(2) w(3) by auto
  have "mapped m a 8" using w(1) load_bytes_defined by (auto simp: load64_def)
  then obtain m1 where m1: "store64 m a v = Some m1" using store64_defined by blast
  have "load_words m1 (a + 8) n = load_words m (a + 8) n"
  proof (rule load_words_other)
    fix x
    assume "unat (x - (a + 8)) < 8 * n"
    then have "\<not> unat (x - a) < 8" using unat_above [of x a] Suc.prems(3) by (auto split: if_splits)
    then show "m1 x = m x" using store64_get [OF m1] by simp
  qed (use Suc.prems(3) in simp)
  then obtain m' where m': "loop n (a + 8) m1 = Some m'" "load_words m' (a + 8) n = Some (map (\<lambda>w. the (g w)) ws')"
      "\<forall>x. 8 * n \<le> unat (x - (a + 8)) \<longrightarrow> m' x = m1 x"
    using Suc.IH [of m1 "a + 8" ws'] Suc.prems w by auto
  have same: "m' x = m1 x" if "unat (x - a) < 8 \<or> 8 * Suc n \<le> unat (x - a)" for x
    using m'(3) unat_above [of x a] that Suc.prems(3) by (auto split: if_splits)
  have "load_words m' a 1 = load_words m1 a 1" using same by (intro load_words_other) auto
  then have "load64 m' a = load64 m1 a" by (auto split: bind_splits)
  then have "load64 m' a = Some v" using load64_store64_same [OF m1] by simp
  moreover have "loop (Suc n) a m = Some m'" using assms w(1) v m1 m'(1) by (simp add: replaces_def)
  moreover have "m' x = m x" if "8 * Suc n \<le> unat (x - a)" for x
    using same [of x] store64_get [OF m1, of x] that by simp
  ultimately show ?case using m'(2) w(3) v by (intro exI [of _ m']) auto
qed

lemma bind_builtins_replaces:
  "replaces (bind_builtins address_of) (\<lambda>i. if 50 < i then None else address_of (to_int i))"
  by (auto simp: replaces_def split: if_splits)

lemma place_vtables_replaces: "replaces (place_vtables img) (\<lambda>v. Some (v + img))"
  by (auto simp: replaces_def)

text \<open>Two areas apart from each other.\<close>

definition apart :: "WORD \<Rightarrow> nat \<Rightarrow> WORD \<Rightarrow> nat \<Rightarrow> bool" where
  "apart a n b k \<longleftrightarrow> (\<forall>x. unat (x - a) < n \<longrightarrow> k \<le> unat (x - b))"

text \<open>C14: Preparing a native image whose tables of built-in functions and of virtual methods are two areas apart:
  every index of the first, none above 50, becomes the address of its function, every offset of the second
  becomes an address in the image, and no other byte changes.\<close>

theorem image_prepared:
  assumes B: "load_words m b (nat (sint (x_builtInCount header))) = Some ws" "b = img + of_int32 (x_builtInOffset header)"
    and V: "load_words m v (nat (sint (x_vtableData header))) = Some vs" "v = img + of_int32 (x_vtablesOffset header)"
    and ws: "\<forall>w\<in>set ws. w \<le> 50 \<and> address_of (to_int w) \<noteq> None"
    and none: "sint (x_relocationCount header) \<le> 0"
    and "apart v (8 * length vs) b (8 * length ws)" "apart b (8 * length ws) v (8 * length vs)"
  shows "\<exists>m'. prepare_image address_of True \<lparr>x_header = header, x_image = img, x_imageLength = len\<rparr> m = Some m' \<and>
    load_words m' b (length ws) = Some (map (\<lambda>w. the (address_of (to_int w))) ws) \<and>
    load_words m' v (length vs) = Some (map (\<lambda>w. w + img) vs) \<and>
    (\<forall>x. 8 * length ws \<le> unat (x - b) \<and> 8 * length vs \<le> unat (x - v) \<longrightarrow> m' x = m x)"
proof -
  have small: "nat (sint c) < 2 ^ 31" for c :: int32 using sint_lt [of c] by simp
  have len: "length ws = nat (sint (x_builtInCount header))" "length vs = nat (sint (x_vtableData header))"
    using B(1) V(1) by (auto dest: load_words_length)
  have n: "8 * length ws \<le> 2 ^ 64" "8 * length vs \<le> 2 ^ 64"
    using small [of "x_builtInCount header"] small [of "x_vtableData header"] len by simp_all
  let ?g = "\<lambda>i. if 50 < i then None else address_of (to_int i)"
  have g: "\<forall>w\<in>set ws. ?g w \<noteq> None" "map (\<lambda>w. the (?g w)) ws = map (\<lambda>w. the (address_of (to_int w))) ws"
    using ws by (auto simp: not_less [symmetric])
  obtain m1 where m1: "bind_builtins address_of (length ws) b m = Some m1"
      "load_words m1 b (length ws) = Some (map (\<lambda>w. the (address_of (to_int w))) ws)"
      "\<forall>x. 8 * length ws \<le> unat (x - b) \<longrightarrow> m1 x = m x"
    using replaces_law [OF bind_builtins_replaces, of m b "length ws" ws address_of] B(1) [folded len(1)] g n(1)
    unfolding g(2) by blast
  have "load_words m1 v (length vs) = Some vs"
    using load_words_other [of v "length vs" m1 m] m1(3) assms(7) n(2) V(1) len(2) by (auto simp: apart_def)
  then obtain m2 where m2: "place_vtables img (length vs) v m1 = Some m2"
      "load_words m2 v (length vs) = Some (map (\<lambda>w. w + img) vs)"
      "\<forall>x. 8 * length vs \<le> unat (x - v) \<longrightarrow> m2 x = m1 x"
    using replaces_law [OF place_vtables_replaces [of img], of m1 v "length vs" vs] n(2) by auto
  have "load_words m2 b (length ws) = Some (map (\<lambda>w. the (address_of (to_int w))) ws)"
    using load_words_other [of b "length ws" m2 m1] m2(3) assms(8) n(1) m1(2) by (auto simp: apart_def)
  moreover have "prepare_image address_of True \<lparr>x_header = header, x_image = img, x_imageLength = len\<rparr> m = Some m2"
    using m1(1) m2(1) len none B(2) V(2) by (simp add: prepare_image_def Let_def)
  ultimately show ?thesis using m1(3) m2(2,3) by auto
qed

definition demo_tables :: X86_64SectionHeader where
  "demo_tables = (read_x86_header (replicate 56 0))\<lparr>x_builtInCount := 1, x_vtablesOffset := 8, x_vtableData := 1\<rparr>"

lemma demo_tables_fields:
  "x_builtInCount demo_tables = 1" "x_builtInOffset demo_tables = 0" "x_vtablesOffset demo_tables = 8"
  "x_vtableData demo_tables = 1" "x_relocationCount demo_tables = 0"
  by (simp_all add: demo_tables_def read_x86_header_def int_field_def numeral_eq_Suc)

lemma apart_next: "apart (a + 8) 8 a 8" "apart a 8 (a + 8) 8"
  using unat_above [of _ a] by (auto simp: apart_def split: if_splits)

lemma image_prepared_witness:
  "\<exists>m'. prepare_image (\<lambda>i. Some (of_int32 i + 0x1000)) True \<lparr>x_header = demo_tables, x_image = 0x40070, x_imageLength = 16\<rparr>
       (mem (demo [] [3, 16])) = Some m' \<and>
     load_words m' 0x40070 1 = Some [0x1003] \<and> load_words m' 0x40078 1 = Some [0x40080]"
proof -
  note d = demo_ok [of "[3, 16]" "[]"]
  have "depth (demo [] [3, 16]) = 2" using d(2) length_stk [of "demo [] [3, 16]"] by simp
  then have w: "load64 (mem (demo [] [3, 16])) (0x40070 + 8 * of_nat 0) = Some 3"
    "load64 (mem (demo [] [3, 16])) (0x40070 + 8 * of_nat 1) = Some 16"
    using load_slot [of "demo [] [3, 16]" 0] load_slot [of "demo [] [3, 16]" 1] d by (simp_all add: demo_fields)
  have one: "nat (sint (1 :: int32)) = Suc 0" by simp
  have "\<exists>m'. prepare_image (\<lambda>i. Some (of_int32 i + 0x1000)) True \<lparr>x_header = demo_tables, x_image = 0x40070, x_imageLength = 16\<rparr>
        (mem (demo [] [3, 16])) = Some m' \<and>
      load_words m' 0x40070 (length [3 :: WORD]) = Some (map (\<lambda>w. the (Some (of_int32 (to_int w) + 0x1000))) [3]) \<and>
      load_words m' 0x40078 (length [16 :: WORD]) = Some (map (\<lambda>w. w + 0x40070) [16]) \<and>
      (\<forall>x. 8 * length [3 :: WORD] \<le> unat (x - 0x40070) \<and> 8 * length [16 :: WORD] \<le> unat (x - 0x40078) \<longrightarrow>
         m' x = mem (demo [] [3, 16]) x)"
  proof (rule image_prepared)
    show "load_words (mem (demo [] [3, 16])) 0x40070 (nat (sint (x_builtInCount demo_tables))) = Some [3]"
      unfolding demo_tables_fields one using w(1) by simp
    show "load_words (mem (demo [] [3, 16])) 0x40078 (nat (sint (x_vtableData demo_tables))) = Some [16]"
      unfolding demo_tables_fields one using w(2) by simp
    show "apart 0x40078 (8 * length [16 :: WORD]) 0x40070 (8 * length [3 :: WORD])"
      "apart 0x40070 (8 * length [3 :: WORD]) 0x40078 (8 * length [16 :: WORD])"
      using apart_next [of "0x40070"] by simp_all
  qed (simp_all add: demo_tables_fields)
  then show ?thesis by auto
qed

subsection \<open>What the code lets pass\<close>

text \<open>A file shorter than its section promises: the image is partly what \<open>malloc\<close> gave, and the section is accepted.\<close>

lemma short_image_accepted:
  assumes "length (fst (fread 56 f)) = 56" "os_malloc os (p_mem pr) (p_heap pr) (unat (len - 56)) = p" "p \<noteq> 0"
    and "store_bytes (add_block (p_mem pr) p (unat (len - 56)) (os_junk os)) p
           (fst (fread (unat (len - 56)) (snd (fread 56 f)))) = Some m"
  shows "\<exists>section pr'. x86_64reader os junk junk_image junk_length f len pr = Some (Some section, pr')"
  using assms by (auto simp: x86_64reader_def X86_64Section_def process_malloc_def Let_def split: prod.splits)

text \<open>A frame that names itself as its caller makes the report of an uncaught exception endless.\<close>

lemma self_frame_endless:
  assumes "copied_slot xc stackCopy f = Some f"
    and "xc_stackPointer xc \<le> f" "f < xc_stackPointer xc + word_of_int (xc_stackSize xc)"
  shows "stack_trace xc stackCopy img f i = None"
proof -
  have "\<not> (xc' = xc \<and> c' = stackCopy \<and> f' = f)" if "stack_trace xc' c' img' f' i' = Some r" for xc' c' img' f' i' r
    using that
    by (rule stack_trace.raw_induct [where P = "\<lambda>xc' c' img' f' i' r. \<not> (xc' = xc \<and> c' = stackCopy \<and> f' = f)", rotated])
      (use assms in \<open>auto split: bind_splits if_splits\<close>)
  then show ?thesis by (metis not_Some_eq)
qed

end
