(* ===== verification/Debug_Monitor.thy ===== *)
theory Debug_Monitor
  imports Prelude
begin

section \<open>Watching a child process\<close>

text \<open>
  The debug loop of common/process.cc: \<open>debugSpawn\<close> starts a child under the debugger and
  \<open>monitorDebugEvents\<close> answers its debug events until it exits or nothing comes in time. The events are
  a list, as Windows delivers them; what the loop does to processes is a list of actions. \<open>drain\<close>, in a
  thread of its own, collects the output of the child.
\<close>

type_synonym DWORD = "32 word"

datatype exception_t =
    NO_EXCEPTION | ABORT | BREAKPOINT | TIMEOUT | TOO_MANY_EXCEPTIONS | ACCESS_VIOLATION | UNKNOWN_EXCEPTION

definition exceptionNames :: "exception_t \<Rightarrow> string" where
  "exceptionNames e =
     (case e of NO_EXCEPTION \<Rightarrow> ''NO_EXCEPTION'' | ABORT \<Rightarrow> ''ABORT'' | BREAKPOINT \<Rightarrow> ''BREAKPOINT''
      | TIMEOUT \<Rightarrow> ''TIMEOUT'' | TOO_MANY_EXCEPTIONS \<Rightarrow> ''TOO_MANY_EXCEPTIONS''
      | ACCESS_VIOLATION \<Rightarrow> ''ACCESS_VIOLATION'' | UNKNOWN_EXCEPTION \<Rightarrow> ''UNKNOWN_EXCEPTION'')"

definition WINDOWS_ABORT_EXCEPTION :: DWORD where "WINDOWS_ABORT_EXCEPTION = 0xc1000001"
definition BREAKPOINT_CODE :: DWORD where "BREAKPOINT_CODE = 0x80000003"
definition STATUS_ACCESS_VIOLATION :: DWORD where "STATUS_ACCESS_VIOLATION = 0xC0000005"
definition MS_VC_EXCEPTION :: DWORD where "MS_VC_EXCEPTION = 0x406d1388"

subsection \<open>Events and actions\<close>

text \<open>An exception event has a process, a code and the first-chance flag; creating a process and loading a
  library come with a file handle, and the flag tells whether it could be closed.\<close>

datatype debug_event =
    No_event
  | Exception_event DWORD DWORD DWORD
  | Create_process_event DWORD bool
  | Exit_process_event DWORD DWORD
  | Load_dll_event DWORD bool
  | Other_event DWORD

datatype debug_action =
    Terminate_child
  | Terminate_other DWORD
  | Dump_exception DWORD
  | Continue_event DWORD bool

text \<open>The local variables of the loop, and the exception it reports.\<close>

record monitor =
  sawAnException :: bool
  loaderBreakpointHit :: bool
  totalExceptions :: int
  otherProcessId :: DWORD
  totalOtherExceptions :: int
  m_exception :: exception_t

definition monitor_start :: "exception_t \<Rightarrow> monitor" where
  "monitor_start e =
     \<lparr>sawAnException = False, loaderBreakpointHit = False, totalExceptions = 0, otherProcessId = 0,
      totalOtherExceptions = 0, m_exception = e\<rparr>"

text \<open>The time to wait for an event: \<open>None\<close> is without end.\<close>

definition wait_time :: "int \<Rightarrow> int option" where
  "wait_time timeout =
     (let millis = timeout * 1000 in
      if timeout \<le> 0 \<or> 0xffffffff < millis \<or> millis = 0xffffffff then None else Some millis)"

subsection \<open>Exceptions\<close>

text \<open>The end of the exception case for the child: too many exceptions end it.\<close>

definition count_exception :: "debug_action list \<Rightarrow> monitor \<Rightarrow> monitor \<times> debug_action list \<times> bool" where
  "count_exception acts m =
     (let m = m\<lparr>sawAnException := True\<rparr> in
      if 100 < totalExceptions m
      then (m\<lparr>m_exception := TOO_MANY_EXCEPTIONS\<rparr>, acts @ [Terminate_child], False)
      else (m, acts, False))"

text \<open>An exception of the child; the flag is \<open>DBG_CONTINUE\<close>. The first breakpoint is that of the loader, and
  first chances of other exceptions are left to the child.\<close>

definition child_exception :: "DWORD \<Rightarrow> DWORD \<Rightarrow> DWORD \<Rightarrow> monitor \<Rightarrow> monitor \<times> debug_action list \<times> bool" where
  "child_exception pid e firstChance m =
     (if e = WINDOWS_ABORT_EXCEPTION then
        count_exception [] (m\<lparr>totalExceptions := totalExceptions m + 1, m_exception := ABORT\<rparr>)
      else if e = BREAKPOINT_CODE then
        (if \<not> loaderBreakpointHit m then (m\<lparr>loaderBreakpointHit := True\<rparr>, [], True)
         else count_exception [] (m\<lparr>totalExceptions := totalExceptions m + 1, m_exception := BREAKPOINT\<rparr>))
      else if e = STATUS_ACCESS_VIOLATION then
        (if firstChance \<noteq> 0 then (m, [], False)
         else count_exception [Dump_exception pid, Terminate_child] (m\<lparr>m_exception := ACCESS_VIOLATION\<rparr>))
      else if e = MS_VC_EXCEPTION then (m, [], False)
      else if firstChance \<noteq> 0 then (m, [], False)
      else count_exception [Dump_exception pid]
        (m\<lparr>m_exception := UNKNOWN_EXCEPTION, totalExceptions := totalExceptions m + 1\<rparr>))"

text \<open>An exception of another process, which is ended when it raises too many in a row.\<close>

definition other_exception :: "DWORD \<Rightarrow> monitor \<Rightarrow> monitor \<times> debug_action list \<times> bool" where
  "other_exception pid m =
     (if otherProcessId m \<noteq> pid then (m\<lparr>otherProcessId := pid, totalOtherExceptions := 0\<rparr>, [], False)
      else
        let m = m\<lparr>totalOtherExceptions := totalOtherExceptions m + 1\<rparr> in
        if 100 < totalOtherExceptions m
        then (m\<lparr>m_exception := TOO_MANY_EXCEPTIONS, sawAnException := True\<rparr>, [Terminate_other pid], False)
        else (m, [], False))"

subsection \<open>The loop\<close>

text \<open>It returns a value, ends the whole program, or is still waiting at the end of the list.\<close>

datatype monitor_result =
    Monitor_returned int monitor
  | Monitor_exit int
  | Monitor_waiting monitor

fun monitorDebugEvents :: "DWORD \<Rightarrow> debug_event list \<Rightarrow> monitor \<Rightarrow> debug_action list \<Rightarrow> monitor_result \<times> debug_action list" where
  "monitorDebugEvents processId [] m acts = (Monitor_waiting m, acts)"
| "monitorDebugEvents processId (No_event # es) m acts =
     (Monitor_returned (- 2) (m\<lparr>m_exception := TIMEOUT\<rparr>), acts @ [Terminate_child])"
| "monitorDebugEvents processId (Exception_event pid e firstChance # es) m acts =
     (case (if pid \<noteq> processId then other_exception pid m else child_exception pid e firstChance m) of
        (m, acts', handled) \<Rightarrow> monitorDebugEvents processId es m (acts @ acts' @ [Continue_event pid handled]))"
| "monitorDebugEvents processId (Create_process_event pid closed # es) m acts =
     (if \<not> closed then (Monitor_exit 1, acts)
      else monitorDebugEvents processId es m (acts @ [Continue_event pid False]))"
| "monitorDebugEvents processId (Exit_process_event pid exitCode # es) m acts =
     (if pid = processId
      then (Monitor_returned (if sawAnException m then - 2 else sint exitCode) m, acts @ [Continue_event pid True])
      else monitorDebugEvents processId es m (acts @ [Continue_event pid False]))"
| "monitorDebugEvents processId (Load_dll_event pid closed # es) m acts =
     (if \<not> closed then (Monitor_exit 1, acts)
      else monitorDebugEvents processId es m (acts @ [Continue_event pid False]))"
| "monitorDebugEvents processId (Other_event pid # es) m acts =
     monitorDebugEvents processId es m (acts @ [Continue_event pid False])"

text \<open>\<open>drain\<close>: the pieces read until the pipe is broken.\<close>

fun drain :: "byte list list \<Rightarrow> byte list \<Rightarrow> byte list" where
  "drain [] output = output"
| "drain (buffer # rest) output = drain rest (if 0 < length buffer then output @ buffer else output)"

text \<open>\<open>debugSpawn\<close>: -1 when the process cannot be created; otherwise the result of the loop, with the output
  when the thread that drains the pipe has ended.\<close>

definition debugSpawn :: "bool \<Rightarrow> DWORD \<Rightarrow> debug_event list \<Rightarrow> byte list list \<Rightarrow> exception_t \<Rightarrow> byte list \<Rightarrow>
    monitor_result \<times> byte list" where
  "debugSpawn created processId es pieces exception captureData =
     (if \<not> created then (Monitor_returned (- 1) (monitor_start exception), captureData)
      else (fst (monitorDebugEvents processId es (monitor_start exception) []), drain pieces captureData))"

subsection \<open>The dump of an exception\<close>

definition exceptionName :: "DWORD \<Rightarrow> string" where
  "exceptionName x =
     (case map_of
        [(0x80000003, ''breakpoint''), (0xc1000001, ''process.abort''), (0xC0000005, ''ACCESS_VIOLATION''),
         (0xC0000006, ''IN_PAGE_ERROR''), (0xC0000008, ''INVALID_HANDLE''), (0xC0000017, ''NO_MEMORY''),
         (0xC000001D, ''ILLEGAL_INSTRUCTION''), (0xC0000025, ''NONCONTINUABLE_EXCEPTION''),
         (0xC0000026, ''INVALID_DISPOSITION''), (0xC000008C, ''ARRAY_BOUNDS_EXCEEDED''),
         (0xC000008D, ''FLOAT_DENORMAL_OPERAND''), (0xC000008E, ''FLOAT_DIVIDE_BY_ZERO''),
         (0xC000008F, ''FLOAT_INEXACT_RESULT''), (0xC0000090, ''FLOAT_INVALID_OPERATION''),
         (0xC0000091, ''FLOAT_OVERFLOW''), (0xC0000092, ''FLOAT_STACK_CHECK''), (0xC0000093, ''FLOAT_UNDERFLOW''),
         (0xC0000094, ''INTEGER_DIVIDE_BY_ZERO''), (0xC0000095, ''INTEGER_OVERFLOW''),
         (0xC0000096, ''PRIVILEGED_INSTRUCTION''), (0xC00000FD, ''STACK_OVERFLOW''), (0xC000013A, ''CONTROL_C_EXIT'')] x
      of Some name \<Rightarrow> name | None \<Rightarrow> ''* unknown exception *'')"

text \<open>What \<open>dumpExceptionRecord\<close> says of the cause: nothing for a breakpoint, otherwise the text, and the
  address when the cause is known.\<close>

definition exception_cause :: "DWORD \<Rightarrow> WORD \<Rightarrow> WORD \<Rightarrow> (string \<times> WORD) option" where
  "exception_cause e info0 info1 =
     (if e \<noteq> BREAKPOINT_CODE then
        if info0 = 0 then Some ('' reading'', info1)
        else if info0 = 1 then Some ('' writing'', info1)
        else if info0 = 8 then Some ('' user mode DEP'', info1)
        else Some ('' unknown cause'', info0)
      else None)"

text \<open>\<open>debugPrint\<close> (common/machine.cc): blocks of 32 characters.\<close>

definition OUTPUT_BLOCK :: nat where "OUTPUT_BLOCK = 32"

function debug_blocks :: "nat \<Rightarrow> byte list \<Rightarrow> byte list list" where
  "debug_blocks i s =
     (if i < length s then
        let j = (if length s < i + OUTPUT_BLOCK then length s - i else OUTPUT_BLOCK)
        in take j (drop i s) # debug_blocks (i + OUTPUT_BLOCK) s
      else [])"
  by pat_completeness auto
termination
  by (relation "measure (\<lambda>(i, s). length s - i)") (auto simp: OUTPUT_BLOCK_def)

declare debug_blocks.simps [simp del]

definition debugPrint :: "byte list \<Rightarrow> byte list list" where
  "debugPrint s = debug_blocks 0 s"

lemma debug_blocks_all: "concat (debug_blocks i s) = drop i s"
proof (induction i s rule: debug_blocks.induct)
  case (1 i s)
  have "take 32 (drop i s) @ drop (i + 32) s = drop i s"
    using append_take_drop_id [of 32 "drop i s"] by (simp add: add.commute)
  then show ?case using 1
    by (subst debug_blocks.simps) (auto simp: Let_def OUTPUT_BLOCK_def)
qed

subsection \<open>What the loop reports\<close>

text \<open>The exceptions of the child that count, in order: of its breakpoints all but the first.\<close>

definition classify :: "DWORD \<Rightarrow> DWORD \<Rightarrow> exception_t option" where
  "classify e firstChance =
     (if e = WINDOWS_ABORT_EXCEPTION then Some ABORT
      else if e = BREAKPOINT_CODE then Some BREAKPOINT
      else if firstChance \<noteq> 0 \<or> e = MS_VC_EXCEPTION then None
      else if e = STATUS_ACCESS_VIOLATION then Some ACCESS_VIOLATION
      else Some UNKNOWN_EXCEPTION)"

fun child_kinds :: "DWORD \<Rightarrow> debug_event list \<Rightarrow> exception_t list" where
  "child_kinds p [] = []"
| "child_kinds p (Exception_event pid e firstChance # es) =
     (if pid = p then (case classify e firstChance of Some k \<Rightarrow> [k] | None \<Rightarrow> []) else []) @ child_kinds p es"
| "child_kinds p (_ # es) = child_kinds p es"

definition notable :: "bool \<Rightarrow> exception_t list \<Rightarrow> exception_t list" where
  "notable hit ks = (if hit then ks else remove1 BREAKPOINT ks)"

definition counted :: "exception_t list \<Rightarrow> int" where
  "counted ks = int (length (filter (\<lambda>k. k \<noteq> ACCESS_VIOLATION) ks))"

fun others :: "DWORD \<Rightarrow> debug_event list \<Rightarrow> nat" where
  "others p [] = 0"
| "others p (Exception_event pid e firstChance # es) = (if pid \<noteq> p then 1 else 0) + others p es"
| "others p (_ # es) = others p es"

text \<open>Events that do not end the loop.\<close>

fun goes_on :: "DWORD \<Rightarrow> debug_event \<Rightarrow> bool" where
  "goes_on p No_event = False"
| "goes_on p (Create_process_event pid closed) = closed"
| "goes_on p (Load_dll_event pid closed) = closed"
| "goes_on p (Exit_process_event pid c) = (pid \<noteq> p)"
| "goes_on p _ = True"

end
