(* ===== verification/Monitor_Laws.thy ===== *)
theory Monitor_Laws
  imports Debug_Monitor
begin

section \<open>What the debug loop reports\<close>

text \<open>
  The loop is a fold over the debug events; its outcome is described by the exceptions of the child that
  count: the value it returns, the exception it reports and whether it ended the child.
\<close>

text \<open>\<open>es\<close> takes the variables from \<open>m\<close> to \<open>m'\<close>, and \<open>acts\<close> is what was done.\<close>

definition advanced :: "DWORD \<Rightarrow> debug_event list \<Rightarrow> monitor \<Rightarrow> monitor \<Rightarrow> debug_action list \<Rightarrow> bool" where
  "advanced p es m m' acts \<longleftrightarrow>
     (let ks = notable (loaderBreakpointHit m) (child_kinds p es) in
      loaderBreakpointHit m' = (loaderBreakpointHit m \<or> BREAKPOINT \<in> set (child_kinds p es)) \<and>
      totalExceptions m' = totalExceptions m + counted ks \<and>
      totalOtherExceptions m' \<le> totalOtherExceptions m + int (others p es) \<and>
      0 \<le> totalOtherExceptions m' \<and>
      sawAnException m' = (sawAnException m \<or> ks \<noteq> []) \<and>
      m_exception m' = (if ks = [] then m_exception m
                        else if 100 < totalExceptions m' then TOO_MANY_EXCEPTIONS else last ks) \<and>
      (Terminate_child \<in> set acts \<longleftrightarrow> ACCESS_VIOLATION \<in> set ks \<or> ks \<noteq> [] \<and> 100 < totalExceptions m'))"

lemma notable_append: "notable hit (ks @ ls) = notable hit ks @ notable (hit \<or> BREAKPOINT \<in> set ks) ls"
  by (auto simp: notable_def remove1_append remove1_idem)

lemma counted_append: "counted (ks @ ls) = counted ks + counted ls"
  by (simp add: counted_def)

lemma counted_nonneg: "0 \<le> counted ks"
  by (simp add: counted_def)

lemma child_kinds_append: "child_kinds p (es @ fs) = child_kinds p es @ child_kinds p fs"
  by (induction p es rule: child_kinds.induct) auto

lemma others_append: "others p (es @ fs) = others p es + others p fs"
  by (induction p es rule: others.induct) auto

lemma advanced_refl: "0 \<le> totalOtherExceptions m \<Longrightarrow> advanced p [] m m []"
  by (simp add: advanced_def notable_def counted_def)

lemma advanced_trans:
  assumes "advanced p es m m1 acts" "advanced p fs m1 m2 acts'"
  shows "advanced p (es @ fs) m m2 (acts @ acts')"
proof -
  let ?ks = "notable (loaderBreakpointHit m) (child_kinds p es)"
    and ?ls = "notable (loaderBreakpointHit m1) (child_kinds p fs)"
  have hit: "loaderBreakpointHit m1 = (loaderBreakpointHit m \<or> BREAKPOINT \<in> set (child_kinds p es))"
    using assms(1) by (simp add: advanced_def Let_def)
  have split: "notable (loaderBreakpointHit m) (child_kinds p (es @ fs)) = ?ks @ ?ls"
    by (simp add: child_kinds_append notable_append hit)
  have "totalExceptions m2 = totalExceptions m1 + counted ?ls" "0 \<le> counted ?ls"
    using assms(2) counted_nonneg by (simp_all add: advanced_def Let_def)
  moreover have "counted [] = 0" by (simp add: counted_def)
  ultimately show ?thesis
    using assms unfolding advanced_def Let_def split counted_append others_append
    by (auto simp: child_kinds_append)
qed

text \<open>One event of each kind.\<close>

lemma count_advances:
  "count_exception acts m = (m', acts', h) \<Longrightarrow>
   loaderBreakpointHit m' = loaderBreakpointHit m \<and> totalExceptions m' = totalExceptions m \<and>
   totalOtherExceptions m' = totalOtherExceptions m \<and> sawAnException m' \<and>
   m_exception m' = (if 100 < totalExceptions m then TOO_MANY_EXCEPTIONS else m_exception m) \<and>
   (Terminate_child \<in> set acts' \<longleftrightarrow> Terminate_child \<in> set acts \<or> 100 < totalExceptions m)"
  by (auto simp: count_exception_def Let_def split: if_splits)

lemma codes_distinct:
  "WINDOWS_ABORT_EXCEPTION \<noteq> BREAKPOINT_CODE" "WINDOWS_ABORT_EXCEPTION \<noteq> STATUS_ACCESS_VIOLATION"
  "WINDOWS_ABORT_EXCEPTION \<noteq> MS_VC_EXCEPTION" "BREAKPOINT_CODE \<noteq> STATUS_ACCESS_VIOLATION"
  "BREAKPOINT_CODE \<noteq> MS_VC_EXCEPTION" "STATUS_ACCESS_VIOLATION \<noteq> MS_VC_EXCEPTION"
  by (simp_all add: WINDOWS_ABORT_EXCEPTION_def BREAKPOINT_CODE_def STATUS_ACCESS_VIOLATION_def MS_VC_EXCEPTION_def)

lemma counted_advances:
  assumes "count_exception acts0 m0 = (m', acts, h)" "classify e c = Some k" "0 \<le> totalOtherExceptions m"
    and "m_exception m0 = k" "totalExceptions m0 = totalExceptions m + (if k = ACCESS_VIOLATION then 0 else 1)"
    and "loaderBreakpointHit m0 = loaderBreakpointHit m" "totalOtherExceptions m0 = totalOtherExceptions m"
    and "k = BREAKPOINT \<longrightarrow> loaderBreakpointHit m" "Terminate_child \<in> set acts0 \<longleftrightarrow> k = ACCESS_VIOLATION"
  shows "advanced p [Exception_event p e c] m m' acts"
  using count_advances [OF assms(1)] assms(2-9) by (auto simp: advanced_def notable_def counted_def)

lemma uncounted_advances:
  "classify e c = None \<Longrightarrow> 0 \<le> totalOtherExceptions m \<Longrightarrow> advanced p [Exception_event p e c] m m []"
  by (simp add: advanced_def notable_def counted_def)

lemma child_advances:
  assumes "child_exception p e c m = (m', acts, h)" "0 \<le> totalOtherExceptions m"
  shows "advanced p [Exception_event p e c] m m' acts"
proof (cases "classify e c")
  case None
  then have "child_exception p e c m = (m, [], False)"
    using codes_distinct by (auto simp: child_exception_def classify_def split: if_splits)
  then show ?thesis using assms uncounted_advances [OF None] by simp
next
  case (Some k)
  show ?thesis
  proof (cases "k = BREAKPOINT \<and> \<not> loaderBreakpointHit m")
    case True
    then have "child_exception p e c m = (m\<lparr>loaderBreakpointHit := True\<rparr>, [], True)"
      using Some codes_distinct by (auto simp: child_exception_def classify_def split: if_splits)
    then show ?thesis using assms True Some by (auto simp: advanced_def notable_def counted_def)
  next
    case False
    let ?acts0 = "if k \<in> {ABORT, BREAKPOINT} then [] else if k = ACCESS_VIOLATION then [Dump_exception p, Terminate_child]
        else [Dump_exception p]"
      and ?m0 = "m\<lparr>m_exception := k, totalExceptions := totalExceptions m + (if k = ACCESS_VIOLATION then 0 else 1)\<rparr>"
    have "child_exception p e c m = count_exception ?acts0 ?m0"
      using False Some codes_distinct by (cases m) (auto simp: child_exception_def classify_def split: if_splits)
    then have "count_exception ?acts0 ?m0 = (m', acts, h)" using assms(1) by simp
    then show ?thesis by (rule counted_advances [OF _ Some assms(2)]) (use False in auto)
  qed
qed

lemma other_advances:
  assumes "other_exception pid m = (m', acts, h)" "0 \<le> totalOtherExceptions m" "pid \<noteq> p" "totalOtherExceptions m < 100"
  shows "advanced p [Exception_event pid e c] m m' acts"
  using assms
  by (auto simp: other_exception_def advanced_def notable_def counted_def Let_def split: if_splits)

lemma advanced_acts:
  "advanced p es m m' acts \<Longrightarrow> Terminate_child \<notin> set acts' \<Longrightarrow> advanced p es m m' (acts @ acts')"
  by (simp add: advanced_def)

lemma quiet_advances:
  assumes "0 \<le> totalOtherExceptions m" "\<forall>pid x c. e \<noteq> Exception_event pid x c"
  shows "advanced p [e] m m [Continue_event pid h]"
proof -
  have "child_kinds p [e] = []" "others p [e] = 0" using assms(2) by (cases e; simp)+
  then show ?thesis using assms(1) by (simp add: advanced_def notable_def counted_def)
qed

text \<open>Events that do not end the loop move it on.\<close>

lemma monitor_advances:
  "\<forall>e\<in>set es. goes_on p e \<Longrightarrow> 0 \<le> totalOtherExceptions m \<Longrightarrow> totalOtherExceptions m + int (others p es) \<le> 100 \<Longrightarrow>
   \<exists>m' acts'. advanced p es m m' acts' \<and>
     (\<forall>rest acts. monitorDebugEvents p (es @ rest) m acts = monitorDebugEvents p rest m' (acts @ acts'))"
proof (induction es arbitrary: m)
  case Nil
  then show ?case using advanced_refl by (intro exI [of _ m] exI [of _ "[]"]) simp
next
  case (Cons e es)
  have "\<exists>m1 acts1. advanced p [e] m m1 acts1 \<and>
      (\<forall>rest acts. monitorDebugEvents p (e # rest) m acts = monitorDebugEvents p rest m1 (acts @ acts1))"
  proof (cases e)
    case (Exception_event pid x c)
    obtain m1 acts1 h where s: "(if pid \<noteq> p then other_exception pid m else child_exception pid x c m) = (m1, acts1, h)"
      using prod_cases3 by blast
    have "advanced p [e] m m1 acts1"
      using s Cons.prems(2,3) child_advances other_advances [of pid m m1 acts1 h p] Exception_event by (auto split: if_splits)
    then have "advanced p [e] m m1 (acts1 @ [Continue_event pid h])" by (rule advanced_acts) simp
    then show ?thesis using s Exception_event by (intro exI [of _ m1] exI [of _ "acts1 @ [Continue_event pid h]"]) simp
  next
    case No_event
    then show ?thesis using Cons.prems(1) by simp
  qed (use Cons.prems(1,2) quiet_advances [of m e p] in \<open>auto intro!: exI [of _ m]\<close>)
  then obtain m1 acts1 where m1: "advanced p [e] m m1 acts1"
    "\<And>rest acts. monitorDebugEvents p (e # rest) m acts = monitorDebugEvents p rest m1 (acts @ acts1)" by blast
  have "others p (e # es) = others p [e] + others p es" using others_append [of p "[e]" es] by simp
  then have "0 \<le> totalOtherExceptions m1" "totalOtherExceptions m1 + int (others p es) \<le> 100"
    using m1(1) Cons.prems(3) by (simp_all add: advanced_def Let_def)
  then obtain m' acts' where m': "advanced p es m1 m' acts'"
    "\<And>rest acts. monitorDebugEvents p (es @ rest) m1 acts = monitorDebugEvents p rest m' (acts @ acts')"
    using Cons.IH [of m1] Cons.prems(1) by auto
  then show ?case using advanced_trans [OF m1(1) m'(1)] m1(2)
    by (intro exI [of _ m'] exI [of _ "acts1 @ acts'"]) simp
qed

text \<open>C20: What \<open>debugSpawn\<close> reports of a child that runs to its exit: with no exception that counts, its exit code and
  the exception variable as it was; otherwise -2 and the last exception that counts, or \<open>TOO_MANY_EXCEPTIONS\<close>
  once more than 100 have counted. Of the breakpoints the first, that of the loader, does not count, and other
  exceptions but aborts count at their second chance only. The child is terminated exactly after an access
  violation or too many exceptions. (Exceptions of its own children do not matter while there are at most 100.)\<close>

theorem monitor_outcome:
  assumes "\<forall>e\<in>set es. goes_on p e" "others p es \<le> 100"
  defines "ks \<equiv> notable False (child_kinds p es)"
  shows "\<exists>m acts. monitorDebugEvents p (es @ [Exit_process_event p exitCode]) (monitor_start e0) [] =
      (Monitor_returned (if ks = [] then sint exitCode else - 2) m, acts) \<and>
    m_exception m = (if ks = [] then e0 else if 100 < counted ks then TOO_MANY_EXCEPTIONS else last ks) \<and>
    (Terminate_child \<in> set acts \<longleftrightarrow> ACCESS_VIOLATION \<in> set ks \<or> 100 < counted ks)"
proof -
  have s: "totalOtherExceptions (monitor_start e0) = 0" "loaderBreakpointHit (monitor_start e0) = False"
    "totalExceptions (monitor_start e0) = 0" "sawAnException (monitor_start e0) = False" "m_exception (monitor_start e0) = e0"
    by (simp_all add: monitor_start_def)
  obtain m acts where m: "advanced p es (monitor_start e0) m acts"
    "\<And>rest acts'. monitorDebugEvents p (es @ rest) (monitor_start e0) acts' = monitorDebugEvents p rest m (acts' @ acts)"
    using monitor_advances [OF assms(1), of "monitor_start e0"] assms(2) s(1) by auto
  have "counted [] = 0" by (simp add: counted_def)
  then show ?thesis
    using m(1) unfolding m(2) advanced_def Let_def s ks_def [symmetric] by auto
qed

lemma monitor_outcome_witness:
  "\<exists>m acts. monitorDebugEvents 7 ([Exception_event 7 BREAKPOINT_CODE 1, Exception_event 7 STATUS_ACCESS_VIOLATION 1,
       Exception_event 7 STATUS_ACCESS_VIOLATION 0] @ [Exit_process_event 7 5]) (monitor_start NO_EXCEPTION) [] =
     (Monitor_returned (- 2) m, acts) \<and> m_exception m = ACCESS_VIOLATION \<and> Terminate_child \<in> set acts"
  using monitor_outcome [of "[Exception_event 7 BREAKPOINT_CODE 1, Exception_event 7 STATUS_ACCESS_VIOLATION 1,
      Exception_event 7 STATUS_ACCESS_VIOLATION 0]" 7 5 NO_EXCEPTION] codes_distinct
  by (simp add: classify_def notable_def counted_def)

end
