(* ===== verification/Random_Numbers.thy ===== *)
theory Random_Numbers
  imports Strings
begin

section \<open>Random numbers\<close>

text \<open>
  common/random.h and random.cc: two multiply-with-carry generators of 32 bits, their seeds, and die
  rolls. A product of a double and an integer of at most 21 bits with a 32-bit fraction is exact, so
  \<open>dieRoll\<close> is computed on integers. \<open>normal\<close> and \<open>binomial\<close> use the logarithm of doubles, and \<open>set()\<close>
  without a seed asks Windows: they are not modelled.
\<close>

record random_state =
  rs_z :: "32 word"
  rs_w :: "32 word"

text \<open>\<open>save\<close> copies the state to a string, least significant byte first.\<close>

definition random_save :: "random_state \<Rightarrow> cstr" where
  "random_save s = to_bytes 4 (ucast (rs_z s)) @ to_bytes 4 (ucast (rs_w s))"

definition CONG :: "32 word \<Rightarrow> 32 word" where
  "CONG jcong = 69069 * jcong + 1234567"

definition random_set :: "cstr \<Rightarrow> random_state" where
  "random_set seed =
     (let i = length seed in
      if i < 8 then
        let i = (if 4 < i then 4 else i);
            jcong = ucast (from_bytes (take i seed));
            jcong = CONG jcong;
            z = jcong;
            jcong = CONG jcong
        in \<lparr>rs_z = z, rs_w = jcong\<rparr>
      else \<lparr>rs_z = ucast (from_bytes (take 4 seed)), rs_w = ucast (from_bytes (take 4 (drop 4 seed)))\<rparr>)"

definition random_set_unsigned :: "32 word \<Rightarrow> random_state" where
  "random_set_unsigned seed = random_set (to_bytes 4 (ucast seed))"

definition random_next :: "random_state \<Rightarrow> 32 word \<times> random_state" where
  "random_next s =
     (let z = 36969 * (rs_z s AND 0xffff) + drop_bit 16 (rs_z s);
          w = 18000 * (rs_w s AND 0xffff) + drop_bit 16 (rs_w s)
      in (push_bit 16 z + (w AND 0xffff), \<lparr>rs_z = z, rs_w = w\<rparr>))"

text \<open>\<open>uniform\<close> is this integer over 2 to the 32.\<close>

definition uniform_numerator :: "random_state \<Rightarrow> int \<times> random_state" where
  "uniform_numerator s = (case random_next s of (n, s) \<Rightarrow> (uint n, s))"

text \<open>\<open>int(sides * uniform())\<close>, truncated towards zero.\<close>

definition die_value :: "int \<Rightarrow> int \<Rightarrow> int" where
  "die_value sides u = (if 0 \<le> sides then sides * u div 2 ^ 32 else - (- sides * u div 2 ^ 32))"

fun roll_loop :: "nat \<Rightarrow> int \<Rightarrow> int \<Rightarrow> random_state \<Rightarrow> int \<times> random_state" where
  "roll_loop 0 sides acc s = (acc, s)"
| "roll_loop (Suc n) sides acc s =
     (case uniform_numerator s of (u, s) \<Rightarrow> roll_loop n sides (acc + (die_value sides u + 1)) s)"

definition dieRoll :: "int \<Rightarrow> int \<Rightarrow> random_state \<Rightarrow> int \<times> random_state" where
  "dieRoll n sides s = roll_loop (nat n) sides 0 s"

subsection \<open>Seeds\<close>

lemma ucast_from_to_bytes: "ucast (from_bytes (to_bytes 4 (ucast (x :: 32 word)))) = x"
  using from_to_bytes [of 4 "ucast x :: WORD"] by (simp add: to_int_of_unsigned)

text \<open>A saved state is restored exactly, also from a longer string, and a generator seeded with it gives the
  same numbers from then on.\<close>

theorem random_state_saved:
  "random_set (random_save s @ rest) = s \<and> length (random_save s) = 8"
  by (simp add: random_set_def random_save_def ucast_from_to_bytes)

text \<open>A roll of \<open>n\<close> dice is between \<open>n\<close> and \<open>n\<close> times the number of sides, whatever the state.\<close>

theorem die_roll_bounds:
  assumes "0 \<le> n" "1 \<le> sides" "sides \<le> 2 ^ 21" "n * sides < 2 ^ 31"
  shows "n \<le> fst (dieRoll n sides s) \<and> fst (dieRoll n sides s) \<le> n * sides"
proof -
  have die: "0 \<le> die_value sides (uint x) \<and> die_value sides (uint x) + 1 \<le> sides" for x :: "32 word"
  proof -
    have "uint x < 2 ^ 32" using uint_lt2p [of x] by simp
    then have "sides * uint x < sides * 2 ^ 32" using assms(2) by simp
    then have "sides * uint x div 2 ^ 32 < sides" by (simp add: int_div_less_self div_less_iff_less_mult)
    moreover have "0 \<le> sides * uint x div 2 ^ 32" using assms(2) by (simp add: pos_imp_zdiv_nonneg_iff)
    ultimately show ?thesis using assms(2) by (simp add: die_value_def)
  qed
  have "acc + int k \<le> fst (roll_loop k sides acc s) \<and> fst (roll_loop k sides acc s) \<le> acc + int k * sides" for k acc s
  proof (induction k arbitrary: acc s)
    case (Suc k)
    obtain x s' where x: "random_next s = (x, s')" by fastforce
    then have "roll_loop (Suc k) sides acc s = roll_loop k sides (acc + (die_value sides (uint x) + 1)) s'"
      by (simp add: uniform_numerator_def)
    then show ?case using Suc.IH [of "acc + (die_value sides (uint x) + 1)" s'] die [of x] by (simp add: algebra_simps)
  qed simp
  from this [of 0 "nat n" s] show ?thesis using assms(1) by (simp add: dieRoll_def)
qed

lemma die_roll_bounds_witness:
  "3 \<le> fst (dieRoll 3 6 (random_set_unsigned 1)) \<and> fst (dieRoll 3 6 (random_set_unsigned 1)) \<le> 18"
  using die_roll_bounds [of 3 6 "random_set_unsigned 1"] by simp

text \<open>A generator in the state of zeros stays there, and \<open>uniform\<close> answers zero.\<close>

lemma zero_state_stuck:
  "random_next \<lparr>rs_z = 0, rs_w = 0\<rparr> = (0, \<lparr>rs_z = 0, rs_w = 0\<rparr>)"
  "random_set (replicate 8 0) = \<lparr>rs_z = 0, rs_w = 0\<rparr>"
  by (simp_all add: random_next_def Let_def random_set_def numeral_eq_Suc)

end
