(* ===== verification/Boot.thy ===== *)
theory Boot
  imports Prelude
begin

unbundle bit_operations_syntax

section \<open>The boot loader\<close>

text \<open>
  \<open>src/Parasol_1/SRC/KERNEL/X86/BOOT/BOOT.C\<close>: it reads the memory sizes, parses the command line, loads the
  two segments of a kernel's run file into page-aligned real-mode memory and describes them in the table
  of segment descriptors. The compiler is a 16-bit one: an \<open>int\<close> has 16 bits, a \<open>long\<close> 32, and a far pointer is
  a segment in its high and an offset in its low 16 bits. What the code takes from DOS and its
  library (\<open>sbrk\<close>, \<open>coreleft\<close>, \<open>fnsplit\<close>, \<open>fnmerge\<close>, the files) and from the ports are arguments. The
  switch to protected mode (\<open>jumpToKernel\<close>) is machine code and is not modelled, except for its wait for the
  keyboard controller.
\<close>

type_synonym u16 = "16 word"
type_synonym u32 = "32 word"

subsection \<open>Real-mode addresses\<close>

text \<open>What an address means to the processor, and the normal form of a \<open>huge\<close> pointer, on which the compiler
  does its arithmetic.\<close>

definition linear :: "u32 \<Rightarrow> int" where
  "linear p = 16 * uint (drop_bit 16 p) + uint (take_bit 16 p)"

definition MK_FP :: "u16 \<Rightarrow> u16 \<Rightarrow> u32" where
  "MK_FP seg off = push_bit 16 (ucast seg) OR ucast off"

definition huge :: "int \<Rightarrow> u32" where
  "huge a = MK_FP (word_of_int (a div 16)) (word_of_int (a mod 16))"

definition huge_add :: "u32 \<Rightarrow> int \<Rightarrow> u32" where
  "huge_add p n = huge (linear p + n)"

text \<open>\<open>addrToLong\<close>: the offset is cast to an \<open>int\<close>, and the shift is that of a signed \<open>long\<close>.\<close>

definition addrToLong :: "u32 \<Rightarrow> u32" where
  "addrToLong addr =
     (let i = scast (ucast addr :: u16) :: u32 in
      i + push_bit 4 (signed_drop_bit 16 addr))"

subsection \<open>Segment descriptors\<close>

record descriptor =
  ds_limit :: u16
  ds_base :: u16
  ds_base16 :: byte
  ds_attribute :: byte
  ds_reserved :: u16

text \<open>The value that \<open>setMapping\<close> puts into a descriptor.\<close>

definition mapping_descriptor :: "u16 \<Rightarrow> u32 \<Rightarrow> u32 \<Rightarrow> descriptor" where
  "mapping_descriptor attributes offset len =
     (let (len, attributes) =
        (if len \<noteq> 0
         then (len - 1, if 0xfffff < len - 1 then attributes OR 0x8000 else attributes)
         else (len, attributes AND NOT 0x80));
        len = (if attributes AND 0x8000 \<noteq> 0 then drop_bit 12 (len + 0xfff) else len)
      in \<lparr>ds_limit = ucast len, ds_base = ucast offset, ds_base16 = ucast (drop_bit 16 offset),
          ds_attribute = ucast attributes,
          ds_reserved = ucast ((drop_bit 16 len AND 0xf) OR ucast (drop_bit 8 attributes))\<rparr>)"

text \<open>The bytes of a descriptor, and a write of bytes to memory.\<close>

definition bytes16 :: "u16 \<Rightarrow> byte list" where
  "bytes16 w = [ucast w, ucast (drop_bit 8 w)]"

definition bytes32 :: "u32 \<Rightarrow> byte list" where
  "bytes32 w = [ucast w, ucast (drop_bit 8 w), ucast (drop_bit 16 w), ucast (drop_bit 24 w)]"

definition descriptor_bytes :: "descriptor \<Rightarrow> byte list" where
  "descriptor_bytes d = bytes16 (ds_limit d) @ bytes16 (ds_base d) @ [ds_base16 d, ds_attribute d] @
     bytes16 (ds_reserved d)"

type_synonym real_memory = "int \<Rightarrow> byte"

definition poke :: "real_memory \<Rightarrow> int \<Rightarrow> byte list \<Rightarrow> real_memory" where
  "poke m a bs = (\<lambda>x. if a \<le> x \<and> x < a + int (length bs) then bs ! nat (x - a) else m x)"

definition setMapping :: "u32 \<Rightarrow> u16 \<Rightarrow> u16 \<Rightarrow> u32 \<Rightarrow> u32 \<Rightarrow> real_memory \<Rightarrow> real_memory" where
  "setMapping Desc selector attributes offset len m =
     poke m (linear (huge_add Desc (8 * uint (drop_bit 3 selector))))
       (descriptor_bytes (mapping_descriptor attributes offset len))"

subsection \<open>Memory\<close>

record dos =
  dos_coreleft :: "u32 \<Rightarrow> u32"
  dos_has_extension :: "string \<Rightarrow> bool"
  dos_add_extension :: "string \<Rightarrow> string \<Rightarrow> string"
  dos_open :: "string \<Rightarrow> byte list option"

record loader =
  ld_memory :: real_memory
  ld_brk :: u32
  ld_Conventional :: u32
  ld_Extended :: u32

text \<open>A message with the exit status ends the program; so does an undefined result of the library.\<close>

datatype boot_error = Exit string nat | Undefined

definition allocBrklvl :: "dos \<Rightarrow> u32 \<Rightarrow> loader \<Rightarrow> boot_error + u32 \<times> loader" where
  "allocBrklvl dos sz s =
     (let paraSize = ucast (signed_drop_bit 4 (sz + 15)) :: u16;
          blong = ld_brk s;
          rem = dos_coreleft dos blong;
          bpara = ucast (drop_bit 16 blong) :: u16;
          hpara = ucast (drop_bit 16 (blong + push_bit 12 rem)) :: u16;
          hpara = (if rem AND 0xf \<noteq> 0 then hpara + 1 else hpara);
          bpara = (if (ucast blong :: u16) \<noteq> 0 then bpara + 1 else bpara);
          bpara = (bpara + 255) AND 0xff00
      in if hpara < bpara + paraSize then Inl (Exit ''Not enough room to load image'' 1)
         else Inr (MK_FP bpara 0, s\<lparr>ld_brk := MK_FP (bpara + paraSize) 0\<rparr>))"

subsection \<open>Reading a segment\<close>

text \<open>A file is the list of its bytes that have not been read yet. The size of a piece is an \<open>int\<close>: a
  negative one, of a negative length, is an error of \<open>_read\<close> and \<open>memset\<close>, and one of zero repeats for ever.\<close>

definition chunk :: "u32 \<Rightarrow> u16" where
  "chunk len = (if 0x7000 < sint len then 0x7000 else ucast len)"

partial_function (option) read_loop ::
    "byte list \<Rightarrow> u32 \<Rightarrow> u32 \<Rightarrow> u32 \<Rightarrow> real_memory \<Rightarrow> (boot_error + byte list \<times> u32 \<times> u32 \<times> real_memory) option" where
  "read_loop fd addr initLen totalLen m =
     (if initLen = 0 then Some (Inr (fd, addr, totalLen, m))
      else
        let rem = chunk initLen; got = take (unat rem) fd in
        if sint rem < 0 then Some (Inl Undefined)
        else if length got \<noteq> unat rem then Some (Inl (Exit ''Couldn't read image'' 1))
        else read_loop (drop (unat rem) fd) (huge_add addr (sint rem)) (initLen - scast rem)
          (totalLen - scast rem) (poke m (linear addr) got))"

partial_function (option) clear_loop ::
    "u32 \<Rightarrow> u32 \<Rightarrow> real_memory \<Rightarrow> (boot_error + real_memory) option" where
  "clear_loop addr totalLen m =
     (if totalLen = 0 then Some (Inr m)
      else
        let rem = chunk totalLen in
        if sint rem < 0 then Some (Inl Undefined)
        else clear_loop (huge_add addr (sint rem)) (totalLen - scast rem)
          (poke m (linear addr) (replicate (unat rem) 0)))"

definition readImage :: "dos \<Rightarrow> byte list \<Rightarrow> u32 \<Rightarrow> u32 \<Rightarrow> u32 \<Rightarrow> loader
    \<Rightarrow> (boot_error + u32 \<times> byte list \<times> loader) option" where
  "readImage dos fd initLen totalLen adjust s =
     (let totalLen = totalLen - adjust; initLen = initLen - adjust in
      case allocBrklvl dos totalLen s of
        Inl e \<Rightarrow> Some (Inl e)
      | Inr (addr, s) \<Rightarrow>
          let addr2 = huge_add addr (- sint adjust) in
          case read_loop fd addr initLen totalLen (ld_memory s) of
            None \<Rightarrow> None
          | Some (Inl e) \<Rightarrow> Some (Inl e)
          | Some (Inr (fd, addr, totalLen, m)) \<Rightarrow>
              (case clear_loop addr totalLen m of
                 None \<Rightarrow> None
               | Some (Inl e) \<Rightarrow> Some (Inl e)
               | Some (Inr m) \<Rightarrow> Some (Inr (addr2, fd, s\<lparr>ld_memory := m\<rparr>))))"

subsection \<open>The run file\<close>

definition RUN_MAGIC :: u16 where "RUN_MAGIC = 0x8c6a"

record runHeader =
  rh_magic :: u16
  rh_version :: byte
  rh_cs :: u16
  rh_ds :: u16
  rh_ss :: u16
  rh_ip :: u32
  rh_sp :: u32
  rh_descriptors :: u32
  rh_image :: u32
  rh_fixups :: u32
  rh_gates :: u32
  rh_codeLen :: u32
  rh_dataInitLen :: u32
  rh_dataTotalLen :: u32
  rh_externGates :: u32
  rh_debugInfo :: u32
  rh_codeOffset :: u32
  rh_dataOffset :: u32
  rh_threadLoc :: u32
  rh_symbols :: u32
  rh_dataConstLen :: u32
  rh_tables :: "u32 list"

definition sizeof_runHeader :: nat where "sizeof_runHeader = 256"

definition field16 :: "byte list \<Rightarrow> nat \<Rightarrow> u16" where
  "field16 bs i = ucast (bs ! i) OR push_bit 8 (ucast (bs ! (i + 1)))"

definition field32 :: "byte list \<Rightarrow> nat \<Rightarrow> u32" where
  "field32 bs i = ucast (field16 bs i) OR push_bit 16 (ucast (field16 bs (i + 2)))"

text \<open>The header as it lies in the file, without gaps.\<close>

definition runHeader_of :: "byte list \<Rightarrow> runHeader" where
  "runHeader_of bs =
     \<lparr>rh_magic = field16 bs 0, rh_version = bs ! 2, rh_cs = field16 bs 4, rh_ds = field16 bs 6,
      rh_ss = field16 bs 8, rh_ip = field32 bs 12, rh_sp = field32 bs 16,
      rh_descriptors = field32 bs 20, rh_image = field32 bs 24, rh_fixups = field32 bs 28,
      rh_gates = field32 bs 32, rh_codeLen = field32 bs 36, rh_dataInitLen = field32 bs 40,
      rh_dataTotalLen = field32 bs 44, rh_externGates = field32 bs 48, rh_debugInfo = field32 bs 52,
      rh_codeOffset = field32 bs 56, rh_dataOffset = field32 bs 60, rh_threadLoc = field32 bs 64,
      rh_symbols = field32 bs 68, rh_dataConstLen = field32 bs 72,
      rh_tables = map (\<lambda>k. field32 bs (76 + 4 * k)) [0..<45]\<rparr>"

text \<open>What a loaded kernel consists of: the corrected header, the memory and the registers of the
  two tables.\<close>

record kernel =
  kn_header :: runHeader
  kn_loader :: loader
  kn_Desc :: u32
  kn_IDT_base :: u32
  kn_GDT_base :: u32
  kn_GDT_limit :: u16

definition IDT_limit :: u16 where "IDT_limit = 8 * 256"

text \<open>A seek to a negative offset fails and leaves the file where it is, behind the header.\<close>

definition lseek_set :: "u32 \<Rightarrow> byte list \<Rightarrow> byte list" where
  "lseek_set offset content = drop (if sint offset < 0 then sizeof_runHeader else nat (sint offset)) content"

definition loadRunfile :: "dos \<Rightarrow> string \<Rightarrow> loader \<Rightarrow> (boot_error + kernel) option" where
  "loadRunfile dos rf s =
     (let rf = (if dos_has_extension dos rf then rf else dos_add_extension dos rf ''.run'') in
      case dos_open dos rf of
        None \<Rightarrow> Some (Inl (Exit (''Couldn't open file '' @ rf) 1))
      | Some content \<Rightarrow>
          let hd = take sizeof_runHeader content; Rh = runHeader_of hd in
          if length hd \<noteq> sizeof_runHeader then Some (Inl (Exit (''Couldn't read header for '' @ rf) 1))
          else if rh_magic Rh \<noteq> RUN_MAGIC then Some (Inl (Exit (''Runfile magic number is not correct in '' @ rf) 1))
          else
            case readImage dos (lseek_set (rh_image Rh) content) (rh_codeLen Rh) (rh_codeLen Rh) (rh_codeOffset Rh) s of
              None \<Rightarrow> None
            | Some (Inl e) \<Rightarrow> Some (Inl e)
            | Some (Inr (cp, fd, s)) \<Rightarrow>
              case readImage dos fd (rh_dataInitLen Rh) (rh_dataTotalLen Rh) (rh_dataOffset Rh) s of
                None \<Rightarrow> None
              | Some (Inl e) \<Rightarrow> Some (Inl e)
              | Some (Inr (cp2, fd, s)) \<Rightarrow>
                  let tables = huge_add cp2 (uint (rh_sp Rh));
                      Desc = huge_add tables (8 * 256);
                      idt = addrToLong cp2 + rh_sp Rh;
                      m = setMapping Desc 0x08 0x409A (addrToLong cp) (rh_codeLen Rh) (ld_memory s);
                      i = (if ld_Extended s \<noteq> 0 then ld_Extended s * 1024 + 0x100000 else 0x100000) - addrToLong cp2;
                      addrp = linear (huge_add tables (4 * 500));
                      m = poke m addrp (bytes32 (ld_Conventional s) @ bytes32 (ld_Extended s) @
                        bytes32 (rh_codeOffset Rh) @ bytes32 (rh_dataOffset Rh));
                      m = setMapping Desc 0x10 0x4092 (addrToLong cp2) i m
                  in Some (Inr \<lparr>kn_header = Rh\<lparr>rh_cs := 8, rh_ds := 0x10, rh_ss := 0x10\<rparr>,
                       kn_loader = s\<lparr>ld_memory := m\<rparr>, kn_Desc = Desc, kn_IDT_base = idt,
                       kn_GDT_base = idt + ucast IDT_limit,
                       kn_GDT_limit = ucast (rh_dataTotalLen Rh - rh_sp Rh - 0x801)\<rparr>))"

subsection \<open>The command line and the sizes of memory\<close>

text \<open>The library's \<open>atol\<close>: white space, a sign and digits; what is no \<open>long\<close> is undefined.\<close>

fun digits_value :: "int \<Rightarrow> string \<Rightarrow> int" where
  "digits_value acc [] = acc"
| "digits_value acc (c # cs) =
     (if 48 \<le> (of_char c :: int) \<and> (of_char c :: int) \<le> 57 then digits_value (10 * acc + (of_char c - 48)) cs else acc)"

definition atol :: "string \<Rightarrow> int" where
  "atol cs =
     (case dropWhile (\<lambda>c. c = CHR '' '' \<or> 9 \<le> (of_char c :: nat) \<and> (of_char c :: nat) \<le> 13) cs of
        [] \<Rightarrow> 0
      | c # cs \<Rightarrow>
          if c = CHR ''-'' then - digits_value 0 cs
          else if c = CHR ''+'' then digits_value 0 cs
          else digits_value 0 (c # cs))"

definition atol_long :: "string \<Rightarrow> u32 option" where
  "atol_long cs = (let v = atol cs in if - (2 ^ 31) \<le> v \<and> v < 2 ^ 31 then Some (word_of_int v) else None)"

text \<open>The options in front of the file name. The last argument is the file name whatever it is.\<close>

fun boot_options :: "string list \<Rightarrow> loader \<Rightarrow> boot_error + string \<times> loader" where
  "boot_options [] s = Inl (Exit ''Use is: BOOT [ options ] kernel_file'' 0)"
| "boot_options [filename] s = Inr (filename, s)"
| "boot_options (filename # next # rest) s =
     (if take 1 filename = ''-'' then
        if take 1 (drop 1 filename) = ''c'' then
          case atol_long (drop 2 filename) of
            None \<Rightarrow> Inl Undefined
          | Some x \<Rightarrow>
              if 640 < x then Inl (Exit (''Option specifies too much memory: '' @ filename) 0)
              else boot_options (next # rest) (s\<lparr>ld_Conventional := x\<rparr>)
        else if take 1 (drop 1 filename) = ''x'' then
          case atol_long (drop 2 filename) of
            None \<Rightarrow> Inl Undefined
          | Some x \<Rightarrow>
              if 0xFFF00000 < x then Inl (Exit (''Option specifies too much memory: '' @ filename) 0)
              else boot_options (next # rest) (s\<lparr>ld_Extended := x\<rparr>)
        else boot_options (next # rest) s
      else Inr (filename, s))"

definition loadKernel :: "dos \<Rightarrow> string list \<Rightarrow> loader \<Rightarrow> (boot_error + kernel) option" where
  "loadKernel dos args s =
     (case boot_options args s of
        Inl e \<Rightarrow> Some (Inl e)
      | Inr (filename, s) \<Rightarrow> loadRunfile dos filename s)"

text \<open>The non-volatile memory is read through an index port and a data port; \<open>cmos\<close> is what the data port
  answers for an index.\<close>

definition getCMOSbyte :: "(byte \<Rightarrow> byte) \<Rightarrow> byte \<Rightarrow> byte" where
  "getCMOSbyte cmos addr = cmos (addr OR 0x80)"

definition memory_sizes :: "(byte \<Rightarrow> byte) \<Rightarrow> loader \<Rightarrow> loader" where
  "memory_sizes cmos s =
     s\<lparr>ld_Extended := ucast (ucast (getCMOSbyte cmos 0x17) + push_bit 8 (ucast (getCMOSbyte cmos 0x18)) :: u16),
       ld_Conventional := ucast (ucast (getCMOSbyte cmos 0x15) + push_bit 8 (ucast (getCMOSbyte cmos 0x16)) :: u16)\<rparr>"

definition boot_main :: "dos \<Rightarrow> (byte \<Rightarrow> byte) \<Rightarrow> string list \<Rightarrow> loader \<Rightarrow> (boot_error + kernel) option" where
  "boot_main dos cmos args s = loadKernel dos args (memory_sizes cmos s)"

subsection \<open>The keyboard controller\<close>

lemma unat_count_down: "c \<noteq> 1 \<Longrightarrow> unat (c - 2) < unat (c - 1)" for c :: u16
  using unat_minus_one [of "c - 1"] by (simp add: unat_gt_0)

text \<open>\<open>empty_8042\<close>: \<open>port n\<close> is what the \<open>n\<close>-th read of the status port answers; the result is the number of
  reads.\<close>

function wait_8042 :: "(nat \<Rightarrow> byte) \<Rightarrow> nat \<Rightarrow> u16 \<Rightarrow> nat" where
  "wait_8042 port n cnt =
     (let i = port n; cnt = cnt - 1 in
      if i AND 2 \<noteq> 0 \<and> cnt \<noteq> 0 then wait_8042 port (n + 1) cnt else n + 1)"
  by pat_completeness auto
termination
  by (relation "measure (\<lambda>(port, n, cnt). unat (cnt - 1))") (auto intro: unat_count_down)

declare wait_8042.simps [simp del]

definition empty_8042 :: "(nat \<Rightarrow> byte) \<Rightarrow> nat" where
  "empty_8042 port = wait_8042 port 0 0"

end
