(* ===== verification/Boot_Laws.thy ===== *)
theory Boot_Laws
  imports Boot
begin

section \<open>What the boot loader does\<close>

text \<open>
  The meaning the processor gives to the descriptors the loader writes, the conversion of addresses, the
  allocation and the loading of segments, and the bounded wait for the keyboard controller.
\<close>

subsection \<open>Addresses\<close>

lemma uint_halves: "uint (drop_bit 16 p) = uint p div 65536" "uint (take_bit 16 p) = uint p mod 65536" for p :: u32
  by (simp_all add: drop_bit_eq_div take_bit_eq_mod uint_div_distrib uint_mod_distrib)

lemma bit_high: "bit b k \<Longrightarrow> k < 16" for b :: u16
  using bit_imp_le_length [of b k] by simp

lemma uint_MK_FP: "uint (MK_FP a b) = 65536 * uint a + uint b"
proof -
  have "uint (MK_FP a b) = or (push_bit 16 (uint a)) (uint b)"
    by (rule bit_eqI) (auto simp: MK_FP_def bit_simps dest: bit_high)
  also have "\<dots> = push_bit 16 (uint a) + uint b"
    by (rule disjunctive_add [symmetric]) (auto simp: bit_simps dest: bit_high)
  finally show ?thesis by (simp add: push_bit_eq_mult)
qed

lemma linear_MK_FP: "linear (MK_FP a b) = 16 * uint a + uint b"
  using uint_lt2p [of b]  by (simp add: linear_def uint_halves uint_MK_FP)

lemma linear_huge: "0 \<le> a \<Longrightarrow> a < 2 ^ 20 \<Longrightarrow> linear (huge a) = a"
  by (simp add: huge_def linear_MK_FP uint_word_of_int)

text \<open>The conversion is right below the middle of memory only: it reads the segment and the offset as
  signed numbers.\<close>

lemma signed_shift: "0 \<le> x \<Longrightarrow> x < 2 * h \<Longrightarrow> (x + h) mod (2 * h) - h = x - (if h \<le> x then 2 * h else 0)" for x h :: int
  using mod_pos_pos_trivial [of "x - h" "2 * h"] mod_add_self2 [of "x - h" "2 * h"] mod_pos_pos_trivial [of "x + h" "2 * h"]
  by (auto simp: algebra_simps)

lemma sint16: "sint w = uint w - (if 0x8000 \<le> uint w then 65536 else 0)" for w :: u16
  using signed_shift [of "uint w" "0x8000"] uint_lt2p [of w]
  by (simp add: sint_uint signed_take_bit_eq_take_bit_shift take_bit_eq_mod)

lemma sint32: "sint w = uint w - (if 0x80000000 \<le> uint w then 2 ^ 32 else 0)" for w :: u32
  using signed_shift [of "uint w" "0x80000000"] uint_lt2p [of w]
  by (simp add: sint_uint signed_take_bit_eq_take_bit_shift take_bit_eq_mod)

lemma addrToLong_value:
  "addrToLong p = word_of_int (linear p - (if 0x8000 \<le> uint p mod 65536 then 65536 else 0)
     - (if 0x80000000 \<le> uint p then 2 ^ 20 else 0))"
proof -
  have off: "(scast (ucast p :: u16) :: u32) = word_of_int (sint (ucast p :: u16))" by simp
  have low: "uint (ucast p :: u16) = uint p mod 65536"
    by (simp add: unsigned_ucast_eq take_bit_eq_mod)
  have seg: "signed_drop_bit 16 p = (word_of_int (sint p div 65536) :: u32)"
    proof -
    have "word_of_int (sint (signed_drop_bit 16 p)) = (word_of_int (sint p div 65536) :: u32)"
      unfolding sint_signed_drop_bit_eq drop_bit_eq_div by simp
    then show ?thesis by simp
  qed
  show ?thesis
    unfolding addrToLong_def Let_def off seg push_bit_eq_mult linear_def uint_halves sint16 sint32 low
    using div_mult_self1 [of 65536 "uint p - 4294967296" 65536]
    by (simp add: algebra_simps)
qed

text \<open>\<open>addrToLong\<close> gives the linear address of a far pointer exactly when neither its segment nor its
  offset has the sign bit set: it fails from the middle of the first megabyte on.\<close>

theorem address_converted:
  "addrToLong p = word_of_int (linear p) \<longleftrightarrow> uint p mod 65536 < 0x8000 \<and> uint p < 0x80000000"
  unfolding addrToLong_value by auto

subsection \<open>Descriptors\<close>

text \<open>How the processor reads a descriptor: a limit of 20 bits, in pages when the granularity bit is set, a
  base of 32 bits, a present bit.\<close>

definition descriptor_at :: "real_memory \<Rightarrow> int \<Rightarrow> descriptor" where
  "descriptor_at m a =
     (let bs = map (\<lambda>i. m (a + int i)) [0..<8] in
      \<lparr>ds_limit = field16 bs 0, ds_base = field16 bs 2, ds_base16 = bs ! 4, ds_attribute = bs ! 5,
       ds_reserved = field16 bs 6\<rparr>)"

definition segment_limit :: "descriptor \<Rightarrow> int" where
  "segment_limit d =
     (let l = uint (ds_limit d) + 65536 * (uint (ds_reserved d) mod 16) in
      if bit (ds_reserved d) 7 then 4096 * l + 4095 else l)"

definition segment_base :: "descriptor \<Rightarrow> int" where
  "segment_base d = uint (ds_base d) + 65536 * uint (ds_base16 d) + 2 ^ 24 * (uint (ds_reserved d) div 256)"

definition segment_present :: "descriptor \<Rightarrow> bool" where
  "segment_present d \<longleftrightarrow> bit (ds_attribute d) 7"

lemma byte_halves: "ucast (ucast w :: byte) OR push_bit 8 (ucast (ucast (drop_bit 8 w) :: byte)) = w" for w :: u16
  by (rule bit_word_eqI) (auto simp: bit_simps)

lemma descriptor_written: "descriptor_at (poke m a (descriptor_bytes d)) a = d"
proof -
  have "poke m a (descriptor_bytes d) (a + int i) = descriptor_bytes d ! i" if "i < 8" for i
    using that by (simp add: poke_def descriptor_bytes_def bytes16_def)
  then have "map (\<lambda>i. poke m a (descriptor_bytes d) (a + int i)) [0..<8] = descriptor_bytes d"
    by (intro nth_equalityI) (simp_all add: descriptor_bytes_def bytes16_def)
  then show ?thesis
    unfolding descriptor_at_def
    by (simp add: descriptor_bytes_def bytes16_def field16_def byte_halves)
qed

lemma uint_len:
  fixes len :: u32
  assumes "len \<noteq> 0" "len \<le> 0xFFFFF001"
  shows "uint (len - 1) = uint len - 1" "uint (len - 1 + 0xfff) = uint len + 0xffe"
proof -
  have "uint len \<noteq> 0" using assms(1) by (simp add: uint_0_iff)
  then have "0 < uint len" using uint_ge_0 [of len] by linarith
  moreover have "uint len \<le> 0xFFFFF001" using assms(2) by (simp add: word_le_def)
  ultimately show "uint (len - 1) = uint len - 1" "uint (len - 1 + 0xfff) = uint len + 0xffe"
    by (simp_all add: uint_word_ariths)
qed

text \<open>The fields of a descriptor, from a limit of 20 bits and attributes that leave the bits of the limit
  and of the base clear.\<close>

definition flags_clear :: "u16 \<Rightarrow> bool" where
  "flags_clear a \<longleftrightarrow> a AND 0x0F00 = 0"

lemma flags_clear_bits: "flags_clear a \<Longrightarrow> \<not> bit a 8 \<and> \<not> bit a 9 \<and> \<not> bit a 10 \<and> \<not> bit a 11"
proof -
  assume "flags_clear a"
  then have "bit (a AND 0x0F00) k = False" for k by (simp add: flags_clear_def)
  from this [of 8] this [of 9] this [of 10] this [of 11] show ?thesis by (simp add: bit_simps)
qed

lemma reserved_fields:
  fixes l :: u32 and a :: u16
  assumes "flags_clear a"
  defines "r \<equiv> ucast ((drop_bit 16 l AND 0xf) OR ucast (drop_bit 8 a)) :: u16"
  shows "uint r mod 16 = uint l div 65536 mod 16" "uint r div 256 = 0" "bit r 7 = bit a 15"
proof -
  have low: "\<not> bit a (8 + k)" if "k < 4" for k
  proof -
    from that have "k = 0 \<or> k = 1 \<or> k = 2 \<or> k = 3" by arith
    then show ?thesis using flags_clear_bits [OF assms(1)] by (elim disjE) simp_all
  qed
  have fifteen: "bit (15 :: int) k \<longleftrightarrow> k < 4" for k
    using bit_mask_iff [of 4 k, where 'a = int] by (simp add: mask_eq_exp_minus_1)
  have "take_bit 4 r = take_bit 4 (ucast (drop_bit 16 l))"
    unfolding r_def by (intro bit_word_eqI) (auto simp: bit_simps low fifteen)
  then have "uint (take_bit 4 r) = uint (take_bit 4 (ucast (drop_bit 16 l) :: u16))" by simp
  then show "uint r mod 16 = uint l div 65536 mod 16"
    by (simp add: unsigned_take_bit_eq unsigned_ucast_eq take_bit_eq_mod drop_bit_eq_div uint_div_distrib uint_mod_distrib
        mod_mod_cancel flip: take_bit_take_bit)
  have "drop_bit 8 r = 0" unfolding r_def
    by (intro bit_word_eqI) (auto simp: bit_simps fifteen dest: bit_high)
  then show "uint r div 256 = 0"
    by (simp add: drop_bit_eq_div flip: uint_0_iff add: uint_div_distrib)
  show "bit r 7 = bit a 15" unfolding r_def by (simp add: bit_simps)
qed

lemma div_digit: "0 \<le> x \<Longrightarrow> 0 < b \<Longrightarrow> x < b * c \<Longrightarrow> x mod b + b * (x div b mod c) = x" for x b c :: int
proof -
  assume x: "0 \<le> x" "0 < b" "x < b * c"
  then have "0 \<le> x div b" by (simp add: pos_imp_zdiv_nonneg_iff)
  moreover have "b * (x div b) \<le> x"
    using mult_div_mod_eq [of b x] pos_mod_sign [of b x] x(2) by linarith
  then have "b * (x div b) < b * c" using x(3) by linarith
  then have "x div b < c" using x(2) by simp
  ultimately show ?thesis by simp
qed

lemma top_bit: "a AND 0x8000 = 0 \<longleftrightarrow> \<not> bit a 15" for a :: u16
  using and_exp_eq_0_iff_not_bit [of a 15] by simp

text \<open>C26: a descriptor that the loader writes for a non-empty segment is present, has the base address that was
  asked for and covers every byte of the segment, for a base below 16 megabytes and a length up to \<open>0xFFFFF001\<close>; up to
  one megabyte its limit is exact, above that, where it counts in pages, it is rounded up as stated, which is
  less than two pages too large.\<close>

theorem descriptor_maps:
  assumes "len \<noteq> 0" "len \<le> 0xFFFFF001" "offset < 0x1000000" "flags_clear attributes"
    "\<not> bit attributes 15" "bit attributes 7"
  shows "let d = descriptor_at (setMapping Desc selector attributes offset len m)
                   (linear (huge_add Desc (8 * uint (drop_bit 3 selector)))) in
    segment_present d \<and> segment_base d = uint offset \<and>
    uint len - 1 \<le> segment_limit d \<and> segment_limit d < uint len + 8190 \<and>
    (uint len \<le> 2 ^ 20 \<longrightarrow> segment_limit d = uint len - 1) \<and>
    (2 ^ 20 < uint len \<longrightarrow> segment_limit d = 4096 * ((uint len + 4094) div 4096) + 4095)"
proof -
  let ?big = "0xfffff < len - 1"
  define a where "a = (if ?big then attributes OR 0x8000 else attributes)"
  define l where "l = (if ?big then drop_bit 12 (len - 1 + 0xfff) else len - 1)"
  define d where "d = mapping_descriptor attributes offset len"
  have a15: "bit a 15 = ?big" "bit a 7" "flags_clear a"
    using assms(4-6) by (simp_all add: a_def bit_or_iff flags_clear_def bit.conj_disj_distrib2)
  have d: "ds_limit d = ucast l" "ds_base d = ucast offset" "ds_base16 d = ucast (drop_bit 16 offset)"
    "ds_attribute d = ucast a" "ds_reserved d = ucast ((drop_bit 16 l AND 0xf) OR ucast (drop_bit 8 a))"
    using assms(1) a15(1) top_bit [of a] unfolding a_def l_def d_def
    by (simp_all add: mapping_descriptor_def Let_def)
  note len = uint_len [OF assms(1,2)]
  have big: "?big \<longleftrightarrow> 2 ^ 20 < uint len" using len(1) by (simp add: word_less_def)
  have l: "uint l = (if ?big then (uint len + 0xffe) div 4096 else uint len - 1)"
    using len by (simp add: l_def drop_bit_eq_div uint_div_distrib)
  have l20: "uint l < 2 ^ 20" "0 \<le> uint l"
  proof -
    have "0 < uint len" using len(1) uint_ge_0 [of "len - 1"] by linarith
    moreover have "(uint len + 4094) div 4096 < 2 ^ 20"
      using assms(2) by (simp add: div_less_iff_less_mult word_le_def)
    ultimately show "uint l < 2 ^ 20" "0 \<le> uint l" using l big by (simp_all split: if_splits)
  qed
  have limit: "segment_limit d = (if ?big then 4096 * uint l + 4095 else uint l)"
  proof -
    have "uint l mod 65536 + 65536 * (uint l div 65536 mod 16) = uint l"
      using l20 by (intro div_digit) simp_all
    then show ?thesis
      using reserved_fields [OF a15(3), of l] a15(1)
      by (simp add: segment_limit_def d Let_def unsigned_ucast_eq take_bit_eq_mod)
  qed
  have base: "segment_base d = uint offset"
  proof -
    have "uint offset < 2 ^ 24" using assms(3) by (simp add: word_less_def)
    then have "uint offset mod 65536 + 65536 * (uint offset div 65536 mod 256) = uint offset"
      by (intro div_digit) simp_all
    then show ?thesis
      using reserved_fields(2) [OF a15(3), of l]
      by (simp add: segment_base_def d unsigned_ucast_eq take_bit_eq_mod drop_bit_eq_div uint_div_distrib)
  qed
  have "segment_present d" using a15(2) by (simp add: segment_present_def d bit_simps)
  moreover have "descriptor_at (setMapping Desc selector attributes offset len m)
      (linear (huge_add Desc (8 * uint (drop_bit 3 selector)))) = d"
    by (simp only: setMapping_def descriptor_written d_def)
  moreover have "uint len - 1 \<le> segment_limit d \<and> segment_limit d < uint len + 8190 \<and>
      (uint len \<le> 2 ^ 20 \<longrightarrow> segment_limit d = uint len - 1) \<and>
      (2 ^ 20 < uint len \<longrightarrow> segment_limit d = 4096 * ((uint len + 4094) div 4096) + 4095)"
  proof (cases ?big)
    case True
    define q where "q = (uint len + 4094) div 4096"
    have "4096 * q \<le> uint len + 4094" "uint len + 4094 < 4096 * q + 4096"
      using mult_div_mod_eq [of 4096 "uint len + 4094"] pos_mod_bound [of 4096 "uint len + 4094"]
        pos_mod_sign [of 4096 "uint len + 4094"] by (simp_all add: q_def)
    moreover have "segment_limit d = 4096 * q + 4095" "2 ^ 20 < uint len"
      using limit l big True by (simp_all only: if_True q_def)
    ultimately show ?thesis unfolding q_def by linarith
  next
    case False
    then have "segment_limit d = uint len - 1" using limit l by (simp only: if_False)
    moreover have "\<not> 2 ^ 20 < uint len" using False big by blast
    ultimately show ?thesis by simp
  qed
  ultimately show ?thesis using base by (simp add: Let_def)
qed

lemma descriptor_maps_witness:
  "let d = descriptor_at (setMapping 0x20000000 8 0x409A 0x12340 0x300000 (\<lambda>x. 0))
             (linear (huge_add 0x20000000 (8 * uint (drop_bit 3 (8 :: u16))))) in
   segment_present d \<and> segment_base d = 0x12340 \<and> 0x2FFFFF \<le> segment_limit d"
  using descriptor_maps [of "0x300000" "0x12340" "0x409A" "0x20000000" 8 "\<lambda>x. 0"]
  by (simp add: flags_clear_def Let_def bit_simps)

text \<open>An empty segment is described as absent.\<close>

lemma empty_segment_absent: "\<not> segment_present (mapping_descriptor attributes offset 0)"
  by (simp add: mapping_descriptor_def segment_present_def Let_def bit_simps)

text \<open>Above one megabyte the rounding adds a page unless the last byte starts one: 257 pages are described
  as 258. The last lengths of the range wrap around to a segment of one page.\<close>

lemma segment_one_page_too_long:
  "segment_limit (mapping_descriptor 0x409A 0 0x101000) = 0x101FFF"
  "segment_limit (mapping_descriptor 0x409A 0 0xFFFFF002) = 4095"
  by (simp_all add: mapping_descriptor_def segment_limit_def Let_def)

subsection \<open>Page-aligned blocks\<close>

lemma round_down: "uint (x AND 0xff00) = 256 * (uint x div 256)" for x :: u16
proof -
  have "(0xff00 :: u16) = push_bit 8 (mask 8)" by (simp add: mask_eq_exp_minus_1)
  then have "x AND 0xff00 = x AND push_bit 8 (mask 8)" by (rule arg_cong)
  also have "\<dots> = push_bit 8 (drop_bit 8 x)"
    by (rule bit_word_eqI) (auto simp: bit_simps simp del: push_bit_mask_eq)
  finally have "x AND 0xff00 = push_bit 8 (drop_bit 8 x)" .
  moreover have "uint (drop_bit 8 x) < 256" "uint (drop_bit 8 x) = uint x div 256"
    using uint_lt2p [of x] by (simp_all add: drop_bit_eq_div uint_div_distrib div_less_iff_less_mult)
  moreover have "0 \<le> uint x div 256" by (simp add: pos_imp_zdiv_nonneg_iff)
  ultimately show ?thesis
    using mod_pos_pos_trivial [of "256 * (uint x div 256)" 65536]
    by (simp add: push_bit_eq_mult uint_word_ariths mult.commute)
qed

lemma linear_parts: "linear p = 16 * uint (ucast (drop_bit 16 p) :: u16) + uint (ucast p :: u16)"
proof -
  have "uint p div 65536 mod 65536 = uint p div 65536"
    using uint_lt2p [of p] uint_ge_0 [of p]
    by (intro mod_pos_pos_trivial) (simp_all add: pos_imp_zdiv_nonneg_iff div_less_iff_less_mult)
  then show ?thesis
    by (simp add: linear_def unsigned_ucast_eq take_bit_eq_mod drop_bit_eq_div uint_div_distrib uint_mod_distrib)
qed

text \<open>A block of \<open>allocBrklvl\<close> starts on a page boundary at or above the break, ends at the new break, and
  the break stays a normal pointer, when the memory that the pages before the end of the block
  reach is below the first megabyte.\<close>

theorem block_allocated:
  assumes "allocBrklvl dos sz s = Inr (p, s')" "uint (ucast (ld_brk s) :: u16) < 16"
    "linear (ld_brk s) + uint sz + 0x1010 < 2 ^ 20"
  shows "linear p mod 4096 = 0 \<and> linear (ld_brk s) \<le> linear p \<and> linear p + uint sz \<le> linear (ld_brk s') \<and>
    linear (ld_brk s') < 2 ^ 20 \<and> ucast (ld_brk s') = (0 :: u16) \<and> ld_memory s' = ld_memory s"
proof -
  define B :: u16 where "B = ucast (drop_bit 16 (ld_brk s))"
  define b where "b = (if (ucast (ld_brk s) :: u16) \<noteq> 0 then B + 1 else B)"
  define q where "q = (b + 255) AND 0xff00"
  define n :: u16 where "n = ucast (signed_drop_bit 4 (sz + 15))"
  have p: "p = MK_FP q 0" "s' = s\<lparr>ld_brk := MK_FP (q + n) 0\<rparr>"
    using assms(1) by (simp_all add: allocBrklvl_def Let_def B_def b_def q_def n_def split: if_splits)
  have lin: "linear (ld_brk s) = 16 * uint B + uint (ucast (ld_brk s) :: u16)"
    unfolding B_def by (rule linear_parts)
  have nonneg: "0 \<le> uint B" "0 \<le> uint b" "0 \<le> uint sz" "0 \<le> uint (ucast (ld_brk s) :: u16)" by simp_all
  moreover have "(2 :: int) ^ 20 = 1048576" by simp
  ultimately have bounds: "uint sz < 1044464" "16 * uint B < 1044464" using assms(3) lin by linarith+
  have sz: "uint (sz + 15) = uint sz + 15"
    using bounds(1) uint_add_lem [of sz 15] by simp
  have small: "0 \<le> (uint sz + 15) div 16" "(uint sz + 15) div 16 < 65536"
    using bounds(1) by (simp_all add: pos_imp_zdiv_nonneg_iff div_less_iff_less_mult)
  have "sint (sz + 15) = uint sz + 15" using bounds(1) by (simp add: sint32 sz)
  then have shifted: "sint (signed_drop_bit 4 (sz + 15)) = (uint sz + 15) div 16"
    by (simp add: sint_signed_drop_bit_eq drop_bit_eq_div)
  have "signed_drop_bit 4 (sz + 15) = word_of_int (sint (signed_drop_bit 4 (sz + 15)))" by simp
  then have "signed_drop_bit 4 (sz + 15) = word_of_int ((uint sz + 15) div 16)" by (simp only: shifted)
  then have n: "uint n = (uint sz + 15) div 16"
    using small by (simp add: n_def unsigned_ucast_eq take_bit_eq_mod uint_word_of_int)
  have B: "16 * uint B + uint sz + 0x1010 < 2 ^ 20" using assms(3) lin nonneg(4) by linarith
  have b: "uint b \<le> uint B + 1" "linear (ld_brk s) \<le> 16 * uint b"
  proof -
    have "uint (B + 1) = uint B + 1" using bounds(2) uint_add_lem [of B 1] by simp
    then show "uint b \<le> uint B + 1" "linear (ld_brk s) \<le> 16 * uint b"
      using lin assms(2) by (auto simp: b_def)
  qed
  have "uint (b + 255) = uint b + 255"
    using bounds(2) b(1) uint_add_lem [of b 255] by simp
  then have "uint q = 256 * ((uint b + 255) div 256)" by (simp add: q_def round_down)
  then have q: "uint b \<le> uint q" "uint q \<le> uint b + 255" "uint q mod 256 = 0"
    using mult_div_mod_eq [of 256 "uint b + 255"] pos_mod_bound [of 256 "uint b + 255"]
      pos_mod_sign [of 256 "uint b + 255"] by simp_all
  have room: "16 * uint n \<le> uint sz + 15" "uint sz \<le> 16 * uint n"
    using mult_div_mod_eq [of 16 "uint sz + 15"] pos_mod_bound [of 16 "uint sz + 15"]
      pos_mod_sign [of 16 "uint sz + 15"] by (simp_all only: n)
  have "16 * (uint q + uint n) < 1048576" using q(2) b(1) B room(1) by simp
  then have qn: "uint (q + n) = uint q + uint n" using uint_add_lem [of q n] by simp
  obtain k where "uint q = 256 * k" using q(3) by auto
  then have "(16 * uint q) mod 4096 = 0" by simp
  moreover have "linear p = 16 * uint q" "linear (ld_brk s') = 16 * (uint q + uint n)"
    by (simp_all add: p linear_MK_FP qn)
  moreover have "ucast (ld_brk s') = (0 :: u16)"
    unfolding p by (rule bit_word_eqI) (simp add: MK_FP_def bit_simps)
  moreover have "ld_memory s' = ld_memory s" by (simp add: p)
  moreover have "linear (ld_brk s) \<le> 16 * uint q" using b(2) q(1) by linarith
  moreover have "16 * uint q + uint sz \<le> 16 * (uint q + uint n)" using room(2) by simp
  ultimately show ?thesis using \<open>16 * (uint q + uint n) < 1048576\<close> by simp
qed

lemma block_allocated_witness:
  "\<exists>p s'. allocBrklvl \<lparr>dos_coreleft = \<lambda>b. 0x80000, dos_has_extension = \<lambda>f. True, dos_add_extension = (@), dos_open = \<lambda>f. None\<rparr>
      5000 \<lparr>ld_memory = \<lambda>x. 0, ld_brk = 0x12340008, ld_Conventional = 640, ld_Extended = 0\<rparr> = Inr (p, s') \<and>
    linear p mod 4096 = 0 \<and> 0x12348 \<le> linear p"
proof -
  let ?dos = "\<lparr>dos_coreleft = \<lambda>b. 0x80000, dos_has_extension = \<lambda>f. True, dos_add_extension = (@), dos_open = \<lambda>f. None\<rparr>"
  let ?s = "\<lparr>ld_memory = \<lambda>x. 0, ld_brk = 0x12340008, ld_Conventional = 640, ld_Extended = 0\<rparr> :: loader"
  have lin: "linear (ld_brk ?s) = 0x12348" by (simp add: linear_def)
  obtain p s' where a: "allocBrklvl ?dos 5000 ?s = Inr (p, s')" by (simp add: allocBrklvl_def Let_def)
  have "linear p mod 4096 = 0 \<and> linear (ld_brk ?s) \<le> linear p"
    using block_allocated [OF a] lin by simp
  then show ?thesis using a lin by auto
qed

subsection \<open>The image of a segment\<close>

text \<open>A pointer in normal form moves within the first megabyte as its linear address does.\<close>

lemma linear_huge_add: "0 \<le> linear p + n \<Longrightarrow> linear p + n < 2 ^ 20 \<Longrightarrow> linear (huge_add p n) = linear p + n"
  by (simp only: huge_add_def linear_huge)

lemma poke_append: "poke (poke m a xs) (a + int (length xs)) ys = poke m a (xs @ ys)"
proof -
  have "nat (x - (a + int (length xs))) = nat (x - a) - length xs" for x by arith
  then show ?thesis by (intro ext) (auto simp: poke_def nth_append)
qed

lemma poke_Nil [simp]: "poke m a [] = m"
  by (rule ext) (auto simp: poke_def)

lemma chunk_value:
  assumes "0 < n" "n < 2 ^ 20" "len = word_of_int n"
  defines "c \<equiv> min n 0x7000"
  shows "sint (chunk len) = c" "unat (chunk len) = nat c" "len - scast (chunk len) = word_of_int (n - c)" "len \<noteq> 0"
proof -
  have u: "uint len = n" using assms(1-3) by (simp add: uint_word_of_int)
  then have s: "sint len = n" using assms(2) by (simp add: sint32)
  show "len \<noteq> 0" using u assms(1) by auto
  have ch: "chunk len = word_of_int c"
  proof (cases "0x7000 < n")
    case False
    then have "c = n" by (simp add: c_def)
    then show ?thesis using False s u by (simp add: chunk_def ucast_eq)
  qed (simp add: chunk_def s c_def)
  have c: "0 < c" "c \<le> 0x7000" using assms(1) by (simp_all add: c_def)
  then have uc: "uint (chunk len) = c" by (simp add: ch uint_word_of_int)
  then show sc: "sint (chunk len) = c" using c by (simp add: sint16)
  show "unat (chunk len) = nat c" using uc by (simp only: unat_eq_nat_uint)
  have "scast (chunk len) = (word_of_int (sint (chunk len)) :: u32)" by simp
  then have "scast (chunk len) = (word_of_int c :: u32)" by (simp only: sc)
  then show "len - scast (chunk len) = word_of_int (n - c)" using assms(3) by simp
qed

lemma clear_loop_clears:
  assumes "0 \<le> n" "0 \<le> linear addr" "linear addr + n < 2 ^ 20"
  shows "clear_loop addr (word_of_int n) m = Some (Inr (poke m (linear addr) (replicate (nat n) 0)))"
  using assms
proof (induction "nat n" arbitrary: n addr m rule: less_induct)
  case less
  show ?case
  proof (cases "n = 0")
    case True
    then show ?thesis by (subst clear_loop.simps) simp
  next
    case False
    define c where "c = min n 0x7000"
    have c: "0 < c" "c \<le> n" using False less.prems(1) by (auto simp: c_def)
    have n: "0 < n" "n < 2 ^ 20" using False less.prems by simp_all
    note ch = chunk_value [OF n refl, folded c_def]
    have at: "linear (huge_add addr c) = linear addr + c"
      using less.prems c by (intro linear_huge_add) simp_all
    have "clear_loop addr (word_of_int n) m =
        clear_loop (huge_add addr c) (word_of_int (n - c)) (poke m (linear addr) (replicate (nat c) 0))"
      using ch c by (subst clear_loop.simps) (simp add: Let_def)
    also have "\<dots> = Some (Inr (poke (poke m (linear addr) (replicate (nat c) 0)) (linear addr + c) (replicate (nat (n - c)) 0)))"
      using less.hyps [of "n - c" "huge_add addr c"] less.prems c at by simp
    also have "poke (poke m (linear addr) (replicate (nat c) 0)) (linear addr + c) (replicate (nat (n - c)) 0) =
        poke m (linear addr) (replicate (nat c) 0 @ replicate (nat (n - c)) 0)"
      using poke_append [of m "linear addr" "replicate (nat c) 0"] c by simp
    also have "replicate (nat c) (0 :: byte) @ replicate (nat (n - c)) 0 = replicate (nat n) 0"
      using c by (simp flip: replicate_add nat_add_distrib)
    finally show ?thesis .
  qed
qed

lemma read_loop_reads:
  assumes "0 \<le> n" "n \<le> k" "0 \<le> linear addr" "linear addr + k < 2 ^ 20" "n \<le> int (length fd)"
  shows "\<exists>addr'. read_loop fd addr (word_of_int n) (word_of_int k) m =
      Some (Inr (drop (nat n) fd, addr', word_of_int (k - n), poke m (linear addr) (take (nat n) fd))) \<and>
    linear addr' = linear addr + n"
  using assms
proof (induction "nat n" arbitrary: n k addr m fd rule: less_induct)
  case less
  show ?case
  proof (cases "n = 0")
    case True
    then show ?thesis by (subst read_loop.simps) simp
  next
    case False
    define c where "c = min n 0x7000"
    have c: "0 < c" "c \<le> n" using False less.prems(1) by (auto simp: c_def)
    have n: "0 < n" "n < 2 ^ 20" using False less.prems by simp_all
    note ch = chunk_value [OF n refl, folded c_def]
    have at: "linear (huge_add addr c) = linear addr + c"
      using less.prems c by (intro linear_huge_add) simp_all
    have k: "word_of_int k - scast (chunk (word_of_int n)) = (word_of_int (k - c) :: u32)"
    proof -
      have "scast (chunk (word_of_int n)) = (word_of_int (sint (chunk (word_of_int n))) :: u32)" by simp
      then show ?thesis using ch(1) by simp
    qed
    have "read_loop fd addr (word_of_int n) (word_of_int k) m =
        read_loop (drop (nat c) fd) (huge_add addr c) (word_of_int (n - c)) (word_of_int (k - c))
          (poke m (linear addr) (take (nat c) fd))"
      using ch c k less.prems by (subst read_loop.simps) (simp add: Let_def)
    moreover obtain addr' where "read_loop (drop (nat c) fd) (huge_add addr c) (word_of_int (n - c)) (word_of_int (k - c))
          (poke m (linear addr) (take (nat c) fd)) =
        Some (Inr (drop (nat (n - c)) (drop (nat c) fd), addr', word_of_int (k - c - (n - c)),
          poke (poke m (linear addr) (take (nat c) fd)) (linear addr + c) (take (nat (n - c)) (drop (nat c) fd))))"
        and "linear addr' = linear addr + n"
      using less.hyps [of "n - c" "k - c" "huge_add addr c" "drop (nat c) fd"] less.prems c at by auto
    moreover have "poke (poke m (linear addr) (take (nat c) fd)) (linear addr + c) (take (nat (n - c)) (drop (nat c) fd)) =
        poke m (linear addr) (take (nat n) fd)"
      using poke_append [of m "linear addr" "take (nat c) fd" "take (nat (n - c)) (drop (nat c) fd)"] c less.prems
      by (simp flip: take_add nat_add_distrib)
    moreover have "drop (nat (n - c)) (drop (nat c) fd) = drop (nat n) fd"
      using c by (simp flip: nat_add_distrib)
    ultimately show ?thesis by auto
  qed
qed

lemma huge_add_0: "0 \<le> linear p \<Longrightarrow> linear p < 2 ^ 20 \<Longrightarrow> linear (huge_add p 0) = linear p"
  using linear_huge_add [of p 0] by simp

text \<open>C25: \<open>readImage\<close> allocates the block, fills it with the bytes of the file and with zeros up to the total length,
  leaves the rest of the memory as it was, and answers the address of the block less the adjustment; a
  file that is too short ends the loader.\<close>

theorem image_loaded:
  assumes "allocBrklvl dos (totalLen - adjust) s = Inr (addr, s1)"
    "initLen - adjust = word_of_int n" "totalLen - adjust = word_of_int k"
    "0 \<le> n" "n \<le> k" "0 \<le> linear addr" "linear addr + k < 2 ^ 20" "n \<le> int (length fd)"
  shows "readImage dos fd initLen totalLen adjust s =
    Some (Inr (huge_add addr (- sint adjust), drop (nat n) fd,
      s1\<lparr>ld_memory := poke (ld_memory s1) (linear addr) (take (nat n) fd @ replicate (nat (k - n)) 0)\<rparr>))"
proof -
  obtain addr' where r: "read_loop fd addr (word_of_int n) (word_of_int k) (ld_memory s1) =
      Some (Inr (drop (nat n) fd, addr', word_of_int (k - n), poke (ld_memory s1) (linear addr) (take (nat n) fd)))"
    and at: "linear addr' = linear addr + n"
    using read_loop_reads [OF assms(4-8)] by blast
  have "clear_loop addr' (word_of_int (k - n)) (poke (ld_memory s1) (linear addr) (take (nat n) fd)) =
      Some (Inr (poke (poke (ld_memory s1) (linear addr) (take (nat n) fd)) (linear addr + n) (replicate (nat (k - n)) 0)))"
    using clear_loop_clears [of "k - n" addr'] assms(4-7) at by simp
  also have "poke (poke (ld_memory s1) (linear addr) (take (nat n) fd)) (linear addr + n) (replicate (nat (k - n)) 0) =
      poke (ld_memory s1) (linear addr) (take (nat n) fd @ replicate (nat (k - n)) 0)"
    using poke_append [of "ld_memory s1" "linear addr" "take (nat n) fd" "replicate (nat (k - n)) 0"] assms(4,8)
    by simp
  finally show ?thesis
    using r assms(1-3) by (simp add: readImage_def Let_def)
qed

lemma image_loaded_witness:
  "\<exists>s'. readImage \<lparr>dos_coreleft = \<lambda>b. 0x80000, dos_has_extension = \<lambda>f. True, dos_add_extension = (@), dos_open = \<lambda>f. None\<rparr>
      [1, 2, 3] 2 5 0 \<lparr>ld_memory = \<lambda>x. 7, ld_brk = 0x12340000, ld_Conventional = 640, ld_Extended = 0\<rparr> =
      Some (Inr (huge_add 0x13000000 0, [3], s')) \<and>
    map (ld_memory s') [0x13000, 0x13001, 0x13002, 0x13004, 0x13005] = [1, 2, 0, 0, 7]"
proof -
  let ?dos = "\<lparr>dos_coreleft = \<lambda>b. 0x80000, dos_has_extension = \<lambda>f. True, dos_add_extension = (@), dos_open = \<lambda>f. None\<rparr>"
  let ?s = "\<lparr>ld_memory = \<lambda>x. 7, ld_brk = 0x12340000, ld_Conventional = 640, ld_Extended = 0\<rparr> :: loader"
  have a: "allocBrklvl ?dos (5 - 0) ?s = Inr (0x13000000, ?s\<lparr>ld_brk := 0x13010000\<rparr>)"
    by (simp add: allocBrklvl_def Let_def MK_FP_def)
  have at: "linear 0x13000000 = 0x13000" by (simp add: linear_def)
  show ?thesis
    using image_loaded [OF a, of 2 2 5 "[1, 2, 3]"] at
    by (simp add: poke_def numeral_2_eq_2 numeral_3_eq_3)
qed

lemma short_file_rejected:
  assumes "allocBrklvl dos (totalLen - adjust) s = Inr (addr, s1)" "initLen - adjust = word_of_int n"
    "0 < n" "n \<le> 0x7000" "int (length fd) < n"
  shows "readImage dos fd initLen totalLen adjust s = Some (Inl (Exit ''Couldn't read image'' 1))"
proof -
  have n: "n < 2 ^ 20" "min n 0x7000 = n" using assms(4) by simp_all
  have short: "min (length fd) (nat n) \<noteq> nat n" "length fd \<noteq> nat n" "\<not> n < 0" using assms(3,5) by linarith+
  show ?thesis
    using chunk_value [OF assms(3) n(1) refl] n(2) assms(1,2) short
    by (simp add: readImage_def Let_def) (subst read_loop.simps, simp add: Let_def)
qed

subsection \<open>The keyboard controller\<close>

lemma wait_8042_spec:
  "let r = wait_8042 port n cnt in n < r \<and> r \<le> n + 1 + unat (cnt - 1) \<and>
    (\<forall>i. n \<le> i \<and> i < r - 1 \<longrightarrow> port i AND 2 \<noteq> 0) \<and>
    (port (r - 1) AND 2 = 0 \<or> r = n + 1 + unat (cnt - 1))"
proof (induction port n cnt rule: wait_8042.induct)
  case (1 port n cnt)
  show ?case
  proof (cases "port n AND 2 \<noteq> 0 \<and> cnt - 1 \<noteq> 0")
    case True
    define r where "r = wait_8042 port (n + 1) (cnt - 1)"
    have r: "wait_8042 port n cnt = r"
      using True by (subst wait_8042.simps) (simp add: Let_def r_def)
    have u: "unat (cnt - 1) = Suc (unat (cnt - 1 - 1))"
      using True unat_minus_one [of "cnt - 1"] unat_gt_0 [of "cnt - 1"] by linarith
    have IH: "n + 1 < r" "r \<le> n + 1 + 1 + unat (cnt - 1 - 1)" "\<And>i. n + 1 \<le> i \<Longrightarrow> i < r - 1 \<Longrightarrow> port i AND 2 \<noteq> 0"
      "port (r - 1) AND 2 = 0 \<or> r = n + 1 + 1 + unat (cnt - 1 - 1)"
      using 1 [OF refl refl True] unfolding Let_def r_def by blast+
    have "port i AND 2 \<noteq> 0" if "n \<le> i" "i < r - 1" for i
      using that IH(3) [of i] True by (cases "i = n") simp_all
    moreover have "n < r" "r \<le> n + 1 + unat (cnt - 1)" using IH(1,2) u by linarith+
    moreover have "port (r - 1) AND 2 = 0 \<or> r = n + 1 + unat (cnt - 1)" using IH(4) u by simp
    ultimately show ?thesis unfolding r Let_def by blast
  next
    case False
    then show ?thesis by (subst (1) wait_8042.simps) (auto simp: Let_def)
  qed
qed

text \<open>The wait for the keyboard controller ends after at most 65536 reads of its status port, at the first that
  reports an empty input buffer.\<close>

theorem controller_wait_ends:
  "0 < empty_8042 port \<and> empty_8042 port \<le> 65536 \<and> (\<forall>i < empty_8042 port - 1. port i AND 2 \<noteq> 0) \<and>
    (port (empty_8042 port - 1) AND 2 = 0 \<or> empty_8042 port = 65536)"
proof -
  have "0 + 1 + unat (0 - 1 :: u16) = 65536" by (simp add: unsigned_minus_1_eq_mask mask_eq_exp_minus_1)
  from wait_8042_spec [of port 0 0, unfolded this] show ?thesis
    unfolding empty_8042_def Let_def by blast
qed

lemma controller_wait_ends_witness: "empty_8042 (\<lambda>n. if n = 0 then 3 else 1) = 2"
proof -
  define port where "port = (\<lambda>n :: nat. if n = 0 then 3 else 1 :: byte)"
  define N where "N = empty_8042 port"
  have N: "0 < N" "\<forall>i < N - 1. port i AND 2 \<noteq> 0" "port (N - 1) AND 2 = 0 \<or> N = 65536"
    using controller_wait_ends [of port] unfolding N_def by blast+
  have "port 1 AND 2 = 0" "port 0 AND 2 \<noteq> 0" by (simp_all add: port_def)
  then have "\<not> 1 < N - 1" "N \<noteq> 1" using N by auto
  then have "N = 2" using N(1) by linarith
  then show ?thesis unfolding N_def port_def .
qed

subsection \<open>The command line\<close>

text \<open>The last argument is taken as the file name even when it is an option, and the sizes of memory are
  those of the last options before it.\<close>

lemma last_argument_is_file: "boot_options [filename] s = Inr (filename, s)"
  by simp

lemma conventional_size:
  assumes "atol_long x = Some v" "v \<le> 640"
  shows "boot_options ((''-c'' @ x) # filename # rest) s = boot_options (filename # rest) (s\<lparr>ld_Conventional := v\<rparr>)"
proof -
  have "\<not> 640 < v" using assms(2) by (simp add: not_less)
  then show ?thesis using assms(1) by simp
qed

text \<open>The greatest size of extended memory that is accepted is beyond what the computation of its end can hold:
  four gigabytes of kilobytes come out as one megabyte.\<close>

lemma extended_size_wraps:
  "boot_options [''-x4194304'', ''kernel''] s = Inr (''kernel'', s\<lparr>ld_Extended := 4194304\<rparr>)"
  "(4194304 :: u32) * 1024 + 0x100000 = 0x100000"
  by (simp_all add: atol_long_def atol_def Let_def)

end
