(* ===== verification/Printing.thy ===== *)
theory Printing
  imports Buffers
begin

section \<open>Strings: numbers and formatted text\<close>

text \<open>
  common/string.h and string.cc: the constructors of a string from a number, \<open>toInt\<close>, and \<open>printf\<close>. The library's
  conversion of one argument, \<open>vsprintf\<close> with a single conversion, is an argument of the model (\<open>vs\<close>);
  its result is undefined when the format and the argument do not fit. The variable arguments are a
  list of their values. A \<open>long\<close> has 32 bits on Windows.
\<close>

subsection \<open>Decimal numbers\<close>

fun digits :: "nat \<Rightarrow> cstr" where
  "digits n = (if n < 10 then [48 + of_nat n] else digits (n div 10) @ [48 + of_nat (n mod 10)])"

declare digits.simps [simp del]

definition decimal :: "int \<Rightarrow> cstr" where
  "decimal v = (if v < 0 then 45 # digits (nat (- v)) else digits (nat v))"

definition buf_of_text :: "cstr \<Rightarrow> buffer option" where
  "buf_of_text s = do { c \<leftarrow> buf_resize (int (length s)) None; buf_put 0 (map Some s @ [Some 0]) c }"

definition buf_of_int :: "int32 \<Rightarrow> buffer option" where
  "buf_of_int v = buf_of_text (decimal (sint v))"

definition buf_of_ulong :: "int32 \<Rightarrow> buffer option" where
  "buf_of_ulong v = buf_of_text (decimal (uint v))"

text \<open>\<open>atoi\<close>: white space, a sign, digits; a value that is no \<open>int\<close> is undefined.\<close>

fun atoi_digits :: "int \<Rightarrow> cstr \<Rightarrow> int" where
  "atoi_digits acc [] = acc"
| "atoi_digits acc (c # cs) = (if isdigit c then atoi_digits (10 * acc + (uint c - 48)) cs else acc)"

definition atoi_value :: "cstr \<Rightarrow> int" where
  "atoi_value s =
     (case dropWhile isspace s of
        [] \<Rightarrow> 0
      | c # cs \<Rightarrow>
          if c = 45 then - atoi_digits 0 cs
          else if c = 43 then atoi_digits 0 cs
          else atoi_digits 0 (c # cs))"

definition atoi :: "cstr \<Rightarrow> int32 option" where
  "atoi s = (let v = atoi_value s in if - (2 ^ 31) \<le> v \<and> v < 2 ^ 31 then Some (word_of_int v) else None)"

text \<open>The C string that starts at some bytes: to the first NUL, which has to come before a byte that was never
  written and before the end.\<close>

fun c_string :: "byte option list \<Rightarrow> cstr option" where
  "c_string [] = None"
| "c_string (None # bs) = None"
| "c_string (Some b # bs) = (if b = 0 then Some [] else map_option ((#) b) (c_string bs))"

definition buf_toInt :: "buffer \<Rightarrow> int32 option" where
  "buf_toInt c = (case c of None \<Rightarrow> Some 0 | Some a \<Rightarrow> do { s \<leftarrow> c_string (a_data a); atoi s })"

subsection \<open>\<open>printf\<close>\<close>

datatype va_arg = Int_arg WORD | Double_arg WORD | String_arg "cstr option"

definition conversions :: "byte list" where
  "conversions = [37, 99, 100, 101, 102, 103, 111, 112, 115, 117, 120]"

text \<open>\<open>format\<close> is a C string: the byte behind its last one is the terminator, at which the search stops as well.\<close>

function skipFormat :: "cstr \<Rightarrow> nat \<Rightarrow> nat" where
  "skipFormat format i =
     (if length format \<le> i \<or> format ! i \<in> set conversions then i else skipFormat format (i + 1))"
  by auto
termination
  by (relation "measure (\<lambda>(format, i). length format - i)") auto

declare skipFormat.simps [simp del]

lemma skipFormat_ge: "i \<le> skipFormat format i"
proof (induction format i rule: skipFormat.induct)
  case (1 format i)
  then show ?case by (subst skipFormat.simps) auto
qed

text \<open>One conversion: the character \<open>c\<close> ends its text \<open>a\<close>. The result of \<open>vsprintf\<close> has to fit into 128 bytes with its
  terminator.\<close>

definition convert :: "(cstr \<Rightarrow> va_arg list \<Rightarrow> cstr option) \<Rightarrow> byte \<Rightarrow> cstr \<Rightarrow> va_arg list \<Rightarrow> buffer
    \<Rightarrow> (va_arg list \<times> buffer) option" where
  "convert vs c a ap s =
     (if c = 115 then
        case ap of
          String_arg (Some t) # ap \<Rightarrow> do { s \<leftarrow> buf_append_cstr t s; Some (ap, s) }
        | _ \<Rightarrow> None
      else if c = 37 then do { s \<leftarrow> buf_push_back 37 s; Some (ap, s) }
      else
        case ap of
          [] \<Rightarrow> None
        | arg # rest \<Rightarrow> do {
            t \<leftarrow> vs a ap;
            if length t < 128 then do { s \<leftarrow> buf_append_cstr t s; Some (rest, s) } else None })"

function printf_loop :: "(cstr \<Rightarrow> va_arg list \<Rightarrow> cstr option) \<Rightarrow> cstr \<Rightarrow> nat \<Rightarrow> va_arg list \<Rightarrow> buffer \<Rightarrow> buffer option" where
  "printf_loop vs format i ap s =
     (if length format \<le> i then Some s
      else if format ! i = 37 then
        let j = skipFormat format (i + 1) in
        if length format \<le> j then Some s
        else do {
          (ap, s) \<leftarrow> convert vs (format ! j) (take (j + 1 - i) (drop i format)) ap s;
          printf_loop vs format (j + 1) ap s }
      else do { s \<leftarrow> buf_push_back (format ! i) s; printf_loop vs format (i + 1) ap s })"
  by auto
termination
proof (relation "measure (\<lambda>(vs, format, i, ap, s). length format - i)", goal_cases)
  case (2 vs format i ap s j x x' y)
  then show ?case using skipFormat_ge [of "i + 1" format] by (simp add: not_le)
qed auto

declare printf_loop.simps [simp del]

definition buf_printf :: "(cstr \<Rightarrow> va_arg list \<Rightarrow> cstr option) \<Rightarrow> cstr \<Rightarrow> va_arg list \<Rightarrow> buffer \<Rightarrow> (int \<times> buffer) option" where
  "buf_printf vs format ap s = do {
     let originalSize = buf_size s;
     s \<leftarrow> printf_loop vs format 0 ap s;
     Some (buf_size s - originalSize, s) }"

subsection \<open>Numbers survive the way through text\<close>

lemma digit_byte: "n < 10 \<Longrightarrow> isdigit (48 + of_nat n) \<and> uint (48 + of_nat n :: byte) = 48 + int n \<and> (48 + of_nat n :: byte) \<noteq> 0"
proof -
  assume "n < 10"
  then have "n = 0 \<or> n = 1 \<or> n = 2 \<or> n = 3 \<or> n = 4 \<or> n = 5 \<or> n = 6 \<or> n = 7 \<or> n = 8 \<or> n = 9" by arith
  then show ?thesis by (elim disjE) (simp_all add: isdigit_def)
qed

lemma atoi_digits_append:
  "list_all isdigit xs \<Longrightarrow> atoi_digits acc (xs @ ys) = atoi_digits (atoi_digits acc xs) ys"
  by (induction xs arbitrary: acc) auto

lemma digits_law: "list_all (\<lambda>c. isdigit c \<and> c \<noteq> 0) (digits n) \<and> digits n \<noteq> [] \<and> atoi_digits 0 (digits n) = int n"
proof (induction n rule: digits.induct)
  case (1 n)
  show ?case
  proof (cases "n < 10")
    case True
    then show ?thesis using digit_byte [OF True] by (subst (1 2 3) digits.simps) simp
  next
    case False
    have d: "digits n = digits (n div 10) @ [48 + of_nat (n mod 10)]" using False by (subst digits.simps) simp
    have IH: "list_all (\<lambda>c. isdigit c \<and> c \<noteq> 0) (digits (n div 10))" "atoi_digits 0 (digits (n div 10)) = int (n div 10)"
      using 1 [OF False] by simp_all
    then have "list_all isdigit (digits (n div 10))" by (simp add: list_all_iff)
    then have "atoi_digits 0 (digits n) = 10 * int (n div 10) + int (n mod 10)"
      using digit_byte [of "n mod 10"] IH(2) by (simp add: d atoi_digits_append)
    also have "\<dots> = int n" by (simp add: zdiv_int zmod_int)
    finally show ?thesis using digit_byte [of "n mod 10"] IH(1) by (simp add: d)
  qed
qed

lemma digit_not_space: "isdigit c \<Longrightarrow> \<not> isspace c \<and> c \<noteq> 45 \<and> c \<noteq> 43"
  by (auto simp: isdigit_def isspace_def word_le_nat_alt)

lemma atoi_decimal: "atoi_value (decimal v) = v"
proof (cases "v < 0")
  case True
  then show ?thesis using digits_law [of "nat (- v)"] by (simp add: atoi_value_def decimal_def isspace_def)
next
  case False
  obtain c cs where d: "digits (nat v) = c # cs" using digits_law [of "nat v"] by (cases "digits (nat v)") auto
  then have "isdigit c" using digits_law [of "nat v"] by simp
  then show ?thesis
    using False digits_law [of "nat v"] digit_not_space [of c] d by (simp add: atoi_value_def decimal_def)
qed

lemma decimal_bytes: "decimal v \<noteq> []" "list_all (\<lambda>c. c \<noteq> 0) (decimal v)"
  using digits_law by (auto simp: decimal_def list_all_iff)

lemma c_string_text: "list_all (\<lambda>c. c \<noteq> 0) s \<Longrightarrow> c_string (map Some s @ Some 0 # rest) = Some s"
  by (induction s) auto

lemma digits_short: "n < 10 ^ k \<Longrightarrow> 0 < k \<Longrightarrow> length (digits n) \<le> k"
proof (induction k arbitrary: n)
  case (Suc k)
  show ?case
  proof (cases "n < 10")
    case True
    then show ?thesis by (subst digits.simps) simp
  next
    case False
    have "n div 10 < 10 ^ k" using Suc.prems(1) by (simp add: less_mult_imp_div_less mult.commute)
    moreover have "0 < k" using False Suc.prems(1) by (cases k) auto
    ultimately have "length (digits (n div 10)) \<le> k" by (rule Suc.IH)
    then show ?thesis using False by (subst digits.simps) simp
  qed
qed simp

lemma decimal_short: "- (2 ^ 32) < v \<Longrightarrow> v < 2 ^ 32 \<Longrightarrow> length (decimal v) \<le> 11"
  using digits_short [of "nat (- v)" 10] digits_short [of "nat v" 10] by (auto simp: decimal_def nat_less_iff)

lemma text_law:
  assumes "s \<noteq> []" "small (int (length s))"
  shows "\<exists>c. buf_of_text s = Some c \<and> buf_ok c s"
  using grow_put [of None "[]" s] assms by (force simp: buf_of_text_def)

text \<open>C23: the string that is made of an \<open>int\<close> reads back as the same number, the most negative one included.\<close>

theorem int_string_roundtrip:
  "\<exists>c. buf_of_int v = Some c \<and> buf_ok c (decimal (sint v)) \<and> buf_toInt c = Some v"
proof -
  have range: "- (2 ^ 31) \<le> sint v" "sint v < 2 ^ 31" using sint_ge [of v] sint_lt [of v] by simp_all
  then have "length (decimal (sint v)) \<le> 11" by (intro decimal_short) simp_all
  then obtain c where c: "buf_of_int v = Some c" "buf_ok c (decimal (sint v))"
    using text_law [of "decimal (sint v)"] decimal_bytes by (auto simp: buf_of_int_def)
  obtain a where a: "c = Some a" using c(2) decimal_bytes(1) by (cases c) auto
  have "take (length (decimal (sint v))) (a_data a) = map Some (decimal (sint v))"
    "a_data a ! length (decimal (sint v)) = Some 0" "length (decimal (sint v)) < length (a_data a)"
    using c(2) by (auto simp: a buf_ok_def buf_holds_def terminated_def)
  then have "a_data a = map Some (decimal (sint v)) @ Some 0 # drop (Suc (length (decimal (sint v)))) (a_data a)"
    by (metis id_take_nth_drop)
  then have "c_string (a_data a) = Some (decimal (sint v))"
    using c_string_text decimal_bytes(2) by metis
  then show ?thesis using c a range by (simp add: buf_toInt_def atoi_def atoi_decimal Let_def)
qed

subsection \<open>What \<open>printf\<close> appends\<close>

text \<open>The pieces of text a format asks for: a character, or the text of a conversion. A conversion that does not
  end ends the text.\<close>

definition piece_of :: "(cstr \<Rightarrow> va_arg list \<Rightarrow> cstr option) \<Rightarrow> byte \<Rightarrow> cstr \<Rightarrow> va_arg list \<Rightarrow> (cstr \<times> va_arg list) option" where
  "piece_of vs c a ap =
     (if c = 115 then
        case ap of String_arg (Some t) # ap \<Rightarrow> Some (t, ap) | _ \<Rightarrow> None
      else if c = 37 then Some ([37], ap)
      else case ap of [] \<Rightarrow> None | arg # rest \<Rightarrow> do { t \<leftarrow> vs a ap; if length t < 128 then Some (t, rest) else None })"

function pieces :: "(cstr \<Rightarrow> va_arg list \<Rightarrow> cstr option) \<Rightarrow> cstr \<Rightarrow> va_arg list \<Rightarrow> cstr list option" where
  "pieces vs [] ap = Some []"
| "pieces vs (c # cs) ap =
     (if c \<noteq> 37 then do { ts \<leftarrow> pieces vs cs ap; Some ([c] # ts) }
      else
        let flags = takeWhile (\<lambda>b. b \<notin> set conversions) cs in
        case drop (length flags) cs of
          [] \<Rightarrow> Some []
        | d # rest \<Rightarrow> do {
            (t, ap) \<leftarrow> piece_of vs d (c # flags @ [d]) ap;
            ts \<leftarrow> pieces vs rest ap;
            Some (t # ts) })"
  by pat_completeness auto
termination
proof (relation "measure (\<lambda>(vs, cs, ap). length cs)", goal_cases)
  case (3 vs c cs ap flags d rest x t y)
  then have "length (drop (length flags) cs) = Suc (length rest)" by simp
  then show ?case by simp
qed auto

lemma append_cstr_law:
  assumes "buf_ok c s" "s \<noteq> [] \<or> t \<noteq> []" "small (int (length s + length t))"
  shows "\<exists>c'. buf_append_cstr t c = Some c' \<and> buf_ok c' (s @ t)"
proof (cases "t = []")
  case False
  show ?thesis
    by (rule grow_put [OF assms(1) False assms(3)]) (use assms(1) in \<open>simp add: buf_append_cstr_def buf_ok_size\<close>)
next
  case True
  with assms(2) have s: "s \<noteq> []" by simp
  then obtain a where a: "c = Some a" "a_length a = int (length s)" "length s < length (a_data a)"
      "take (length s) (a_data a) = map Some s" "\<exists>m. str_reserved_size (int (length s)) = Some m \<and> m \<le> length (a_data a) + 4"
    using assms(1) by (auto simp: buf_ok_def buf_holds_def split: option.splits)
  let ?ds = "map Some s @ [Some 0] @ drop (length s + 1) (a_data a)"
  have "put (int (length s)) [Some 0] (a_data a) = Some ?ds"
    using put_append [of "map Some s" "length s" "[Some 0]" 1 "a_data a"] a(3,4) by simp
  then have "buf_append_cstr t c = Some (Some (a\<lparr>a_length := int (length s), a_data := ?ds\<rparr>))"
    using a(1,2) s True by (simp add: buf_append_cstr_def buf_size_def buf_resize_def buf_put_def)
  moreover have "length ?ds = length (a_data a)" using a(3) by simp
  then have "buf_holds (Some (a\<lparr>a_length := int (length s), a_data := ?ds\<rparr>)) s \<and>
      terminated (Some (a\<lparr>a_length := int (length s), a_data := ?ds\<rparr>))"
    using a(5) s by (intro buffer_done) (simp_all add: add.commute)
  ultimately show ?thesis using True by (auto simp: buf_ok_def)
qed

lemma buf_push_back_law:
  assumes "buf_ok c s" "small (int (length s + 1))"
  shows "\<exists>c'. buf_push_back b c = Some c' \<and> buf_ok c' (s @ [b])"
  by (rule grow_put_chars [OF assms(1), of "[b]"])
    (use assms in \<open>simp_all add: buf_push_back_def buf_ok_size add.commute [of 1]\<close>)

lemma skipFormat_flags:
  "i \<le> length format \<Longrightarrow> skipFormat format i = i + length (takeWhile (\<lambda>b. b \<notin> set conversions) (drop i format))"
proof (induction format i rule: skipFormat.induct)
  case (1 format i)
  show ?case
  proof (cases "length format \<le> i")
    case False
    then have "drop i format = format ! i # drop (Suc i) format" by (simp add: Cons_nth_drop_Suc)
    then show ?thesis using 1 False by (subst skipFormat.simps) simp
  qed (use 1 in \<open>subst skipFormat.simps, simp\<close>)
qed

lemma convert_law:
  assumes "piece_of vs c a ap = Some (t, ap')" "buf_ok b s" "s \<noteq> [] \<or> t \<noteq> []" "small (int (length s + length t))"
  shows "\<exists>b'. convert vs c a ap b = Some (ap', b') \<and> buf_ok b' (s @ t)"
  using assms(1) append_cstr_law [OF assms(2-4)] buf_push_back_law [OF assms(2)] assms(4)
  by (force simp: piece_of_def convert_def bind_eq_Some_conv split: if_splits list.splits va_arg.splits option.splits)

lemma printf_loop_law:
  assumes "pieces vs (drop i format) ap = Some ts" "i \<le> length format" "buf_ok b s"
    "s \<noteq> [] \<or> ts = [] \<or> hd ts \<noteq> []" "small (int (length s + length (concat ts)))"
  shows "\<exists>b'. printf_loop vs format i ap b = Some b' \<and> buf_ok b' (s @ concat ts)"
  using assms
proof (induction "length format - i" arbitrary: i ap ts b s rule: less_induct)
  case less
  show ?case
  proof (cases "i = length format")
    case True
    then show ?thesis using less.prems by (subst printf_loop.simps) simp
  next
    case False
    with less.prems(2) have i: "i < length format" by simp
    then have at: "drop i format = format ! i # drop (i + 1) format" by (simp add: Cons_nth_drop_Suc)
    show ?thesis
    proof (cases "format ! i = 37")
      case plain: False
      obtain us where us: "pieces vs (drop (i + 1) format) ap = Some us" "ts = [format ! i] # us"
        using less.prems(1) plain by (auto simp: at bind_eq_Some_conv)
      obtain b1 where b1: "buf_push_back (format ! i) b = Some b1" "buf_ok b1 (s @ [format ! i])"
        using buf_push_back_law [OF less.prems(3), of "format ! i"] less.prems(5) us(2) by auto
      obtain b' where "printf_loop vs format (i + 1) ap b1 = Some b'" "buf_ok b' ((s @ [format ! i]) @ concat us)"
        using less.hyps [OF diff_less_mono2 [OF _ i] us(1) _ b1(2)] us(2) i less.prems(5) by auto
      then show ?thesis using us(2) b1(1) plain i by (subst printf_loop.simps) simp
    next
      case conv: True
      define flags where "flags = takeWhile (\<lambda>b. b \<notin> set conversions) (drop (i + 1) format)"
      define j where "j = i + 1 + length flags"
      have j: "skipFormat format (i + 1) = j" using skipFormat_flags [of "i + 1" format] i by (simp add: j_def flags_def)
      have rest: "drop (length flags) (drop (i + 1) format) = drop j format" by (simp add: j_def add.commute)
      have eq: "pieces vs (drop i format) ap =
          (case drop j format of [] \<Rightarrow> Some []
           | d # rest \<Rightarrow> do { (t, ap) \<leftarrow> piece_of vs d (37 # flags @ [d]) ap; ts \<leftarrow> pieces vs rest ap; Some (t # ts) })"
        unfolding at conv pieces.simps Let_def flags_def [symmetric] rest by simp
      show ?thesis
      proof (cases "length format \<le> j")
        case True
        then have "ts = []" using less.prems(1) by (simp add: eq)
        then show ?thesis using True less.prems(3) conv j i by (subst printf_loop.simps) (simp add: Let_def)
      next
        case False
        then have dj: "drop j format = format ! j # drop (j + 1) format" by (simp add: Cons_nth_drop_Suc)
        let ?a = "37 # flags @ [format ! j]"
        obtain t ap1 us where t: "piece_of vs (format ! j) ?a ap = Some (t, ap1)"
            and us: "pieces vs (drop (j + 1) format) ap1 = Some us" "ts = t # us"
          using less.prems(1) dj by (auto simp: eq bind_eq_Some_conv)
        have "drop (i + 1) format = flags @ drop j format"
          unfolding rest [symmetric] flags_def by (metis append_take_drop_id takeWhile_eq_take)
        then have part: "take (j + 1 - i) (drop i format) = ?a"
          using conv dj by (simp add: at j_def)
        obtain b1 where b1: "convert vs (format ! j) ?a ap b = Some (ap1, b1)" "buf_ok b1 (s @ t)"
          using convert_law [OF t less.prems(3)] less.prems(4,5) us(2) by auto
        obtain b' where "printf_loop vs format (j + 1) ap1 b1 = Some b'" "buf_ok b' ((s @ t) @ concat us)"
          using less.hyps [OF diff_less_mono2 [OF _ i] us(1) _ b1(2)] us(2) False less.prems(4,5)
          by (auto simp: j_def)
        then show ?thesis using us(2) b1(1) conv j False i part by (subst printf_loop.simps) (simp add: Let_def)
      qed
    qed
  qed
qed

text \<open>C22: \<open>printf\<close> appends to a string the pieces its format asks for, characters, percent signs, strings and
  converted arguments in order, up to a conversion that does not end, and answers how many bytes it has
  appended. The first piece may be empty only when the string is not.\<close>

theorem printf_appends:
  assumes "pieces vs format ap = Some ts" "buf_ok b s" "s \<noteq> [] \<or> ts = [] \<or> hd ts \<noteq> []"
    "small (int (length s + length (concat ts)))"
  shows "\<exists>b'. buf_printf vs format ap b = Some (int (length (concat ts)), b') \<and> buf_ok b' (s @ concat ts)"
proof -
  obtain b' where "printf_loop vs format 0 ap b = Some b'" "buf_ok b' (s @ concat ts)"
    using printf_loop_law [of vs 0 format ap ts b s] assms by auto
  then show ?thesis using buf_ok_size [OF assms(2)] by (simp add: buf_printf_def buf_ok_size)
qed

lemma printf_appends_witness:
  "\<exists>b'. buf_printf (\<lambda>a ap. Some [55]) [97, 37, 50, 100, 37, 37, 37, 115] [Int_arg 7, String_arg (Some [98, 99])] None =
      Some (5, b') \<and> buf_ok b' [97, 55, 37, 98, 99]"
proof -
  have "pieces (\<lambda>a ap. Some [55]) [97, 37, 50, 100, 37, 37, 37, 115] [Int_arg 7, String_arg (Some [98, 99])] =
      Some [[97], [55], [37], [98, 99]]"
    by (simp add: conversions_def piece_of_def)
  from printf_appends [OF this, of None "[]"] show ?thesis by simp
qed

text \<open>A conversion letter that is not in the list does not end a conversion: the text goes on to the next
  letter that is, and all of it is handed to \<open>vsprintf\<close>.\<close>

lemma unknown_conversion_swallows:
  "pieces vs [37, 105, 32, 97, 100] (arg # ap) =
    (case vs [37, 105, 32, 97, 100] (arg # ap) of None \<Rightarrow> None
     | Some t \<Rightarrow> if length t < 128 then Some [t] else None)"
  by (simp add: conversions_def piece_of_def split: option.splits)

text \<open>An empty argument of \<open>%s\<close> at the start of an empty string faults.\<close>

lemma printf_empty_faults: "buf_printf vs [37, 115] [String_arg (Some [])] None = None"
  by (simp add: buf_printf_def printf_loop.simps skipFormat.simps conversions_def convert_def buf_append_cstr_def
      buf_resize_def buf_put_def buf_size_def)

end
