(* ===== verification/Basic_Types.thy ===== *)
theory Basic_Types
  imports Buffers
begin

section \<open>Strings of the compiler, locations and enumerations\<close>

text \<open>
  Parasol/basic_types.h and token.h: \<open>CompileString\<close>, a length with a pointer to characters that someone else owns,
  \<open>Location\<close>, the string parameters of Parasol functions, and the enumerations, whose constants are given in
  order. A read outside the characters a pointer leads to, or through a null pointer, is \<open>None\<close>.
\<close>

subsection \<open>\<open>CompileString\<close>\<close>

record CompileString =
  cs_data :: "byte list option"
  cs_length :: int32

text \<open>The characters at an index; a C string is read with its terminator.\<close>

definition byte_at :: "byte list option \<Rightarrow> int \<Rightarrow> byte option" where
  "byte_at d i = (case d of None \<Rightarrow> None | Some bs \<Rightarrow> if 0 \<le> i \<and> i < int (length bs) then Some (bs ! nat i) else None)"

definition CompileString_of_vector :: "byte list \<Rightarrow> CompileString" where
  "CompileString_of_vector v = \<lparr>cs_data = Some v, cs_length = of_nat (length v)\<rparr>"

definition CompileString_of_cstr :: "cstr option \<Rightarrow> CompileString" where
  "CompileString_of_cstr s =
     (case s of
        Some s \<Rightarrow> \<lparr>cs_data = Some (s @ [0]), cs_length = of_nat (length s)\<rparr>
      | None \<Rightarrow> \<lparr>cs_data = None, cs_length = - 1\<rparr>)"

text \<open>\<open>set\<close> copies the value behind the object; the two overloads do the same to a vector and a string.\<close>

definition CompileString_set :: "byte list \<Rightarrow> CompileString \<Rightarrow> CompileString" where
  "CompileString_set v s = s\<lparr>cs_length := of_nat (length v), cs_data := Some v\<rparr>"

fun same_bytes :: "nat \<Rightarrow> nat \<Rightarrow> byte list option \<Rightarrow> byte list option \<Rightarrow> bool option" where
  "same_bytes i 0 d e = Some True"
| "same_bytes i (Suc n) d e = do {
     x \<leftarrow> byte_at d (int i);
     y \<leftarrow> byte_at e (int i);
     if x \<noteq> y then Some False else same_bytes (Suc i) n d e }"

definition cs_equal :: "CompileString \<Rightarrow> CompileString \<Rightarrow> bool option" where
  "cs_equal s other =
     (if cs_length s \<noteq> cs_length other then Some False
      else same_bytes 0 (nat (sint (cs_length s))) (cs_data s) (cs_data other))"

definition cs_not_equal :: "CompileString \<Rightarrow> CompileString \<Rightarrow> bool option" where
  "cs_not_equal s other =
     (if cs_length s \<noteq> cs_length other then Some True
      else map_option Not (same_bytes 0 (nat (sint (cs_length s))) (cs_data s) (cs_data other)))"

text \<open>The comparison with a C string: the character behind the last one has to be its terminator.\<close>

fun same_cstr :: "nat \<Rightarrow> nat \<Rightarrow> int \<Rightarrow> byte list option \<Rightarrow> byte list option \<Rightarrow> bool option" where
  "same_cstr i 0 len d other = do { y \<leftarrow> byte_at other len; Some (y = 0) }"
| "same_cstr i (Suc n) len d other = do {
     y \<leftarrow> byte_at other (int i);
     if y = 0 then Some False
     else do {
       x \<leftarrow> byte_at d (int i);
       if x \<noteq> y then Some False else same_cstr (Suc i) n len d other } }"

definition cs_equal_cstr :: "CompileString \<Rightarrow> cstr option \<Rightarrow> bool option" where
  "cs_equal_cstr s other =
     (case other of
        None \<Rightarrow> Some (cs_data s = None)
      | Some o' \<Rightarrow> same_cstr 0 (nat (sint (cs_length s))) (sint (cs_length s)) (cs_data s) (Some (o' @ [0])))"

definition cs_not_equal_cstr :: "CompileString \<Rightarrow> cstr option \<Rightarrow> bool option" where
  "cs_not_equal_cstr s other =
     (case other of
        None \<Rightarrow> Some (cs_data s \<noteq> None)
      | Some o' \<Rightarrow> map_option Not
          (same_cstr 0 (nat (sint (cs_length s))) (sint (cs_length s)) (cs_data s) (Some (o' @ [0]))))"

definition cs_asString :: "CompileString \<Rightarrow> buffer option" where
  "cs_asString s = do {
     d \<leftarrow> cs_data s;
     if sint (cs_length s) < 0 \<or> length d < nat (sint (cs_length s)) then None
     else buf_of_chars (take (nat (sint (cs_length s))) d) }"

subsection \<open>\<open>Location\<close>\<close>

datatype Location = Location (loc_offset: int32)

definition location_compare :: "Location \<Rightarrow> Location \<Rightarrow> int32" where
  "location_compare l loc = loc_offset l - loc_offset loc"

definition location_less :: "Location \<Rightarrow> Location \<Rightarrow> bool" where
  "location_less l loc \<longleftrightarrow> sint (loc_offset l) < sint (loc_offset loc)"

definition location_greater :: "Location \<Rightarrow> Location \<Rightarrow> bool" where
  "location_greater l loc \<longleftrightarrow> sint (loc_offset loc) < sint (loc_offset l)"

text \<open>The operators order the locations linearly.\<close>

instantiation Location :: linorder
begin

definition less_Location :: "Location \<Rightarrow> Location \<Rightarrow> bool" where
  "less_Location = location_less"

definition less_eq_Location :: "Location \<Rightarrow> Location \<Rightarrow> bool" where
  "less_eq_Location l loc \<longleftrightarrow> \<not> location_less loc l"

instance
  by standard
    (auto simp: less_Location_def less_eq_Location_def location_less_def not_less order.antisym
      sint_inject intro: Location.expand)

end

lemma location_greater_order: "location_greater l loc \<longleftrightarrow> loc < l"
  by (simp add: less_Location_def location_greater_def location_less_def)

definition location_isInFile :: "Location \<Rightarrow> Location \<Rightarrow> bool" where
  "location_isInFile out_of_file l \<longleftrightarrow> l \<noteq> out_of_file"

subsection \<open>String parameters\<close>

text \<open>The length field and the bytes behind it; a null pointer is the empty string.\<close>

type_synonym ParasolStringParameter = "(int32 \<times> byte list) option"

definition parameter_size :: "ParasolStringParameter \<Rightarrow> int32" where
  "parameter_size s = (case s of Some (n, d) \<Rightarrow> n | None \<Rightarrow> 0)"

definition parameter_c_str :: "ParasolStringParameter \<Rightarrow> byte list" where
  "parameter_c_str s = (case s of Some (n, d) \<Rightarrow> d | None \<Rightarrow> [0])"

definition parameter_toString :: "ParasolStringParameter \<Rightarrow> buffer option" where
  "parameter_toString s =
     (case s of
        Some (n, d) \<Rightarrow> if sint n < 0 \<or> length d < nat (sint n) then None else buf_of_chars (take (nat (sint n)) d)
      | None \<Rightarrow> Some None)"

definition parameter_index :: "byte \<Rightarrow> ParasolStringParameter \<Rightarrow> int \<Rightarrow> byte option" where
  "parameter_index dummy s i = (case s of Some (n, d) \<Rightarrow> byte_at (Some d) i | None \<Rightarrow> Some dummy)"

subsection \<open>Enumerations\<close>

text \<open>The constants in order; the value of a constant is its position. The last token is \<open>T_MAX_TOKEN\<close> as well.\<close>

definition TypeFamily :: "string list" where
  "TypeFamily = [
   ''TF_SIGNED_8'', ''TF_SIGNED_16'', ''TF_SIGNED_32'', ''TF_SIGNED_64'', ''TF_UNSIGNED_8'',
   ''TF_UNSIGNED_16'', ''TF_UNSIGNED_32'', ''TF_UNSIGNED_64'', ''TF_FLOAT_32'', ''TF_FLOAT_64'',
   ''TF_BOOLEAN'', ''TF_STRING'', ''TF_VAR'', ''TF_ADDRESS'', ''TF_VOID'', ''TF_ERROR'',
   ''TF_CLASS_VARIABLE'', ''TF_CLASS_DEFERRED'', ''TF_NAMESPACE'', ''TF_BUILTIN_TYPES'', ''TF_CLASS'',
   ''TF_ENUM'', ''TF_TYPEDEF'', ''TF_FUNCTION'', ''TF_VECTOR'', ''TF_TEMPLATE'', ''TF_TEMPLATE_INSTANCE'',
   ''TF_MAX_TYPES'']"

definition Token :: "string list" where
  "Token = [
   ''T_ERROR'', ''T_END_OF_STREAM'', ''T_IDENTIFIER'', ''T_INTEGER'', ''T_FLOATING_POINT'',
   ''T_CHARACTER'', ''T_STRING'', ''T_ANNOTATION'', ''T_LEFT_PARENTHESIS'', ''T_RIGHT_PARENTHESIS'',
   ''T_LEFT_CURLY'', ''T_RIGHT_CURLY'', ''T_LEFT_SQUARE'', ''T_RIGHT_SQUARE'', ''T_LEFT_ANGLE'',
   ''T_RIGHT_ANGLE'', ''T_SP_LA'', ''T_SP_RA'', ''T_SEMI_COLON'', ''T_COLON'', ''T_DOT'', ''T_COMMA'',
   ''T_SLASH'', ''T_PERCENT'', ''T_ASTERISK'', ''T_PLUS'', ''T_DASH'', ''T_AMPERSAND'', ''T_CARET'',
   ''T_VERTICAL_BAR'', ''T_EXCLAMATION'', ''T_EQUALS'', ''T_QUESTION_MARK'', ''T_TILDE'', ''T_ELLIPSIS'',
   ''T_DOT_DOT'', ''T_SLASH_EQ'', ''T_PERCENT_EQ'', ''T_ASTERISK_EQ'', ''T_PLUS_EQ'', ''T_DASH_EQ'',
   ''T_AMPERSAND_EQ'', ''T_CARET_EQ'', ''T_VERTICAL_BAR_EQ'', ''T_EQ_EQ'', ''T_EQ_EQ_EQ'', ''T_LA_EQ'',
   ''T_RA_EQ'', ''T_LA_RA'', ''T_LA_RA_EQ'', ''T_EXCLAMATION_EQ'', ''T_EX_EQ_EQ'', ''T_EX_LA'',
   ''T_EX_RA'', ''T_EX_LA_EQ'', ''T_EX_RA_EQ'', ''T_EX_LA_RA'', ''T_EX_LA_RA_EQ'', ''T_LA_LA'',
   ''T_RA_RA'', ''T_RA_RA_RA'', ''T_LA_LA_EQ'', ''T_RA_RA_EQ'', ''T_RA_RA_RA_EQ'', ''T_AMP_AMP'',
   ''T_VBAR_VBAR'', ''T_PLUS_PLUS'', ''T_DASH_DASH'', ''T_ABSTRACT'', ''T_BREAK'', ''T_BYTES'', ''T_CASE'',
   ''T_CONTINUE'', ''T_CLASS'', ''T_DEFAULT'', ''T_DELETE'', ''T_DO'', ''T_ELSE'', ''T_ENUM'',
   ''T_EXTENDS'', ''T_FALSE'', ''T_FINAL'', ''T_FOR'', ''T_FUNCTION'', ''T_IF'', ''T_IMPLEMENTS'',
   ''T_IMPORT'', ''T_NAMESPACE'', ''T_NEW'', ''T_NULL'', ''T_PRIVATE'', ''T_PROTECTED'', ''T_PUBLIC'',
   ''T_RETURN'', ''T_STATIC'', ''T_SUPER'', ''T_SWITCH'', ''T_THIS'', ''T_TRUE'', ''T_WHILE'', ''T_EMPTY'']"

fun position :: "string \<Rightarrow> string list \<Rightarrow> nat" where
  "position x [] = 0"
| "position x (y # ys) = (if x = y then 0 else Suc (position x ys))"

definition T_MAX_TOKEN :: nat where
  "T_MAX_TOKEN = position ''T_EMPTY'' Token"

definition TF_MIN_TYPE :: nat where
  "TF_MIN_TYPE = position ''TF_SIGNED_8'' TypeFamily"

subsection \<open>Equality is that of the characters\<close>

definition cs_holds :: "CompileString \<Rightarrow> byte list \<Rightarrow> bool" where
  "cs_holds s xs \<longleftrightarrow> length xs < 2 ^ 31 \<and> cs_length s = of_nat (length xs) \<and>
     (\<exists>rest. cs_data s = Some (xs @ rest))"

lemma same_bytes_law:
  "length xs = length ys \<Longrightarrow>
   same_bytes (length us) (length xs) (Some (us @ xs @ rest)) (Some (vs @ ys @ rest')) = Some (xs = ys)"
  if "length us = length vs"
  using that
proof (induction xs arbitrary: ys us vs)
  case (Cons x xs)
  then obtain y zs where ys: "ys = y # zs" by (cases ys) auto
  then show ?case
    using Cons.IH [of zs "us @ [x]" "vs @ [y]"] Cons.prems
    by (cases "x = y") (auto simp: byte_at_def nth_append)
qed simp

lemma same_cstr_law:
  "0 \<notin> set ys \<Longrightarrow>
   same_cstr (length us) (length xs) (int (length us + length xs)) (Some (us @ xs @ rest)) (Some (vs @ ys @ [0])) = Some (xs = ys)"
  if "length us = length vs"
  using that
proof (induction xs arbitrary: ys us vs)
  case Nil
  then show ?case by (cases ys) (auto simp: byte_at_def nth_append)
next
  case (Cons x xs)
  show ?case
  proof (cases ys)
    case Nil
    then show ?thesis using Cons.prems by (simp add: byte_at_def nth_append)
  next
    case (Cons y zs)
    then show ?thesis
      using Cons.IH [of zs "us @ [x]" "vs @ [y]"] Cons.prems
      by (cases "x = y") (auto simp: byte_at_def nth_append)
  qed
qed

text \<open>C27: two strings of the compiler are equal when their characters are, and different when they are not; the
  same holds for one of them and a C string, whatever zero characters the former holds.\<close>

theorem compile_string_equality:
  assumes "cs_holds a xs" "cs_holds b ys" "0 \<notin> set zs"
  shows "cs_equal a b = Some (xs = ys) \<and> cs_not_equal a b = Some (xs \<noteq> ys) \<and>
    cs_equal_cstr a (Some zs) = Some (xs = zs) \<and> cs_not_equal_cstr a (Some zs) = Some (xs \<noteq> zs)"
proof -
  obtain rest rest' where a: "cs_length a = of_nat (length xs)" "cs_data a = Some (xs @ rest)" "length xs < 2 ^ 31"
    and b: "cs_length b = of_nat (length ys)" "cs_data b = Some (ys @ rest')" "length ys < 2 ^ 31"
    using assms(1,2) by (auto simp: cs_holds_def)
  have len: "cs_length a = cs_length b \<longleftrightarrow> length xs = length ys"
    using sint_of_nat32 [OF a(3)] sint_of_nat32 [OF b(3)] a(1) b(1) by (metis of_nat_eq_iff)
  have 1: "cs_equal a b = Some (xs = ys)" "cs_not_equal a b = Some (xs \<noteq> ys)"
    using same_bytes_law [of "[]" "[]" xs ys rest rest'] len sint_of_nat32 [OF a(3)]
    by (auto simp: cs_equal_def cs_not_equal_def a b)
  have 2: "cs_equal_cstr a (Some zs) = Some (xs = zs)" "cs_not_equal_cstr a (Some zs) = Some (xs \<noteq> zs)"
    using same_cstr_law [of "[]" "[]" zs xs rest] assms(3) sint_of_nat32 [OF a(3)]
    by (simp_all add: cs_equal_cstr_def cs_not_equal_cstr_def a)
  show ?thesis using 1 2 by simp
qed

lemma compile_string_equality_witness:
  "cs_equal_cstr (CompileString_of_vector [105, 102]) (Some [105, 102]) = Some True \<and>
   cs_not_equal (CompileString_of_vector [105, 102]) (CompileString_of_cstr (Some [105])) = Some True"
proof -
  have "cs_holds (CompileString_of_vector [105, 102]) [105, 102]" "cs_holds (CompileString_of_cstr (Some [105])) [105]"
    by (simp_all add: cs_holds_def CompileString_of_vector_def CompileString_of_cstr_def)
  from compile_string_equality [OF this, of "[105, 102]"] show ?thesis by simp
qed

text \<open>The string that is made of a null pointer has the length -1: compared with a C string it reads the byte
  before it.\<close>

lemma null_string_reads_before: "cs_equal_cstr (CompileString_of_cstr None) (Some zs) = None"
  by (simp add: cs_equal_cstr_def CompileString_of_cstr_def byte_at_def)

text \<open>\<open>compare\<close> agrees with the order of locations while both are offsets into a file; far apart it does not.\<close>

lemma location_compare_less:
  assumes "0 \<le> sint (loc_offset l)" "0 \<le> sint (loc_offset loc)"
  shows "sint (location_compare l loc) < 0 \<longleftrightarrow> l < loc"
proof -
  have "sint (loc_offset l - loc_offset loc) = sint (loc_offset l) - sint (loc_offset loc)"
    using assms sint_lt [of "loc_offset l"] sint_lt [of "loc_offset loc"]
    by (simp add: sint_word_ariths signed_take_bit_int_eq_self)
  then show ?thesis by (auto simp: location_compare_def less_Location_def location_less_def)
qed

lemma location_compare_overflows:
  "Location 0x80000000 < Location 1" "0 < sint (location_compare (Location 0x80000000) (Location 1))"
  by (simp_all add: less_Location_def location_less_def location_compare_def)

text \<open>The names of the constants are different, and the greatest token is the last one.\<close>

lemma enumerations_distinct: "distinct TypeFamily" "distinct Token"
  by (simp_all add: TypeFamily_def Token_def)

lemma greatest_token: "T_MAX_TOKEN + 1 = length Token" "TF_MIN_TYPE = 0"
  by (simp_all add: T_MAX_TOKEN_def TF_MIN_TYPE_def TypeFamily_def Token_def)

end
