(* ===== verification/Threads.thy ===== *)
theory Threads
  imports Prelude
begin

section \<open>Threads, locks and waits\<close>

text \<open>
  common/process.h and process.cc: the threads of a process and their local values, critical sections with their
  scoped locks, and waits for one or two objects. What Windows keeps (the slots of thread-local
  storage, the owner and count of a critical section, events and semaphores) is part of the model, as
  Windows documents it; threads are numbered. A reference through null, or a call the
  documentation forbids, is \<open>None\<close>.
\<close>

subsection \<open>Threads and their local values\<close>

record ('h, 'v) thread =
  th_id :: nat
  th_handler :: "'h option"
  th_local :: int32
  th_locals :: "'v list"

definition Thread :: "('h, 'v) thread" where
  "Thread = \<lparr>th_id = 0, th_handler = None, th_local = 0, th_locals = []\<rparr>"

definition allocateThreadLocal :: "('h, 'v) thread \<Rightarrow> int32 \<times> ('h, 'v) thread" where
  "allocateThreadLocal t = (th_local t, t\<lparr>th_local := th_local t + 1\<rparr>)"

text \<open>\<open>zero\<close> is the null value. An index below zero reads before the values.\<close>

definition get_local :: "'v \<Rightarrow> int \<Rightarrow> ('h, 'v) thread \<Rightarrow> 'v option" where
  "get_local zero i t =
     (if int (length (th_locals t)) \<le> i then Some zero
      else if i < 0 then None else Some (th_locals t ! nat i))"

fun grow_locals :: "'v \<Rightarrow> nat \<Rightarrow> 'v list \<Rightarrow> 'v list" where
  "grow_locals zero 0 xs = xs"
| "grow_locals zero (Suc n) xs = grow_locals zero n (xs @ [zero])"

definition setLocal :: "'v \<Rightarrow> int \<Rightarrow> 'v \<Rightarrow> ('h, 'v) thread \<Rightarrow> ('h, 'v) thread option" where
  "setLocal zero i value t =
     (if i < 0 then None
      else
        let xs = grow_locals zero (Suc (nat i) - length (th_locals t)) (th_locals t) in
        Some (t\<lparr>th_locals := xs[nat i := value]\<rparr>))"

text \<open>The process: the slot of thread-local storage, null for a thread that has set none, and whether it could be
  allocated.\<close>

record ('h, 'v) tls_process =
  tls_valid :: bool
  tls :: "nat \<Rightarrow> ('h, 'v) thread option"

definition setTls :: "nat \<Rightarrow> ('h, 'v) thread option \<Rightarrow> ('h, 'v) tls_process \<Rightarrow> ('h, 'v) tls_process" where
  "setTls self t p = (if tls_valid p then p\<lparr>tls := (tls p)(self := t)\<rparr> else p)"

definition getTls :: "nat \<Rightarrow> ('h, 'v) tls_process \<Rightarrow> ('h, 'v) thread option" where
  "getTls self p = (if tls_valid p then tls p self else None)"

definition Process :: "nat \<Rightarrow> bool \<Rightarrow> ('h, 'v) tls_process" where
  "Process self valid =
     (let t = Thread\<lparr>th_id := self\<rparr> in
      setTls self (Some t) \<lparr>tls_valid = valid, tls = \<lambda>_. None\<rparr>)"

definition currentThread :: "nat \<Rightarrow> ('h, 'v) tls_process \<Rightarrow> ('h, 'v) thread option" where
  "currentThread self p = getTls self p"

text \<open>The handler classes: what is called when the thread starts. A handler holds an object and its method, or a
  function with no, one or two arguments; \<open>start\<close> is the function that is called, its object and its arguments.\<close>

datatype ('o, 'f, 'a) thread_handler =
    ObjectHandler 'o 'f
  | FunctionHandler 'f
  | Function1Handler 'f 'a
  | Function2Handler 'f 'a 'a

fun handler_start :: "('o, 'f, 'a) thread_handler \<Rightarrow> 'f \<times> 'o option \<times> 'a list" where
  "handler_start (ObjectHandler object func) = (func, Some object, [])"
| "handler_start (FunctionHandler func) = (func, None, [])"
| "handler_start (Function1Handler func m) = (func, None, [m])"
| "handler_start (Function2Handler func m n) = (func, None, [m, n])"

text \<open>\<open>startAt\<close> keeps what is to be called and creates the thread, which gets its number from Windows.\<close>

definition thread_start :: "nat \<Rightarrow> ('h, 'v) thread \<Rightarrow> ('h, 'v) thread" where
  "thread_start new_id t = t\<lparr>th_id := new_id\<rparr>"

definition startAt :: "'h \<Rightarrow> nat \<Rightarrow> ('h, 'v) thread \<Rightarrow> ('h, 'v) thread" where
  "startAt handler new_id t = thread_start new_id (t\<lparr>th_handler := Some handler\<rparr>)"

definition start_object :: "'o \<Rightarrow> 'f \<Rightarrow> nat \<Rightarrow> (('o, 'f, 'a) thread_handler, 'v) thread" where
  "start_object object func new_id = startAt (ObjectHandler object func) new_id Thread"

definition start_function :: "'f \<Rightarrow> nat \<Rightarrow> (('o, 'f, 'a) thread_handler, 'v) thread" where
  "start_function func new_id = startAt (FunctionHandler func) new_id Thread"

definition start_function1 :: "'f \<Rightarrow> 'a \<Rightarrow> nat \<Rightarrow> (('o, 'f, 'a) thread_handler, 'v) thread" where
  "start_function1 func m new_id = startAt (Function1Handler func m) new_id Thread"

definition start_function2 :: "'f \<Rightarrow> 'a \<Rightarrow> 'a \<Rightarrow> nat \<Rightarrow> (('o, 'f, 'a) thread_handler, 'v) thread" where
  "start_function2 func m n new_id = startAt (Function2Handler func m n) new_id Thread"

text \<open>\<open>call h\<close> is the effect of a handler on the process when it is called on thread \<open>self\<close>.\<close>

definition threadProc :: "('h \<Rightarrow> nat \<Rightarrow> ('h, 'v) tls_process \<Rightarrow> ('h, 'v) tls_process) \<Rightarrow> nat \<Rightarrow> ('h, 'v) thread \<Rightarrow> ('h, 'v) tls_process \<Rightarrow> ('h, 'v) tls_process option" where
  "threadProc call self t p = do {
     h \<leftarrow> th_handler t;
     let p = call h self p;
     Some (setTls self (Some t) p) }"

subsection \<open>Critical sections and scoped locks\<close>

text \<open>A section is owned by at most one thread, which may enter it again. Entering a section that another thread owns
  waits: \<open>None\<close> in \<open>enter_section\<close>. Leaving one that the thread does not own is not allowed.\<close>

record mutex =
  mx_owner :: "nat option"
  mx_count :: nat

definition Mutex :: mutex where
  "Mutex = \<lparr>mx_owner = None, mx_count = 0\<rparr>"

definition enter_section :: "nat \<Rightarrow> mutex \<Rightarrow> mutex option" where
  "enter_section self m =
     (if mx_owner m = None \<or> mx_owner m = Some self
      then Some \<lparr>mx_owner = Some self, mx_count = mx_count m + 1\<rparr> else None)"

definition leave_section :: "nat \<Rightarrow> mutex \<Rightarrow> mutex option" where
  "leave_section self m =
     (if mx_owner m = Some self
      then Some \<lparr>mx_owner = (if mx_count m = 1 then None else Some self), mx_count = mx_count m - 1\<rparr>
      else None)"

text \<open>A scoped lock: whether it believes to be locked, and the section.\<close>

type_synonym scoped_lock = "bool \<times> mutex"

definition lock_lock :: "nat \<Rightarrow> mutex \<Rightarrow> scoped_lock option" where
  "lock_lock self m = do { m \<leftarrow> enter_section self m; Some (True, m) }"

definition lock_unlock :: "nat \<Rightarrow> mutex \<Rightarrow> scoped_lock option" where
  "lock_unlock self m = do { m \<leftarrow> leave_section self m; Some (False, m) }"

definition MutexLock :: "nat \<Rightarrow> mutex \<Rightarrow> scoped_lock option" where
  "MutexLock self m = lock_lock self m"

definition destroy_lock :: "nat \<Rightarrow> scoped_lock \<Rightarrow> mutex option" where
  "destroy_lock self l = (if fst l then map_option snd (lock_unlock self (snd l)) else Some (snd l))"

text \<open>What a scope may do with its lock.\<close>

datatype lock_call = Lock | Unlock

fun lock_calls :: "nat \<Rightarrow> lock_call list \<Rightarrow> scoped_lock \<Rightarrow> scoped_lock option" where
  "lock_calls self [] l = Some l"
| "lock_calls self (Lock # cs) l = do { l \<leftarrow> lock_lock self (snd l); lock_calls self cs l }"
| "lock_calls self (Unlock # cs) l = do { l \<leftarrow> lock_unlock self (snd l); lock_calls self cs l }"

definition lock_scope :: "nat \<Rightarrow> lock_call list \<Rightarrow> mutex \<Rightarrow> mutex option" where
  "lock_scope self cs m = do { l \<leftarrow> MutexLock self m; l \<leftarrow> lock_calls self cs l; destroy_lock self l }"

subsection \<open>Waits\<close>

text \<open>An event that resets itself and a semaphore; null is no object. A wait that succeeds takes the signal or one from the
  count.\<close>

datatype waitable = Signaling bool | Counting nat nat

definition SignalingEvent :: waitable where
  "SignalingEvent = Signaling False"

definition Semaphore :: "nat \<Rightarrow> nat \<Rightarrow> waitable" where
  "Semaphore initialCount maximumCount = Counting initialCount maximumCount"

fun signal :: "waitable \<Rightarrow> waitable" where
  "signal (Signaling b) = Signaling True"
| "signal (Counting n m) = Counting n m"

fun release_one :: "waitable \<Rightarrow> waitable" where
  "release_one (Counting n m) = Counting (if n < m then n + 1 else n) m"
| "release_one (Signaling b) = Signaling b"

fun ready :: "waitable \<Rightarrow> bool" where
  "ready (Signaling b) = b"
| "ready (Counting n m) \<longleftrightarrow> 0 < n"

fun consume :: "waitable \<Rightarrow> waitable" where
  "consume (Signaling b) = Signaling False"
| "consume (Counting n m) = Counting (n - 1) m"

definition WAIT_OBJECT_0 :: int32 where "WAIT_OBJECT_0 = 0"
definition WAIT_TIMEOUT :: int32 where "WAIT_TIMEOUT = 258"

text \<open>The calls of Windows, at the moment the wait ends: an object that is ready, the first of two, or the end of the
  time.\<close>

definition WaitForSingleObject :: "waitable \<Rightarrow> int32 \<times> waitable" where
  "WaitForSingleObject w = (if ready w then (WAIT_OBJECT_0, consume w) else (WAIT_TIMEOUT, w))"

definition WaitForMultipleObjects :: "waitable \<Rightarrow> waitable \<Rightarrow> int32 \<times> waitable \<times> waitable" where
  "WaitForMultipleObjects a b =
     (if ready a then (WAIT_OBJECT_0, consume a, b)
      else if ready b then (WAIT_OBJECT_0 + 1, a, consume b)
      else (WAIT_TIMEOUT, a, b))"

definition wait_event :: "waitable \<Rightarrow> bool \<times> waitable" where
  "wait_event w = (let (result, w) = WaitForSingleObject w in (result = WAIT_OBJECT_0, w))"

definition wait2 :: "waitable option \<Rightarrow> waitable option \<Rightarrow> int32 \<times> waitable option \<times> waitable option" where
  "wait2 a b =
     (case a of
        None \<Rightarrow>
          (case b of
             None \<Rightarrow> (- 1, None, None)
           | Some b \<Rightarrow>
               let (result, b) = WaitForSingleObject b in
               (if result = WAIT_OBJECT_0 then 0 else - 1, None, Some b))
      | Some a \<Rightarrow>
          (case b of
             None \<Rightarrow>
               let (result, a) = WaitForSingleObject a in
               (if result = WAIT_OBJECT_0 then 0 else - 1, Some a, None)
           | Some b \<Rightarrow>
               let (result, a, b) = WaitForMultipleObjects a b in
               (if result = WAIT_TIMEOUT then - 1 else result - WAIT_OBJECT_0, Some a, Some b)))"

subsection \<open>Local values behave as a map\<close>

lemma grow_locals_eq: "grow_locals zero n xs = xs @ replicate n zero"
  by (induction n arbitrary: xs) (simp_all add: replicate_append_same [symmetric])

lemma local_after_set:
  assumes "setLocal zero i value t = Some t'" "0 \<le> j"
  shows "get_local zero j t' = (if j = i then Some value else get_local zero j t)"
proof -
  have i: "0 \<le> i" and t': "th_locals t' = (th_locals t @ replicate (Suc (nat i) - length (th_locals t)) zero)[nat i := value]"
    using assms(1) by (auto simp: setLocal_def grow_locals_eq Let_def split: if_splits)
  then have len: "length (th_locals t') = max (length (th_locals t)) (Suc (nat i))" by simp
  show ?thesis
  proof (cases "nat j < length (th_locals t')")
    case False
    then show ?thesis using len assms(2) i by (auto simp: get_local_def)
  next
    case True
    then have "get_local zero j t' = Some (th_locals t' ! nat j)"
      using assms(2) by (auto simp: get_local_def)
    moreover have "th_locals t' ! nat j = (if j = i then value else if nat j < length (th_locals t) then th_locals t ! nat j else zero)"
      using True t' assms(2) i by (auto simp: nth_list_update nth_append eq_nat_nat_iff)
    ultimately show ?thesis using assms(2) by (auto simp: get_local_def)
  qed
qed

lemma unset_local_null: "0 \<le> j \<Longrightarrow> get_local zero j Thread = Some zero"
  by (simp add: get_local_def Thread_def)

text \<open>A thread finds its own object only after its function has returned: the function is called while the slot
  is empty.\<close>

lemma thread_unknown_to_itself:
  assumes "tls p self = None" "th_handler t = Some h"
  shows "currentThread self p = None \<and> threadProc call self t p = Some (setTls self (Some t) (call h self p))"
  using assms by (simp add: threadProc_def currentThread_def getTls_def)

text \<open>Each way to start a thread calls what it was given: the method on its object, or the function on its
  arguments.\<close>

lemma started_calls:
  fixes invoke :: "'f \<times> 'o option \<times> 'a list \<Rightarrow> nat \<Rightarrow> (('o, 'f, 'a) thread_handler, 'v) tls_process \<Rightarrow>
    (('o, 'f, 'a) thread_handler, 'v) tls_process"
  defines "called t \<equiv> \<lambda>p. threadProc (\<lambda>h. invoke (handler_start h)) (th_id t) t p"
  shows "called (start_object obj func k) p = Some (setTls k (Some (start_object obj func k)) (invoke (func, Some obj, []) k p))"
    and "called (start_function func k) p = Some (setTls k (Some (start_function func k)) (invoke (func, None, []) k p))"
    and "called (start_function1 func m k) p = Some (setTls k (Some (start_function1 func m k)) (invoke (func, None, [m]) k p))"
    and "called (start_function2 func m n k) p =
      Some (setTls k (Some (start_function2 func m n k)) (invoke (func, None, [m, n]) k p))"
  by (simp_all add: called_def threadProc_def start_object_def start_function_def start_function1_def
      start_function2_def startAt_def thread_start_def)

subsection \<open>The interpreter's context of a thread\<close>

text \<open>\<open>ThreadContext\<close> (runtime.cc) keeps, in a slot of its own, the context that runs on a thread. \<open>run\<close> sets it
  and restores the one before; \<open>set\<close> fails when the slot could not be allocated.\<close>

record 'c context_slot =
  slot_valid :: bool
  slot_contexts :: "nat \<Rightarrow> 'c option"

definition ThreadContext :: "bool \<Rightarrow> 'c context_slot" where
  "ThreadContext valid = \<lparr>slot_valid = valid, slot_contexts = \<lambda>_. None\<rparr>"

definition context_set :: "nat \<Rightarrow> 'c option \<Rightarrow> 'c context_slot \<Rightarrow> bool \<times> 'c context_slot" where
  "context_set self c x =
     (if slot_valid x then (True, x\<lparr>slot_contexts := (slot_contexts x)(self := c)\<rparr>) else (False, x))"

definition context_get :: "nat \<Rightarrow> 'c context_slot \<Rightarrow> 'c option" where
  "context_get self x = (if slot_valid x then slot_contexts x self else None)"

lemma context_after_set:
  "context_set self c x = (True, x') \<Longrightarrow> context_get other x' = (if other = self then c else context_get other x)"
  by (auto simp: context_set_def context_get_def split: if_splits)

text \<open>What \<open>run\<close> does to the slot: it ends as it began, also on other threads.\<close>

lemma context_restored:
  assumes "context_set self (Some inner) x = (True, x1)"
  shows "context_set self (context_get self x) x1 = (True, x)"
  using assms by (auto simp: context_set_def context_get_def split: if_splits)

subsection \<open>Scopes give back what they took\<close>

fun alternating :: "bool \<Rightarrow> lock_call list \<Rightarrow> bool" where
  "alternating locked [] = True"
| "alternating locked (Lock # cs) \<longleftrightarrow> \<not> locked \<and> alternating True cs"
| "alternating locked (Unlock # cs) \<longleftrightarrow> locked \<and> alternating False cs"

text \<open>A thread may use a section that is free, or its own.\<close>

definition free_for :: "nat \<Rightarrow> mutex \<Rightarrow> bool" where
  "free_for self m \<longleftrightarrow> (mx_owner m = None \<and> mx_count m = 0 \<or> mx_owner m = Some self \<and> 0 < mx_count m)"

lemma enter_leave: "free_for self m \<Longrightarrow> \<exists>m'. enter_section self m = Some m' \<and> leave_section self m' = Some m \<and> free_for self m'"
  by (cases m) (auto simp: free_for_def enter_section_def leave_section_def)

lemma alternating_calls:
  assumes "alternating locked cs" "free_for self m" "if locked then enter_section self m = Some m' else m' = m"
  shows "\<exists>l. lock_calls self cs (locked, m') = Some l \<and> destroy_lock self l = Some m"
  using assms
proof (induction cs arbitrary: locked m')
  case Nil
  then show ?case using enter_leave [OF Nil.prems(2)]
    by (auto simp: destroy_lock_def lock_unlock_def split: if_splits)
next
  case (Cons c cs)
  show ?case
  proof (cases c)
    case Lock
    then have m': "m' = m" "alternating True cs" using Cons.prems by auto
    obtain n where n: "enter_section self m = Some n" using enter_leave [OF Cons.prems(2)] by blast
    then show ?thesis using Cons.IH [of True n] Cons.prems(2) m' Lock by (simp add: lock_lock_def)
  next
    case Unlock
    then have m': "enter_section self m = Some m'" "alternating False cs" using Cons.prems by auto
    then have "leave_section self m' = Some m" using enter_leave [OF Cons.prems(2)] by auto
    then show ?thesis using Cons.IH [of False m] Cons.prems(2) m' Unlock by (simp add: lock_unlock_def)
  qed
qed

text \<open>C17: a scope that holds a lock and calls \<open>unlock\<close> and \<open>lock\<close> in turn ends with the critical section as it
  was, also when its thread already owned it; while another thread owns the section the scope waits.\<close>

theorem lock_scope_balanced:
  assumes "alternating True cs"
  shows "(free_for self m \<longrightarrow> lock_scope self cs m = Some m) \<and>
    (mx_owner m = Some other \<longrightarrow> other \<noteq> self \<longrightarrow> lock_scope self cs m = None)"
proof -
  have "lock_scope self cs m = Some m" if m: "free_for self m"
  proof -
    obtain n where n: "enter_section self m = Some n" using enter_leave [OF m] by blast
    obtain l where "lock_calls self cs (True, n) = Some l" "destroy_lock self l = Some m"
      using alternating_calls [OF assms m, of n] n by auto
    then show ?thesis using n by (simp add: lock_scope_def MutexLock_def lock_lock_def)
  qed
  moreover have "lock_scope self cs m = None" if "mx_owner m = Some other" "other \<noteq> self"
    using that by (simp add: lock_scope_def MutexLock_def lock_lock_def enter_section_def)
  ultimately show ?thesis by blast
qed

lemma lock_scope_balanced_witness:
  "lock_scope 1 [Unlock, Lock] Mutex = Some Mutex \<and> lock_scope 2 [Unlock] \<lparr>mx_owner = Some 1, mx_count = 1\<rparr> = None"
proof -
  have "free_for 1 Mutex" by (simp add: free_for_def Mutex_def)
  then show ?thesis
    using lock_scope_balanced [of "[Unlock, Lock]" 1 Mutex 0] lock_scope_balanced [of "[Unlock]" 2 "\<lparr>mx_owner = Some 1, mx_count = 1\<rparr>" 1]
    by simp
qed

text \<open>A second \<open>lock\<close> is not undone at the end of the scope: the section stays owned.\<close>

lemma locked_twice_stays: "lock_scope self [Lock] Mutex = Some \<lparr>mx_owner = Some self, mx_count = 1\<rparr>"
  by (simp add: lock_scope_def MutexLock_def lock_lock_def enter_section_def Mutex_def destroy_lock_def
      lock_unlock_def leave_section_def)

subsection \<open>Two objects\<close>

text \<open>\<open>wait2\<close> tells which of two objects was ready and takes its signal only. With a single object it answers 0
  whichever place that has.\<close>

lemma wait2_two:
  "wait2 (Some a) (Some b) =
     (if ready a then (0, Some (consume a), Some b)
      else if ready b then (1, Some a, Some (consume b)) else (- 1, Some a, Some b))"
  by (simp add: wait2_def WaitForMultipleObjects_def WAIT_OBJECT_0_def WAIT_TIMEOUT_def)

lemma wait2_one:
  "wait2 None (Some b) = (if ready b then (0, None, Some (consume b)) else (- 1, None, Some b))"
  "wait2 (Some a) None = (if ready a then (0, Some (consume a), None) else (- 1, Some a, None))"
  by (simp_all add: wait2_def WaitForSingleObject_def WAIT_OBJECT_0_def WAIT_TIMEOUT_def)

lemma release_then_wait: "n < m \<Longrightarrow> wait_event (release_one (Counting n m)) = (True, Counting n m)"
  by (simp add: wait_event_def WaitForSingleObject_def)

end
