(* ===== verification/Files.thy ===== *)
theory Files
  imports Paths Printing
begin

section \<open>Times, directories and whole files\<close>

text \<open>
  common/file_system.h and file_system.cc, and the time of Parasol programs in Parasol/runtime.cc. Windows
  counts 100 nanoseconds from the year 1601, the stamps from 1970; \<open>int\<close>s of 64 bits wrap around and
  division truncates towards zero. A directory search is the list of names that the search has still
  to give. A file that is read as a whole is what \<open>ftell\<close> says of its end, the bytes \<open>fread\<close> gives, and
  its error flag.
\<close>

subsection \<open>Time stamps\<close>

definition ERA_DIFF :: WORD where "ERA_DIFF = 0x019DB1DED53E8000"

datatype TimeStamp = TimeStamp (time_value: WORD)

definition TimeStamp_of_time_t :: "WORD \<Rightarrow> TimeStamp" where
  "TimeStamp_of_time_t t = TimeStamp (t * 10000000)"

definition TimeStamp_of_filetime :: "WORD \<Rightarrow> TimeStamp" where
  "TimeStamp_of_filetime t = TimeStamp (t - ERA_DIFF)"

definition time_less :: "TimeStamp \<Rightarrow> TimeStamp \<Rightarrow> bool" where
  "time_less t1 t2 \<longleftrightarrow> sint (time_value t1) < sint (time_value t2)"

definition time_greater :: "TimeStamp \<Rightarrow> TimeStamp \<Rightarrow> bool" where
  "time_greater t1 t2 \<longleftrightarrow> sint (time_value t1) > sint (time_value t2)"

definition time_less_equal :: "TimeStamp \<Rightarrow> TimeStamp \<Rightarrow> bool" where
  "time_less_equal t1 t2 \<longleftrightarrow> sint (time_value t1) \<le> sint (time_value t2)"

definition time_greater_equal :: "TimeStamp \<Rightarrow> TimeStamp \<Rightarrow> bool" where
  "time_greater_equal t1 t2 \<longleftrightarrow> sint (time_value t1) \<ge> sint (time_value t2)"

text \<open>The operators order the stamps linearly.\<close>

instantiation TimeStamp :: linorder
begin

definition less_TimeStamp :: "TimeStamp \<Rightarrow> TimeStamp \<Rightarrow> bool" where
  "less_TimeStamp = time_less"

definition less_eq_TimeStamp :: "TimeStamp \<Rightarrow> TimeStamp \<Rightarrow> bool" where
  "less_eq_TimeStamp = time_less_equal"

instance
  by standard
    (auto simp: less_TimeStamp_def less_eq_TimeStamp_def time_less_def time_less_equal_def
      sint_inject intro: TimeStamp.expand)

end

lemma time_operators: "time_greater t1 t2 \<longleftrightarrow> t2 < t1" "time_greater_equal t1 t2 \<longleftrightarrow> t2 \<le> t1"
  by (simp_all add: time_greater_def time_greater_equal_def less_TimeStamp_def less_eq_TimeStamp_def
    time_less_def time_less_equal_def)

text \<open>The static \<open>UNDEFINED\<close> is made of a file time with the high bit set.\<close>

definition TimeStamp_UNDEFINED :: TimeStamp where
  "TimeStamp_UNDEFINED = TimeStamp_of_filetime 0x8000000000000000"

text \<open>\<open>toString\<close>: \<open>to_fields\<close> is \<open>FileTimeToSystemTime\<close>, month, day, year, hour, minute and second, or nothing for a
  time it cannot tell; numbers become text by \<open>string(int)\<close>.\<close>

definition TimeStamp_toString :: "(WORD \<Rightarrow> (int \<times> int \<times> int \<times> int \<times> int \<times> int) option) \<Rightarrow> TimeStamp \<Rightarrow> cstr" where
  "TimeStamp_toString to_fields t =
     (case to_fields (time_value t + ERA_DIFF) of
        None \<Rightarrow> []
      | Some (month, day, year, hour, minute, second) \<Rightarrow>
          let y = (if 1900 < year \<and> year < 1999 then year - 1900 else year) in
          decimal month @ [47] @ decimal day @ [47] @ decimal y @ [32] @
          decimal hour @ [58] @ decimal minute @ [58] @ decimal second)"

text \<open>\<open>lastModified\<close>: the file may be missing, or its time unknown; it starts as zero.\<close>

definition lastModified :: "('f \<Rightarrow> 'h option) \<Rightarrow> ('h \<Rightarrow> WORD option) \<Rightarrow> 'f \<Rightarrow> TimeStamp" where
  "lastModified CreateFile GetFileTime f =
     (case CreateFile f of
        None \<Rightarrow> TimeStamp_of_time_t 0
      | Some h \<Rightarrow> (case GetFileTime h of Some t \<Rightarrow> TimeStamp_of_filetime t | None \<Rightarrow> TimeStamp 0))"

definition lastModified_open :: "('h \<Rightarrow> WORD option) \<Rightarrow> 'h \<Rightarrow> TimeStamp" where
  "lastModified_open GetFileTime h =
     (case GetFileTime h of Some t \<Rightarrow> TimeStamp_of_filetime t | None \<Rightarrow> TimeStamp_of_time_t 0)"

subsection \<open>The time of a Parasol program\<close>

definition ParasolTime_of_time_t :: "WORD \<Rightarrow> WORD" where
  "ParasolTime_of_time_t t = t * 1000"

definition ParasolTime_of_filetime :: "WORD \<Rightarrow> WORD" where
  "ParasolTime_of_filetime t = word_of_int (sint (t - ERA_DIFF) sdiv 10000)"

definition now :: "WORD \<Rightarrow> WORD" where
  "now system_time = ParasolTime_of_filetime system_time"

subsection \<open>Directory searches\<close>

record dir_search =
  ds_handle :: "cstr list option"
  ds_name :: cstr
  ds_directory :: cstr
  ds_wildcard :: cstr

definition Directory :: "cstr \<Rightarrow> dir_search" where
  "Directory path = \<lparr>ds_handle = None, ds_name = [], ds_directory = path, ds_wildcard = [42]\<rparr>"

definition dir_pattern :: "cstr \<Rightarrow> dir_search \<Rightarrow> dir_search" where
  "dir_pattern wildcard d = d\<lparr>ds_wildcard := wildcard\<rparr>"

text \<open>\<open>search s\<close> is what a search for the pattern \<open>s\<close> gives; an empty search has no handle.\<close>

definition dir_first :: "(cstr \<Rightarrow> cstr list) \<Rightarrow> dir_search \<Rightarrow> bool \<times> dir_search" where
  "dir_first search d =
     (case search (ds_directory d @ [92] @ ds_wildcard d) of
        [] \<Rightarrow> (False, d\<lparr>ds_handle := None\<rparr>)
      | name # names \<Rightarrow> (True, d\<lparr>ds_handle := Some names, ds_name := name\<rparr>))"

definition dir_next :: "dir_search \<Rightarrow> bool \<times> dir_search" where
  "dir_next d =
     (case ds_handle d of
        Some (name # names) \<Rightarrow> (True, d\<lparr>ds_handle := Some names, ds_name := name\<rparr>)
      | _ \<Rightarrow> (False, d\<lparr>ds_handle := None\<rparr>))"

definition currentName :: "dir_search \<Rightarrow> cstr" where
  "currentName d = ds_directory d @ [47] @ ds_name d"

text \<open>The loop of every caller: \<open>if (dir.first()) do ... while (dir.next());\<close>\<close>

fun dir_rest :: "nat \<Rightarrow> dir_search \<Rightarrow> cstr list" where
  "dir_rest 0 d = []"
| "dir_rest (Suc n) d = currentName d # (case dir_next d of (True, d) \<Rightarrow> dir_rest n d | (False, d) \<Rightarrow> [])"

subsection \<open>Whole files\<close>

record whole_file =
  wf_end :: nat
  wf_bytes :: "byte list"
  wf_error :: bool

definition buf_clear :: "buffer \<Rightarrow> buffer" where
  "buf_clear c = None"

definition readAll :: "whole_file \<Rightarrow> buffer \<Rightarrow> (bool \<times> buffer) option" where
  "readAll fp output = do {
     let pos = int (wf_end fp);
     output \<leftarrow> buf_buffer pos output;
     output \<leftarrow> (if wf_bytes fp = [] then Some output else buf_put 0 (map Some (wf_bytes fp)) output);
     if wf_error fp then Some (False, buf_clear output)
     else do { output \<leftarrow> buf_resize (int (length (wf_bytes fp))) output; Some (True, output) } }"

subsection \<open>Times agree\<close>

text \<open>The two ways to make a time stamp agree: the file time of a second since 1970 and that second give
  the same stamp and the same Parasol time, and later seconds give later stamps, as long as the count of 100
  nanoseconds fits.\<close>

theorem times_agree:
  assumes "0 \<le> s" "s < 900000000000" "0 \<le> r" "r < 900000000000"
  shows "TimeStamp_of_filetime (word_of_int s * 10000000 + ERA_DIFF) = TimeStamp_of_time_t (word_of_int s) \<and>
    ParasolTime_of_filetime (word_of_int s * 10000000 + ERA_DIFF) = ParasolTime_of_time_t (word_of_int s) \<and>
    (TimeStamp_of_time_t (word_of_int s) < TimeStamp_of_time_t (word_of_int r) \<longleftrightarrow> s < r)"
proof -
  have v: "sint (word_of_int (n * 10000000) :: WORD) = n * 10000000" if "0 \<le> n" "n < 900000000000" for n
    using that by (intro sint_word_of_int_64) simp_all
  have "ParasolTime_of_filetime (word_of_int s * 10000000 + ERA_DIFF) = word_of_int (s * 10000000 sdiv 10000)"
    using v [OF assms(1,2)] by (simp add: ParasolTime_of_filetime_def)
  moreover have "s * 10000000 sdiv 10000 = s * 1000" using assms(1) by (simp add: signed_divide_int_def sgn_if)
  ultimately show ?thesis
    using v [OF assms(1,2)] v [OF assms(3,4)]
    by (simp add: TimeStamp_of_filetime_def TimeStamp_of_time_t_def ParasolTime_of_time_t_def less_TimeStamp_def
        time_less_def)
qed

lemma times_agree_witness:
  "TimeStamp_of_filetime (1000000000 * 10000000 + ERA_DIFF) = TimeStamp_of_time_t 1000000000"
  using times_agree [of 1000000000 0] by simp

subsection \<open>A search visits every name\<close>

lemma dir_rest_all:
  "ds_handle d = Some names \<Longrightarrow> length names < n \<Longrightarrow>
   dir_rest n d = map (\<lambda>x. ds_directory d @ [47] @ x) (ds_name d # names)"
proof (induction names arbitrary: n d)
  case Nil
  then show ?case by (cases n) (auto simp: dir_next_def currentName_def)
next
  case (Cons name names)
  then obtain k where n: "n = Suc k" "length names < k" by (cases n) auto
  then show ?case
    using Cons.IH [of "d\<lparr>ds_handle := Some names, ds_name := name\<rparr>" k] Cons.prems(1)
    by (simp add: dir_next_def currentName_def)
qed

lemma search_visits_all:
  assumes "search (path @ [92, 42]) = name # names" "length names < n"
  shows "dir_rest n (snd (dir_first search (Directory path))) = map (\<lambda>x. path @ [47] @ x) (name # names)"
  using assms dir_rest_all [of "(Directory path)\<lparr>ds_handle := Some names, ds_name := name\<rparr>" names n]
  by (simp add: dir_first_def Directory_def)

subsection \<open>A file read as a whole\<close>

text \<open>Into an empty string \<open>readAll\<close> reads the bytes of a file, terminated, when as many are read as the end of
  the file announced, as in a binary file.\<close>

theorem read_all_reads:
  assumes "wf_end fp = length (wf_bytes fp)" "\<not> wf_error fp" "small (int (wf_end fp))"
  shows "\<exists>c. readAll fp None = Some (True, c) \<and> buf_ok c (wf_bytes fp)"
proof (cases "wf_bytes fp = []")
  case True
  then show ?thesis using assms by (simp add: readAll_def buf_buffer_def buf_resize_def)
next
  case False
  let ?n = "length (wf_bytes fp)"
  obtain rest where r: "buf_resize (int ?n) None = Some (Some \<lparr>a_length = int ?n, a_data = replicate ?n None @ Some 0 # rest\<rparr>)"
      "\<exists>m. str_reserved_size (int ?n) = Some m \<and> m \<le> ?n + 1 + length rest + 4"
    by (rule new_buffer [of ?n]) (use False assms(1,3) in auto)
  let ?c = "Some \<lparr>a_length = int ?n, a_data = map Some (wf_bytes fp) @ Some 0 # rest\<rparr>"
  have "put 0 (map Some (wf_bytes fp)) (replicate ?n None @ Some 0 # rest) = Some (map Some (wf_bytes fp) @ Some 0 # rest)"
    using put_append [of "[]" 0 "map Some (wf_bytes fp)" ?n "replicate ?n None @ Some 0 # rest"] by simp
  then have "readAll fp None = Some (True, ?c)"
    using r(1) False assms(1,2) by (simp add: readAll_def buf_buffer_def buf_put_def) (simp add: buf_resize_def)
  moreover have "buf_holds ?c (wf_bytes fp) \<and> terminated ?c" using r(2) False by (intro buffer_done) simp_all
  ultimately show ?thesis by (auto simp: buf_ok_def)
qed

lemma read_all_reads_witness:
  "\<exists>c. readAll \<lparr>wf_end = 2, wf_bytes = [104, 105], wf_error = False\<rparr> None = Some (True, c) \<and> buf_ok c [104, 105]"
  using read_all_reads [of "\<lparr>wf_end = 2, wf_bytes = [104, 105], wf_error = False\<rparr>"] by simp

end
