(* ===== verification/Spec2Isabelle.thy ===== *)
theory Spec2Isabelle
  imports Native_Calls Variant_Props Disasm_Laws Section_Laws Parse_Laws Main_Program Pool_Laws Event_Laws
    Buffers Path_Laws Native_Laws Monitor_Laws Random_Numbers Boot_Laws Printing Basic_Types Threads Files
begin

text \<open>
  A verification library of the C++ part of Parasol: the runtime under \<open>src/runtime\<close>, which loads and runs compiled
  Parasol programs, with the support library it is built on, and the boot loader of the older system,
  \<open>src/Parasol_1/SRC/KERNEL/X86/BOOT/BOOT.C\<close>. The compiler and the standard library of Parasol are written in
  Parasol itself and are not part of it.
\<close>

section \<open>The program and its parts\<close>

text \<open>
  \<open>main\<close> (Parasol/main.cc) defines its options with \<open>Command\<close> (common/command_line), whose two tables are a
  \<open>dictionary\<close> and a \<open>map\<close>. It opens the named file with \<open>Pxi::load\<close> (Parasol/pxi), which reads a header and
  a list of section entries, chooses the section whose registered reader has the highest priority and lets that
  reader load it. A \<open>ByteCodeSection\<close> (Parasol/runtime) holds an object table and an image and relocates the
  addresses in it; an \<open>X86_64Section\<close> (Parasol/x86_pxi) holds machine code. Running a byte-code section
  makes an \<open>ExecutionContext\<close> (Parasol/runtime): an evaluation stack, an active frame and the object table, on
  which the loop \<open>run\<close> interprets byte codes, calls built-in functions and, through \<open>eval\<close>, itself. Native code is
  entered through the same class, and its exceptions come back through \<open>windowsExceptionHandler\<close> and
  \<open>throwException\<close> (Parasol/executionContext.cc). Beside that the common library has vectors, strings, paths and
  files, events, threads with a thread pool, a debug loop over child processes and random numbers.
\<close>

section \<open>Theories and what they model\<close>

text \<open>
  Every theory opens with what it holds; files are named under \<open>src/runtime\<close>.

  \<^item> \<open>Prelude\<close>: the machine types, C's conversions, division and shifts on words, and lemmas on words, lists
    and \<open>option\<close> that the others share.
  \<^item> \<open>Byte_Memory\<close>: the byte-addressed memory that pointers of a running program reach.
  \<^item> \<open>Opcodes\<close>: \<open>ByteCodes\<close> and \<open>SectionType\<close> (parasol_enums.h), \<open>ByteCodeMap\<close>.
  \<^item> \<open>Machine\<close>: \<open>ExecutionContext\<close> without its loop: stack, frames, objects, snapshots, heap blocks.
    \<open>Stack_Laws\<close> is its view as a list of slots.
  \<^item> \<open>Variants\<close>: class \<open>Variant\<close> and the \<open>var\<close> functions. \<open>Builtins\<close>: the table of built-in functions, those
    that act on the machine itself, and \<open>eval\<close>.
  \<^item> \<open>Interp\<close>: the \<open>switch\<close> of \<open>ExecutionContext::run\<close>, branch by branch, in tables that follow its order
    (\<open>ops_constants\<close>, \<open>ops_static\<close>, ..., \<open>ops_indirect\<close>), \<open>exec\<close>, \<open>step\<close>, \<open>run\<close> and \<open>run_object\<close>.
    \<open>Demo\<close> has the small contexts on which properties are instantiated.
  \<^item> \<open>Alu_Spec\<close>, \<open>Calls\<close>, \<open>Control\<close>, \<open>Variables\<close>, \<open>Variant_Props\<close>, \<open>Run_Props\<close>, \<open>Context_Props\<close>,
    \<open>Context_Invariant\<close>: the laws of the interpreter. \<open>Native_Calls\<close>: built-in memory functions and
    \<open>formatMessage\<close>.
  \<^item> \<open>Disassembler\<close> and \<open>Disasm_Laws\<close>: \<open>ExecutionContext::disassemble\<close>, and that it agrees with the loop.
  \<^item> \<open>Pxi_Files\<close> (pxi.h, pxi.cc), \<open>Sections\<close> (\<open>ByteCodeSection\<close>) and \<open>Section_Laws\<close>; \<open>Native_Code\<close> (x86_pxi,
    executionContext.cc) and \<open>Native_Laws\<close>; \<open>Main_Program\<close> (main.cc).
  \<^item> \<open>Vectors\<close> (vector.h), \<open>Strings\<close> and \<open>String_Laws\<close> (the operations of class \<open>string\<close> on its bytes), \<open>Buffers\<close>
    (the allocation behind a string), \<open>Printing\<close> (numbers as text, \<open>printf\<close>), \<open>Hash_Tables\<close> and \<open>Hash_Laws\<close>
    (dictionary.h, map.h), \<open>Command_Line\<close>, \<open>Command_Laws\<close>, \<open>Option_Laws\<close> and \<open>Parse_Laws\<close> (command_line).
  \<^item> \<open>Events\<close> and \<open>Event_Laws\<close> (event.h); \<open>Threads\<close> (threads, locks, waits), \<open>Thread_Pool\<close> and \<open>Pool_Laws\<close>,
    \<open>Debug_Monitor\<close> and \<open>Monitor_Laws\<close> (process.h, process.cc); \<open>Paths\<close>, \<open>Path_Laws\<close> and \<open>Files\<close> (file_system);
    \<open>Random_Numbers\<close> (random).
  \<^item> \<open>Basic_Types\<close>: the compiler strings, locations and enumerations of basic_types.h and token.h.
  \<^item> \<open>Boot\<close> and \<open>Boot_Laws\<close>: BOOT.C.
\<close>

section \<open>How the code is translated\<close>

text \<open>
  Definitions keep the names of the code, with a prefix where a name is taken (\<open>vec_insert\<close>, \<open>str_split\<close>,
  \<open>dict_put\<close>). Objects are records, returned updated by their methods. \<open>None\<close> as a result is a fault of the
  process: an access outside what is mapped or allocated, a null reference, a division that traps, an uninitialised
  byte that is used, and where a theory says so undefined behaviour of the C library. A byte that is no byte code is one:
  its name is read outside the table of names. What has been printed is a list of bytes, or \<open>None\<close> from the point on
  at which a text is printed that is not modelled: the trace of a run, the report of one that fails. Errors that the
  code reports are values: \<open>False\<close>, an error code, or the left side of a sum. Words keep their widths and wrap
  around, also where C++ leaves a signed overflow undefined; shifts count modulo the width, and a division of the
  least number by minus one traps, as the x86-64 does.

  Loops. A loop whose end is visible in its state is a \<open>fun\<close> or a \<open>function\<close> with a measure. A loop that may not end
  (the search of a hash table, an unwinding loop, \<open>ensure\<close>) is a \<open>partial_function\<close> into \<open>option\<close> or takes fuel,
  and that it ends is a theorem of its own. \<open>run\<close> takes fuel: a step takes one unit, and an evaluation that it starts
  has what is left. \<open>run_fuel_irrelevant\<close> shows that more fuel never changes the result of a run that ends, and the
  refinement theorems for whole functions name an amount that is enough: one unit for each instruction and one more.

  Concurrency. The pool is a step relation. A block that holds the lock of the pool is one step, every wait and
  release is one, and steps of different threads come in any order; the invariants hold for all reachable states. The
  debug loop takes the events that Windows delivers as a list.

  Parameters. What is not in the sources is an argument of the definitions that use it, with its documented behaviour
  as a named hypothesis: the allocator (\<open>valid_malloc\<close>: a block is fresh and does not wrap), built-in functions of
  the C library or Windows (\<open>sound_os\<close>: they keep what the heap of the context has allocated), the calls of the file
  system (\<open>windows\<close>; of directories only that one is there right after it was created, and that \<open>.\<close> and \<open>/\<close> are, because
  a file may have several names), machine code and \<open>VirtualProtect\<close>, \<open>vsprintf\<close> for a single conversion, \<open>bsearch\<close> by
  halving, and for the boot loader DOS and the ports. Each such hypothesis is met by a concrete instance in the witness
  of the property that uses it.

  Bounds. Laws of strings hold for sizes up to 2 to the 30, less the bytes of the header, laws of vectors up to 2 to
  the 30 elements and those of hash tables below 2 to the 28 entries, where the doubling of sizes in 32 bits does not
  overflow. Counts of semaphores stay below \<open>MAX_COUNT\<close>. The address of a deleted event handler is not used again.
  Workers of a pool begin after its constructor. \<open>dieRoll\<close> is exact in doubles for up to 2 to the 21 sides.
\<close>

section \<open>What is shown\<close>

text \<open>
  The interpreter. \<open>Alu_Spec\<close> gives each arithmetic, bit, shift, comparison and conversion instruction as a
  function on integers, and every branch refines its function. \<open>Variables\<close> does so for loads and stores on
  the list view of the stack, \<open>Variant_Props\<close> for variants, \<open>Calls\<close> for calls and returns, \<open>Control\<close> for
  switches, rejected pointers and numbers without a branch. \<open>Run_Props\<close> composes the steps to functions and
  \<open>Section_Laws\<close> and \<open>Main_Program\<close> up to the bytes of a file and the command line. \<open>Context_Invariant\<close> shows, for any
  program, that a run keeps the heap of its context well-formed, the bounds of its stack and the objects it has.
  \<open>Context_Props\<close> has nested evaluation, the full stack, snapshots and \<open>allocz\<close>. \<open>Disasm_Laws\<close> shows that
  the disassembler steps through code as the loop does.

  Native code. An exception is dispatched to the first frame whose return address lies in a region of the
  exception table, the context then refers to a new record of it (an object outside the modelled memory, whose
  address is an argument), the search ends, and preparing an image changes what its tables name and nothing else.

  The library. A hash table is a finite map for any sequence of operations, both classes from one proof (locales
  \<open>probing\<close> and \<open>lookup_table\<close>); \<open>sort\<close> and the binary searches of a vector hold for any order that meets the contract of
  a comparison (locale \<open>comparer\<close>); the stack of a context is an instance of \<open>word_stack\<close>. Buffers hold the
  strings they stand for, \<open>printf\<close> appends what its format says, numbers, escapes and paths have their round trips, and every
  argument vector is a sequence of options and an end, of which the parser sets exactly what they say. Firing an event calls each handler once although handlers remove
  themselves. The pool runs its actions in order and loses none, and drains when it is left alone. Scoped
  locks balance. \<open>makeCompactPath\<close> leads to the same file, \<open>ensure\<close> ends and creates exactly the directories that are missing. The debug loop reports
  the first exception that counts.

  The boot loader. An image is loaded byte for byte and cleared behind, and the descriptor of a segment describes
  the memory that was asked for.

  Where the code does not do what it means to, a lemma says what it does instead. The larger ones:
  a static address is stored with four bytes, a full stack drops pushes, pool and destructor can wait
  for each other for ever, an event can read a deleted handler, \<open>operator +=\<close> on strings writes behind its new
  end, and a thread does not know itself while it runs.
\<close>

section \<open>What is not modelled\<close>

text \<open>
  \<^item> Floating point: \<open>normal\<close>, \<open>binomial\<close>, \<open>mean\<close> and \<open>variance\<close>, \<open>toDouble\<close> and \<open>string(double)\<close>. They are
    library calls on doubles, for which the logic has no definition here.
  \<^item> Machine code: what a native image does when it runs is a parameter, and so are the few assembler
    instructions of machine.cc; \<open>jumpToKernel\<close> of the boot loader is register moves that switch the processor to
    protected mode, and only its wait for the keyboard controller is modelled.
  \<^item> Functions that are one call of Windows or of the C library: creating pipes and processes, opening files,
    the name of the binary, \<open>localTime\<close> and \<open>universalTime\<close>, \<open>platform::setup\<close>. Built-in functions
    of that kind have their entry in the table and their arguments on the stack; what they do is a parameter.
  \<^item> Trace output of the interpreter, apart from the disassembler that prints it.
  \<^item> The constructor and the destructor order of static objects, and memory that is leaked without being used.
\<close>

end
